(* ===== verification/Gor_Prelude.thy ===== *)
theory Gor_Prelude
  imports Main "HOL-Library.Word" "HOL-Library.AList" "HOL-Library.Multiset"
    "HOL-Library.Char_ord" "HOL-Library.List_Lexorder" "HOL-Library.Product_Lexorder"
begin

text \<open>
  The Go values the components share: machine integers of 64 bits (unbounded \<open>int\<close> with the
  wrap-around written out), \<open>time.Time\<close> and \<open>time.Duration\<close> in nanoseconds with the
  saturation of the standard library, byte strings, Go maps as association lists with distinct
  keys, \<open>sort.Slice\<close> and \<open>sort.Search\<close>, and the identity \<open>GrainId\<close> with its order.
  The generic lemmas on them are declared into the collections below.
\<close>

named_theorems go_time_simps \<open>unfolding rules of the time arithmetic\<close>
named_theorems go_map_simps \<open>lookup after update and deletion on Go maps\<close>

section \<open>64-bit integers\<close>

definition max_int64 :: int where "max_int64 = 2 ^ 63 - 1"

definition min_int64 :: int where "min_int64 = - (2 ^ 63)"

text \<open>The value an \<open>int64\<close> computation leaves in its register.\<close>

definition wrap64 :: "int \<Rightarrow> int" where
  "wrap64 x = (x + 2 ^ 63) mod 2 ^ 64 - 2 ^ 63"

definition in_int64 :: "int \<Rightarrow> bool" where
  "in_int64 x \<longleftrightarrow> min_int64 \<le> x \<and> x \<le> max_int64"

text \<open>Go's integer division truncates towards zero.\<close>

definition go_div :: "int \<Rightarrow> int \<Rightarrow> int" where
  "go_div a b = sgn a * sgn b * (\<bar>a\<bar> div \<bar>b\<bar>)"

section \<open>Time\<close>

text \<open>
  A \<open>time.Time\<close> is the number of nanoseconds since the zero time (January 1, year 1, UTC);
  a \<open>time.Duration\<close> is an \<open>int64\<close> number of nanoseconds. The seconds of a time are an
  \<open>int64\<close>: \<open>Add\<close> saturates them, and \<open>Sub\<close> saturates its duration.
\<close>

type_synonym gtime = int
type_synonym duration = int

definition nanosPerSecond :: int where "nanosPerSecond = 1000000000"

definition time_add :: "gtime \<Rightarrow> duration \<Rightarrow> gtime" where
  "time_add t d =
     (let total = t + d; sec = total div nanosPerSecond; nsec = total mod nanosPerSecond
      in if max_int64 < sec then max_int64 * nanosPerSecond + nsec
         else if sec < min_int64 then - max_int64 * nanosPerSecond + nsec
         else total)"

definition time_sub :: "gtime \<Rightarrow> gtime \<Rightarrow> duration" where
  "time_sub t u = max min_int64 (min max_int64 (t - u))"

abbreviation (input) time_zero :: gtime where "time_zero \<equiv> 0"

abbreviation (input) time_is_zero :: "gtime \<Rightarrow> bool" where "time_is_zero t \<equiv> t = time_zero"

text \<open>The last instant whose seconds still fit; below it \<open>Add\<close> is exact.\<close>

definition max_time :: gtime where
  "max_time = max_int64 * nanosPerSecond + (nanosPerSecond - 1)"

definition min_time :: gtime where
  "min_time = min_int64 * nanosPerSecond"

section \<open>Bytes and strings\<close>

type_synonym byte = "8 word"

definition bytes_of_string :: "string \<Rightarrow> byte list" where
  "bytes_of_string s = map of_char s"

definition string_of_bytes :: "byte list \<Rightarrow> string" where
  "string_of_bytes bs = map (\<lambda>b. char_of (unat b)) bs"

lemma string_of_bytes_of_string [simp]: "string_of_bytes (bytes_of_string s) = s"
proof -
  have "unat (of_char c :: byte) = of_char c" for c :: char
    by (simp add: of_char_def unat_of_nat)
  then show ?thesis by (simp add: string_of_bytes_def bytes_of_string_def comp_def)
qed

section \<open>Go maps\<close>

text \<open>
  A Go map is an association list with distinct keys; the order of the pairs stands for the
  unspecified iteration order. \<open>gm_ok\<close> is the representation invariant.
\<close>

type_synonym ('k, 'v) gomap = "('k \<times> 'v) list"

abbreviation gm_get :: "('k, 'v) gomap \<Rightarrow> 'k \<Rightarrow> 'v option" where "gm_get m k \<equiv> map_of m k"

abbreviation gm_put :: "'k \<Rightarrow> 'v \<Rightarrow> ('k, 'v) gomap \<Rightarrow> ('k, 'v) gomap" where
  "gm_put k v m \<equiv> AList.update k v m"

abbreviation gm_del :: "'k \<Rightarrow> ('k, 'v) gomap \<Rightarrow> ('k, 'v) gomap" where
  "gm_del k m \<equiv> AList.delete k m"

definition gm_ok :: "('k, 'v) gomap \<Rightarrow> bool" where
  "gm_ok m \<longleftrightarrow> distinct (map fst m)"

text \<open>Reading a missing key gives the zero value of the element type.\<close>

definition gm_get_or :: "'v \<Rightarrow> ('k, 'v) gomap \<Rightarrow> 'k \<Rightarrow> 'v" where
  "gm_get_or z m k = (case gm_get m k of None \<Rightarrow> z | Some v \<Rightarrow> v)"

section \<open>Sorting and searching\<close>

text \<open>
  \<open>sort.Slice\<close> returns a permutation that is sorted by the comparison. Every comparison of the
  program is a lexicographic order on a key that determines the element, so that the permutation
  is unique and the library's \<open>sort_key\<close> computes it.

  \<open>sort.Search\<close> is the standard library's binary search for the least index in
  \<open>[i, j)\<close> whose predicate holds.
\<close>

function sort_search :: "(nat \<Rightarrow> bool) \<Rightarrow> nat \<Rightarrow> nat \<Rightarrow> nat" where
  "sort_search f i j =
     (if i < j
      then (let h = (i + j) div 2
            in if \<not> f h then sort_search f (Suc h) j else sort_search f i h)
      else i)"
  by pat_completeness auto
termination
  by (relation "measure (\<lambda>(f, i, j). j - i)") auto

declare sort_search.simps [simp del]

section \<open>Identities\<close>

text \<open>
  \<open>GrainId\<close> of \<open>store/store.go\<close> and of \<open>runtime/runtime.go\<close>: the two Go types have the same
  fields and the code converts between them field by field.
\<close>

datatype grain_id = GrainId (GrainType: string) (GrainKey: string)

text \<open>
  The order \<open>Runtime.Activations\<close>, \<open>sortReminders\<close> and the simulation sort identities by.
\<close>

instantiation grain_id :: linorder
begin

definition less_grain_id :: "grain_id \<Rightarrow> grain_id \<Rightarrow> bool" where
  "less_grain_id a b =
     (if GrainType a \<noteq> GrainType b then GrainType a < GrainType b
      else GrainKey a < GrainKey b)"

definition less_eq_grain_id :: "grain_id \<Rightarrow> grain_id \<Rightarrow> bool" where
  "less_eq_grain_id a b = (a = b \<or> a < b)"

instance
  by intro_classes
    (auto simp: less_grain_id_def less_eq_grain_id_def grain_id.expand split: if_splits)

end

section \<open>Formatting\<close>

text \<open>\<open>%q\<close> of package \<open>fmt\<close> on printable ASCII text: double quotes around it, quotes and backslashes escaped.\<close>

definition go_quote :: "string \<Rightarrow> string" where
  "go_quote s = [CHR 0x22] @
     concat (map (\<lambda>c. if c = CHR 0x22 \<or> c = CHR 0x5C then [CHR 0x5C, c] else [c]) s) @ [CHR 0x22]"

text \<open>\<open>strconv.Itoa\<close> on the non-negative numbers.\<close>

fun itoa :: "nat \<Rightarrow> string" where
  "itoa n = (if n < 10 then [char_of (48 + n)] else itoa (n div 10) @ [char_of (48 + n mod 10)])"

declare itoa.simps [simp del]

text \<open>\<open>strings.Join\<close>.\<close>

fun go_join :: "string \<Rightarrow> string list \<Rightarrow> string" where
  "go_join sep [] = []"
| "go_join sep [s] = s"
| "go_join sep (s # ss) = s @ sep @ go_join sep ss"

text \<open>\<open>strings.Split\<close> with a separator of one character.\<close>

fun go_split :: "char \<Rightarrow> string \<Rightarrow> string list" where
  "go_split c [] = [[]]"
| "go_split c (x # xs) =
     (if x = c then [] # go_split c xs
      else case go_split c xs of [] \<Rightarrow> [[x]] | l # ls \<Rightarrow> (x # l) # ls)"

section \<open>Lemmas on integers and time\<close>

lemmas [go_time_simps] = max_int64_def min_int64_def nanosPerSecond_def max_time_def min_time_def

lemma wrap64_id [simp]: "in_int64 x \<Longrightarrow> wrap64 x = x"
  by (simp add: in_int64_def wrap64_def max_int64_def min_int64_def)

lemma wrap64_in [simp]: "in_int64 (wrap64 x)"
proof -
  have "0 \<le> (x + 2 ^ 63) mod 2 ^ 64" and "(x + 2 ^ 63) mod 2 ^ 64 < (2::int) ^ 64"
    by simp_all
  then show ?thesis
    by (simp add: in_int64_def wrap64_def max_int64_def min_int64_def)
qed

lemma wrap64_succ: "min_int64 \<le> x \<Longrightarrow> x < max_int64 \<Longrightarrow> wrap64 (x + 1) = x + 1"
  by (rule wrap64_id) (simp add: in_int64_def)

lemma go_div_nonneg: "0 \<le> a \<Longrightarrow> 0 < b \<Longrightarrow> go_div a b = a div b"
  by (cases "a = 0") (simp_all add: go_div_def)

lemma time_add_exact:
  assumes "min_time \<le> t + d" and "t + d \<le> max_time"
  shows "time_add t d = t + d"
proof -
  have "(t + d) div nanosPerSecond \<le> max_int64"
    using assms(2) by (simp add: go_time_simps)
  moreover have "min_int64 \<le> (t + d) div nanosPerSecond"
    using assms(1) by (simp add: go_time_simps)
  ultimately show ?thesis by (simp add: time_add_def Let_def)
qed

lemma time_add_le: "0 \<le> d \<Longrightarrow> min_time \<le> t \<Longrightarrow> time_add t d \<le> t + d"
  by (auto simp: time_add_def Let_def go_time_simps)

lemma time_sub_exact: "in_int64 (t - u) \<Longrightarrow> time_sub t u = t - u"
  by (simp add: time_sub_def in_int64_def)

lemma time_sub_in [simp]: "in_int64 (time_sub t u)"
  by (simp add: time_sub_def in_int64_def min_int64_def max_int64_def)

lemma time_sub_nonneg: "u \<le> t \<Longrightarrow> 0 \<le> time_sub t u"
  by (simp add: time_sub_def min_int64_def max_int64_def)

lemma time_sub_le: "u \<le> t \<Longrightarrow> time_sub t u \<le> t - u"
  by (simp add: time_sub_def min_int64_def)

section \<open>Lemmas on Go maps\<close>

lemma gm_get_put [go_map_simps]: "gm_get (gm_put k v m) k' = (if k' = k then Some v else gm_get m k')"
  by (simp add: update_conv')

lemma gm_get_del [go_map_simps]: "gm_get (gm_del k m) k' = (if k' = k then None else gm_get m k')"
  by (simp add: delete_conv')

lemma gm_ok_Nil [simp]: "gm_ok []"
  by (simp add: gm_ok_def)

lemma gm_ok_put [simp]: "gm_ok m \<Longrightarrow> gm_ok (gm_put k v m)"
  by (simp add: gm_ok_def distinct_update)

lemma gm_ok_del [simp]: "gm_ok m \<Longrightarrow> gm_ok (gm_del k m)"
  by (simp add: gm_ok_def distinct_delete)

lemma gm_ok_filter [simp]: "gm_ok m \<Longrightarrow> gm_ok (filter P m)"
  by (simp add: gm_ok_def distinct_map_filter)

lemma gm_ok_get_iff: "gm_ok m \<Longrightarrow> gm_get m k = Some v \<longleftrightarrow> (k, v) \<in> set m"
  by (simp add: gm_ok_def)

lemma gm_ok_filter_get:
  "gm_ok m \<Longrightarrow> gm_get (filter (\<lambda>(k, v). P k v) m) k =
     (case gm_get m k of None \<Rightarrow> None | Some v \<Rightarrow> if P k v then Some v else None)"
proof (induction m)
  case (Cons a m)
  obtain k' v' where a: "a = (k', v')" by (cases a)
  from Cons.prems have "gm_ok m" and notin: "k' \<notin> fst ` set m"
    by (simp_all add: gm_ok_def a)
  then have none: "gm_get (filter (\<lambda>(k, v). P k v) m) k' = None"
    by (auto simp: map_of_eq_None_iff)
  show ?case
    using Cons.IH [OF \<open>gm_ok m\<close>] none notin
    by (auto simp: a map_of_eq_None_iff split: option.splits)
qed simp

lemma gm_ok_distinct: "gm_ok m \<Longrightarrow> distinct m"
  by (simp add: gm_ok_def distinct_map)

lemma gm_put_snd: "v' \<in> snd ` set (gm_put k v m) \<Longrightarrow> v' = v \<or> v' \<in> snd ` set m"
  by (induction m) (auto split: if_splits)

lemma gm_get_or_put [go_map_simps]:
  "gm_get_or z (gm_put k v m) k' = (if k' = k then v else gm_get_or z m k')"
  by (simp add: gm_get_or_def gm_get_put)

lemma gm_put_length: "length (gm_put k v m) = (if gm_get m k = None then Suc (length m) else length m)"
  by (induction m) auto

lemma gm_put_absent: "k \<notin> fst ` set m \<Longrightarrow> gm_put k v m = m @ [(k, v)]"
  by (induction m) auto

lemma gm_put_nonempty [simp]: "gm_put k v m \<noteq> []"
  by (cases m) auto

lemma gm_del_length: "gm_ok m \<Longrightarrow> gm_get m k = Some v \<Longrightarrow> Suc (length (gm_del k m)) = length m"
proof (induction m)
  case (Cons p m)
  show ?case
  proof (cases "fst p = k")
    case True
    with Cons.prems have "gm_del k m = m" by (auto simp: gm_ok_def delete_idem)
    with True show ?thesis by (cases p) simp
  next
    case False
    with Cons show ?thesis by (cases p) (auto simp: gm_ok_def)
  qed
qed simp

lemma gm_get_None_Nil: "(\<And>k. gm_get m k = None) \<Longrightarrow> m = []"
  by (cases m) (auto dest: meta_spec [of _ "fst (hd m)"] split: if_splits)

lemma map_of_graph: "map_of (map (\<lambda>a. (a, g a)) xs) b = (if b \<in> set xs then Some (g b) else None)"
  by (induction xs) auto

section \<open>Lemmas on sorting and searching\<close>

lemma distinct_set_singleton: "distinct xs \<Longrightarrow> set xs = {c} \<Longrightarrow> xs = [c]"
  by (cases xs; cases "tl xs") auto

lemma sort_search_spec:
  assumes "i \<le> j" and mono: "\<And>a b. a \<le> b \<Longrightarrow> b < n \<Longrightarrow> f a \<Longrightarrow> f b"
    and "j \<le> n" and below: "\<And>k. k < i \<Longrightarrow> \<not> f k" and above: "\<And>k. j \<le> k \<Longrightarrow> k < n \<Longrightarrow> f k"
  shows "sort_search f i j \<le> n \<and> (\<forall>k < sort_search f i j. \<not> f k) \<and>
    (\<forall>k. sort_search f i j \<le> k \<and> k < n \<longrightarrow> f k)"
  using assms
proof (induction f i j rule: sort_search.induct)
  case (1 f i j)
  let ?h = "(i + j) div 2"
  show ?case
  proof (cases "i < j")
    case False
    then have "sort_search f i j = i" by (simp add: sort_search.simps [of f i j])
    with False "1.prems" show ?thesis by simp
  next
    case True
    then have h: "i \<le> ?h" "?h < j" by auto
    show ?thesis
    proof (cases "f ?h")
      case False
      have below': "\<not> f k" if "k < Suc ?h" for k
        using that False "1.prems"(2) [of k ?h] h "1.prems"(3) by auto
      have "sort_search f i j = sort_search f (Suc ?h) j"
        using True False by (simp add: sort_search.simps [of f i j] Let_def)
      with "1.IH"(1) [OF True refl False] below' "1.prems" h show ?thesis by simp
    next
      case fh: True
      have above': "f k" if "?h \<le> k" "k < n" for k
        using that fh "1.prems"(2) [of ?h k] by blast
      have "sort_search f i j = sort_search f i ?h"
        using True fh by (simp add: sort_search.simps [of f i j] Let_def)
      moreover have "sort_search f i ?h \<le> n \<and> (\<forall>k < sort_search f i ?h. \<not> f k) \<and>
          (\<forall>k. sort_search f i ?h \<le> k \<and> k < n \<longrightarrow> f k)"
        using "1.IH"(2) [OF True refl] fh above' "1.prems" h by simp
      ultimately show ?thesis by simp
    qed
  qed
qed

lemma map_insort_key: "(\<And>x. k' (f x) = k x) \<Longrightarrow> map f (insort_key k x xs) = insort_key k' (f x) (map f xs)"
  by (induction xs) simp_all

lemma map_sort_key: "(\<And>x. k' (f x) = k x) \<Longrightarrow> map f (sort_key k xs) = sort_key k' (map f xs)"
  by (induction xs) (simp_all add: map_insort_key [where k' = k'])

lemma filter_key_eq_replicate:
  assumes "inj_on k (insert x (set zs))"
  shows "filter (\<lambda>y. k x = k y) zs = replicate (count (mset zs) x) x"
proof -
  have "filter (\<lambda>y. k x = k y) zs = filter (HOL.eq x) zs"
    using assms by (intro filter_cong) (auto simp: inj_on_def)
  then show ?thesis by (simp add: replicate_count_mset_eq_filter_eq)
qed

text \<open>A sort by an injective key depends on the elements only, not on their order.\<close>

lemma sort_key_mset_cong:
  assumes "mset xs = mset ys" and "inj_on k (set xs)"
  shows "sort_key k xs = sort_key k ys"
proof (rule properties_for_sort_key [symmetric])
  have sets: "set ys = set xs" using assms(1) by (metis set_mset_mset)
  show "mset (sort_key k xs) = mset ys" using assms(1) by simp
  show "sorted (map k (sort_key k xs))" by simp
  fix x
  assume "x \<in> set (sort_key k xs)"
  then have "insert x (set xs) = set xs" by auto
  with assms(2) sets show
    "filter (\<lambda>y. k x = k y) (sort_key k xs) = filter (\<lambda>y. k x = k y) ys"
    by (simp add: filter_key_eq_replicate assms(1))
qed

end
