(* ===== verification/Gor_Errors.thy ===== *)
theory Gor_Errors
  imports Gor_Prelude
begin

text \<open>
  Go error values, the framework codes and the error classification of \<open>errors.go\<close>, and the
  error half of the wire envelope of \<open>forward.go\<close>. An error value is a tree: sentinels of the
  packages, text made by \<open>errors.New\<close> at a call site, \<open>%w\<close> wrappers, \<open>errors.Join\<close>, and the
  coded errors of the root package. A nil error is \<open>None\<close>.
\<close>

section \<open>Error values\<close>

text \<open>The package-level sentinels the code compares with \<open>errors.Is\<close>.\<close>

datatype sentinel =
    MailErrOverloaded | MailErrClosed
  | RtErrTypeNotRegistered | RtErrRuntimeClosed | RtErrPanic | RtErrCallCycle
  | StoreErrConflict
  | ClusterErrNodeDead | ClusterErrProberRequired | ClusterErrInvalidConfig
  | ClusterErrMemberCheckTimeout | ClusterErrProbeTimeout | ClusterErrProbeClosed
  | CtxCanceled | CtxDeadlineExceeded
  | TransportErrClosed | TransportErrServeAlreadyRunning
  | TransportErrPayloadTooLarge | TransportErrInvalidFrameType
  | ErrReminderStoreUnavailable
  | IoEOF | IoErrUnexpectedEOF
  | SimReadFailure | SimWriteFailure | SimAppliedWriteFailure
  | SimScheduleListFailure | SimScheduleClaimFailure | SimScheduleClaimAppliedFailure
  | SimMemberListFailure | SimMemberAppliedFailure
  | SimNetworkPartition | SimNetworkDrop | SimNetworkClosed
  | AppErrPendingActionConflict | AppErrPendingActionNotFound

fun sentinel_text :: "sentinel \<Rightarrow> string" where
  "sentinel_text MailErrOverloaded = ''mailbox overloaded''"
| "sentinel_text MailErrClosed = ''mailbox closed''"
| "sentinel_text RtErrTypeNotRegistered = ''entity type is not registered''"
| "sentinel_text RtErrRuntimeClosed = ''runtime closed''"
| "sentinel_text RtErrPanic = ''runtime panic''"
| "sentinel_text RtErrCallCycle = ''call cycle detected''"
| "sentinel_text StoreErrConflict = ''store: etag conflict''"
| "sentinel_text ClusterErrNodeDead = ''cluster node is dead''"
| "sentinel_text ClusterErrProberRequired = ''cluster prober is required''"
| "sentinel_text ClusterErrInvalidConfig = ''cluster config is invalid''"
| "sentinel_text ClusterErrMemberCheckTimeout = ''cluster member check timed out''"
| "sentinel_text ClusterErrProbeTimeout = ''cluster probe timed out''"
| "sentinel_text ClusterErrProbeClosed = ''cluster probe reply channel closed''"
| "sentinel_text CtxCanceled = ''context canceled''"
| "sentinel_text CtxDeadlineExceeded = ''context deadline exceeded''"
| "sentinel_text TransportErrClosed = ''transport is closed''"
| "sentinel_text TransportErrServeAlreadyRunning = ''transport serve already running''"
| "sentinel_text TransportErrPayloadTooLarge = ''transport payload is too large''"
| "sentinel_text TransportErrInvalidFrameType = ''transport frame type is invalid''"
| "sentinel_text ErrReminderStoreUnavailable = ''reminder store is not configured''"
| "sentinel_text IoEOF = ''EOF''"
| "sentinel_text IoErrUnexpectedEOF = ''unexpected EOF''"
| "sentinel_text SimReadFailure = ''sim store read failure''"
| "sentinel_text SimWriteFailure = ''sim store write failure''"
| "sentinel_text SimAppliedWriteFailure = ''sim store write applied before failure''"
| "sentinel_text SimScheduleListFailure = ''sim schedule list failure''"
| "sentinel_text SimScheduleClaimFailure = ''sim schedule claim failure''"
| "sentinel_text SimScheduleClaimAppliedFailure = ''sim schedule claim applied before failure''"
| "sentinel_text SimMemberListFailure = ''sim member list failure''"
| "sentinel_text SimMemberAppliedFailure = ''sim member write applied before failure''"
| "sentinel_text SimNetworkPartition = ''sim network partition''"
| "sentinel_text SimNetworkDrop = ''sim network drop''"
| "sentinel_text SimNetworkClosed = ''sim network closed''"
| "sentinel_text AppErrPendingActionConflict = ''application action ID has a different payload''"
| "sentinel_text AppErrPendingActionNotFound = ''application pending action was not found''"

type_synonym code = string

text \<open>
  \<open>Wrap text e\<close> is the value of \<open>fmt.Errorf\<close> with one \<open>%w\<close> verb, \<open>text\<close> its formatted
  message. \<open>CodeErr c\<close> is a \<open>Code\<close> used as an error, \<open>CodedErr\<close> the struct \<open>codedError\<close>,
  \<open>RemoteCodedErr\<close> the struct \<open>remoteCodedError\<close>, \<open>Discard\<close> the engine's \<open>Discard\<close>.
\<close>

datatype go_error =
    Sentinel sentinel
  | NewErr string
  | Wrap string go_error
  | JoinErr "go_error list"
  | CodeErr code
  | CodedErr code "go_error option"
  | RemoteCodedErr code string
  | Discard "go_error option"

type_synonym 'a result = "go_error + 'a"

text \<open>\<open>errors.Join\<close> drops the nil errors and is nil when all are.\<close>

definition errors_join :: "go_error option list \<Rightarrow> go_error option" where
  "errors_join es =
     (let kept = List.map_filter (\<lambda>e. e) es in if kept = [] then None else Some (JoinErr kept))"

text \<open>What \<open>errors.Is\<close> is asked for: a sentinel or a \<open>Code\<close>.\<close>

datatype err_target = TSentinel sentinel | TCode code

definition Code_Is :: "code \<Rightarrow> err_target \<Rightarrow> bool" where
  "Code_Is c target = (case target of TCode other \<Rightarrow> c = other | TSentinel _ \<Rightarrow> False)"

definition codedError_Is :: "code \<Rightarrow> err_target \<Rightarrow> bool" where
  "codedError_Is c target = (case target of TCode other \<Rightarrow> c = other | TSentinel _ \<Rightarrow> False)"

definition remoteCodedError_Is :: "code \<Rightarrow> err_target \<Rightarrow> bool" where
  "remoteCodedError_Is c target = (case target of TCode code \<Rightarrow> c = code | TSentinel _ \<Rightarrow> False)"

fun errors_Is :: "go_error \<Rightarrow> err_target \<Rightarrow> bool" where
  "errors_Is (Sentinel s) t = (t = TSentinel s)"
| "errors_Is (NewErr _) t = False"
| "errors_Is (Wrap _ e) t = errors_Is e t"
| "errors_Is (JoinErr es) t = list_ex (\<lambda>e. errors_Is e t) es"
| "errors_Is (CodeErr c) t = Code_Is c t"
| "errors_Is (CodedErr c None) t = codedError_Is c t"
| "errors_Is (CodedErr c (Some e)) t = (codedError_Is c t \<or> errors_Is e t)"
| "errors_Is (RemoteCodedErr c _) t = remoteCodedError_Is c t"
| "errors_Is (Discard None) t = False"
| "errors_Is (Discard (Some e)) t = errors_Is e t"

text \<open>\<open>Error()\<close> of each value.\<close>

fun join_lines :: "string list \<Rightarrow> string" where
  "join_lines [] = []"
| "join_lines [s] = s"
| "join_lines (s # ss) = s @ [CHR 0x0A] @ join_lines ss"

fun error_text :: "go_error \<Rightarrow> string" where
  "error_text (Sentinel s) = sentinel_text s"
| "error_text (NewErr m) = m"
| "error_text (Wrap m _) = m"
| "error_text (JoinErr es) = join_lines (map error_text es)"
| "error_text (CodeErr c) = c"
| "error_text (CodedErr c None) = c"
| "error_text (CodedErr c (Some e)) = error_text e"
| "error_text (RemoteCodedErr _ m) = m"
| "error_text (Discard None) = ''activation discarded''"
| "error_text (Discard (Some e)) = error_text e"

text \<open>\<open>errors.As\<close> with a \<open>Discard\<close> target: the first one met in depth-first order.\<close>

fun discards :: "go_error \<Rightarrow> go_error option list" where
  "discards (Discard e) = [e]"
| "discards (Wrap _ e) = discards e"
| "discards (JoinErr es) = concat (map discards es)"
| "discards (CodedErr _ (Some e)) = discards e"
| "discards _ = []"

definition errors_As_discard :: "go_error \<Rightarrow> go_error option option" where
  "errors_As_discard e = (case discards e of [] \<Rightarrow> None | d # _ \<Rightarrow> Some d)"

section \<open>Codes\<close>

definition ErrNoOwner :: code where "ErrNoOwner = ''gor.no_owner''"
definition ErrNodeDead :: code where "ErrNodeDead = ''gor.node_dead''"
definition ErrRuntimeClosed :: code where "ErrRuntimeClosed = ''gor.runtime_closed''"
definition ErrOverloaded :: code where "ErrOverloaded = ''gor.overloaded''"
definition ErrTypeNotInstalled :: code where "ErrTypeNotInstalled = ''gor.type_not_installed''"
definition ErrUnknownMethod :: code where "ErrUnknownMethod = ''gor.unknown_method''"
definition ErrInvalidRequest :: code where "ErrInvalidRequest = ''gor.invalid_request''"
definition ErrPersistenceConflict :: code where "ErrPersistenceConflict = ''gor.persistence_conflict''"
definition ErrPersistenceFailed :: code where "ErrPersistenceFailed = ''gor.persistence_failed''"
definition ErrPanic :: code where "ErrPanic = ''gor.panic''"
definition ErrRequestEncodeFailed :: code where "ErrRequestEncodeFailed = ''gor.request_encode_failed''"
definition ErrReplyEncodeFailed :: code where "ErrReplyEncodeFailed = ''gor.reply_encode_failed''"
definition ErrTransportFailed :: code where "ErrTransportFailed = ''gor.transport_failed''"
definition ErrCallCycle :: code where "ErrCallCycle = ''gor.call_cycle''"

text \<open>The codes reachable from an error, in the order the walk meets them.\<close>

fun reachable_codes :: "go_error \<Rightarrow> code list" where
  "reachable_codes (Sentinel _) = []"
| "reachable_codes (NewErr _) = []"
| "reachable_codes (Wrap _ e) = reachable_codes e"
| "reachable_codes (JoinErr es) = concat (map reachable_codes es)"
| "reachable_codes (CodeErr c) = [c]"
| "reachable_codes (CodedErr c None) = [c]"
| "reachable_codes (CodedErr c (Some e)) = c # reachable_codes e"
| "reachable_codes (RemoteCodedErr c _) = [c]"
| "reachable_codes (Discard None) = []"
| "reachable_codes (Discard (Some e)) = reachable_codes e"

definition CodeOf :: "go_error \<Rightarrow> code option" where
  "CodeOf e = (case remdups (reachable_codes e) of [c] \<Rightarrow> Some c | _ \<Rightarrow> None)"

definition withCode :: "code \<Rightarrow> go_error \<Rightarrow> go_error" where
  "withCode c e = CodedErr c (Some e)"

text \<open>The switch of \<open>publicError\<close>: the code the first matching case attaches.\<close>

definition publicErrorCode :: "go_error \<Rightarrow> code option" where
  "publicErrorCode e =
     (if errors_Is e (TSentinel ClusterErrNodeDead) then Some ErrNodeDead
      else if errors_Is e (TSentinel RtErrRuntimeClosed) \<or> errors_Is e (TSentinel MailErrClosed)
        then Some ErrRuntimeClosed
      else if errors_Is e (TSentinel MailErrOverloaded) then Some ErrOverloaded
      else if errors_Is e (TSentinel RtErrTypeNotRegistered) then Some ErrTypeNotInstalled
      else if errors_Is e (TSentinel StoreErrConflict) then Some ErrPersistenceConflict
      else if errors_Is e (TSentinel RtErrPanic) then Some ErrPanic
      else if errors_Is e (TSentinel RtErrCallCycle) then Some ErrCallCycle
      else None)"

definition publicError :: "go_error option \<Rightarrow> go_error option" where
  "publicError err =
     (case err of
        None \<Rightarrow> None
      | Some e \<Rightarrow>
          if errors_Is e (TSentinel CtxCanceled) \<or> errors_Is e (TSentinel CtxDeadlineExceeded) then Some e
          else if CodeOf e \<noteq> None then Some e
          else (case publicErrorCode e of Some c \<Rightarrow> Some (withCode c e) | None \<Rightarrow> Some e))"

section \<open>The error envelope\<close>

record errorEnvelope =
  env_Code :: string
  env_Message :: string

definition errorEnvelopeFor :: "go_error option \<Rightarrow> errorEnvelope option" where
  "errorEnvelopeFor err =
     (case err of
        None \<Rightarrow> None
      | Some e \<Rightarrow> Some (case CodeOf e of
            Some c \<Rightarrow> \<lparr>env_Code = c, env_Message = error_text e\<rparr>
          | None \<Rightarrow> \<lparr>env_Code = [], env_Message = error_text e\<rparr>))"

definition errorFromEnvelope :: "errorEnvelope option \<Rightarrow> go_error option" where
  "errorFromEnvelope envelope =
     (case envelope of
        None \<Rightarrow> None
      | Some env \<Rightarrow>
          if env_Code env = [] then Some (NewErr (env_Message env))
          else Some (RemoteCodedErr (env_Code env) (env_Message env)))"

section \<open>Lemmas\<close>

lemmas code_defs = ErrNoOwner_def ErrNodeDead_def ErrRuntimeClosed_def ErrOverloaded_def
  ErrTypeNotInstalled_def ErrUnknownMethod_def ErrInvalidRequest_def ErrPersistenceConflict_def
  ErrPersistenceFailed_def ErrPanic_def ErrRequestEncodeFailed_def ErrReplyEncodeFailed_def
  ErrTransportFailed_def ErrCallCycle_def

lemmas is_defs = Code_Is_def codedError_Is_def remoteCodedError_Is_def

text \<open>\<open>errors.Is\<close> with a code finds exactly the codes of the walk.\<close>

lemma errors_Is_code_iff: "errors_Is e (TCode c) \<longleftrightarrow> c \<in> set (reachable_codes e)"
  by (induction e "TCode c" rule: errors_Is.induct) (auto simp: is_defs list_ex_iff)

lemma CodeOf_Some_iff: "CodeOf e = Some c \<longleftrightarrow> set (reachable_codes e) = {c}"
proof
  assume "CodeOf e = Some c"
  then have "remdups (reachable_codes e) = [c]" by (auto simp: CodeOf_def split: list.splits)
  then show "set (reachable_codes e) = {c}" by (metis list.set(1,2) set_remdups)
next
  assume "set (reachable_codes e) = {c}"
  then have "remdups (reachable_codes e) = [c]" by (intro distinct_set_singleton) simp_all
  then show "CodeOf e = Some c" by (simp add: CodeOf_def)
qed

lemma CodeOf_no_codes: "reachable_codes e = [] \<Longrightarrow> CodeOf e = None"
  by (simp add: CodeOf_def)

lemma CodeOf_withCode: "reachable_codes e = [] \<Longrightarrow> CodeOf (withCode c e) = Some c"
  by (simp add: CodeOf_def withCode_def)

lemma errors_Is_withCode_sentinel [simp]:
  "errors_Is (withCode c e) (TSentinel s) = errors_Is e (TSentinel s)"
  by (simp add: withCode_def is_defs)

lemma error_text_withCode [simp]: "error_text (withCode c e) = error_text e"
  by (simp add: withCode_def)

text \<open>\<open>publicError\<close> only ever adds a code: text, sentinels and nil-ness are kept.\<close>

lemma publicError_shape:
  "publicError (Some e) = Some e \<or> (\<exists>c. publicError (Some e) = Some (withCode c e))"
  by (auto simp: publicError_def split: option.split)

lemma publicError_None [simp]: "publicError None = None"
  by (simp add: publicError_def)

lemma withCode_neq: "withCode c e \<noteq> e"
proof
  assume "withCode c e = e"
  then have "size (CodedErr c (Some e)) = size e" by (simp add: withCode_def)
  then show False by simp
qed

text \<open>Classifying a second time changes neither the text nor the determined code.\<close>

lemma CodeOf_None_withCode: "CodeOf e = None \<Longrightarrow> reachable_codes e \<noteq> [] \<Longrightarrow> CodeOf (withCode c e) = None"
proof (rule ccontr)
  assume none: "CodeOf e = None" "reachable_codes e \<noteq> []" and "CodeOf (withCode c e) \<noteq> None"
  then obtain d where "set (reachable_codes (withCode c e)) = {d}" using CodeOf_Some_iff by blast
  then have "set (reachable_codes e) \<subseteq> {d}" by (simp add: withCode_def)
  then have "set (reachable_codes e) = {d}" using none(2) by (meson set_empty subset_singletonD)
  then have "CodeOf e = Some d" by (simp only: CodeOf_Some_iff)
  then show False using none(1) by simp
qed

lemma publicError_twice:
  assumes "publicError (Some e) = Some e1"
  shows "\<exists>e2. publicError (Some e1) = Some e2 \<and> CodeOf e2 = CodeOf e1 \<and> error_text e2 = error_text e \<and> error_text e1 = error_text e"
proof -
  have text_eq: "error_text e1 = error_text e" using assms publicError_shape [of e] by auto
  consider "publicError (Some e1) = Some e1" | c where "publicError (Some e1) = Some (withCode c e1)"
    using publicError_shape by blast
  then show ?thesis
  proof cases
    case (2 c)
    have none: "CodeOf e1 = None" using 2 withCode_neq [of c e1] by (simp add: publicError_def split: if_splits)
    have "reachable_codes e1 \<noteq> []"
    proof
      assume "reachable_codes e1 = []"
      then have "e1 = e" using assms publicError_shape [of e] by (auto simp: withCode_def)
      then show False using assms 2 withCode_neq [of c e1] by simp
    qed
    then show ?thesis using 2 none CodeOf_None_withCode text_eq by auto
  qed (use text_eq in auto)
qed

section \<open>Properties\<close>

text \<open>The sentinels of the inner packages that the classification knows.\<close>

definition classified :: "sentinel list" where
  "classified = [ClusterErrNodeDead, RtErrRuntimeClosed, MailErrClosed, MailErrOverloaded,
     RtErrTypeNotRegistered, StoreErrConflict, RtErrPanic, RtErrCallCycle]"

lemma publicErrorCode_iff:
  "publicErrorCode e \<noteq> None \<longleftrightarrow> (\<exists>s \<in> set classified. errors_Is e (TSentinel s))"
  by (simp add: publicErrorCode_def classified_def)

text \<open>
  An error of the inner packages that carries no code and is not a caller cancellation leaves
  the root package with exactly one determined code, keeps its text and still matches its sentinel.
\<close>

theorem publicError_classifies:
  assumes "reachable_codes e = []"
    and "\<not> errors_Is e (TSentinel CtxCanceled)" and "\<not> errors_Is e (TSentinel CtxDeadlineExceeded)"
    and "s \<in> set classified" and "errors_Is e (TSentinel s)"
  shows "\<exists>e' c. publicError (Some e) = Some e' \<and> CodeOf e' = Some c \<and> errors_Is e' (TCode c) \<and>
    errors_Is e' (TSentinel s) \<and> error_text e' = error_text e"
proof -
  obtain c where "publicErrorCode e = Some c"
    using publicErrorCode_iff [of e] assms(4,5) by blast
  then have c: "publicError (Some e) = Some (withCode c e)"
    using assms(2,3) by (simp add: publicError_def CodeOf_no_codes [OF assms(1)])
  have "CodeOf (withCode c e) = Some c" by (rule CodeOf_withCode [OF assms(1)])
  moreover have "errors_Is (withCode c e) (TCode c)"
    by (simp add: withCode_def is_defs)
  ultimately show ?thesis using c assms(5) by auto
qed

theorem publicError_classifies_witness:
  "\<exists>e' c. publicError (Some (Wrap ''m'' (Sentinel MailErrClosed))) = Some e' \<and> CodeOf e' = Some c \<and>
    errors_Is e' (TCode c) \<and> errors_Is e' (TSentinel MailErrClosed) \<and> error_text e' = ''m''"
  using publicError_classifies [of "Wrap ''m'' (Sentinel MailErrClosed)" MailErrClosed]
  by (simp add: classified_def)

text \<open>
  Sending an error in a response envelope and rebuilding it at the caller keeps its message and
  its determined code (an error with no determined code arrives with none), for every error whose
  code is not the empty string.
\<close>

theorem envelope_roundtrip:
  assumes "CodeOf e \<noteq> Some []"
  shows "\<exists>e'. errorFromEnvelope (errorEnvelopeFor (Some e)) = Some e' \<and>
    error_text e' = error_text e \<and> CodeOf e' = CodeOf e"
  using assms
  by (cases "CodeOf e")
    (auto simp: errorFromEnvelope_def errorEnvelopeFor_def CodeOf_def split: option.splits)

theorem envelope_roundtrip_witness:
  "\<exists>e'. errorFromEnvelope (errorEnvelopeFor (Some (withCode ErrNoOwner (NewErr ''m'')))) = Some e' \<and>
    error_text e' = ''m'' \<and> CodeOf e' = Some ErrNoOwner"
  using envelope_roundtrip [of "withCode ErrNoOwner (NewErr ''m'')"]
  by (simp add: CodeOf_def withCode_def code_defs)

text \<open>
  Classifying twice changes nothing: an error that already crossed the public boundary keeps
  its code when an outer call returns it again, unless it mixes several codes.
\<close>

theorem publicError_idempotent:
  assumes "reachable_codes e = [] \<or> CodeOf e \<noteq> None"
  shows "publicError (publicError (Some e)) = publicError (Some e)"
proof (cases "CodeOf e = None")
  case False
  then have "publicError (Some e) = Some e" by (simp add: publicError_def)
  then show ?thesis by simp
next
  case True
  with assms have none: "reachable_codes e = []" by simp
  have "publicError (Some (withCode c e)) = Some (withCode c e)" for c
    using CodeOf_withCode [OF none, of c] by (simp add: publicError_def)
  with publicError_shape [of e] show ?thesis by auto
qed

theorem publicError_idempotent_witness:
  "publicError (publicError (Some (Sentinel StoreErrConflict))) =
    publicError (Some (Sentinel StoreErrConflict))"
  using publicError_idempotent [of "Sentinel StoreErrConflict"] by simp

end
