(* ===== verification/Gor_Store.thy ===== *)
theory Gor_Store
  imports Gor_Errors
begin

text \<open>
  The package \<open>store\<close>: rows of the three tables (Grain State records, members, Reminders), the
  in-memory backend \<open>Memory\<close> (\<open>store/store.go\<close>, \<open>store/member.go\<close>, \<open>store/schedule.go\<close>), and the
  contract the callers rely on: \<open>cas_table\<close>, a keyed table with compare-and-swap on an ETag, and
  its consequence that an unchanged ETag means an unchanged row. Every method holds the store's
  mutex for its whole body, so a method is one atomic step; \<open>ctx_err\<close> is what \<open>ctx.Err()\<close>
  returns on entry.
\<close>

section \<open>Rows\<close>

type_synonym etag = int

record store_record =
  rec_Data :: "byte list"
  rec_ETag :: etag

definition zero_record :: store_record where
  "zero_record = \<lparr>rec_Data = [], rec_ETag = 0\<rparr>"

text \<open>\<open>time.Unix(0, 0)\<close> in nanoseconds since the zero time.\<close>

definition unix_epoch :: gtime where
  "unix_epoch = 62135596800 * nanosPerSecond"

definition timeValue :: "gtime \<Rightarrow> int" where
  "timeValue value = wrap64 (value - unix_epoch)"

definition timeFromValue :: "int \<Rightarrow> gtime" where
  "timeFromValue value = unix_epoch + value"

type_synonym MemberStatus = string

definition MemberJoining :: MemberStatus where "MemberJoining = ''joining''"
definition MemberActive :: MemberStatus where "MemberActive = ''active''"
definition MemberDead :: MemberStatus where "MemberDead = ''dead''"

text \<open>\<open>MemberID\<close>, also the key type \<open>memberKey\<close>: address and generation.\<close>

datatype member_id = MemberID (id_NodeAddr: string) (id_Generation: string)

type_synonym suspect_votes = "(member_id, gtime) gomap"

record member =
  m_NodeAddr :: string
  m_Generation :: string
  m_Status :: MemberStatus
  m_IamAliveAt :: gtime
  m_SuspectVotes :: suspect_votes
  m_ETag :: etag

record member_snapshot =
  ms_Members :: "member list"
  ms_TableNow :: gtime

definition keyForMember :: "member \<Rightarrow> member_id" where
  "keyForMember m = MemberID (m_NodeAddr m) (m_Generation m)"

definition cloneMember :: "member \<Rightarrow> member" where
  "cloneMember m = m\<lparr>m_SuspectVotes := map (\<lambda>(k, v). (k, v)) (m_SuspectVotes m)\<rparr>"

record reminder =
  r_GrainId :: grain_id
  r_Name :: string
  r_Method :: string
  r_FirstTickTime :: gtime
  r_DueAt :: gtime
  r_Interval :: duration
  r_ETag :: etag

datatype reminder_key = ReminderKey (rk_identity: grain_id) (rk_name: string)

definition keyForReminder :: "reminder \<Rightarrow> reminder_key" where
  "keyForReminder r = ReminderKey (r_GrainId r) (r_Name r)"

text \<open>The sort keys of \<open>sortMembers\<close> and \<open>sortReminders\<close>, compared lexicographically.\<close>

definition sortMembers :: "member list \<Rightarrow> member list" where
  "sortMembers = sort_key (\<lambda>m. (m_NodeAddr m, m_Generation m))"

definition sortReminders :: "reminder list \<Rightarrow> reminder list" where
  "sortReminders =
     sort_key (\<lambda>r. (r_DueAt r, GrainType (r_GrainId r), GrainKey (r_GrainId r), r_Name r))"

section \<open>The in-memory store\<close>

record memory =
  mem_records :: "(grain_id, store_record) gomap"
  mem_reminders :: "(reminder_key, reminder) gomap"
  mem_members :: "(member_id, member) gomap"

definition NewMemory :: memory where
  "NewMemory = \<lparr>mem_records = [], mem_reminders = [], mem_members = []\<rparr>"

definition clone_bytes :: "byte list \<Rightarrow> byte list" where
  "clone_bytes data = [] @ data"

definition Memory_Read :: "go_error option \<Rightarrow> memory \<Rightarrow> grain_id \<Rightarrow> store_record result" where
  "Memory_Read ctx_err m gid =
     (case ctx_err of
        Some e \<Rightarrow> Inl e
      | None \<Rightarrow> (case gm_get (mem_records m) gid of
            None \<Rightarrow> Inr zero_record
          | Some r \<Rightarrow> Inr (r\<lparr>rec_Data := clone_bytes (rec_Data r)\<rparr>)))"

definition Memory_Write ::
    "go_error option \<Rightarrow> memory \<Rightarrow> grain_id \<Rightarrow> byte list \<Rightarrow> etag \<Rightarrow> etag result \<times> memory" where
  "Memory_Write ctx_err m gid data expect =
     (case ctx_err of
        Some e \<Rightarrow> (Inl e, m)
      | None \<Rightarrow>
          (let current = gm_get_or zero_record (mem_records m) gid
           in if rec_ETag current \<noteq> expect then (Inl (Sentinel StoreErrConflict), m)
              else (let newETag = wrap64 (rec_ETag current + 1)
                    in (Inr newETag,
                        m\<lparr>mem_records := gm_put gid \<lparr>rec_Data = clone_bytes data, rec_ETag = newETag\<rparr>
                             (mem_records m)\<rparr>))))"

definition zero_member :: member where
  "zero_member = \<lparr>m_NodeAddr = [], m_Generation = [], m_Status = [], m_IamAliveAt = time_zero,
     m_SuspectVotes = [], m_ETag = 0\<rparr>"

definition Memory_WriteMember :: "go_error option \<Rightarrow> memory \<Rightarrow> member \<Rightarrow> etag result \<times> memory" where
  "Memory_WriteMember ctx_err s member =
     (case ctx_err of
        Some e \<Rightarrow> (Inl e, s)
      | None \<Rightarrow>
          (let key = keyForMember member;
               current = gm_get_or zero_member (mem_members s) key
           in if m_ETag current \<noteq> m_ETag member then (Inl (Sentinel StoreErrConflict), s)
              else (let written = member\<lparr>m_ETag := wrap64 (m_ETag current + 1)\<rparr>
                    in (Inr (m_ETag written),
                        s\<lparr>mem_members := gm_put key (cloneMember written) (mem_members s)\<rparr>))))"

definition Memory_ListMembers :: "go_error option \<Rightarrow> memory \<Rightarrow> gtime \<Rightarrow> member_snapshot result" where
  "Memory_ListMembers ctx_err s now =
     (case ctx_err of
        Some e \<Rightarrow> Inl e
      | None \<Rightarrow> Inr \<lparr>ms_Members = sortMembers (map (\<lambda>(k, m). cloneMember m) (mem_members s)),
                   ms_TableNow = now\<rparr>)"

definition Memory_ListDue :: "go_error option \<Rightarrow> memory \<Rightarrow> gtime \<Rightarrow> reminder list result" where
  "Memory_ListDue ctx_err s now =
     (case ctx_err of
        Some e \<Rightarrow> Inl e
      | None \<Rightarrow> Inr (sortReminders
          (filter (\<lambda>r. \<not> now < r_DueAt r) (map snd (mem_reminders s)))))"

definition Memory_Claim ::
    "go_error option \<Rightarrow> memory \<Rightarrow> reminder \<Rightarrow> gtime \<Rightarrow> bool result \<times> memory" where
  "Memory_Claim ctx_err s r nextDueAt =
     (case ctx_err of
        Some e \<Rightarrow> (Inl e, s)
      | None \<Rightarrow>
          (let key = keyForReminder r
           in case gm_get (mem_reminders s) key of
                None \<Rightarrow> (Inr False, s)
              | Some current \<Rightarrow>
                  if r_ETag current \<noteq> r_ETag r then (Inr False, s)
                  else if time_is_zero nextDueAt
                    then (Inr True, s\<lparr>mem_reminders := gm_del key (mem_reminders s)\<rparr>)
                  else (Inr True, s\<lparr>mem_reminders := gm_put key
                         (current\<lparr>r_DueAt := nextDueAt, r_ETag := wrap64 (r_ETag current + 1)\<rparr>)
                         (mem_reminders s)\<rparr>)))"

definition Memory_Put :: "go_error option \<Rightarrow> memory \<Rightarrow> reminder \<Rightarrow> unit result \<times> memory" where
  "Memory_Put ctx_err s r =
     (case ctx_err of
        Some e \<Rightarrow> (Inl e, s)
      | None \<Rightarrow>
          (let key = keyForReminder r;
               tag = (case gm_get (mem_reminders s) key of
                        None \<Rightarrow> 1 | Some current \<Rightarrow> wrap64 (r_ETag current + 1))
           in (Inr (), s\<lparr>mem_reminders := gm_put key (r\<lparr>r_ETag := tag\<rparr>) (mem_reminders s)\<rparr>)))"

definition Memory_Delete ::
    "go_error option \<Rightarrow> memory \<Rightarrow> grain_id \<Rightarrow> string \<Rightarrow> unit result \<times> memory" where
  "Memory_Delete ctx_err s gid name =
     (case ctx_err of
        Some e \<Rightarrow> (Inl e, s)
      | None \<Rightarrow> (Inr (), s\<lparr>mem_reminders := gm_del (ReminderKey gid name) (mem_reminders s)\<rparr>))"

section \<open>Calls that can fail\<close>

text \<open>
  A call to a backend runs, fails before it takes effect, or fails after it did: the caller cannot
  tell the last two apart.
\<close>

datatype fate = Runs | FailsBefore go_error | FailsAfter go_error

fun fate_err :: "fate \<Rightarrow> go_error option" where
  "fate_err Runs = None" | "fate_err (FailsBefore e) = Some e" | "fate_err (FailsAfter e) = Some e"

section \<open>The contract of a compare-and-swap table\<close>

text \<open>
  \<open>look\<close> gives the content and the tag of a key, \<open>put\<close> is one compare-and-swap. The laws are the
  documented contract of \<open>Store.Write\<close> and \<open>MemberStore.WriteMember\<close>: an exact match commits and
  increments the tag, anything else leaves the table alone and reports a conflict.
\<close>

definition tag_of :: "('c \<times> int) option \<Rightarrow> int" where
  "tag_of row = (case row of None \<Rightarrow> 0 | Some (c, t) \<Rightarrow> t)"

locale cas_table =
  fixes look :: "'s \<Rightarrow> 'k \<Rightarrow> ('c \<times> int) option"
    and put :: "'s \<Rightarrow> 'k \<Rightarrow> 'c \<Rightarrow> int \<Rightarrow> int result \<times> 's"
    and inv :: "'s \<Rightarrow> bool"
  assumes put_hit: "inv s \<Longrightarrow> tag_of (look s k) = t \<Longrightarrow> t < max_int64 \<Longrightarrow>
      \<exists>s'. put s k c t = (Inr (t + 1), s') \<and> inv s' \<and> look s' = (look s)(k \<mapsto> (c, t + 1))"
    and put_miss: "inv s \<Longrightarrow> tag_of (look s k) \<noteq> t \<Longrightarrow>
      put s k c t = (Inl (Sentinel StoreErrConflict), s)"
    and tag_pos: "inv s \<Longrightarrow> look s k = Some (c, t) \<Longrightarrow> 0 < t \<and> t \<le> max_int64"
begin

text \<open>A sequence of attempts by any number of writers, each \<open>(key, content, expected tag)\<close>.\<close>

fun run :: "'s \<Rightarrow> ('k \<times> 'c \<times> int) list \<Rightarrow> 's" where
  "run s [] = s"
| "run s ((k, c, t) # as) = run (snd (put s k c t)) as"

text \<open>Which of the attempts won, in order.\<close>

fun winners :: "'s \<Rightarrow> ('k \<times> 'c \<times> int) list \<Rightarrow> ('k \<times> 'c \<times> int) list" where
  "winners s [] = []"
| "winners s ((k, c, t) # as) =
     (if tag_of (look s k) = t then (k, c, t) # winners (snd (put s k c t)) as
      else winners (snd (put s k c t)) as)"

lemma put_step:
  assumes "inv s" and "tag_of (look s k) < max_int64"
  shows "inv (snd (put s k c t))"
    and "look (snd (put s k c t)) =
      (if tag_of (look s k) = t then (look s)(k \<mapsto> (c, t + 1)) else look s)"
  using put_hit [OF assms(1), of k t c] put_miss [OF assms(1), of k t c] assms
  by (cases "tag_of (look s k) = t"; force)+

lemma tag_after_put:
  assumes "inv s" and "tag_of (look s k) < max_int64"
  shows "tag_of (look (snd (put s k c t)) k') =
    tag_of (look s k') + (if k' = k \<and> tag_of (look s k) = t then 1 else 0)"
  using put_step [OF assms, of c t] by (simp add: tag_of_def)

text \<open>Enough room for \<open>n\<close> more versions of every row.\<close>

definition room :: "'s \<Rightarrow> nat \<Rightarrow> bool" where
  "room s n \<longleftrightarrow> (\<forall>k. tag_of (look s k) + int n \<le> max_int64)"

lemma room_put: "inv s \<Longrightarrow> room s (Suc n) \<Longrightarrow> room (snd (put s k c t)) n"
  unfolding room_def
proof
  fix k'
  assume i: "inv s" and r: "\<forall>k. tag_of (look s k) + int (Suc n) \<le> max_int64"
  from r have "tag_of (look s k) < max_int64" and k': "tag_of (look s k') + int (Suc n) \<le> max_int64"
    by (auto dest: spec [of _ k])
  then show "tag_of (look (snd (put s k c t)) k') + int n \<le> max_int64"
    using tag_after_put [OF i, of k c t k'] by (auto split: if_splits)
qed

lemma room_tag: "room s (Suc n) \<Longrightarrow> tag_of (look s k) < max_int64"
  by (auto simp: room_def dest: spec [of _ k])

lemma run_inv: "inv s \<Longrightarrow> room s (length as) \<Longrightarrow> inv (run s as)"
proof (induction as arbitrary: s)
  case (Cons a as)
  then show ?case
    by (cases a) (auto intro!: Cons.IH put_step(1) room_put dest: room_tag)
qed simp

text \<open>The tag of a row counts the attempts that won on it.\<close>

lemma run_tag:
  "inv s \<Longrightarrow> room s (length as) \<Longrightarrow>
    tag_of (look (run s as) k) =
      tag_of (look s k) + int (length (filter (\<lambda>(k', _, _). k' = k) (winners s as)))"
proof (induction as arbitrary: s)
  case (Cons a as)
  obtain k' c t where a: "a = (k', c, t)" by (cases a)
  let ?s = "snd (put s k' c t)"
  from Cons.prems have lt: "tag_of (look s k') < max_int64" by (auto dest: room_tag)
  have "inv ?s" and "room ?s (length as)"
    using Cons.prems lt by (auto intro: put_step(1) room_put)
  from Cons.IH [OF this] show ?case
    using tag_after_put [OF Cons.prems(1) lt, of c t k] by (auto simp: a)
qed simp

text \<open>No ABA: a row whose tag is what it was has not been rewritten in between.\<close>

lemma no_aba:
  "inv s \<Longrightarrow> room s (length as) \<Longrightarrow> tag_of (look (run s as) k) = tag_of (look s k) \<Longrightarrow>
    look (run s as) k = look s k"
proof (induction as arbitrary: s)
  case (Cons a as)
  obtain k' c t where a: "a = (k', c, t)" by (cases a)
  let ?s = "snd (put s k' c t)"
  from Cons.prems(1,2) have lt: "tag_of (look s k') < max_int64" by (auto dest: room_tag)
  have ok: "inv ?s" "room ?s (length as)"
    using Cons.prems(1,2) lt by (auto intro: put_step(1) room_put)
  have "tag_of (look ?s k) \<le> tag_of (look (run ?s as) k)"
    using run_tag [OF ok, of k] by simp
  with Cons.prems(3) have "tag_of (look ?s k) \<le> tag_of (look s k)" by (simp add: a)
  then have same: "look ?s k = look s k"
    using tag_after_put [OF Cons.prems(1) lt, of c t k] put_step(2) [OF Cons.prems(1) lt, of c t]
    by (auto split: if_splits)
  with Cons.IH [OF ok] Cons.prems(3) show ?case by (simp add: a)
qed simp

text \<open>
  What a reader of a row can still say later: the row is unchanged, or its version moved on.
\<close>

definition seen :: "'s \<Rightarrow> 'k \<Rightarrow> 'c \<Rightarrow> int \<Rightarrow> bool" where
  "seen s k c t \<longleftrightarrow> t < tag_of (look s k) \<or> look s k = Some (c, t)"

lemma seen_put:
  assumes "inv s" and "tag_of (look s k') < max_int64" and "seen s k c t"
  shows "seen (snd (put s k' c' t')) k c t"
  using put_step [OF assms(1,2), of c' t'] assms(3) by (auto simp: seen_def tag_of_def)

lemma seen_current: "seen s k c t \<Longrightarrow> tag_of (look s k) = t \<Longrightarrow> look s k = Some (c, t)"
  by (auto simp: seen_def)

text \<open>Of two writers that read the same version of a row, at most one commits.\<close>

lemma at_most_one_winner:
  assumes "inv s" and "room s (Suc (length as))"
    and "fst (put s k c t) = Inr t'"
  shows "fst (put (run (snd (put s k c t)) as) k c' t) = Inl (Sentinel StoreErrConflict)"
proof -
  let ?s = "snd (put s k c t)"
  have lt: "tag_of (look s k) < max_int64" using assms(2) by (rule room_tag)
  have won: "tag_of (look s k) = t"
    using put_miss [OF assms(1), of k t c] assms(3) by force
  have ok: "inv ?s" "room ?s (length as)"
    using assms(1,2) lt by (auto intro: put_step(1) room_put)
  have "tag_of (look ?s k) = t + 1"
    using tag_after_put [OF assms(1) lt, of c t k] won by simp
  then have "tag_of (look (run ?s as) k) \<noteq> t"
    using run_tag [OF ok, of k] by simp
  then show ?thesis
    using put_miss [OF run_inv [OF ok], of k t c'] by simp
qed

end

section \<open>The in-memory store implements the contract\<close>

lemma cloneMember_id [simp]: "cloneMember m = m"
  by (simp add: cloneMember_def)

lemma clone_bytes_id [simp]: "clone_bytes d = d"
  by (simp add: clone_bytes_def)

definition tag_ok :: "etag \<Rightarrow> bool" where
  "tag_ok t \<longleftrightarrow> 0 < t \<and> t \<le> max_int64"

definition memory_ok :: "memory \<Rightarrow> bool" where
  "memory_ok s \<longleftrightarrow>
     gm_ok (mem_records s) \<and> gm_ok (mem_members s) \<and> gm_ok (mem_reminders s) \<and>
     (\<forall>k r. gm_get (mem_records s) k = Some r \<longrightarrow> tag_ok (rec_ETag r)) \<and>
     (\<forall>k m. gm_get (mem_members s) k = Some m \<longrightarrow> keyForMember m = k \<and> tag_ok (m_ETag m)) \<and>
     (\<forall>k r. gm_get (mem_reminders s) k = Some r \<longrightarrow> keyForReminder r = k \<and> tag_ok (r_ETag r))"

lemma memory_ok_tags:
  assumes "memory_ok s"
  shows "gm_get (mem_records s) k = Some r \<Longrightarrow> tag_ok (rec_ETag r)"
    and "gm_get (mem_members s) k' = Some m \<Longrightarrow> keyForMember m = k' \<and> tag_ok (m_ETag m)"
    and "gm_get (mem_reminders s) k'' = Some x \<Longrightarrow> keyForReminder x = k'' \<and> tag_ok (r_ETag x)"
  using assms unfolding memory_ok_def by blast+

definition record_look :: "memory \<Rightarrow> grain_id \<Rightarrow> (byte list \<times> etag) option" where
  "record_look s k = map_option (\<lambda>r. (rec_Data r, rec_ETag r)) (gm_get (mem_records s) k)"

type_synonym member_content = "MemberStatus \<times> gtime \<times> suspect_votes"

definition member_content :: "member \<Rightarrow> member_content" where
  "member_content m = (m_Status m, m_IamAliveAt m, m_SuspectVotes m)"

definition member_row :: "member_id \<Rightarrow> member_content \<Rightarrow> etag \<Rightarrow> member" where
  "member_row k c t = \<lparr>m_NodeAddr = id_NodeAddr k, m_Generation = id_Generation k, m_Status = fst c,
     m_IamAliveAt = fst (snd c), m_SuspectVotes = snd (snd c), m_ETag = t\<rparr>"

definition member_look :: "memory \<Rightarrow> member_id \<Rightarrow> (member_content \<times> etag) option" where
  "member_look s k = map_option (\<lambda>m. (member_content m, m_ETag m)) (gm_get (mem_members s) k)"

definition member_put ::
    "memory \<Rightarrow> member_id \<Rightarrow> member_content \<Rightarrow> etag \<Rightarrow> etag result \<times> memory" where
  "member_put s k c t = Memory_WriteMember None s (member_row k c t)"

lemma keyForMember_row [simp]: "keyForMember (member_row k c t) = k"
  by (simp add: keyForMember_def member_row_def)

lemma member_row_tag [simp]:
  "m_ETag (member_row k c t) = t" "(member_row k c t)\<lparr>m_ETag := t'\<rparr> = member_row k c t'"
  "member_content (member_row k c t) = c"
  by (simp_all add: member_row_def member_content_def)

lemma member_row_id: "member_row (keyForMember m) (member_content m) (m_ETag m) = m"
  by (simp add: member_row_def member_content_def keyForMember_def)

lemma WriteMember_as_put:
  "Memory_WriteMember None s m = member_put s (keyForMember m) (member_content m) (m_ETag m)"
  by (simp add: member_put_def member_row_id)

lemma wrap64_tag: "0 \<le> t \<Longrightarrow> t < max_int64 \<Longrightarrow> wrap64 (t + 1) = t + 1"
  by (rule wrap64_succ) (simp_all add: min_int64_def)

lemma memory_ok_NewMemory: "memory_ok NewMemory"
  by (simp add: memory_ok_def NewMemory_def)

lemma tag_of_record_look:
  "tag_of (record_look s k) = rec_ETag (gm_get_or zero_record (mem_records s) k)"
  by (simp add: tag_of_def record_look_def gm_get_or_def zero_record_def split: option.split)

lemma tag_of_member_look:
  "tag_of (member_look s k) = m_ETag (gm_get_or zero_member (mem_members s) k)"
  by (simp add: tag_of_def member_look_def gm_get_or_def zero_member_def split: option.split)

lemma tag_of_look_nonneg:
  "memory_ok s \<Longrightarrow> 0 \<le> tag_of (record_look s k)" "memory_ok s \<Longrightarrow> 0 \<le> tag_of (member_look s k')"
  by (auto simp: tag_of_def record_look_def member_look_def memory_ok_def tag_ok_def
      split: option.split intro: order_less_imp_le)

interpretation mem_rec: cas_table record_look "Memory_Write None" memory_ok
proof
  fix s k t c
  assume ok: "memory_ok s" and tag: "tag_of (record_look s k) = t" and lt: "t < max_int64"
  let ?s = "s\<lparr>mem_records := gm_put k \<lparr>rec_Data = c, rec_ETag = t + 1\<rparr> (mem_records s)\<rparr>"
  have "0 \<le> t" using tag_of_look_nonneg(1) [OF ok, of k] tag by simp
  then have "Memory_Write None s k c t = (Inr (t + 1), ?s)"
    using tag lt by (simp add: Memory_Write_def tag_of_record_look [symmetric] Let_def wrap64_tag)
  moreover have "memory_ok ?s"
    using ok lt \<open>0 \<le> t\<close> by (auto simp: memory_ok_def go_map_simps tag_ok_def split: if_splits)
  moreover have "record_look ?s = (record_look s)(k \<mapsto> (c, t + 1))"
    by (auto simp: record_look_def go_map_simps)
  ultimately show "\<exists>s'. Memory_Write None s k c t = (Inr (t + 1), s') \<and> memory_ok s' \<and>
      record_look s' = (record_look s)(k \<mapsto> (c, t + 1))" by blast
next
  fix s k t c
  assume "tag_of (record_look s k) \<noteq> t"
  then show "Memory_Write None s k c t = (Inl (Sentinel StoreErrConflict), s)"
    by (simp add: Memory_Write_def tag_of_record_look Let_def)
next
  fix s k c t
  assume "memory_ok s" and "record_look s k = Some (c, t)"
  then show "0 < t \<and> t \<le> max_int64"
    by (auto simp: memory_ok_def record_look_def tag_ok_def)
qed

interpretation mem_mem: cas_table member_look member_put memory_ok
proof
  fix s k t c
  assume ok: "memory_ok s" and tag: "tag_of (member_look s k) = t" and lt: "t < max_int64"
  let ?s = "s\<lparr>mem_members := gm_put k (member_row k c (t + 1)) (mem_members s)\<rparr>"
  have "0 \<le> t" using tag_of_look_nonneg(2) [OF ok, of k] tag by simp
  then have "member_put s k c t = (Inr (t + 1), ?s)"
    using tag lt
    by (simp add: member_put_def Memory_WriteMember_def tag_of_member_look [symmetric] Let_def
        wrap64_tag)
  moreover have "memory_ok ?s"
    using ok lt \<open>0 \<le> t\<close>
    by (auto simp: memory_ok_def go_map_simps tag_ok_def split: if_splits)
  moreover have "member_look ?s = (member_look s)(k \<mapsto> (c, t + 1))"
    by (auto simp: member_look_def go_map_simps)
  ultimately show "\<exists>s'. member_put s k c t = (Inr (t + 1), s') \<and> memory_ok s' \<and>
      member_look s' = (member_look s)(k \<mapsto> (c, t + 1))" by blast
next
  fix s k t c
  assume "tag_of (member_look s k) \<noteq> t"
  then show "member_put s k c t = (Inl (Sentinel StoreErrConflict), s)"
    by (simp add: member_put_def Memory_WriteMember_def tag_of_member_look Let_def)
next
  fix s k c t
  assume "memory_ok s" and "member_look s k = Some (c, t)"
  then show "0 < t \<and> t \<le> max_int64"
    by (auto simp: memory_ok_def member_look_def tag_ok_def)
qed

section \<open>Runs of store operations\<close>

text \<open>
  Any caller of the store performs one of these operations; a run is an interleaving of the
  operations of all callers.
\<close>

datatype memory_op =
    OpWrite grain_id "byte list" etag
  | OpWriteMember member
  | OpClaim reminder gtime
  | OpPut reminder
  | OpDelete grain_id string

fun memory_step :: "memory \<Rightarrow> memory_op \<Rightarrow> memory" where
  "memory_step s (OpWrite i d t) = snd (Memory_Write None s i d t)"
| "memory_step s (OpWriteMember m) = snd (Memory_WriteMember None s m)"
| "memory_step s (OpClaim r t) = snd (Memory_Claim None s r t)"
| "memory_step s (OpPut r) = snd (Memory_Put None s r)"
| "memory_step s (OpDelete i n) = snd (Memory_Delete None s i n)"

definition memory_run :: "memory \<Rightarrow> memory_op list \<Rightarrow> memory" where
  "memory_run = foldl memory_step"

lemma memory_run_simps [simp]:
  "memory_run s [] = s" "memory_run s (op # ops) = memory_run (memory_step s op) ops"
  by (simp_all add: memory_run_def)

definition reminder_tag :: "memory \<Rightarrow> reminder_key \<Rightarrow> etag" where
  "reminder_tag s k = (case gm_get (mem_reminders s) k of None \<Rightarrow> 0 | Some r \<Rightarrow> r_ETag r)"

text \<open>No row is within \<open>n\<close> versions of the end of the \<open>int64\<close> tag space.\<close>

definition tag_room :: "memory \<Rightarrow> nat \<Rightarrow> bool" where
  "tag_room s n \<longleftrightarrow>
     (\<forall>k. tag_of (record_look s k) + int n \<le> max_int64) \<and>
     (\<forall>k. tag_of (member_look s k) + int n \<le> max_int64) \<and>
     (\<forall>k. reminder_tag s k + int n \<le> max_int64)"

lemma tag_room_Suc: "tag_room s (Suc n) \<Longrightarrow> tag_room s n"
  by (auto simp: tag_room_def algebra_simps) (smt (verit, best))+

lemma tag_roomD:
  assumes "tag_room s (Suc n)"
  shows "tag_of (record_look s k) < max_int64" "tag_of (member_look s k') < max_int64"
    "reminder_tag s k'' < max_int64"
  using assms by (auto simp: tag_room_def dest: spec [of _ k] spec [of _ k'] spec [of _ k''])

lemma reminder_tag_nonneg: "memory_ok s \<Longrightarrow> 0 \<le> reminder_tag s k"
  by (auto simp: reminder_tag_def memory_ok_def tag_ok_def intro: order_less_imp_le
      split: option.split)

lemma reminder_found:
  "memory_ok s \<Longrightarrow> gm_get (mem_reminders s) k = Some r \<Longrightarrow>
    keyForReminder r = k \<and> tag_ok (r_ETag r) \<and> reminder_tag s k = r_ETag r"
  by (simp add: memory_ok_def reminder_tag_def)

text \<open>The three operations on the Reminder table, on a good state with room.\<close>

lemma Memory_Claim_cases:
  assumes "memory_ok s" and "reminder_tag s (keyForReminder r) < max_int64"
  obtains (miss) "Memory_Claim None s r nxt = (Inr False, s)"
      "r_ETag r \<noteq> reminder_tag s (keyForReminder r) \<or> gm_get (mem_reminders s) (keyForReminder r) = None"
    | (gone) "nxt = 0" "0 < r_ETag r" "r_ETag r = reminder_tag s (keyForReminder r)"
      "Memory_Claim None s r nxt =
        (Inr True, s\<lparr>mem_reminders := gm_del (keyForReminder r) (mem_reminders s)\<rparr>)"
    | (next_due) cur where "nxt \<noteq> 0" "gm_get (mem_reminders s) (keyForReminder r) = Some cur"
      "0 < r_ETag r" "r_ETag r = r_ETag cur" "r_ETag r = reminder_tag s (keyForReminder r)"
      "Memory_Claim None s r nxt =
        (Inr True, s\<lparr>mem_reminders := gm_put (keyForReminder r)
           (cur\<lparr>r_DueAt := nxt, r_ETag := r_ETag r + 1\<rparr>) (mem_reminders s)\<rparr>)"
proof (cases "gm_get (mem_reminders s) (keyForReminder r)")
  case None
  then show ?thesis by (intro miss) (simp_all add: Memory_Claim_def Let_def)
next
  case (Some cur)
  note found = reminder_found [OF assms(1) Some]
  show ?thesis
  proof (cases "r_ETag cur = r_ETag r")
    case False
    with Some found show ?thesis by (intro miss) (simp_all add: Memory_Claim_def Let_def)
  next
    case True
    with found assms(2) have "wrap64 (r_ETag r + 1) = r_ETag r + 1"
      by (intro wrap64_tag) (simp_all add: tag_ok_def)
    then have eq: "Memory_Claim None s r nxt = (Inr True, if nxt = 0
        then s\<lparr>mem_reminders := gm_del (keyForReminder r) (mem_reminders s)\<rparr>
        else s\<lparr>mem_reminders := gm_put (keyForReminder r)
           (cur\<lparr>r_DueAt := nxt, r_ETag := r_ETag r + 1\<rparr>) (mem_reminders s)\<rparr>)"
      using Some True by (simp add: Memory_Claim_def Let_def)
    have tags: "0 < r_ETag r" "r_ETag r = reminder_tag s (keyForReminder r)"
      using found True by (simp_all add: tag_ok_def)
    show ?thesis
    proof (cases "nxt = 0")
      case True
      with eq tags show ?thesis by (intro gone) simp_all
    next
      case False
      with eq tags Some True show ?thesis by (intro next_due [of cur]) simp_all
    qed
  qed
qed

lemma Memory_Put_eq:
  assumes "memory_ok s" and "reminder_tag s (keyForReminder r) < max_int64"
  shows "Memory_Put None s r = (Inr (), s\<lparr>mem_reminders := gm_put (keyForReminder r)
    (r\<lparr>r_ETag := reminder_tag s (keyForReminder r) + 1\<rparr>) (mem_reminders s)\<rparr>)"
  using assms reminder_tag_nonneg [OF assms(1), of "keyForReminder r"]
  by (auto simp: Memory_Put_def Let_def reminder_tag_def wrap64_tag split: option.splits)

lemma reminder_look_frame [simp]:
  "record_look (s\<lparr>mem_reminders := x\<rparr>) = record_look s"
  "member_look (s\<lparr>mem_reminders := x\<rparr>) = member_look s"
  by (simp_all add: record_look_def member_look_def fun_eq_iff)

lemma keyForReminder_upd [simp]:
  "keyForReminder (r\<lparr>r_ETag := t\<rparr>) = keyForReminder r"
  "keyForReminder (r\<lparr>r_DueAt := d\<rparr>) = keyForReminder r"
  by (simp_all add: keyForReminder_def)

lemma memory_ok_reminders:
  assumes "memory_ok s"
  shows "memory_ok (s\<lparr>mem_reminders := gm_del k (mem_reminders s)\<rparr>)"
    and "tag_ok (r_ETag r) \<Longrightarrow> keyForReminder r = k \<Longrightarrow>
      memory_ok (s\<lparr>mem_reminders := gm_put k r (mem_reminders s)\<rparr>)"
  using assms by (auto simp: memory_ok_def go_map_simps split: if_splits)

lemma Memory_Claim_ok:
  assumes "memory_ok s" and "tag_room s (Suc n)"
  shows "memory_ok (snd (Memory_Claim None s r nxt))"
  using assms(1) tag_roomD(3) [OF assms(2), of "keyForReminder r"]
proof (cases rule: Memory_Claim_cases [of s r nxt])
  case (next_due cur)
  have "keyForReminder cur = keyForReminder r" using assms(1) next_due(2) by (auto dest: reminder_found)
  moreover have "tag_ok (r_ETag r + 1)"
    using next_due(3,5) tag_roomD(3) [OF assms(2), of "keyForReminder r"] by (simp add: tag_ok_def)
  ultimately show ?thesis
    using memory_ok_reminders(2) [OF assms(1), of "cur\<lparr>r_DueAt := nxt, r_ETag := r_ETag r + 1\<rparr>"
        "keyForReminder r"] next_due by simp
qed (simp_all add: assms(1) memory_ok_reminders(1))

lemma Memory_Put_ok:
  assumes "memory_ok s" and "tag_room s (Suc n)"
  shows "memory_ok (snd (Memory_Put None s r))"
  using reminder_tag_nonneg [OF assms(1), of "keyForReminder r"]
    tag_roomD(3) [OF assms(2), of "keyForReminder r"] assms(1)
  by (simp add: Memory_Put_eq memory_ok_reminders(2) tag_ok_def)

lemma memory_step_ok:
  assumes "memory_ok s" and "tag_room s (Suc n)"
  shows "memory_ok (memory_step s op)"
proof (cases op)
  case (OpWrite i d t)
  then show ?thesis using mem_rec.put_step(1) [OF assms(1)] tag_roomD(1) [OF assms(2)] by simp
next
  case (OpWriteMember m)
  then show ?thesis
    using mem_mem.put_step(1) [OF assms(1)] tag_roomD(2) [OF assms(2)] by (simp add: WriteMember_as_put)
next
  case (OpClaim r t)
  then show ?thesis using Memory_Claim_ok [OF assms] by simp
next
  case (OpPut r)
  then show ?thesis using Memory_Put_ok [OF assms] by simp
next
  case (OpDelete i k)
  then show ?thesis using memory_ok_reminders(1) [OF assms(1)] by (simp add: Memory_Delete_def)
qed

text \<open>One step moves the tag of a Reminder row up by at most one, or removes the row.\<close>

lemma record_tag_step:
  assumes "memory_ok s" and "tag_room s (Suc n)"
  shows "tag_of (record_look (memory_step s op) k) \<le> tag_of (record_look s k) + 1"
    and "tag_of (member_look (memory_step s op) k') \<le> tag_of (member_look s k') + 1"
proof -
  note lt = tag_roomD(1,2) [OF assms(2)]
  have c: "record_look (snd (Memory_Claim None s r nxt)) = record_look s"
    "member_look (snd (Memory_Claim None s r nxt)) = member_look s" for r nxt
    by (simp_all add: Memory_Claim_def Let_def split: option.split)
  have "record_look (snd (Memory_WriteMember None s m)) = record_look s" for m
    by (simp add: Memory_WriteMember_def Let_def record_look_def fun_eq_iff)
  then show "tag_of (record_look (memory_step s op) k) \<le> tag_of (record_look s k) + 1"
    using mem_rec.tag_after_put [OF assms(1) lt(1)] c
    by (cases op) (simp_all add: Memory_Put_def Memory_Delete_def Let_def)
  have "member_look (snd (Memory_Write None s i d t)) = member_look s" for i d t
    by (simp add: Memory_Write_def Let_def member_look_def fun_eq_iff)
  then show "tag_of (member_look (memory_step s op) k') \<le> tag_of (member_look s k') + 1"
    using mem_mem.tag_after_put [OF assms(1) lt(2)] c
    by (cases op) (simp_all add: Memory_Put_def Memory_Delete_def Let_def WriteMember_as_put)
qed

lemma reminder_tag_put [simp]:
  "reminder_tag (s\<lparr>mem_reminders := gm_put k r x\<rparr>) k' =
    (if k' = k then r_ETag r else reminder_tag (s\<lparr>mem_reminders := x\<rparr>) k')"
  "reminder_tag (s\<lparr>mem_reminders := gm_del k x\<rparr>) k' =
    (if k' = k then 0 else reminder_tag (s\<lparr>mem_reminders := x\<rparr>) k')"
  "reminder_tag (s\<lparr>mem_reminders := mem_reminders s\<rparr>) k' = reminder_tag s k'"
  by (simp_all add: reminder_tag_def go_map_simps)

text \<open>Whether an operation can remove the row of a key.\<close>

fun may_remove :: "reminder_key \<Rightarrow> memory_op \<Rightarrow> bool" where
  "may_remove k (OpClaim r t) = (keyForReminder r = k \<and> t = 0)"
| "may_remove k (OpDelete i n) = (ReminderKey i n = k)"
| "may_remove k _ = False"

lemma reminder_tag_step:
  assumes "memory_ok s" and "tag_room s (Suc n)"
  shows "reminder_tag (memory_step s op) k \<le> reminder_tag s k + 1"
    and "\<not> may_remove k op \<Longrightarrow> reminder_tag s k \<le> reminder_tag (memory_step s op) k"
proof -
  have pos: "0 \<le> reminder_tag s k'" for k' by (rule reminder_tag_nonneg [OF assms(1)])
  have lt: "reminder_tag s k' < max_int64" for k' by (rule tag_roomD(3) [OF assms(2)])
  have w: "reminder_tag (snd (Memory_Write None s i d t)) k = reminder_tag s k"
    "reminder_tag (snd (Memory_WriteMember None s m)) k = reminder_tag s k" for i d t m
    by (simp_all add: Memory_Write_def Memory_WriteMember_def Let_def reminder_tag_def)
  have c: "reminder_tag (snd (Memory_Claim None s r t)) k \<le> reminder_tag s k + 1 \<and>
      (\<not> (keyForReminder r = k \<and> t = 0) \<longrightarrow>
        reminder_tag s k \<le> reminder_tag (snd (Memory_Claim None s r t)) k)" for r t
    using pos [of k] by (cases rule: Memory_Claim_cases [OF assms(1) lt, of r t]) auto
  show "reminder_tag (memory_step s op) k \<le> reminder_tag s k + 1"
    using pos [of k] c by (cases op) (auto simp: w Memory_Put_eq [OF assms(1) lt] Memory_Delete_def)
  show "reminder_tag s k \<le> reminder_tag (memory_step s op) k" if "\<not> may_remove k op"
    using that c by (cases op) (auto simp: w Memory_Put_eq [OF assms(1) lt] Memory_Delete_def)
qed

lemma tag_room_step:
  assumes "memory_ok s" and "tag_room s (Suc n)"
  shows "tag_room (memory_step s op) n"
  unfolding tag_room_def
proof (intro conjI allI)
  note room = assms(2) [unfolded tag_room_def]
  show "tag_of (record_look (memory_step s op) k) + int n \<le> max_int64" for k
    using record_tag_step(1) [OF assms, of op k] conjunct1 [OF room, THEN spec, of k] by simp
  show "tag_of (member_look (memory_step s op) k) + int n \<le> max_int64" for k
    using record_tag_step(2) [OF assms, of op k] room [THEN conjunct2, THEN conjunct1, THEN spec, of k]
    by simp
  show "reminder_tag (memory_step s op) k + int n \<le> max_int64" for k
    using reminder_tag_step(1) [OF assms, of op k] room [THEN conjunct2, THEN conjunct2, THEN spec, of k]
    by simp
qed

lemma memory_run_ok:
  "memory_ok s \<Longrightarrow> tag_room s (length ops + n) \<Longrightarrow>
    memory_ok (memory_run s ops) \<and> tag_room (memory_run s ops) n"
  by (induction ops arbitrary: s) (auto dest: memory_step_ok tag_room_step)

lemma reminder_tag_run:
  "memory_ok s \<Longrightarrow> tag_room s (length ops) \<Longrightarrow> \<forall>op \<in> set ops. \<not> may_remove k op \<Longrightarrow>
    reminder_tag s k \<le> reminder_tag (memory_run s ops) k"
proof (induction ops arbitrary: s)
  case (Cons op ops)
  then show ?case
    using reminder_tag_step(2) [of s "length ops" k op]
      Cons.IH [OF memory_step_ok tag_room_step, of s "length ops" op] by force
qed simp

section \<open>Properties\<close>

text \<open>
  C29. Invariant of the in-memory store: from the empty store, any interleaving of operations that
  does not exhaust the 63-bit tag space leaves every table with distinct keys, every row stored
  under its own key, and every tag positive.
\<close>

theorem memory_invariant:
  assumes "int (length ops) \<le> max_int64"
  shows "memory_ok (memory_run NewMemory ops)"
proof -
  have "tag_room NewMemory (length ops + 0)"
    using assms by (simp add: tag_room_def NewMemory_def record_look_def member_look_def
        reminder_tag_def tag_of_def)
  with memory_ok_NewMemory show ?thesis using memory_run_ok by blast
qed

theorem memory_invariant_witness:
  "memory_ok (memory_run NewMemory [OpWrite (GrainId ''a'' ''1'') [7] 0, OpDelete (GrainId ''a'' ''1'') ''r''])"
  using memory_invariant [of "[OpWrite (GrainId ''a'' ''1'') [7] 0, OpDelete (GrainId ''a'' ''1'') ''r'']"]
  by (simp add: max_int64_def)

text \<open>
  C1. No lost update on Grain State: once a writer commits against version \<open>t\<close>, every later write
  that still expects version \<open>t\<close> gets \<open>ErrConflict\<close>, whatever other writes happen in between.
\<close>

theorem grain_state_no_lost_update:
  assumes "memory_ok s" and "mem_rec.room s (Suc (length others))"
    and "fst (Memory_Write None s gid data t) = Inr t'"
  shows "t' = t + 1 \<and>
    fst (Memory_Write None (mem_rec.run (snd (Memory_Write None s gid data t)) others) gid data' t) =
      Inl (Sentinel StoreErrConflict)"
proof
  have lt: "tag_of (record_look s gid) < max_int64" by (rule mem_rec.room_tag [OF assms(2)])
  have "tag_of (record_look s gid) = t" using mem_rec.put_miss [OF assms(1)] assms(3) by force
  then show "t' = t + 1" using mem_rec.put_hit [OF assms(1), of gid t data] lt assms(3) by auto
qed (rule mem_rec.at_most_one_winner [OF assms])

theorem grain_state_no_lost_update_witness:
  "fst (Memory_Write None (mem_rec.run (snd (Memory_Write None NewMemory (GrainId ''a'' ''1'') [1] 0))
      [(GrainId ''a'' ''1'', [2], 1)]) (GrainId ''a'' ''1'') [3] 0) = Inl (Sentinel StoreErrConflict)"
proof -
  have "mem_rec.room NewMemory (Suc (length [(GrainId ''a'' ''1'', [2], 1)]))"
    by (simp add: mem_rec.room_def NewMemory_def record_look_def tag_of_def max_int64_def)
  moreover have "fst (Memory_Write None NewMemory (GrainId ''a'' ''1'') [1] 0) = Inr 1"
    by (simp add: Memory_Write_def NewMemory_def Let_def gm_get_or_def zero_record_def wrap64_def)
  ultimately show ?thesis
    using grain_state_no_lost_update [OF memory_ok_NewMemory] by blast
qed


text \<open>A one-row store for the witnesses.\<close>

definition demo_reminder :: reminder where
  "demo_reminder = \<lparr>r_GrainId = GrainId ''a'' ''1'', r_Name = ''n'', r_Method = ''m'',
     r_FirstTickTime = 5, r_DueAt = 5, r_Interval = 10, r_ETag = 1\<rparr>"

definition demo_memory :: memory where
  "demo_memory = memory_run NewMemory [OpPut demo_reminder]"

lemma demo_memory_ok: "memory_ok demo_memory" "tag_room demo_memory 3"
proof -
  have "tag_room NewMemory (length [OpPut demo_reminder] + 3)"
    by (simp add: tag_room_def NewMemory_def record_look_def member_look_def reminder_tag_def tag_of_def
        max_int64_def)
  then show "memory_ok demo_memory" "tag_room demo_memory 3"
    unfolding demo_memory_def using memory_run_ok memory_ok_NewMemory by blast+
qed


text \<open>
  The version of a Reminder restarts at 1 once its row is gone, so a snapshot taken before is
  not stale for a row put later: a second \<open>Claim\<close> with the same one-shot snapshot succeeds again
  and removes the new Reminder, which is then never delivered on its own.
\<close>

theorem reminder_claim_after_recreate:
  assumes "keyForReminder r' = keyForReminder r"
  shows "let s1 = snd (Memory_Put None (snd (Memory_Delete None s (r_GrainId r) (r_Name r))) r);
             snapshot = r\<lparr>r_ETag := 1\<rparr>;
             (won1, s2) = Memory_Claim None s1 snapshot time_zero;
             s3 = snd (Memory_Put None s2 r');
             (won2, s4) = Memory_Claim None s3 snapshot time_zero
         in won1 = Inr True \<and> won2 = Inr True \<and>
            gm_get (mem_reminders s3) (keyForReminder r') = Some (r'\<lparr>r_ETag := 1\<rparr>) \<and>
            gm_get (mem_reminders s4) (keyForReminder r') = None"
  using assms
  by (simp add: Memory_Put_def Memory_Delete_def Memory_Claim_def Let_def go_map_simps)
    (simp add: keyForReminder_def go_map_simps)

theorem reminder_claim_after_recreate_witness:
  "let s1 = snd (Memory_Put None (snd (Memory_Delete None NewMemory (GrainId ''a'' ''1'') ''n'')) demo_reminder);
       (won1, s2) = Memory_Claim None s1 demo_reminder time_zero;
       s3 = snd (Memory_Put None s2 (demo_reminder\<lparr>r_DueAt := 900\<rparr>));
       (won2, s4) = Memory_Claim None s3 demo_reminder time_zero
   in won1 = Inr True \<and> won2 = Inr True \<and>
      gm_get (mem_reminders s4) (ReminderKey (GrainId ''a'' ''1'') ''n'') = None"
  using reminder_claim_after_recreate [of "demo_reminder\<lparr>r_DueAt := 900\<rparr>" demo_reminder NewMemory]
  by (simp add: Let_def split_beta) (simp add: demo_reminder_def keyForReminder_def)

text \<open>
  \<open>ListDue\<close> returns exactly the rows that are due, each once, sorted by due time, identity
  and name.
\<close>

theorem Memory_ListDue_spec:
  assumes "memory_ok s"
  shows "\<exists>due. Memory_ListDue None s now = Inr due \<and> distinct due \<and>
    (\<forall>r. r \<in> set due \<longleftrightarrow> gm_get (mem_reminders s) (keyForReminder r) = Some r \<and> r_DueAt r \<le> now) \<and>
    sorted (map (\<lambda>r. (r_DueAt r, GrainType (r_GrainId r), GrainKey (r_GrainId r), r_Name r)) due)"
proof -
  have ok: "gm_ok (mem_reminders s)" using assms by (simp add: memory_ok_def)
  have key: "keyForReminder r = k" if "(k, r) \<in> set (mem_reminders s)" for k r
    using reminder_found [OF assms, of k r] that gm_ok_get_iff [OF ok] by blast
  have "inj_on snd (set (mem_reminders s))"
    by (rule inj_onI) (metis key prod.collapse)
  then have dist: "distinct (map snd (mem_reminders s))"
    using gm_ok_distinct [OF ok] by (simp add: distinct_map)
  have "r \<in> snd ` set (mem_reminders s) \<longleftrightarrow> gm_get (mem_reminders s) (keyForReminder r) = Some r" for r
    using key gm_ok_get_iff [OF ok] by force
  with dist show ?thesis
    by (auto simp: Memory_ListDue_def sortReminders_def not_less)
qed

theorem Memory_ListDue_spec_witness:
  "\<exists>due. Memory_ListDue None demo_memory 5 = Inr due \<and> demo_reminder \<in> set due"
proof -
  have "gm_get (mem_reminders demo_memory) (keyForReminder demo_reminder) = Some demo_reminder"
    "r_DueAt demo_reminder \<le> 5"
    by (simp_all add: demo_memory_def demo_reminder_def NewMemory_def Memory_Put_def Let_def)
  then show ?thesis using Memory_ListDue_spec [OF demo_memory_ok(1), of 5] by blast
qed

end
