(* ===== verification/Gor_Json.thy ===== *)
theory Gor_Json
  imports Gor_Errors
begin

text \<open>
  The JSON documents the program writes and reads with \<open>encoding/json\<close>. A document is represented
  by its value; the bytes of a document are \<open>JsonText v\<close>, and \<open>JsonJunk b\<close> is any other byte
  string. Objects keep their members in order; decoding into a struct visits the members in
  order, ignores unknown names, lets a later member overwrite an earlier one and leaves a field
  alone on \<open>null\<close>. Names are matched exactly. A number with a fraction or an exponent is \<open>JReal\<close> of
  its literal.
\<close>

datatype json =
    JNull
  | JBool bool
  | JNum int
  | JReal string
  | JStr string
  | JArr "json list"
  | JObj "(string \<times> json) list"

datatype json_text = JsonText json | JsonJunk "byte list"

definition json_empty :: json_text where "json_empty = JsonJunk []"

definition json_syntax_error :: go_error where
  "json_syntax_error = NewErr ''invalid JSON''"

definition json_type_error :: go_error where
  "json_type_error = NewErr ''json: cannot unmarshal value into Go value''"

text \<open>Decoding one value into a field that holds \<open>old\<close>.\<close>

fun un_string :: "string \<Rightarrow> json \<Rightarrow> string result" where
  "un_string old JNull = Inr old"
| "un_string old (JStr s) = Inr s"
| "un_string old _ = Inl json_type_error"

fun un_int64 :: "int \<Rightarrow> json \<Rightarrow> int result" where
  "un_int64 old JNull = Inr old"
| "un_int64 old (JNum n) = (if in_int64 n then Inr n else Inl json_type_error)"
| "un_int64 old _ = Inl json_type_error"

text \<open>Decoding an object: \<open>field\<close> handles one member, the identity on unknown names.\<close>

fun un_fields :: "(string \<Rightarrow> json \<Rightarrow> 'a \<Rightarrow> 'a result) \<Rightarrow> (string \<times> json) list \<Rightarrow> 'a \<Rightarrow> 'a result" where
  "un_fields field [] v = Inr v"
| "un_fields field ((n, j) # rest) v =
     (case field n j v of Inl e \<Rightarrow> Inl e | Inr v' \<Rightarrow> un_fields field rest v')"

fun un_struct :: "(string \<Rightarrow> json \<Rightarrow> 'a \<Rightarrow> 'a result) \<Rightarrow> 'a \<Rightarrow> json \<Rightarrow> 'a result" where
  "un_struct field zero JNull = Inr zero"
| "un_struct field zero (JObj ms) = un_fields field ms zero"
| "un_struct field zero _ = Inl json_type_error"

fun un_list :: "(json \<Rightarrow> 'a result) \<Rightarrow> json list \<Rightarrow> 'a list result" where
  "un_list elem [] = Inr []"
| "un_list elem (j # js) =
     (case elem j of Inl e \<Rightarrow> Inl e
      | Inr v \<Rightarrow> (case un_list elem js of Inl e \<Rightarrow> Inl e | Inr vs \<Rightarrow> Inr (v # vs)))"

fun un_array :: "(json \<Rightarrow> 'a result) \<Rightarrow> json \<Rightarrow> 'a list result" where
  "un_array elem JNull = Inr []"
| "un_array elem (JArr js) = un_list elem js"
| "un_array elem _ = Inl json_type_error"

definition json_unmarshal :: "(json \<Rightarrow> 'a result) \<Rightarrow> json_text \<Rightarrow> 'a result" where
  "json_unmarshal dec text = (case text of JsonJunk _ \<Rightarrow> Inl json_syntax_error | JsonText j \<Rightarrow> dec j)"

lemma un_list_map:
  "(\<And>v. v \<in> set vs \<Longrightarrow> elem (enc v) = Inr (f v)) \<Longrightarrow> un_list elem (map enc vs) = Inr (map f vs)"
  by (induction vs) simp_all

lemma json_unmarshal_text [simp]: "json_unmarshal dec (JsonText j) = dec j"
  by (simp add: json_unmarshal_def)

end
