(* ===== verification/Gor_Sqlite.thy ===== *)
theory Gor_Sqlite
  imports Gor_Store Gor_Json
begin

text \<open>
  The SQLite backend: \<open>store/sqlite.go\<close>, \<open>store/member_sqlite.go\<close>, \<open>store/schedule_sqlite.go\<close>.
  A table is the list of its rows in insertion order; the statements of the source are written out
  with their effect on the rows and the number of rows they report. The driver decides the fate of
  each call: it runs, fails before it takes effect, or fails after it did. The theory shows that
  the backend refines the in-memory store, operation by operation, that it meets the same
  compare-and-swap contract, and that the migrations can be interrupted anywhere.
\<close>

section \<open>Statements\<close>

text \<open>\<open>INSERT ... ON CONFLICT (key) DO NOTHING\<close>, \<open>UPDATE\<close>, \<open>DELETE\<close> and the upsert.\<close>

definition sql_insert_ignore :: "('r \<Rightarrow> 'k) \<Rightarrow> 'r \<Rightarrow> 'r list \<Rightarrow> nat \<times> 'r list" where
  "sql_insert_ignore key row rows =
     (if list_ex (\<lambda>r. key r = key row) rows then (0, rows) else (1, rows @ [row]))"

definition sql_update :: "('r \<Rightarrow> bool) \<Rightarrow> ('r \<Rightarrow> 'r) \<Rightarrow> 'r list \<Rightarrow> nat \<times> 'r list" where
  "sql_update cond set_cols rows =
     (length (filter cond rows), map (\<lambda>r. if cond r then set_cols r else r) rows)"

definition sql_delete :: "('r \<Rightarrow> bool) \<Rightarrow> 'r list \<Rightarrow> nat \<times> 'r list" where
  "sql_delete cond rows = (length (filter cond rows), filter (\<lambda>r. \<not> cond r) rows)"

definition sql_upsert :: "('r \<Rightarrow> 'k) \<Rightarrow> 'r \<Rightarrow> ('r \<Rightarrow> 'r) \<Rightarrow> 'r list \<Rightarrow> nat \<times> 'r list" where
  "sql_upsert key row set_cols rows =
     (if list_ex (\<lambda>r. key r = key row) rows
      then sql_update (\<lambda>r. key r = key row) set_cols rows else (1, rows @ [row]))"

text \<open>\<open>ExecContext\<close> followed by \<open>RowsAffected\<close>.\<close>

definition exec :: "fate \<Rightarrow> nat \<times> 'r list \<Rightarrow> 'r list \<Rightarrow> nat result \<times> 'r list" where
  "exec f outcome rows =
     (case f of
        Runs \<Rightarrow> (Inr (fst outcome), snd outcome)
      | FailsBefore e \<Rightarrow> (Inl e, rows)
      | FailsAfter e \<Rightarrow> (Inl e, snd outcome))"

section \<open>Tables\<close>

record records_row =
  rr_identity :: grain_id
  rr_data :: "byte list"
  rr_etag :: int

record schedule_row =
  sr_entity :: grain_id
  sr_name :: string
  sr_method :: string
  sr_first_tick_time :: int
  sr_due_at :: int
  sr_interval :: int
  sr_etag :: int

record member_db_row =
  mr_id :: member_id
  mr_status :: string
  mr_iam_alive_at :: int
  mr_suspect_votes :: json_text
  mr_etag :: int

record sqlite =
  sq_records :: "records_row list"
  sq_schedule :: "schedule_row list"
  sq_member :: "member_db_row list"

definition sr_key :: "schedule_row \<Rightarrow> reminder_key" where
  "sr_key r = ReminderKey (sr_entity r) (sr_name r)"

section \<open>The vote column\<close>

record suspectVoteValue =
  sv_NodeAddr :: string
  sv_Generation :: string
  sv_ExpiresAt :: int

definition suspectVoteValue_json :: "suspectVoteValue \<Rightarrow> json" where
  "suspectVoteValue_json v = JObj [(''node_addr'', JStr (sv_NodeAddr v)),
     (''generation'', JStr (sv_Generation v)), (''expires_at'', JNum (sv_ExpiresAt v))]"

definition zero_suspectVoteValue :: suspectVoteValue where
  "zero_suspectVoteValue = \<lparr>sv_NodeAddr = [], sv_Generation = [], sv_ExpiresAt = 0\<rparr>"

definition suspectVoteValue_field ::
    "string \<Rightarrow> json \<Rightarrow> suspectVoteValue \<Rightarrow> suspectVoteValue result" where
  "suspectVoteValue_field n j v =
     (if n = ''node_addr''
      then map_sum id (\<lambda>s. v\<lparr>sv_NodeAddr := s\<rparr>) (un_string (sv_NodeAddr v) j)
      else if n = ''generation''
      then map_sum id (\<lambda>s. v\<lparr>sv_Generation := s\<rparr>) (un_string (sv_Generation v) j)
      else if n = ''expires_at''
      then map_sum id (\<lambda>i. v\<lparr>sv_ExpiresAt := i\<rparr>) (un_int64 (sv_ExpiresAt v) j)
      else Inr v)"

definition encodeSuspectVotes :: "suspect_votes \<Rightarrow> json_text" where
  "encodeSuspectVotes votes =
     (let values = map (\<lambda>(id, expires). \<lparr>sv_NodeAddr = id_NodeAddr id,
            sv_Generation = id_Generation id, sv_ExpiresAt = timeValue expires\<rparr>) votes;
          sorted_values = sort_key (\<lambda>v. (sv_NodeAddr v, sv_Generation v)) values
      in JsonText (JArr (map suspectVoteValue_json sorted_values)))"

definition decodeSuspectVotes :: "json_text \<Rightarrow> suspect_votes result" where
  "decodeSuspectVotes data =
     (if data = json_empty then Inr []
      else case json_unmarshal (un_array (un_struct suspectVoteValue_field zero_suspectVoteValue)) data of
             Inl e \<Rightarrow> Inl e
           | Inr values \<Rightarrow>
               Inr (foldl (\<lambda>votes v. gm_put (MemberID (sv_NodeAddr v) (sv_Generation v))
                      (timeFromValue (sv_ExpiresAt v)) votes) [] values))"

section \<open>Grain State records\<close>

definition SQLite_Read :: "go_error option \<Rightarrow> sqlite \<Rightarrow> grain_id \<Rightarrow> store_record result" where
  "SQLite_Read query_err s gid =
     (case query_err of
        Some e \<Rightarrow> Inl e
      | None \<Rightarrow> (case find (\<lambda>r. rr_identity r = gid) (sq_records s) of
            None \<Rightarrow> Inr zero_record
          | Some r \<Rightarrow> Inr \<lparr>rec_Data = clone_bytes (rr_data r), rec_ETag = rr_etag r\<rparr>))"

definition SQLite_Write ::
    "fate \<Rightarrow> sqlite \<Rightarrow> grain_id \<Rightarrow> byte list \<Rightarrow> etag \<Rightarrow> etag result \<times> sqlite" where
  "SQLite_Write f s gid data expect =
     (let (res, rows) =
        (if expect = 0
         then exec f (sql_insert_ignore rr_identity
                \<lparr>rr_identity = gid, rr_data = data, rr_etag = 1\<rparr> (sq_records s)) (sq_records s)
         else exec f (sql_update (\<lambda>r. rr_identity r = gid \<and> rr_etag r = expect)
                (\<lambda>r. r\<lparr>rr_data := data, rr_etag := rr_etag r + 1\<rparr>) (sq_records s)) (sq_records s));
          s' = s\<lparr>sq_records := rows\<rparr>
      in case res of
           Inl e \<Rightarrow> (Inl e, s')
         | Inr n \<Rightarrow> if n \<noteq> 1 then (Inl (Sentinel StoreErrConflict), s')
                    else (Inr (wrap64 (expect + 1)), s'))"

section \<open>Members\<close>

definition SQLite_WriteMember :: "fate \<Rightarrow> sqlite \<Rightarrow> member \<Rightarrow> etag result \<times> sqlite" where
  "SQLite_WriteMember f s member =
     (let votes = encodeSuspectVotes (m_SuspectVotes member);
          (res, rows) =
            (if m_ETag member = 0
             then exec f (sql_insert_ignore mr_id
                    \<lparr>mr_id = keyForMember member, mr_status = m_Status member,
                     mr_iam_alive_at = timeValue (m_IamAliveAt member), mr_suspect_votes = votes,
                     mr_etag = 1\<rparr> (sq_member s)) (sq_member s)
             else exec f (sql_update
                    (\<lambda>r. mr_id r = keyForMember member \<and> mr_etag r = m_ETag member)
                    (\<lambda>r. r\<lparr>mr_status := m_Status member,
                           mr_iam_alive_at := timeValue (m_IamAliveAt member),
                           mr_suspect_votes := votes, mr_etag := mr_etag r + 1\<rparr>)
                    (sq_member s)) (sq_member s));
          s' = s\<lparr>sq_member := rows\<rparr>
      in case res of
           Inl e \<Rightarrow> (Inl e, s')
         | Inr n \<Rightarrow> if n \<noteq> 1 then (Inl (Sentinel StoreErrConflict), s')
                    else (Inr (wrap64 (m_ETag member + 1)), s'))"

fun scan_members :: "member_db_row list \<Rightarrow> member list result" where
  "scan_members [] = Inr []"
| "scan_members (r # rs) =
     (case decodeSuspectVotes (mr_suspect_votes r) of
        Inl e \<Rightarrow> Inl e
      | Inr votes \<Rightarrow>
          (case scan_members rs of
             Inl e \<Rightarrow> Inl e
           | Inr ms \<Rightarrow> Inr (\<lparr>m_NodeAddr = id_NodeAddr (mr_id r), m_Generation = id_Generation (mr_id r),
               m_Status = mr_status r, m_IamAliveAt = timeFromValue (mr_iam_alive_at r),
               m_SuspectVotes = votes, m_ETag = mr_etag r\<rparr> # ms)))"

definition SQLite_ListMembers ::
    "go_error option \<Rightarrow> go_error option \<Rightarrow> sqlite \<Rightarrow> gtime \<Rightarrow> member_snapshot result" where
  "SQLite_ListMembers query_err rows_err s now =
     (case query_err of
        Some e \<Rightarrow> Inl e
      | None \<Rightarrow>
          (case scan_members
                  (sort_key (\<lambda>r. (id_NodeAddr (mr_id r), id_Generation (mr_id r))) (sq_member s)) of
             Inl e \<Rightarrow> Inl e
           | Inr ms \<Rightarrow> (case rows_err of
                 Some e \<Rightarrow> Inl e
               | None \<Rightarrow> Inr \<lparr>ms_Members = ms, ms_TableNow = now\<rparr>)))"

section \<open>Reminders\<close>

definition reminder_of_row :: "schedule_row \<Rightarrow> reminder" where
  "reminder_of_row r = \<lparr>r_GrainId = sr_entity r, r_Name = sr_name r, r_Method = sr_method r,
     r_FirstTickTime = timeFromValue (sr_first_tick_time r), r_DueAt = timeFromValue (sr_due_at r),
     r_Interval = sr_interval r, r_ETag = sr_etag r\<rparr>"

definition SQLite_ListDue ::
    "go_error option \<Rightarrow> go_error option \<Rightarrow> sqlite \<Rightarrow> gtime \<Rightarrow> reminder list result" where
  "SQLite_ListDue query_err rows_err s now =
     (case query_err of
        Some e \<Rightarrow> Inl e
      | None \<Rightarrow>
          (let rows = sort_key
                 (\<lambda>r. (sr_due_at r, GrainType (sr_entity r), GrainKey (sr_entity r), sr_name r))
                 (filter (\<lambda>r. sr_due_at r \<le> timeValue now) (sq_schedule s))
           in case rows_err of Some e \<Rightarrow> Inl e | None \<Rightarrow> Inr (map reminder_of_row rows)))"

definition SQLite_Claim :: "fate \<Rightarrow> sqlite \<Rightarrow> reminder \<Rightarrow> gtime \<Rightarrow> bool result \<times> sqlite" where
  "SQLite_Claim f s r nextDueAt =
     (let (res, rows) =
        (if time_is_zero nextDueAt
         then exec f (sql_delete (\<lambda>x. sr_key x = keyForReminder r \<and> sr_etag x = r_ETag r)
                (sq_schedule s)) (sq_schedule s)
         else exec f (sql_update (\<lambda>x. sr_key x = keyForReminder r \<and> sr_etag x = r_ETag r)
                (\<lambda>x. x\<lparr>sr_due_at := timeValue nextDueAt, sr_etag := sr_etag x + 1\<rparr>)
                (sq_schedule s)) (sq_schedule s));
          s' = s\<lparr>sq_schedule := rows\<rparr>
      in case res of Inl e \<Rightarrow> (Inl e, s') | Inr n \<Rightarrow> (Inr (n = 1), s'))"

definition SQLite_Put :: "fate \<Rightarrow> sqlite \<Rightarrow> reminder \<Rightarrow> unit result \<times> sqlite" where
  "SQLite_Put f s r =
     (let (res, rows) = exec f (sql_upsert sr_key
            \<lparr>sr_entity = r_GrainId r, sr_name = r_Name r, sr_method = r_Method r,
             sr_first_tick_time = timeValue (r_FirstTickTime r), sr_due_at = timeValue (r_DueAt r),
             sr_interval = r_Interval r, sr_etag = 1\<rparr>
            (\<lambda>x. x\<lparr>sr_method := r_Method r, sr_first_tick_time := timeValue (r_FirstTickTime r),
                   sr_due_at := timeValue (r_DueAt r), sr_interval := r_Interval r,
                   sr_etag := sr_etag x + 1\<rparr>) (sq_schedule s)) (sq_schedule s)
      in (case res of Inl e \<Rightarrow> Inl e | Inr _ \<Rightarrow> Inr (), s\<lparr>sq_schedule := rows\<rparr>))"

definition SQLite_Delete :: "fate \<Rightarrow> sqlite \<Rightarrow> grain_id \<Rightarrow> string \<Rightarrow> unit result \<times> sqlite" where
  "SQLite_Delete f s gid name =
     (let (res, rows) = exec f (sql_delete (\<lambda>x. sr_entity x = gid \<and> sr_name x = name)
            (sq_schedule s)) (sq_schedule s)
      in (case res of Inl e \<Rightarrow> Inl e | Inr _ \<Rightarrow> Inr (), s\<lparr>sq_schedule := rows\<rparr>))"

section \<open>A table as a Go map\<close>

definition tbl :: "('r \<Rightarrow> 'k) \<Rightarrow> ('r \<Rightarrow> 'v) \<Rightarrow> 'r list \<Rightarrow> ('k, 'v) gomap" where
  "tbl kf vf rows = map (\<lambda>r. (kf r, vf r)) rows"

lemma tbl_simps [simp]:
  "tbl kf vf [] = []" "tbl kf vf (r # rows) = (kf r, vf r) # tbl kf vf rows"
  "tbl kf vf (xs @ ys) = tbl kf vf xs @ tbl kf vf ys" "fst ` set (tbl kf vf rows) = kf ` set rows"
  by (auto simp: tbl_def image_image)

lemma tbl_ok: "gm_ok (tbl kf vf rows) \<longleftrightarrow> distinct (map kf rows)"
  by (simp add: gm_ok_def tbl_def comp_def)

lemma tbl_get: "gm_get (tbl kf vf rows) k = map_option vf (find (\<lambda>r. kf r = k) rows)"
  by (induction rows) auto

lemma filter_key_absent: "k \<notin> kf ` set rows \<Longrightarrow> filter (\<lambda>r. kf r = k \<and> P r) rows = []"
  by (induction rows) auto

lemma find_key_None: "find (\<lambda>r. kf r = k) rows = None \<longleftrightarrow> k \<notin> kf ` set rows"
  by (induction rows) auto

lemma list_ex_key: "list_ex (\<lambda>r. kf r = k) rows \<longleftrightarrow> find (\<lambda>r. kf r = k) rows \<noteq> None"
  by (induction rows) auto

lemma find_key_mem: "find (\<lambda>r. kf r = k) rows = Some r \<Longrightarrow> r \<in> set rows \<and> kf r = k"
  by (induction rows) (auto split: if_splits)

lemma map_if_absent:
  "k \<notin> kf ` set rows \<Longrightarrow> map (\<lambda>r. if kf r = k \<and> P r then f r else r) rows = rows"
  by (induction rows) auto

text \<open>An \<open>UPDATE\<close> or \<open>DELETE\<close> by primary key touches at most one row.\<close>

lemma sql_update_key:
  assumes "distinct (map kf rows)" and "\<And>r. kf (f r) = kf r"
  shows "sql_update (\<lambda>r. kf r = k \<and> P r) f rows = (n, rows') \<Longrightarrow>
    (case find (\<lambda>r. kf r = k) rows of
       Some r \<Rightarrow> if P r then n = 1 \<and> tbl kf vf rows' = gm_put k (vf (f r)) (tbl kf vf rows)
                 else n = 0 \<and> rows' = rows
     | None \<Rightarrow> n = 0 \<and> rows' = rows)"
  using assms(1)
proof (induction rows arbitrary: n rows')
  case (Cons a rows)
  show ?case
  proof (cases "kf a = k")
    case True
    with Cons.prems have "k \<notin> kf ` set rows" by auto
    with Cons.prems True show ?thesis
      by (auto simp: sql_update_def map_if_absent filter_key_absent assms(2))
  next
    case False
    obtain n' rs where rec: "sql_update (\<lambda>r. kf r = k \<and> P r) f rows = (n', rs)" by fastforce
    with Cons.prems False have "n = n'" "rows' = a # rs" by (auto simp: sql_update_def)
    with Cons.IH [OF rec] Cons.prems False show ?thesis by (auto split: option.splits if_splits)
  qed
qed (simp add: sql_update_def)

lemma sql_delete_key:
  assumes "distinct (map kf rows)"
  shows "sql_delete (\<lambda>r. kf r = k \<and> P r) rows = (n, rows') \<Longrightarrow>
    (case find (\<lambda>r. kf r = k) rows of
       Some r \<Rightarrow> if P r then n = 1 \<and> tbl kf vf rows' = gm_del k (tbl kf vf rows)
                 else n = 0 \<and> rows' = rows
     | None \<Rightarrow> n = 0 \<and> rows' = rows)"
  using assms
proof (induction rows arbitrary: n rows')
  case (Cons a rows)
  show ?case
  proof (cases "kf a = k")
    case True
    with Cons.prems have k: "k \<notin> kf ` set rows" by auto
    then have "filter (\<lambda>r. kf r = k \<longrightarrow> \<not> P r) rows = rows"
      by (induction rows) auto
    moreover have "gm_del k (tbl kf vf rows) = tbl kf vf rows"
      using k by (simp add: delete_idem)
    ultimately show ?thesis
      using Cons.prems True k by (auto simp: sql_delete_def filter_key_absent)
  next
    case False
    obtain n' rs where rec: "sql_delete (\<lambda>r. kf r = k \<and> P r) rows = (n', rs)" by fastforce
    with Cons.prems False have "n = n'" "rows' = a # rs" by (auto simp: sql_delete_def)
    with Cons.IH [OF rec] Cons.prems False show ?thesis by (auto split: option.splits if_splits)
  qed
qed (simp add: sql_delete_def)

lemma sql_insert_ignore_key:
  "sql_insert_ignore kf row rows = (n, rows') \<Longrightarrow>
    (case find (\<lambda>r. kf r = kf row) rows of
       Some r \<Rightarrow> n = 0 \<and> rows' = rows
     | None \<Rightarrow> n = 1 \<and> tbl kf vf rows' = gm_put (kf row) (vf row) (tbl kf vf rows))"
  by (auto simp: sql_insert_ignore_def list_ex_key find_key_None gm_put_absent
      split: if_splits option.splits)

lemma sql_upsert_key:
  assumes "distinct (map kf rows)" and "\<And>r. kf (f r) = kf r"
    and "sql_upsert kf row f rows = (n, rows')"
  shows "tbl kf vf rows' = gm_put (kf row)
    (case find (\<lambda>r. kf r = kf row) rows of Some r \<Rightarrow> vf (f r) | None \<Rightarrow> vf row) (tbl kf vf rows)"
proof (cases "find (\<lambda>r. kf r = kf row) rows")
  case None
  with assms(3) show ?thesis
    by (auto simp: sql_upsert_def list_ex_key gm_put_absent find_key_None [THEN iffD1])
next
  case (Some r)
  with assms(3) have "sql_update (\<lambda>r. kf r = kf row \<and> True) f rows = (n, rows')"
    by (simp add: sql_upsert_def list_ex_key)
  from sql_update_key [OF assms(1,2) this, of vf] Some show ?thesis by simp
qed

section \<open>Refinement of the in-memory store\<close>

definition record_of_row :: "records_row \<Rightarrow> store_record" where
  "record_of_row r = \<lparr>rec_Data = rr_data r, rec_ETag = rr_etag r\<rparr>"

definition votes_of_row :: "member_db_row \<Rightarrow> suspect_votes" where
  "votes_of_row r = (case decodeSuspectVotes (mr_suspect_votes r) of Inl _ \<Rightarrow> [] | Inr v \<Rightarrow> v)"

definition member_of_row :: "member_db_row \<Rightarrow> member" where
  "member_of_row r = \<lparr>m_NodeAddr = id_NodeAddr (mr_id r), m_Generation = id_Generation (mr_id r),
     m_Status = mr_status r, m_IamAliveAt = timeFromValue (mr_iam_alive_at r),
     m_SuspectVotes = votes_of_row r, m_ETag = mr_etag r\<rparr>"

definition memory_of :: "sqlite \<Rightarrow> memory" where
  "memory_of s = \<lparr>mem_records = tbl rr_identity record_of_row (sq_records s),
     mem_reminders = tbl sr_key reminder_of_row (sq_schedule s),
     mem_members = tbl mr_id member_of_row (sq_member s)\<rparr>"

definition NewSQLite :: sqlite where
  "NewSQLite = \<lparr>sq_records = [], sq_schedule = [], sq_member = []\<rparr>"

definition sqlite_ok :: "sqlite \<Rightarrow> bool" where
  "sqlite_ok s \<longleftrightarrow> memory_ok (memory_of s) \<and>
     (\<forall>r \<in> set (sq_member s). \<exists>v. decodeSuspectVotes (mr_suspect_votes r) = Inr v)"

text \<open>What a time, a vote map and a row look like once they went through the columns.\<close>

definition norm_time :: "gtime \<Rightarrow> gtime" where
  "norm_time t = timeFromValue (timeValue t)"

definition canon_votes :: "suspect_votes \<Rightarrow> suspect_votes" where
  "canon_votes votes = sort_key (\<lambda>(i, e). (id_NodeAddr i, id_Generation i))
     (map (\<lambda>(i, e). (i, norm_time e)) votes)"

definition canon_member :: "member \<Rightarrow> member" where
  "canon_member m = m\<lparr>m_IamAliveAt := norm_time (m_IamAliveAt m),
     m_SuspectVotes := canon_votes (m_SuspectVotes m)\<rparr>"

definition canon_reminder :: "reminder \<Rightarrow> reminder" where
  "canon_reminder r = r\<lparr>r_FirstTickTime := norm_time (r_FirstTickTime r), r_DueAt := norm_time (r_DueAt r)\<rparr>"

fun canon_op :: "memory_op \<Rightarrow> memory_op" where
  "canon_op (OpWriteMember m) = OpWriteMember (canon_member m)"
| "canon_op (OpPut r) = OpPut (canon_reminder r)"
| "canon_op op = op"

text \<open>Times the \<open>INTEGER\<close> columns can hold exactly: 292 years around 1970.\<close>

definition unix_range :: "gtime \<Rightarrow> bool" where
  "unix_range t \<longleftrightarrow> in_int64 (t - unix_epoch)"

lemma norm_time_id [simp]: "unix_range t \<Longrightarrow> norm_time t = t"
  by (simp add: norm_time_def timeFromValue_def timeValue_def unix_range_def)

lemma timeValue_in [simp]: "in_int64 (timeValue t)"
  by (simp add: timeValue_def)

lemma timeFromValue_le [simp]: "timeFromValue a \<le> timeFromValue b \<longleftrightarrow> a \<le> b"
  by (simp add: timeFromValue_def)

subsection \<open>The vote column round trip\<close>

lemma suspectVoteValue_roundtrip:
  "in_int64 (sv_ExpiresAt v) \<Longrightarrow>
    un_struct suspectVoteValue_field zero_suspectVoteValue (suspectVoteValue_json v) = Inr v"
  by (simp add: suspectVoteValue_json_def suspectVoteValue_field_def zero_suspectVoteValue_def)

lemma foldl_put_distinct:
  "distinct (map fst acc @ map f vs) \<Longrightarrow>
    foldl (\<lambda>m v. gm_put (f v) (g v) m) acc vs = acc @ map (\<lambda>v. (f v, g v)) vs"
proof (induction vs arbitrary: acc)
  case (Cons v vs)
  then have "gm_put (f v) (g v) acc = acc @ [(f v, g v)]"
    by (intro gm_put_absent) auto
  with Cons.IH [of "acc @ [(f v, g v)]"] Cons.prems show ?case by simp
qed simp

lemma decode_encode_votes:
  assumes "gm_ok votes"
  shows "decodeSuspectVotes (encodeSuspectVotes votes) = Inr (canon_votes votes)"
proof -
  define enc where "enc = (\<lambda>(i, e). \<lparr>sv_NodeAddr = id_NodeAddr i, sv_Generation = id_Generation i,
    sv_ExpiresAt = timeValue e\<rparr>)"
  define dec where "dec v = (MemberID (sv_NodeAddr v) (sv_Generation v), timeFromValue (sv_ExpiresAt v))"
    for v :: suspectVoteValue
  let ?vals = "sort_key (\<lambda>v. (sv_NodeAddr v, sv_Generation v)) (map enc votes)"
  have "un_list (un_struct suspectVoteValue_field zero_suspectVoteValue)
      (map suspectVoteValue_json ?vals) = Inr (map id ?vals)"
    by (rule un_list_map) (auto simp: enc_def suspectVoteValue_roundtrip)
  then have "decodeSuspectVotes (encodeSuspectVotes votes) =
      Inr (foldl (\<lambda>m v. gm_put (fst (dec v)) (snd (dec v)) m) [] ?vals)"
    by (simp add: decodeSuspectVotes_def encodeSuspectVotes_def json_empty_def enc_def dec_def)
  also have "distinct (map (\<lambda>v. fst (dec v)) (map enc votes))"
    using assms by (simp add: gm_ok_def dec_def enc_def comp_def case_prod_beta)
  then have "distinct (map (\<lambda>v. fst (dec v)) ?vals)"
    by (metis distinct_map distinct_sort set_sort)
  then have "foldl (\<lambda>m v. gm_put (fst (dec v)) (snd (dec v)) m) [] ?vals = map dec ?vals"
    using foldl_put_distinct [of "[]" "\<lambda>v. fst (dec v)" ?vals "\<lambda>v. snd (dec v)"] by simp
  also have "map dec ?vals =
      sort_key (\<lambda>(i, e). (id_NodeAddr i, id_Generation i)) (map (dec \<circ> enc) votes)"
    by (subst map_sort_key [where k' = "\<lambda>(i, e). (id_NodeAddr i, id_Generation i)"])
      (simp_all add: dec_def comp_def)
  also have "map (dec \<circ> enc) votes = map (\<lambda>(i, e). (i, norm_time e)) votes"
    by (auto simp: dec_def enc_def norm_time_def)
  finally show ?thesis by (simp add: canon_votes_def)
qed

subsection \<open>Operations\<close>

lemma sqlite_distinct:
  assumes "sqlite_ok s"
  shows "distinct (map rr_identity (sq_records s))" "distinct (map sr_key (sq_schedule s))"
    "distinct (map mr_id (sq_member s))"
  using assms by (simp_all add: sqlite_ok_def memory_ok_def memory_of_def tbl_ok)

lemma sqlite_tags:
  assumes "sqlite_ok s"
  shows "find (\<lambda>r. rr_identity r = k) (sq_records s) = Some x \<Longrightarrow> tag_ok (rr_etag x)"
    and "find (\<lambda>r. sr_key r = k') (sq_schedule s) = Some y \<Longrightarrow> tag_ok (sr_etag y)"
    and "find (\<lambda>r. mr_id r = k'') (sq_member s) = Some z \<Longrightarrow> tag_ok (mr_etag z)"
  using memory_ok_tags [of "memory_of s"] assms
  by (fastforce simp: sqlite_ok_def memory_of_def tbl_get record_of_row_def reminder_of_row_def
      member_of_row_def)+

lemma tag_wrap: "tag_ok t \<Longrightarrow> t < max_int64 \<Longrightarrow> wrap64 (t + 1) = t + 1"
  by (rule wrap64_tag) (simp_all add: tag_ok_def)

lemma wrap64_1 [simp]: "wrap64 1 = 1"
  by (simp add: wrap64_def)

lemma SQLite_Write_refines:
  assumes "sqlite_ok s" and "tag_of (record_look (memory_of s) gid) < max_int64"
  shows "Memory_Write None (memory_of s) gid data expect =
    (case SQLite_Write Runs s gid data expect of (r, s') \<Rightarrow> (r, memory_of s'))"
proof (cases "find (\<lambda>r. rr_identity r = gid) (sq_records s)")
  case None
  obtain n rows where i: "sql_insert_ignore rr_identity
      \<lparr>rr_identity = gid, rr_data = data, rr_etag = 1\<rparr> (sq_records s) = (n, rows)" by fastforce
  obtain m rows2 where u: "sql_update (\<lambda>r. rr_identity r = gid \<and> rr_etag r = expect)
      (\<lambda>r. r\<lparr>rr_data := data, rr_etag := rr_etag r + 1\<rparr>) (sq_records s) = (m, rows2)" by fastforce
  show ?thesis
    using sql_insert_ignore_key [OF i, of record_of_row]
      sql_update_key [OF sqlite_distinct(1) [OF assms(1)] _ u, of record_of_row] None
    by (simp add: SQLite_Write_def Memory_Write_def exec_def i u memory_of_def tbl_get gm_get_or_def
        zero_record_def record_of_row_def Let_def)
next
  case (Some x)
  note tag = sqlite_tags(1) [OF assms(1) Some]
  have lt: "rr_etag x < max_int64"
    using assms(2) Some by (simp add: record_look_def memory_of_def tbl_get tag_of_def record_of_row_def)
  obtain n rows where i: "sql_insert_ignore rr_identity
      \<lparr>rr_identity = gid, rr_data = data, rr_etag = 1\<rparr> (sq_records s) = (n, rows)" by fastforce
  obtain m rows2 where u: "sql_update (\<lambda>r. rr_identity r = gid \<and> rr_etag r = expect)
      (\<lambda>r. r\<lparr>rr_data := data, rr_etag := rr_etag r + 1\<rparr>) (sq_records s) = (m, rows2)" by fastforce
  show ?thesis
    using sql_insert_ignore_key [OF i, of record_of_row]
      sql_update_key [OF sqlite_distinct(1) [OF assms(1)] _ u, of record_of_row] Some tag
      tag_wrap [OF tag lt]
    by (auto simp: SQLite_Write_def Memory_Write_def exec_def i u memory_of_def tbl_get gm_get_or_def
        zero_record_def record_of_row_def Let_def tag_ok_def)
qed

lemma canon_member_simps [simp]:
  "keyForMember (canon_member m) = keyForMember m" "m_ETag (canon_member m) = m_ETag m"
  by (simp_all add: canon_member_def keyForMember_def)

lemma member_of_row_written:
  assumes "gm_ok (m_SuspectVotes m)"
  shows "member_of_row \<lparr>mr_id = keyForMember m, mr_status = m_Status m,
      mr_iam_alive_at = timeValue (m_IamAliveAt m),
      mr_suspect_votes = encodeSuspectVotes (m_SuspectVotes m), mr_etag = t\<rparr> =
    (canon_member m)\<lparr>m_ETag := t\<rparr>"
  by (simp add: member_of_row_def votes_of_row_def decode_encode_votes [OF assms] canon_member_def
      keyForMember_def norm_time_def)

lemma member_of_row_updated:
  assumes "gm_ok (m_SuspectVotes m)" and "mr_id x = keyForMember m"
  shows "member_of_row (x\<lparr>mr_status := m_Status m, mr_iam_alive_at := timeValue (m_IamAliveAt m),
      mr_suspect_votes := encodeSuspectVotes (m_SuspectVotes m), mr_etag := t\<rparr>) =
    (canon_member m)\<lparr>m_ETag := t\<rparr>"
  using assms(2)
  by (simp add: member_of_row_def votes_of_row_def decode_encode_votes [OF assms(1)] canon_member_def
      keyForMember_def norm_time_def)

lemma SQLite_WriteMember_refines:
  assumes "sqlite_ok s" and "tag_of (member_look (memory_of s) (keyForMember m)) < max_int64"
    and votes: "gm_ok (m_SuspectVotes m)"
  shows "Memory_WriteMember None (memory_of s) (canon_member m) =
    (case SQLite_WriteMember Runs s m of (r, s') \<Rightarrow> (r, memory_of s'))"
proof -
  let ?row = "\<lparr>mr_id = keyForMember m, mr_status = m_Status m,
      mr_iam_alive_at = timeValue (m_IamAliveAt m),
      mr_suspect_votes = encodeSuspectVotes (m_SuspectVotes m), mr_etag = 1\<rparr>"
  let ?upd = "\<lambda>r. r\<lparr>mr_status := m_Status m, mr_iam_alive_at := timeValue (m_IamAliveAt m),
      mr_suspect_votes := encodeSuspectVotes (m_SuspectVotes m), mr_etag := mr_etag r + 1\<rparr>"
  obtain n rows where i: "sql_insert_ignore mr_id ?row (sq_member s) = (n, rows)" by fastforce
  obtain k rows2 where u: "sql_update (\<lambda>r. mr_id r = keyForMember m \<and> mr_etag r = m_ETag m) ?upd
      (sq_member s) = (k, rows2)" by fastforce
  note ins = sql_insert_ignore_key [OF i, of member_of_row]
    and upd = sql_update_key [OF sqlite_distinct(3) [OF assms(1)] _ u, of member_of_row]
  show ?thesis
  proof (cases "find (\<lambda>r. mr_id r = keyForMember m) (sq_member s)")
    case None
    then show ?thesis
      using ins upd
      by (simp add: SQLite_WriteMember_def Memory_WriteMember_def exec_def i u memory_of_def tbl_get
          gm_get_or_def zero_member_def Let_def member_of_row_written [OF votes])
  next
    case (Some x)
    note tag = sqlite_tags(3) [OF assms(1) Some]
    have key: "mr_id x = keyForMember m" using find_key_mem [OF Some] by simp
    have lt: "mr_etag x < max_int64"
      using assms(2) Some by (simp add: member_look_def memory_of_def tbl_get tag_of_def member_of_row_def)
    have etag: "m_ETag (member_of_row x) = mr_etag x" by (simp add: member_of_row_def)
    show ?thesis
      using ins upd Some tag tag_wrap [OF tag lt]
      by (auto simp: SQLite_WriteMember_def Memory_WriteMember_def exec_def i u memory_of_def tbl_get
          gm_get_or_def Let_def tag_ok_def etag member_of_row_updated [OF votes key])
  qed
qed

lemma SQLite_WriteMember_votes:
  assumes "sqlite_ok s" and "gm_ok (m_SuspectVotes m)"
    and "r \<in> set (sq_member (snd (SQLite_WriteMember Runs s m)))"
  shows "\<exists>v. decodeSuspectVotes (mr_suspect_votes r) = Inr v"
proof -
  have old: "\<exists>v. decodeSuspectVotes (mr_suspect_votes x) = Inr v" if "x \<in> set (sq_member s)" for x
    using assms(1) that by (auto simp: sqlite_ok_def)
  have "r \<in> set (sq_member s) \<or> mr_suspect_votes r = encodeSuspectVotes (m_SuspectVotes m)"
    using assms(3)
    by (auto simp: SQLite_WriteMember_def exec_def sql_insert_ignore_def sql_update_def Let_def
        split: if_splits)
  with old decode_encode_votes [OF assms(2)] show ?thesis by auto
qed

lemma sr_key_upd [simp]:
  "sr_key (x\<lparr>sr_due_at := d\<rparr>) = sr_key x" "sr_key (x\<lparr>sr_etag := t\<rparr>) = sr_key x"
  "sr_key (x\<lparr>sr_method := m\<rparr>) = sr_key x" "sr_key (x\<lparr>sr_first_tick_time := d\<rparr>) = sr_key x"
  "sr_key (x\<lparr>sr_interval := v\<rparr>) = sr_key x"
  by (simp_all add: sr_key_def)

lemma SQLite_Claim_refines:
  assumes "sqlite_ok s" and "reminder_tag (memory_of s) (keyForReminder r) < max_int64"
    and nxt: "nxt = 0 \<or> unix_range nxt"
  shows "Memory_Claim None (memory_of s) r nxt =
    (case SQLite_Claim Runs s r nxt of (res, s') \<Rightarrow> (res, memory_of s'))"
proof -
  let ?upd = "\<lambda>x. x\<lparr>sr_due_at := timeValue nxt, sr_etag := sr_etag x + 1\<rparr>"
  obtain n rows where d: "sql_delete (\<lambda>x. sr_key x = keyForReminder r \<and> sr_etag x = r_ETag r)
      (sq_schedule s) = (n, rows)" by fastforce
  obtain k rows2 where u: "sql_update (\<lambda>x. sr_key x = keyForReminder r \<and> sr_etag x = r_ETag r) ?upd
      (sq_schedule s) = (k, rows2)" by fastforce
  note dist = sqlite_distinct(2) [OF assms(1)]
  note del = sql_delete_key [OF dist d, of reminder_of_row]
    and upd = sql_update_key [OF dist _ u, of reminder_of_row]
  have time: "nxt \<noteq> 0 \<Longrightarrow> timeFromValue (timeValue nxt) = nxt"
    using nxt norm_time_id [of nxt] by (auto simp: norm_time_def)
  show ?thesis
  proof (cases "find (\<lambda>x. sr_key x = keyForReminder r) (sq_schedule s)")
    case None
    then show ?thesis
      using del upd
      by (simp add: SQLite_Claim_def Memory_Claim_def exec_def d u memory_of_def tbl_get Let_def)
  next
    case (Some x)
    note tag = sqlite_tags(2) [OF assms(1) Some]
    have lt: "sr_etag x < max_int64"
      using assms(2) Some
      by (simp add: reminder_tag_def memory_of_def tbl_get reminder_of_row_def)
    show ?thesis
      using del upd Some tag_wrap [OF tag lt] time
      by (auto simp: SQLite_Claim_def Memory_Claim_def exec_def d u memory_of_def tbl_get Let_def
          reminder_of_row_def)
  qed
qed

lemma SQLite_Put_refines:
  assumes "sqlite_ok s" and "reminder_tag (memory_of s) (keyForReminder r) < max_int64"
  shows "Memory_Put None (memory_of s) (canon_reminder r) =
    (case SQLite_Put Runs s r of (res, s') \<Rightarrow> (res, memory_of s'))"
proof -
  let ?row = "\<lparr>sr_entity = r_GrainId r, sr_name = r_Name r, sr_method = r_Method r,
     sr_first_tick_time = timeValue (r_FirstTickTime r), sr_due_at = timeValue (r_DueAt r),
     sr_interval = r_Interval r, sr_etag = 1\<rparr>"
  let ?upd = "\<lambda>x. x\<lparr>sr_method := r_Method r, sr_first_tick_time := timeValue (r_FirstTickTime r),
     sr_due_at := timeValue (r_DueAt r), sr_interval := r_Interval r, sr_etag := sr_etag x + 1\<rparr>"
  obtain n rows where u: "sql_upsert sr_key ?row ?upd (sq_schedule s) = (n, rows)" by fastforce
  have key: "sr_key ?row = keyForReminder r" "keyForReminder (canon_reminder r) = keyForReminder r"
    by (simp_all add: sr_key_def keyForReminder_def canon_reminder_def)
  note rows = sql_upsert_key [OF sqlite_distinct(2) [OF assms(1)] _ u, of reminder_of_row]
  have canon: "reminder_of_row ?row = (canon_reminder r)\<lparr>r_ETag := 1\<rparr>"
    by (simp add: reminder_of_row_def canon_reminder_def norm_time_def)
  show ?thesis
  proof (cases "find (\<lambda>x. sr_key x = keyForReminder r) (sq_schedule s)")
    case None
    then show ?thesis
      using rows
      by (simp add: SQLite_Put_def Memory_Put_def exec_def u key canon memory_of_def tbl_get Let_def)
  next
    case (Some x)
    note tag = sqlite_tags(2) [OF assms(1) Some]
    have "sr_key x = keyForReminder r" using find_key_mem [OF Some] by simp
    then have upd: "reminder_of_row (?upd x) = (canon_reminder r)\<lparr>r_ETag := sr_etag x + 1\<rparr>"
      by (simp add: reminder_of_row_def canon_reminder_def norm_time_def sr_key_def keyForReminder_def)
    have lt: "sr_etag x < max_int64"
      using assms(2) Some
      by (simp add: reminder_tag_def memory_of_def tbl_get reminder_of_row_def)
    have etag: "r_ETag (reminder_of_row x) = sr_etag x" by (simp add: reminder_of_row_def)
    show ?thesis
      using rows Some tag_wrap [OF tag lt]
      by (simp add: SQLite_Put_def Memory_Put_def exec_def u key upd etag memory_of_def tbl_get Let_def)
  qed
qed

lemma SQLite_Delete_refines:
  assumes "sqlite_ok s"
  shows "Memory_Delete None (memory_of s) gid name =
    (case SQLite_Delete Runs s gid name of (res, s') \<Rightarrow> (res, memory_of s'))"
proof -
  have cond: "(\<lambda>x. sr_entity x = gid \<and> sr_name x = name) = (\<lambda>x. sr_key x = ReminderKey gid name \<and> True)"
    by (auto simp: sr_key_def)
  obtain n rows where d: "sql_delete (\<lambda>x. sr_key x = ReminderKey gid name \<and> True) (sq_schedule s) =
      (n, rows)" by fastforce
  from sql_delete_key [OF sqlite_distinct(2) [OF assms] d, of reminder_of_row] show ?thesis
    unfolding SQLite_Delete_def Memory_Delete_def cond
    by (auto simp: d [simplified] exec_def memory_of_def find_key_None delete_idem split: option.splits)
qed

subsection \<open>Runs\<close>

fun sqlite_step :: "sqlite \<Rightarrow> memory_op \<Rightarrow> sqlite" where
  "sqlite_step s (OpWrite i d t) = snd (SQLite_Write Runs s i d t)"
| "sqlite_step s (OpWriteMember m) = snd (SQLite_WriteMember Runs s m)"
| "sqlite_step s (OpClaim r t) = snd (SQLite_Claim Runs s r t)"
| "sqlite_step s (OpPut r) = snd (SQLite_Put Runs s r)"
| "sqlite_step s (OpDelete i n) = snd (SQLite_Delete Runs s i n)"

text \<open>What the caller of an operation gets back.\<close>

datatype op_out = OutTag "etag result" | OutBool "bool result" | OutUnit "unit result"

fun memory_out :: "memory \<Rightarrow> memory_op \<Rightarrow> op_out" where
  "memory_out s (OpWrite i d t) = OutTag (fst (Memory_Write None s i d t))"
| "memory_out s (OpWriteMember m) = OutTag (fst (Memory_WriteMember None s m))"
| "memory_out s (OpClaim r t) = OutBool (fst (Memory_Claim None s r t))"
| "memory_out s (OpPut r) = OutUnit (fst (Memory_Put None s r))"
| "memory_out s (OpDelete i n) = OutUnit (fst (Memory_Delete None s i n))"

fun sqlite_out :: "sqlite \<Rightarrow> memory_op \<Rightarrow> op_out" where
  "sqlite_out s (OpWrite i d t) = OutTag (fst (SQLite_Write Runs s i d t))"
| "sqlite_out s (OpWriteMember m) = OutTag (fst (SQLite_WriteMember Runs s m))"
| "sqlite_out s (OpClaim r t) = OutBool (fst (SQLite_Claim Runs s r t))"
| "sqlite_out s (OpPut r) = OutUnit (fst (SQLite_Put Runs s r))"
| "sqlite_out s (OpDelete i n) = OutUnit (fst (SQLite_Delete Runs s i n))"

text \<open>Vote maps are maps, and a rescheduled due time is one the column holds exactly.\<close>

fun op_ok :: "memory_op \<Rightarrow> bool" where
  "op_ok (OpWriteMember m) = gm_ok (m_SuspectVotes m)"
| "op_ok (OpClaim r t) = (t = 0 \<or> unix_range t)"
| "op_ok _ = True"

lemma snd_case_prod_eq: "x = (case y of (r, s) \<Rightarrow> (r, f s)) \<Longrightarrow> fst x = fst y \<and> snd x = f (snd y)"
  by (cases y) simp

lemma sqlite_step_refines:
  assumes "sqlite_ok s" and "tag_room (memory_of s) (Suc n)" and "op_ok op"
  shows "memory_of (sqlite_step s op) = memory_step (memory_of s) (canon_op op)"
    and "sqlite_out s op = memory_out (memory_of s) (canon_op op)"
proof -
  note lt = tag_roomD [OF assms(2)]
  note refines = SQLite_Write_refines [OF assms(1) lt(1), THEN snd_case_prod_eq]
    SQLite_WriteMember_refines [OF assms(1) lt(2), THEN snd_case_prod_eq]
    SQLite_Claim_refines [OF assms(1) lt(3), THEN snd_case_prod_eq]
    SQLite_Put_refines [OF assms(1) lt(3), THEN snd_case_prod_eq]
    SQLite_Delete_refines [OF assms(1), THEN snd_case_prod_eq]
  show "memory_of (sqlite_step s op) = memory_step (memory_of s) (canon_op op)"
    using assms(3) refines by (cases op) simp_all
  show "sqlite_out s op = memory_out (memory_of s) (canon_op op)"
    using assms(3) refines by (cases op) simp_all
qed

lemma sqlite_member_frame:
  "sq_member (snd (SQLite_Write f s i d t)) = sq_member s"
  "sq_member (snd (SQLite_Claim f s r nxt)) = sq_member s"
  "sq_member (snd (SQLite_Put f s r)) = sq_member s"
  "sq_member (snd (SQLite_Delete f s gid name)) = sq_member s"
  by (simp_all add: SQLite_Write_def SQLite_Claim_def SQLite_Put_def SQLite_Delete_def Let_def
      split: prod.split sum.split)

lemma sqlite_step_ok:
  assumes "sqlite_ok s" and "tag_room (memory_of s) (Suc n)" and "op_ok op"
  shows "sqlite_ok (sqlite_step s op)" and "tag_room (memory_of (sqlite_step s op)) n"
proof -
  have mem: "memory_ok (memory_of s)" using assms(1) by (simp add: sqlite_ok_def)
  have "\<forall>r \<in> set (sq_member (sqlite_step s op)). \<exists>v. decodeSuspectVotes (mr_suspect_votes r) = Inr v"
    using assms(1,3) SQLite_WriteMember_votes [OF assms(1)]
    by (cases op) (auto simp: sqlite_member_frame sqlite_ok_def)
  then show "sqlite_ok (sqlite_step s op)"
    using memory_step_ok [OF mem assms(2)] sqlite_step_refines(1) [OF assms] by (simp add: sqlite_ok_def)
  show "tag_room (memory_of (sqlite_step s op)) n"
    using tag_room_step [OF mem assms(2)] sqlite_step_refines(1) [OF assms] by simp
qed

definition sqlite_run :: "sqlite \<Rightarrow> memory_op list \<Rightarrow> sqlite" where
  "sqlite_run = foldl sqlite_step"

lemma sqlite_run_simps [simp]:
  "sqlite_run s [] = s" "sqlite_run s (op # ops) = sqlite_run (sqlite_step s op) ops"
  by (simp_all add: sqlite_run_def)

lemma sqlite_run_refines:
  "sqlite_ok s \<Longrightarrow> tag_room (memory_of s) (length ops + n) \<Longrightarrow> \<forall>op \<in> set ops. op_ok op \<Longrightarrow>
    memory_of (sqlite_run s ops) = memory_run (memory_of s) (map canon_op ops) \<and>
    sqlite_ok (sqlite_run s ops) \<and> tag_room (memory_of (sqlite_run s ops)) n"
proof (induction ops arbitrary: s)
  case (Cons op ops)
  then have op: "op_ok op" and room: "tag_room (memory_of s) (Suc (length ops + n))" by simp_all
  from Cons.IH [OF sqlite_step_ok [OF Cons.prems(1) room op]] Cons.prems(3)
    sqlite_step_refines(1) [OF Cons.prems(1) room op]
  show ?case by (auto simp del: sqlite_step.simps memory_step.simps)
qed simp

section \<open>Properties of the operations\<close>

lemma NewSQLite_ok: "sqlite_ok NewSQLite" "memory_of NewSQLite = NewMemory"
  by (simp_all add: sqlite_ok_def memory_of_def NewSQLite_def NewMemory_def memory_ok_def)

lemma NewMemory_room: "int n \<le> max_int64 \<Longrightarrow> tag_room NewMemory n"
  by (simp add: tag_room_def NewMemory_def record_look_def member_look_def reminder_tag_def tag_of_def)



text \<open>
  Vote maps survive their JSON column: decoding an encoded map gives back every voter with its
  expiry, for expiries within the range of \<open>UnixNano\<close>, and no other voter.
\<close>

theorem suspect_votes_roundtrip:
  assumes "gm_ok votes" and "\<forall>(i, e) \<in> set votes. unix_range e"
  shows "\<exists>votes'. decodeSuspectVotes (encodeSuspectVotes votes) = Inr votes' \<and>
    gm_ok votes' \<and> gm_get votes' = gm_get votes"
proof (intro exI conjI)
  show "decodeSuspectVotes (encodeSuspectVotes votes) = Inr (canon_votes votes)"
    by (rule decode_encode_votes [OF assms(1)])
  have norm: "map (\<lambda>(i, e). (i, norm_time e)) votes = votes"
    using assms(2) by (intro map_idI) auto
  then have set: "set (canon_votes votes) = set votes" by (simp add: canon_votes_def)
  have "distinct (map fst (canon_votes votes))"
    using assms(1) norm by (simp add: canon_votes_def gm_ok_def distinct_map)
  then show ok: "gm_ok (canon_votes votes)" by (simp add: gm_ok_def)
  show "gm_get (canon_votes votes) = gm_get votes"
    using gm_ok_get_iff [OF ok] gm_ok_get_iff [OF assms(1)] set
    by (metis (no_types, lifting) ext not_None_eq)
qed

theorem suspect_votes_roundtrip_witness:
  "\<exists>votes'. decodeSuspectVotes (encodeSuspectVotes [(MemberID ''b'' ''2'', unix_epoch + 9),
      (MemberID ''a'' ''1'', unix_epoch)]) = Inr votes' \<and> gm_get votes' (MemberID ''b'' ''2'') = Some (unix_epoch + 9)"
  using suspect_votes_roundtrip [of "[(MemberID ''b'' ''2'', unix_epoch + 9), (MemberID ''a'' ''1'', unix_epoch)]"]
  by (auto simp: gm_ok_def unix_range_def in_int64_def max_int64_def min_int64_def)

section \<open>The compare-and-swap contract\<close>

lemma SQLite_Write_miss:
  assumes "sqlite_ok s" and "tag_of (record_look (memory_of s) gid) \<noteq> t"
  shows "SQLite_Write Runs s gid data t = (Inl (Sentinel StoreErrConflict), s)"
proof -
  obtain n rows where i: "sql_insert_ignore rr_identity
      \<lparr>rr_identity = gid, rr_data = data, rr_etag = 1\<rparr> (sq_records s) = (n, rows)" by fastforce
  obtain m rows2 where u: "sql_update (\<lambda>r. rr_identity r = gid \<and> rr_etag r = t)
      (\<lambda>r. r\<lparr>rr_data := data, rr_etag := rr_etag r + 1\<rparr>) (sq_records s) = (m, rows2)" by fastforce
  show ?thesis
    using sql_insert_ignore_key [OF i, of record_of_row] assms(2)
      sql_update_key [OF sqlite_distinct(1) [OF assms(1)] _ u, of record_of_row]
    by (cases "find (\<lambda>r. rr_identity r = gid) (sq_records s)")
      (auto simp: SQLite_Write_def exec_def i u record_look_def tag_of_def memory_of_def tbl_get
        record_of_row_def)
qed

interpretation sql_rec: cas_table "\<lambda>s. record_look (memory_of s)" "SQLite_Write Runs" sqlite_ok
proof
  fix s k t c
  assume ok: "sqlite_ok s" and tag: "tag_of (record_look (memory_of s) k) = t" and lt: "t < max_int64"
  have mem: "memory_ok (memory_of s)" using ok by (simp add: sqlite_ok_def)
  obtain r s' where w: "SQLite_Write Runs s k c t = (r, s')" by fastforce
  have ref: "Memory_Write None (memory_of s) k c t = (r, memory_of s')"
    using SQLite_Write_refines [OF ok, of k c t] tag lt w by simp
  from mem_rec.put_hit [OF mem tag lt, of c] ref
  have "r = Inr (t + 1)" "memory_ok (memory_of s')"
    "record_look (memory_of s') = (record_look (memory_of s))(k \<mapsto> (c, t + 1))" by auto
  moreover have "sq_member s' = sq_member s" using sqlite_member_frame(1) [of Runs s k c t] w by simp
  ultimately show "\<exists>s'. SQLite_Write Runs s k c t = (Inr (t + 1), s') \<and> sqlite_ok s' \<and>
      record_look (memory_of s') = (record_look (memory_of s))(k \<mapsto> (c, t + 1))"
    using ok w by (simp add: sqlite_ok_def)
next
  fix s k t c
  assume "sqlite_ok s" and "tag_of (record_look (memory_of s) k) \<noteq> t"
  then show "SQLite_Write Runs s k c t = (Inl (Sentinel StoreErrConflict), s)"
    by (rule SQLite_Write_miss)
next
  fix s k c t
  assume "sqlite_ok s" and "record_look (memory_of s) k = Some (c, t)"
  then show "0 < t \<and> t \<le> max_int64"
    using mem_rec.tag_pos [of "memory_of s" k c t] by (simp add: sqlite_ok_def)
qed

section \<open>Opening, migration and closing\<close>

text \<open>The tables of the two database files; \<open>None\<close> is a missing table or column.\<close>

record old_schedule_row =
  os_row :: schedule_row
  os_first_tick :: "int option"

record db_files =
  df_first_tick_column :: bool
  df_schedule :: "old_schedule_row list"
  df_main_records :: "records_row list option"
  df_state_records :: "records_row list"

datatype db_call =
    OpenWrite | PingWrite | CoordinationSchema | TableInfo | ScanInfo | AddColumn | FillColumn
  | OpenRead | PingRead | OpenStateWrite | PingStateWrite | StateSchema | OpenStateRead | PingStateRead
  | TableExists | CopyConn | CopyBegin | CopyAttach | CopyRows | CountOld | CountNew | CopyCommit
  | CopyDetach | DropRecords
  | CloseStateRead | Checkpoint | CloseStateWrite | CloseRead | CloseWrite

definition run_stmt :: "fate \<Rightarrow> ('a \<Rightarrow> 'a) \<Rightarrow> 'a \<Rightarrow> go_error option \<times> 'a" where
  "run_stmt f g x =
     (case f of Runs \<Rightarrow> (None, g x) | FailsBefore e \<Rightarrow> (Some e, x) | FailsAfter e \<Rightarrow> (Some e, g x))"

definition wrap_err :: "string \<Rightarrow> go_error \<Rightarrow> go_error" where
  "wrap_err prefix e = Wrap (prefix @ '': '' @ error_text e) e"

text \<open>\<open>INSERT OR REPLACE INTO state.records ... SELECT ... FROM records\<close>.\<close>

definition sql_replace_all :: "('r \<Rightarrow> 'k) \<Rightarrow> 'r list \<Rightarrow> 'r list \<Rightarrow> 'r list" where
  "sql_replace_all key news rows =
     foldl (\<lambda>rs row. filter (\<lambda>r. key r \<noteq> key row) rs @ [row]) rows news"

text \<open>
  One transaction: only the commit makes the copy visible. The mismatch message prints the two
  counts; they are left out of the error text here.
\<close>

definition copyStateRows :: "(db_call \<Rightarrow> fate) \<Rightarrow> records_row list \<Rightarrow> db_files \<Rightarrow> go_error option \<times> db_files" where
  "copyStateRows faults old files =
     (case fate_err (faults CopyConn) of Some e \<Rightarrow> (Some e, files) | None \<Rightarrow>
     (case fate_err (faults CopyBegin) of Some e \<Rightarrow> (Some e, files) | None \<Rightarrow>
     (case fate_err (faults CopyAttach) of Some e \<Rightarrow> (Some (wrap_err ''attach state database'' e), files) | None \<Rightarrow>
     (case fate_err (faults CopyRows) of Some e \<Rightarrow> (Some (wrap_err ''copy state rows'' e), files) | None \<Rightarrow>
     (let copied = sql_replace_all rr_identity old (df_state_records files) in
     (case fate_err (faults CountOld) of Some e \<Rightarrow> (Some e, files) | None \<Rightarrow>
     (case fate_err (faults CountNew) of Some e \<Rightarrow> (Some e, files) | None \<Rightarrow>
      if length old \<noteq> length copied then (Some (NewErr ''copied state rows''), files)
      else (case run_stmt (faults CopyCommit) (\<lambda>fs. fs\<lparr>df_state_records := copied\<rparr>) files of
              (Some e, files') \<Rightarrow> (Some (wrap_err ''commit state copy'' e), files')
            | (None, files') \<Rightarrow> (fate_err (faults CopyDetach), files')))))))))"

definition migrateOldLayout :: "(db_call \<Rightarrow> fate) \<Rightarrow> db_files \<Rightarrow> go_error option \<times> db_files" where
  "migrateOldLayout faults files =
     (case fate_err (faults TableExists) of Some e \<Rightarrow> (Some e, files) | None \<Rightarrow>
     (case df_main_records files of
        None \<Rightarrow> (None, files)
      | Some old \<Rightarrow>
          (case copyStateRows faults old files of
             (Some e, files') \<Rightarrow> (Some e, files')
           | (None, files') \<Rightarrow>
               run_stmt (faults DropRecords) (\<lambda>fs. fs\<lparr>df_main_records := None\<rparr>) files')))"

definition migrateReminderSchema :: "(db_call \<Rightarrow> fate) \<Rightarrow> db_files \<Rightarrow> go_error option \<times> db_files" where
  "migrateReminderSchema faults files =
     (case fate_err (faults TableInfo) of Some e \<Rightarrow> (Some e, files) | None \<Rightarrow>
     (case fate_err (faults ScanInfo) of Some e \<Rightarrow> (Some e, files) | None \<Rightarrow>
     (let found = df_first_tick_column files;
          add = (\<lambda>fs. fs\<lparr>df_first_tick_column := True,
                  df_schedule := map (\<lambda>r. r\<lparr>os_first_tick := None\<rparr>) (df_schedule fs)\<rparr>);
          fill = (\<lambda>fs. fs\<lparr>df_schedule := map (\<lambda>r. if os_first_tick r = None
                  then r\<lparr>os_first_tick := Some (sr_due_at (os_row r))\<rparr> else r) (df_schedule fs)\<rparr>)
      in case (if found then (None, files) else run_stmt (faults AddColumn) add files) of
           (Some e, files') \<Rightarrow> (Some e, files')
         | (None, files') \<Rightarrow> run_stmt (faults FillColumn) fill files')))"

datatype handle = WriteDB | ReadDB | StateWriteDB | StateReadDB

datatype Durability = DurabilityFull | DurabilityRelaxed | DurabilityOther int

text \<open>
  \<open>openSQLite\<close> with the handles it leaves open: an \<open>Open\<close> adds its handle, an error path closes the
  ones opened so far.
\<close>

definition openSQLite ::
    "(db_call \<Rightarrow> fate) \<Rightarrow> Durability \<Rightarrow> db_files \<Rightarrow> Durability result \<times> handle list \<times> db_files" where
  "openSQLite faults durability files =
     (if durability \<noteq> DurabilityFull \<and> durability \<noteq> DurabilityRelaxed
      then (Inl (NewErr ''store: unknown durability value''), [], files)
      else
     (case fate_err (faults OpenWrite) of Some e \<Rightarrow> (Inl e, [], files) | None \<Rightarrow>
     (let opened = [WriteDB] in
     (case fate_err (faults PingWrite) of
        Some e \<Rightarrow> (Inl (wrap_err ''open sqlite database'' e), remove1 WriteDB opened, files) | None \<Rightarrow>
     (case fate_err (faults CoordinationSchema) of
        Some e \<Rightarrow> (Inl e, remove1 WriteDB opened, files) | None \<Rightarrow>
     (case migrateReminderSchema faults files of
        (Some e, files) \<Rightarrow> (Inl e, remove1 WriteDB opened, files) | (None, files) \<Rightarrow>
     (case fate_err (faults OpenRead) of
        Some e \<Rightarrow> (Inl e, remove1 WriteDB opened, files) | None \<Rightarrow>
     (let opened = opened @ [ReadDB] in
     (case fate_err (faults PingRead) of
        Some e \<Rightarrow> (Inl (wrap_err ''open sqlite database'' e),
          remove1 WriteDB (remove1 ReadDB opened), files) | None \<Rightarrow>
     (case fate_err (faults OpenStateWrite) of
        Some e \<Rightarrow> (Inl e, remove1 WriteDB (remove1 ReadDB opened), files) | None \<Rightarrow>
     (let opened = opened @ [StateWriteDB] in
     (case fate_err (faults PingStateWrite) of
        Some e \<Rightarrow> (Inl (wrap_err ''open sqlite database'' e),
          remove1 WriteDB (remove1 ReadDB (remove1 StateWriteDB opened)), files) | None \<Rightarrow>
     (case fate_err (faults StateSchema) of
        Some e \<Rightarrow> (Inl e, remove1 WriteDB (remove1 ReadDB (remove1 StateWriteDB opened)), files) | None \<Rightarrow>
     (case fate_err (faults OpenStateRead) of
        Some e \<Rightarrow> (Inl e, remove1 WriteDB (remove1 ReadDB (remove1 StateWriteDB opened)), files) | None \<Rightarrow>
     (let opened = opened @ [StateReadDB] in
     (case fate_err (faults PingStateRead) of
        Some e \<Rightarrow> (Inl (wrap_err ''open sqlite database'' e),
          remove1 WriteDB (remove1 ReadDB (remove1 StateWriteDB (remove1 StateReadDB opened))), files)
      | None \<Rightarrow>
     (case migrateOldLayout faults files of
        (Some e, files) \<Rightarrow> (Inl (wrap_err ''migrate database'' e),
          remove1 WriteDB (remove1 ReadDB (remove1 StateWriteDB (remove1 StateReadDB opened))), files)
      | (None, files) \<Rightarrow> (Inr durability, opened, files))))))))))))))))))"

definition SQLite_Close :: "(db_call \<Rightarrow> fate) \<Rightarrow> Durability \<Rightarrow> db_call list \<times> go_error option" where
  "SQLite_Close faults durability =
     (let calls = [CloseStateRead] @ (if durability = DurabilityRelaxed then [Checkpoint] else []) @
            [CloseStateWrite, CloseRead, CloseWrite]
      in (calls, errors_join (map (fate_err \<circ> faults) calls)))"

section \<open>Properties of opening and migration\<close>

lemma sql_replace_all_eq:
  "distinct (map key news) \<Longrightarrow>
    sql_replace_all key news rows = filter (\<lambda>r. key r \<notin> key ` set news) rows @ news"
proof (induction news arbitrary: rows)
  case (Cons x news)
  from Cons.prems have "key x \<notin> key ` set news" "distinct (map key news)" by auto
  with Cons.IH [of "filter (\<lambda>r. key r \<noteq> key x) rows @ [x]"] show ?case
    by (auto simp: sql_replace_all_def conj_commute intro: filter_cong)
qed (simp add: sql_replace_all_def)

lemma sql_replace_all_cover:
  "distinct (map key news) \<Longrightarrow> key ` set rows \<subseteq> key ` set news \<Longrightarrow> sql_replace_all key news rows = news"
  by (auto simp: sql_replace_all_eq filter_empty_conv)

lemma copyStateRows_cases:
  assumes "distinct (map rr_identity old)"
    and "rr_identity ` set (df_state_records files) \<subseteq> rr_identity ` set old"
  shows "snd (copyStateRows faults old files) = files \<and> fst (copyStateRows faults old files) \<noteq> None \<or>
    snd (copyStateRows faults old files) = files\<lparr>df_state_records := old\<rparr>"
  using sql_replace_all_cover [OF assms]
  by (auto simp: copyStateRows_def Let_def run_stmt_def split: option.splits fate.splits)

lemma copyStateRows_runs:
  assumes "distinct (map rr_identity old)"
    and "rr_identity ` set (df_state_records files) \<subseteq> rr_identity ` set old"
  shows "copyStateRows (\<lambda>_. Runs) old files = (None, files\<lparr>df_state_records := old\<rparr>)"
  using sql_replace_all_cover [OF assms] by (simp add: copyStateRows_def run_stmt_def)

lemma migrateOldLayout_runs:
  assumes "df_main_records files = Some old" and "distinct (map rr_identity old)"
    and "rr_identity ` set (df_state_records files) \<subseteq> rr_identity ` set old"
  shows "migrateOldLayout (\<lambda>_. Runs) files =
    (None, files\<lparr>df_state_records := old, df_main_records := None\<rparr>)"
  using copyStateRows_runs [OF assms(2,3)] assms(1) by (simp add: migrateOldLayout_def run_stmt_def)

lemma migrateOldLayout_cases:
  assumes "df_main_records files = Some old" and "distinct (map rr_identity old)"
    and "rr_identity ` set (df_state_records files) \<subseteq> rr_identity ` set old"
  obtains "snd (migrateOldLayout faults files) = files" "fst (migrateOldLayout faults files) \<noteq> None"
    | "snd (migrateOldLayout faults files) = files\<lparr>df_state_records := old\<rparr>"
      "fst (migrateOldLayout faults files) \<noteq> None"
    | "snd (migrateOldLayout faults files) = files\<lparr>df_state_records := old, df_main_records := None\<rparr>"
proof -
  have "snd (migrateOldLayout faults files) = files \<and> fst (migrateOldLayout faults files) \<noteq> None \<or>
      snd (migrateOldLayout faults files) = files\<lparr>df_state_records := old\<rparr> \<and>
        fst (migrateOldLayout faults files) \<noteq> None \<or>
      snd (migrateOldLayout faults files) = files\<lparr>df_state_records := old, df_main_records := None\<rparr>"
    using copyStateRows_cases [OF assms(2,3), of faults] assms(1)
    by (auto simp: migrateOldLayout_def run_stmt_def split: option.splits fate.splits prod.splits)
  then show ?thesis using that by blast
qed

text \<open>
  C22. Moving the Grain State rows out of a single-file database loses nothing, wherever a statement
  fails or the process stops: at every point the full set of old rows is in the old table or in the
  new one, success means it is in the new one only, and reopening without faults finishes the move.
\<close>

theorem migrateOldLayout_crash_safe:
  assumes "df_main_records files = Some old" and "distinct (map rr_identity old)"
    and "rr_identity ` set (df_state_records files) \<subseteq> rr_identity ` set old"
  shows "case migrateOldLayout faults files of (err, files1) \<Rightarrow>
    (df_main_records files1 = Some old \<or> df_state_records files1 = old) \<and>
    (err = None \<longrightarrow> df_main_records files1 = None \<and> df_state_records files1 = old) \<and>
    migrateOldLayout (\<lambda>_. Runs) files1 =
      (None, files\<lparr>df_state_records := old, df_main_records := None\<rparr>)"
proof -
  note runs = migrateOldLayout_runs [OF assms]
  have again: "migrateOldLayout (\<lambda>_. Runs) (files\<lparr>df_state_records := old\<rparr>) =
      (None, files\<lparr>df_state_records := old, df_main_records := None\<rparr>)"
    using migrateOldLayout_runs [of "files\<lparr>df_state_records := old\<rparr>" old] assms(1,2) by simp
  have fin: "migrateOldLayout (\<lambda>_. Runs) (files\<lparr>df_state_records := old, df_main_records := None\<rparr>) =
      (None, files\<lparr>df_state_records := old, df_main_records := None\<rparr>)"
    by (simp add: migrateOldLayout_def)
  show ?thesis
    using runs again fin assms(1)
    by (cases rule: migrateOldLayout_cases [OF assms, of faults]) (auto simp: case_prod_beta)
qed

theorem migrateOldLayout_crash_safe_witness:
  "let files = \<lparr>df_first_tick_column = True, df_schedule = [], df_main_records =
        Some [\<lparr>rr_identity = GrainId ''a'' ''1'', rr_data = [1], rr_etag = 4\<rparr>], df_state_records = []\<rparr>;
       files1 = snd (migrateOldLayout (\<lambda>c. if c = DropRecords then FailsBefore (NewErr ''io'') else Runs) files)
   in df_state_records (snd (migrateOldLayout (\<lambda>_. Runs) files1)) =
        [\<lparr>rr_identity = GrainId ''a'' ''1'', rr_data = [1], rr_etag = 4\<rparr>]"
  using migrateOldLayout_crash_safe [of "\<lparr>df_first_tick_column = True, df_schedule = [], df_main_records =
        Some [\<lparr>rr_identity = GrainId ''a'' ''1'', rr_data = [1], rr_etag = 4\<rparr>], df_state_records = []\<rparr>"
      "[\<lparr>rr_identity = GrainId ''a'' ''1'', rr_data = [1], rr_etag = 4\<rparr>]"
      "\<lambda>c. if c = DropRecords then FailsBefore (NewErr ''io'') else Runs"]
  by (auto simp: case_prod_beta)

text \<open>
  Opening never leaks a database handle: on every error path all handles opened so far are
  closed again, and on success exactly the four handles of the backend are open and the Reminder
  table has its first-tick column filled.
\<close>

theorem openSQLite_handles:
  "case openSQLite faults durability files of
     (Inl e, handles, _) \<Rightarrow> handles = []
   | (Inr d, handles, files') \<Rightarrow> handles = [WriteDB, ReadDB, StateWriteDB, StateReadDB] \<and>
       d = durability \<and> df_first_tick_column files' \<and>
       list_all (\<lambda>r. os_first_tick r \<noteq> None) (df_schedule files') \<and> df_main_records files' = None"
proof -
  have rem: "df_first_tick_column fs' \<and> list_all (\<lambda>r. os_first_tick r \<noteq> None) (df_schedule fs')"
    if "migrateReminderSchema faults files = (None, fs')" for fs'
    using that
    by (auto simp: migrateReminderSchema_def Let_def run_stmt_def list_all_iff
        split: option.splits fate.splits if_splits prod.splits)
  have copy: "df_first_tick_column fs' = df_first_tick_column fs \<and> df_schedule fs' = df_schedule fs"
    if "copyStateRows faults old fs = (err, fs')" for old err fs fs'
    using that
    by (auto simp: copyStateRows_def Let_def run_stmt_def
        split: option.splits fate.splits if_splits prod.splits)
  have mig: "df_first_tick_column fs' = df_first_tick_column fs \<and> df_schedule fs' = df_schedule fs \<and>
      df_main_records fs' = None"
    if "migrateOldLayout faults fs = (None, fs')" for fs fs'
    using that copy
    by (auto simp: migrateOldLayout_def run_stmt_def split: option.splits fate.splits prod.splits)
  show ?thesis
    using rem mig
    by (auto simp: openSQLite_def Let_def split: option.splits prod.splits)
qed

text \<open>
  Closing always closes all four handles, whatever fails, and at the relaxed tier it
  checkpoints the state database after its readers are closed and before its writer is; the error
  is nil exactly when every call succeeded.
\<close>

theorem SQLite_Close_complete:
  "case SQLite_Close faults durability of (calls, err) \<Rightarrow>
     filter (\<lambda>c. c \<noteq> Checkpoint) calls = [CloseStateRead, CloseStateWrite, CloseRead, CloseWrite] \<and>
     (if durability = DurabilityRelaxed then take 3 calls = [CloseStateRead, Checkpoint, CloseStateWrite]
      else Checkpoint \<notin> set calls) \<and>
     (err = None \<longleftrightarrow> (\<forall>c. c \<in> set calls \<longrightarrow> faults c = Runs))"
proof -
  have runs: "fate_err f = None \<longleftrightarrow> f = Runs" for f by (cases f) simp_all
  show ?thesis
    by (auto simp: SQLite_Close_def Let_def errors_join_def map_filter_def runs [symmetric])
qed

theorem SQLite_Close_complete_witness:
  "snd (SQLite_Close (\<lambda>_. Runs) DurabilityRelaxed) = None"
  using SQLite_Close_complete [of DurabilityRelaxed "\<lambda>_. Runs"] by (auto simp: case_prod_beta)

end
