(* ===== verification/Gor_Clock.thy ===== *)
theory Gor_Clock
  imports Gor_Errors
begin

text \<open>
  The deterministic clock of \<open>clock/fake.go\<close>. Ticker objects live in a heap \<open>fk_heap\<close>; the Go map
  \<open>tickers\<close> is the list \<open>fk_active\<close> of their addresses. The channel of a ticker holds at most one
  tick. The catch-up loop of \<open>Advance\<close> need not end when a deadline saturates, so it is a partial
  function; it is shown to return on every clock whose times stay clear of the end of time.
\<close>

record fake_ticker =
  ft_interval :: duration
  ft_next :: gtime
  ft_channel :: "gtime option"
  ft_stopped :: bool

record fake =
  fk_now :: gtime
  fk_heap :: "fake_ticker list"
  fk_active :: "nat list"

definition NewFake :: "gtime \<Rightarrow> fake" where
  "NewFake now = \<lparr>fk_now = now, fk_heap = [], fk_active = []\<rparr>"

definition Fake_Now :: "fake \<Rightarrow> gtime" where
  "Fake_Now f = fk_now f"

text \<open>\<open>None\<close> is the panic on a non-positive interval; the ticker is its address.\<close>

definition Fake_NewTicker :: "fake \<Rightarrow> duration \<Rightarrow> (nat \<times> fake) option" where
  "Fake_NewTicker f interval =
     (if interval \<le> 0 then None
      else (let addr = length (fk_heap f);
                ticker = \<lparr>ft_interval = interval, ft_next = time_add (fk_now f) interval,
                          ft_channel = None, ft_stopped = False\<rparr>
            in Some (addr, f\<lparr>fk_heap := fk_heap f @ [ticker], fk_active := addr # fk_active f\<rparr>)))"

text \<open>The inner loop: the latest crossed deadline, if any, and the next one.\<close>

partial_function (option) catch_up ::
    "gtime \<Rightarrow> duration \<Rightarrow> gtime option \<Rightarrow> gtime \<Rightarrow> (gtime option \<times> gtime) option" where
  "catch_up fin interval at nxt =
     (if \<not> fin < nxt then catch_up fin interval (Some nxt) (time_add nxt interval)
      else Some (at, nxt))"

text \<open>The loop over the active tickers, collecting the deliveries.\<close>

fun collect :: "gtime \<Rightarrow> nat list \<Rightarrow> fake_ticker list \<Rightarrow> ((nat \<times> gtime) list \<times> fake_ticker list) option" where
  "collect fin [] heap = Some ([], heap)"
| "collect fin (a # as) heap =
     (case catch_up fin (ft_interval (heap ! a)) None (ft_next (heap ! a)) of
        None \<Rightarrow> None
      | Some (at, nxt) \<Rightarrow>
          (case collect fin as (heap[a := (heap ! a)\<lparr>ft_next := nxt\<rparr>]) of
             None \<Rightarrow> None
           | Some (ds, heap') \<Rightarrow>
               Some ((case at of None \<Rightarrow> ds | Some t \<Rightarrow> (a, t) # ds), heap')))"

text \<open>A send on the channel that is dropped when a tick is already waiting.\<close>

definition deliver :: "fake_ticker list \<Rightarrow> nat \<times> gtime \<Rightarrow> fake_ticker list" where
  "deliver heap d =
     (case d of (a, at) \<Rightarrow>
        (case ft_channel (heap ! a) of
           None \<Rightarrow> heap[a := (heap ! a)\<lparr>ft_channel := Some at\<rparr>]
         | Some _ \<Rightarrow> heap))"

definition Fake_Advance :: "fake \<Rightarrow> duration \<Rightarrow> fake option" where
  "Fake_Advance f d =
     (let fin = time_add (fk_now f) d
      in case collect fin (fk_active f) (fk_heap f) of
           None \<Rightarrow> None
         | Some (deliveries, heap) \<Rightarrow>
             Some (f\<lparr>fk_now := fin, fk_heap := foldl deliver heap deliveries\<rparr>))"

definition fakeTicker_Stop :: "fake \<Rightarrow> nat \<Rightarrow> fake" where
  "fakeTicker_Stop f a =
     (if ft_stopped (fk_heap f ! a) then f
      else f\<lparr>fk_heap := (fk_heap f)[a := (fk_heap f ! a)\<lparr>ft_stopped := True\<rparr>],
             fk_active := remove1 a (fk_active f)\<rparr>)"

text \<open>A receive from \<open>C()\<close>: the waiting tick, if there is one.\<close>

definition fakeTicker_recv :: "fake \<Rightarrow> nat \<Rightarrow> gtime option \<times> fake" where
  "fakeTicker_recv f a =
     (ft_channel (fk_heap f ! a), f\<lparr>fk_heap := (fk_heap f)[a := (fk_heap f ! a)\<lparr>ft_channel := None\<rparr>]\<rparr>)"

section \<open>The catch-up loop\<close>

text \<open>The latest deadline at or before \<open>fin\<close> on the grid \<open>nxt, nxt + interval, ...\<close>.\<close>

definition latest_deadline :: "gtime \<Rightarrow> duration \<Rightarrow> gtime \<Rightarrow> gtime" where
  "latest_deadline fin interval nxt = nxt + ((fin - nxt) div interval) * interval"

lemma latest_deadline_bounds:
  assumes "0 < interval" and "nxt \<le> fin"
  shows "nxt \<le> latest_deadline fin interval nxt" "latest_deadline fin interval nxt \<le> fin"
    "fin < latest_deadline fin interval nxt + interval"
proof -
  let ?q = "(fin - nxt) div interval"
  have eq: "?q * interval + (fin - nxt) mod interval = fin - nxt" by simp
  have m: "0 \<le> (fin - nxt) mod interval" "(fin - nxt) mod interval < interval" using assms(1) by simp_all
  have "0 \<le> ?q * interval" using assms by (simp add: pos_imp_zdiv_nonneg_iff)
  then show "nxt \<le> latest_deadline fin interval nxt" by (simp add: latest_deadline_def)
  show "latest_deadline fin interval nxt \<le> fin" "fin < latest_deadline fin interval nxt + interval"
    unfolding latest_deadline_def using eq m by linarith+
qed

lemma latest_deadline_step:
  assumes "0 < interval" and "nxt + interval \<le> fin"
  shows "latest_deadline fin interval (nxt + interval) = latest_deadline fin interval nxt"
proof -
  have "(fin - nxt) div interval = (fin - (nxt + interval)) div interval + 1"
    using assms(1) by (metis add_diff_cancel_right' diff_add_cancel diff_diff_eq div_add_self2
        less_irrefl)
  then show ?thesis by (simp add: latest_deadline_def algebra_simps)
qed

lemma latest_deadline_now:
  assumes "0 < interval" and "nxt \<le> fin" and "fin < nxt + interval"
  shows "latest_deadline fin interval nxt = nxt"
  using assms by (simp add: latest_deadline_def div_pos_pos_trivial)

lemma catch_up_idle: "fin < nxt \<Longrightarrow> catch_up fin interval at nxt = Some (at, nxt)"
  by (simp add: catch_up.simps)

lemma catch_up_due:
  assumes "0 < interval" and "fin + interval \<le> max_time" and "min_time \<le> nxt" and "nxt \<le> fin"
  shows "catch_up fin interval at nxt =
    Some (Some (latest_deadline fin interval nxt), latest_deadline fin interval nxt + interval)"
  using assms(3,4)
proof (induction "nat (fin - nxt)" arbitrary: nxt at rule: less_induct)
  case less
  have add: "time_add nxt interval = nxt + interval"
    using less.prems assms by (intro time_add_exact) simp_all
  have unfold: "catch_up fin interval at nxt = catch_up fin interval (Some nxt) (nxt + interval)"
    using less.prems(2) add by (subst catch_up.simps) simp
  show ?case
  proof (cases "nxt + interval \<le> fin")
    case True
    then have "nat (fin - (nxt + interval)) < nat (fin - nxt)" using assms(1) by simp
    from less.hyps [OF this, of "Some nxt"] less.prems(1) assms(1) True
    show ?thesis by (simp add: unfold latest_deadline_step)
  next
    case False
    then show ?thesis
      using less.prems(2) assms(1) by (simp add: unfold catch_up_idle latest_deadline_now)
  qed
qed

section \<open>Advancing\<close>

definition ticker_ok :: "fake_ticker \<Rightarrow> bool" where
  "ticker_ok t \<longleftrightarrow> 0 < ft_interval t \<and> min_time \<le> ft_next t"

definition fake_ok :: "fake \<Rightarrow> bool" where
  "fake_ok f \<longleftrightarrow> min_time \<le> fk_now f \<and> distinct (fk_active f) \<and>
     (\<forall>a \<in> set (fk_active f). a < length (fk_heap f)) \<and> list_all ticker_ok (fk_heap f)"

text \<open>What one ticker looks like after the clock moved to \<open>fin\<close>.\<close>

definition ticked :: "gtime \<Rightarrow> fake_ticker \<Rightarrow> fake_ticker" where
  "ticked fin t =
     (if fin < ft_next t then t
      else t\<lparr>ft_next := latest_deadline fin (ft_interval t) (ft_next t) + ft_interval t,
             ft_channel := (case ft_channel t of None \<Rightarrow> Some (latest_deadline fin (ft_interval t) (ft_next t))
                            | Some u \<Rightarrow> Some u)\<rparr>)"

definition within :: "gtime \<Rightarrow> fake_ticker list \<Rightarrow> bool" where
  "within fin heap \<longleftrightarrow> (\<forall>t \<in> set heap. fin + ft_interval t \<le> max_time)"

definition moved :: "gtime \<Rightarrow> fake_ticker \<Rightarrow> fake_ticker" where
  "moved fin t =
     (if fin < ft_next t then t
      else t\<lparr>ft_next := latest_deadline fin (ft_interval t) (ft_next t) + ft_interval t\<rparr>)"

lemma collect_spec:
  assumes "distinct as" and "\<forall>a \<in> set as. a < length heap" and "list_all ticker_ok heap"
    and "within fin heap"
  shows "\<exists>heap'. collect fin as heap = Some (map (\<lambda>a. (a, latest_deadline fin (ft_interval (heap ! a)) (ft_next (heap ! a))))
        (filter (\<lambda>a. ft_next (heap ! a) \<le> fin) as), heap') \<and> length heap' = length heap \<and>
      (\<forall>b < length heap. heap' ! b = (if b \<in> set as then moved fin (heap ! b) else heap ! b))"
  using assms
proof (induction as arbitrary: heap)
  case (Cons a as)
  let ?t = "heap ! a" and ?l = "latest_deadline fin (ft_interval (heap ! a)) (ft_next (heap ! a))"
  have a: "a < length heap" "a \<notin> set as" using Cons.prems by auto
  then have t: "ticker_ok ?t" "fin + ft_interval ?t \<le> max_time"
    using Cons.prems(3,4) by (simp_all add: list_all_length within_def)
  have cu: "catch_up fin (ft_interval ?t) None (ft_next ?t) =
      Some (if ft_next ?t \<le> fin then Some ?l else None, ft_next (moved fin ?t))"
    using t by (auto simp: moved_def ticker_ok_def catch_up_due catch_up_idle)
  let ?heap = "heap[a := moved fin ?t]"
  have upd: "heap[a := ?t\<lparr>ft_next := ft_next (moved fin ?t)\<rparr>] = ?heap"
    by (simp add: moved_def)
  have ok: "ticker_ok (moved fin ?t)"
    using t latest_deadline_bounds(1) [of "ft_interval ?t" "ft_next ?t" fin]
    by (auto simp: moved_def ticker_ok_def)
  have int: "ft_interval (moved fin ?t) = ft_interval ?t" by (simp add: moved_def)
  have pres: "list_all ticker_ok ?heap" "within fin ?heap"
    using Cons.prems(3,4) ok int t(2)
    by (auto simp: list_all_iff within_def dest!: set_update_subset_insert [THEN subsetD])
  from Cons.IH [of ?heap] Cons.prems a pres obtain heap' where
    rec: "collect fin as ?heap = Some (map (\<lambda>b. (b, latest_deadline fin (ft_interval (?heap ! b)) (ft_next (?heap ! b))))
        (filter (\<lambda>b. ft_next (?heap ! b) \<le> fin) as), heap')" "length heap' = length heap"
      "\<forall>b < length heap. heap' ! b = (if b \<in> set as then moved fin (?heap ! b) else ?heap ! b)"
    by auto
  have same: "?heap ! b = heap ! b" if "b \<in> set as" for b using a(2) that by (metis nth_list_update_neq)
  have "map (\<lambda>b. (b, latest_deadline fin (ft_interval (?heap ! b)) (ft_next (?heap ! b))))
        (filter (\<lambda>b. ft_next (?heap ! b) \<le> fin) as) =
      map (\<lambda>b. (b, latest_deadline fin (ft_interval (heap ! b)) (ft_next (heap ! b))))
        (filter (\<lambda>b. ft_next (heap ! b) \<le> fin) as)"
    using same by (intro map_cong filter_cong) auto
  with rec cu upd a same show ?case
    by (intro exI [of _ heap']) (auto simp: nth_list_update)
qed simp

lemma deliver_other: "b \<noteq> a \<Longrightarrow> deliver heap (a, t) ! b = heap ! b"
  by (simp add: deliver_def split: option.split)

lemma deliver_length [simp]: "length (deliver heap d) = length heap"
  by (simp add: deliver_def split: prod.split option.split)

lemma deliver_all:
  "distinct (map fst ds) \<Longrightarrow> \<forall>a \<in> fst ` set ds. a < length heap \<Longrightarrow>
    length (foldl deliver heap ds) = length heap \<and>
    (\<forall>b < length heap. foldl deliver heap ds ! b =
       (case (map_of ds b, ft_channel (heap ! b)) of
          (Some t, None) \<Rightarrow> (heap ! b)\<lparr>ft_channel := Some t\<rparr> | _ \<Rightarrow> heap ! b))"
proof (induction ds arbitrary: heap)
  case (Cons d ds)
  obtain a t where d: "d = (a, t)" by (cases d)
  from Cons.prems d have "map_of ds a = None" by (auto simp: map_of_eq_None_iff)
  moreover have "a < length heap" using Cons.prems d by simp
  ultimately show ?case
    using Cons.IH [of "deliver heap d"] Cons.prems
    by (auto simp: d deliver_def nth_list_update split: option.splits)
qed simp

text \<open>
  \<open>Advance\<close> returns, moves the clock, and treats each active ticker as documented: a ticker
  whose deadline is not reached is untouched; otherwise its channel holds the latest crossed
  deadline (or the tick that was already waiting), and its next deadline is the first one after
  the new time on the same phase. Stopped tickers are untouched.
\<close>

theorem Fake_Advance_spec:
  assumes "fake_ok f" and "fin = time_add (fk_now f) d" and "within fin (fk_heap f)"
  shows "\<exists>heap'. Fake_Advance f d = Some (f\<lparr>fk_now := fin, fk_heap := heap'\<rparr>) \<and>
    length heap' = length (fk_heap f) \<and>
    (\<forall>a < length (fk_heap f). heap' ! a =
      (if a \<in> set (fk_active f) then ticked fin (fk_heap f ! a) else fk_heap f ! a))"
proof -
  let ?heap = "fk_heap f" and ?as = "fk_active f"
  let ?l = "\<lambda>a. latest_deadline fin (ft_interval (?heap ! a)) (ft_next (?heap ! a))"
  let ?due = "filter (\<lambda>a. ft_next (?heap ! a) \<le> fin) ?as"
  from assms(1) have ok: "distinct ?as" "\<forall>a \<in> set ?as. a < length ?heap" "list_all ticker_ok ?heap"
    by (simp_all add: fake_ok_def)
  from collect_spec [OF ok assms(3)] obtain heap' where
    c: "collect fin ?as ?heap = Some (map (\<lambda>a. (a, ?l a)) ?due, heap')" "length heap' = length ?heap"
      "\<forall>b < length ?heap. heap' ! b = (if b \<in> set ?as then moved fin (?heap ! b) else ?heap ! b)"
    by blast
  let ?ds = "map (\<lambda>a. (a, ?l a)) ?due"
  have keys: "map fst ?ds = ?due" by (simp add: comp_def)
  have "distinct (map fst ?ds)" unfolding keys using ok(1) by simp
  moreover have "\<forall>a \<in> fst ` set ?ds. a < length heap'" using ok(2) c(2) by auto
  ultimately have del: "length (foldl deliver heap' ?ds) = length ?heap"
    "\<forall>b < length ?heap. foldl deliver heap' ?ds ! b =
       (case (map_of ?ds b, ft_channel (heap' ! b)) of
          (Some t, None) \<Rightarrow> (heap' ! b)\<lparr>ft_channel := Some t\<rparr> | _ \<Rightarrow> heap' ! b)"
    using deliver_all [of ?ds heap'] c(2) by auto
  have "map_of ?ds b = (if b \<in> set ?as \<and> ft_next (?heap ! b) \<le> fin then Some (?l b) else None)" for b
    by (simp add: map_of_graph)
  with del c(3) have "\<forall>b < length ?heap. foldl deliver heap' ?ds ! b =
      (if b \<in> set ?as then ticked fin (?heap ! b) else ?heap ! b)"
    by (auto simp: moved_def ticked_def split: option.splits)
  with c del(1) show ?thesis
    by (intro exI [of _ "foldl deliver heap' ?ds"]) (simp add: Fake_Advance_def assms(2) [symmetric])
qed

theorem Fake_Advance_spec_witness:
  "\<exists>heap'. Fake_Advance \<lparr>fk_now = 0, fk_heap = [\<lparr>ft_interval = 10, ft_next = 10, ft_channel = None, ft_stopped = False\<rparr>],
      fk_active = [0]\<rparr> 35 = Some \<lparr>fk_now = 35, fk_heap = heap', fk_active = [0]\<rparr> \<and>
    heap' ! 0 = \<lparr>ft_interval = 10, ft_next = 40, ft_channel = Some 30, ft_stopped = False\<rparr>"
proof -
  let ?f = "\<lparr>fk_now = 0, fk_heap = [\<lparr>ft_interval = 10, ft_next = 10, ft_channel = None, ft_stopped = False\<rparr>],
      fk_active = [0]\<rparr>"
  have "fake_ok ?f" and "35 = time_add (fk_now ?f) 35" and "within 35 (fk_heap ?f)"
    by (simp_all add: fake_ok_def ticker_ok_def go_time_simps within_def time_add_def)
  from Fake_Advance_spec [OF this] show ?thesis
    by (auto simp: ticked_def latest_deadline_def)
qed

end
