(* ===== verification/Gor_Mail.thy ===== *)
theory Gor_Mail
  imports Gor_Errors
begin

text \<open>
  The mailbox of one activation, \<open>mail/mail.go\<close>: a bounded channel \<open>in\<close>, a closed flag under a
  mutex, and one worker goroutine \<open>run\<close>. A call is its number. The worker is a program counter
  over the points where other goroutines can interleave: waiting on the channel, holding a call
  before and during its function, after the reply, and draining. The reply channel of a call has
  room for one result, so a reply never blocks the worker; the list of replies records the order
  in which they are sent, and \<open>bx_admitted\<close> and \<open>bx_ran\<close> record which calls entered the channel and
  which functions ran.
\<close>

section \<open>State\<close>

type_synonym 'v mail_result = "'v option \<times> go_error option"

datatype worker = AtRange | Got nat | Running nat | AfterCall | RejectQueued | Finished

record 'v box =
  bx_cap :: nat
  bx_in :: "nat list"
  bx_closed :: bool
  bx_done :: bool
  bx_worker :: worker
  bx_replies :: "(nat \<times> 'v mail_result) list"
  bx_admitted :: "nat list"
  bx_ran :: "nat list"

definition Box_New :: "nat \<Rightarrow> 'v box" where
  "Box_New capacity = \<lparr>bx_cap = capacity, bx_in = [], bx_closed = False, bx_done = False,
     bx_worker = AtRange, bx_replies = [], bx_admitted = [], bx_ran = []\<rparr>"

section \<open>Callers\<close>

text \<open>
  A send that does not block: there is room in the buffer, or the worker waits for the value (the
  only way through a channel of capacity zero).
\<close>

definition can_send :: "'v box \<Rightarrow> bool" where
  "can_send b \<longleftrightarrow> length (bx_in b) < bx_cap b \<or> (bx_in b = [] \<and> bx_worker b = AtRange)"

text \<open>The first half of \<open>Call\<close>, under the mutex: an error, or the call is in the channel.\<close>

definition Box_Call_enter :: "'v box \<Rightarrow> nat \<Rightarrow> go_error option \<times> 'v box" where
  "Box_Call_enter b c =
     (if bx_closed b then (Some (Sentinel MailErrClosed), b)
      else if can_send b
        then (None, b\<lparr>bx_in := bx_in b @ [c], bx_admitted := bx_admitted b @ [c]\<rparr>)
      else (Some (Sentinel MailErrOverloaded), b))"

text \<open>
  The second half of \<open>Call\<close>: the reply or the end of the context, whichever the select picks;
  \<open>None\<close> while it blocks.
\<close>

definition Box_Call_wait :: "'v box \<Rightarrow> nat \<Rightarrow> go_error option \<Rightarrow> bool \<Rightarrow> 'v mail_result option" where
  "Box_Call_wait b c ctx_err pick_reply =
     (case (map_of (bx_replies b) c, ctx_err) of
        (Some r, None) \<Rightarrow> Some r
      | (None, Some e) \<Rightarrow> Some (None, Some e)
      | (Some r, Some e) \<Rightarrow> Some (if pick_reply then r else (None, Some e))
      | (None, None) \<Rightarrow> None)"

definition Box_Close :: "'v box \<Rightarrow> 'v box" where
  "Box_Close b = (if bx_closed b then b else b\<lparr>bx_closed := True\<rparr>)"

definition Box_Len :: "'v box \<Rightarrow> nat" where
  "Box_Len b = length (bx_in b)"

definition Box_isClosed :: "'v box \<Rightarrow> bool" where
  "Box_isClosed b = bx_closed b"

section \<open>The worker\<close>

definition send_reply :: "nat \<Rightarrow> 'v mail_result \<Rightarrow> 'v box \<Rightarrow> 'v box" where
  "send_reply c r b = b\<lparr>bx_replies := bx_replies b @ [(c, r)]\<rparr>"

abbreviation closed_result :: "'v mail_result" where
  "closed_result \<equiv> (None, Some (Sentinel MailErrClosed))"

text \<open>One iteration of \<open>rejectQueued\<close>; an empty channel, closed or not, ends the drain.\<close>

definition Box_rejectQueued_step :: "'v box \<Rightarrow> 'v box" where
  "Box_rejectQueued_step b =
     (case bx_in b of
        [] \<Rightarrow> b\<lparr>bx_worker := Finished, bx_done := True\<rparr>
      | c # q \<Rightarrow> send_reply c closed_result (b\<lparr>bx_in := q\<rparr>))"

text \<open>
  One step of \<open>run\<close>; \<open>res\<close> is what the function of the call returns when it is the one running.
  \<open>None\<close> means the worker cannot move: it waits on an open, empty channel, or it has returned.
\<close>

fun Box_run_step :: "'v mail_result \<Rightarrow> 'v box \<Rightarrow> 'v box option" where
  "Box_run_step res b =
     (case bx_worker b of
        AtRange \<Rightarrow>
          (case bx_in b of
             [] \<Rightarrow> if bx_closed b then Some (b\<lparr>bx_worker := RejectQueued\<rparr>) else None
           | c # q \<Rightarrow> Some (b\<lparr>bx_in := q, bx_worker := Got c\<rparr>))
      | Got c \<Rightarrow>
          if Box_isClosed b then Some (send_reply c closed_result (b\<lparr>bx_worker := RejectQueued\<rparr>))
          else Some (b\<lparr>bx_worker := Running c, bx_ran := bx_ran b @ [c]\<rparr>)
      | Running c \<Rightarrow> Some (send_reply c res (b\<lparr>bx_worker := AfterCall\<rparr>))
      | AfterCall \<Rightarrow> Some (b\<lparr>bx_worker := if Box_isClosed b then RejectQueued else AtRange\<rparr>)
      | RejectQueued \<Rightarrow> Some (Box_rejectQueued_step b)
      | Finished \<Rightarrow> None)"

declare Box_run_step.simps [simp del]

section \<open>The step relation\<close>

text \<open>Callers use a new number for each call; closing and working interleave freely.\<close>

inductive box_step :: "'v box \<Rightarrow> 'v box \<Rightarrow> bool" where
  arrive: "c \<notin> set (bx_admitted b) \<Longrightarrow> box_step b (snd (Box_Call_enter b c))"
| close: "box_step b (Box_Close b)"
| work: "Box_run_step res b = Some b' \<Longrightarrow> box_step b b'"

inductive box_reach :: "nat \<Rightarrow> 'v box \<Rightarrow> bool" for cap where
  init: "box_reach cap (Box_New cap)"
| step: "box_reach cap b \<Longrightarrow> box_step b b' \<Longrightarrow> box_reach cap b'"

inductive_cases box_stepE: "box_step b b'"

fun held :: "worker \<Rightarrow> nat list" where
  "held (Got c) = [c]" | "held (Running c) = [c]" | "held _ = []"

definition draining :: "worker \<Rightarrow> bool" where
  "draining w \<longleftrightarrow> w = RejectQueued \<or> w = Finished"

fun active_call :: "worker \<Rightarrow> nat list" where
  "active_call (Running c) = [c]" | "active_call _ = []"

text \<open>The replies of the calls that ran, in order, then the refusals.\<close>

definition answered :: "nat list \<Rightarrow> (nat \<times> 'v mail_result) list \<Rightarrow> bool" where
  "answered cs rs \<longleftrightarrow>
     (\<exists>ys zs. rs = ys @ zs \<and> map fst ys = cs \<and> (\<forall>z \<in> set zs. snd z = closed_result))"

text \<open>
  The invariant. The calls admitted are, in order, those replied to, the one the worker holds and
  those still queued. Before the drain every reply is of a function that ran; in the drain the box
  is closed and the calls that did not run are the last ones and got \<open>ErrClosed\<close>.
\<close>

definition box_inv :: "nat \<Rightarrow> 'v box \<Rightarrow> bool" where
  "box_inv cap b \<longleftrightarrow>
     bx_cap b = cap \<and> length (bx_in b) \<le> max cap 1 \<and>
     bx_admitted b = map fst (bx_replies b) @ held (bx_worker b) @ bx_in b \<and>
     (\<not> draining (bx_worker b) \<longrightarrow> map fst (bx_replies b) @ active_call (bx_worker b) = bx_ran b) \<and>
     (draining (bx_worker b) \<longrightarrow> bx_closed b \<and> answered (bx_ran b) (bx_replies b)) \<and>
     (bx_done b \<longleftrightarrow> bx_worker b = Finished) \<and> (bx_worker b = Finished \<longrightarrow> bx_in b = [])"

lemma box_inv_New: "box_inv cap (Box_New cap)"
  by (simp add: box_inv_def Box_New_def draining_def)

lemma box_inv_enter:
  assumes inv: "box_inv cap b"
  shows "box_inv cap (snd (Box_Call_enter b c))"
proof (cases "bx_closed b \<or> \<not> can_send b")
  case True
  with inv show ?thesis by (auto simp: Box_Call_enter_def)
next
  case False
  have w: "\<not> draining (bx_worker b)" "bx_worker b \<noteq> Finished"
    using inv False by (auto simp: box_inv_def draining_def)
  have adm: "bx_admitted b @ [c] = map fst (bx_replies b) @ held (bx_worker b) @ (bx_in b @ [c])"
    using inv by (simp add: box_inv_def)
  have "length (bx_in b @ [c]) \<le> max cap 1"
    using inv False by (auto simp: box_inv_def can_send_def)
  moreover have "snd (Box_Call_enter b c) =
      b\<lparr>bx_in := bx_in b @ [c], bx_admitted := bx_admitted b @ [c]\<rparr>"
    using False by (simp add: Box_Call_enter_def)
  ultimately show ?thesis using inv adm w unfolding box_inv_def by simp
qed

lemma box_inv_close: "box_inv cap b \<Longrightarrow> box_inv cap (Box_Close b)"
  by (auto simp: Box_Close_def box_inv_def)

lemma answered_all: "map fst rs = cs \<Longrightarrow> answered cs rs"
  unfolding answered_def by (rule exI [of _ rs]) simp

lemma answered_refuse: "answered cs rs \<Longrightarrow> answered cs (rs @ [(c, closed_result)])"
  unfolding answered_def by (metis (no_types, lifting) append.assoc rotate1.simps(2) set_ConsD set_rotate1 snd_conv)

lemma box_inv_work:
  assumes "box_inv cap b" and "Box_run_step res b = Some b'"
  shows "box_inv cap b'"
proof (cases "bx_worker b")
  case AtRange
  with assms show ?thesis
    by (auto simp: Box_run_step.simps box_inv_def draining_def intro: answered_all
        split: list.splits if_splits)
next
  case (Got c)
  with assms show ?thesis
    by (auto simp: Box_run_step.simps box_inv_def draining_def send_reply_def Box_isClosed_def
        intro: answered_refuse [OF answered_all] split: if_splits)
next
  case (Running c)
  with assms show ?thesis
    by (auto simp: Box_run_step.simps box_inv_def draining_def send_reply_def)
next
  case AfterCall
  with assms show ?thesis
    by (auto simp: Box_run_step.simps box_inv_def draining_def Box_isClosed_def intro: answered_all
        split: if_splits)
next
  case RejectQueued
  with assms show ?thesis
    by (cases "bx_in b")
      (auto simp: Box_run_step.simps Box_rejectQueued_step_def box_inv_def draining_def send_reply_def
        intro: answered_refuse)
next
  case Finished
  with assms(2) show ?thesis by (simp add: Box_run_step.simps)
qed

lemma box_reach_inv: "box_reach cap b \<Longrightarrow> box_inv cap b"
proof (induction rule: box_reach.induct)
  case (step b b')
  from step.hyps(2) step.IH show ?case
    by (cases rule: box_step.cases) (auto intro: box_inv_enter box_inv_close box_inv_work)
qed (rule box_inv_New)

lemma Box_run_step_admitted: "Box_run_step res b = Some b' \<Longrightarrow> bx_admitted b' = bx_admitted b"
  by (auto simp: Box_run_step.simps send_reply_def Box_rejectQueued_step_def
      split: worker.splits list.splits if_splits)

lemma box_reach_distinct: "box_reach cap b \<Longrightarrow> distinct (bx_admitted b)"
proof (induction rule: box_reach.induct)
  case (step b b')
  from step.hyps(2) step.IH show ?case
    by (cases rule: box_step.cases) (auto simp: Box_Call_enter_def Box_Close_def Box_run_step_admitted)
qed (simp add: Box_New_def)

section \<open>Draining\<close>

text \<open>The worker alone, \<open>n\<close> steps, with \<open>f c\<close> the result of the function of call \<open>c\<close>.\<close>

fun Box_run_for :: "(nat \<Rightarrow> 'v mail_result) \<Rightarrow> nat \<Rightarrow> 'v box \<Rightarrow> 'v box" where
  "Box_run_for f 0 b = b"
| "Box_run_for f (Suc n) b =
     (case Box_run_step (case bx_worker b of Running c \<Rightarrow> f c | _ \<Rightarrow> closed_result) b of
        None \<Rightarrow> b | Some b' \<Rightarrow> Box_run_for f n b')"

fun steps_left :: "worker \<Rightarrow> nat" where
  "steps_left AtRange = 2" | "steps_left (Got _) = 2" | "steps_left (Running _) = 3"
| "steps_left AfterCall = 2" | "steps_left RejectQueued = 1" | "steps_left Finished = 0"

definition drain_measure :: "'v box \<Rightarrow> nat" where
  "drain_measure b = (if bx_worker b = Finished then 0 else length (bx_in b) + steps_left (bx_worker b))"

lemma drain_step:
  assumes "bx_closed b" and "bx_worker b \<noteq> Finished"
  shows "\<exists>b'. Box_run_step res b = Some b' \<and> bx_closed b' \<and> Suc (drain_measure b') = drain_measure b"
  using assms
  by (cases "bx_worker b"; cases "bx_in b")
    (auto simp: Box_run_step.simps drain_measure_def send_reply_def Box_rejectQueued_step_def Box_isClosed_def)

lemma drain_finishes:
  "bx_closed b \<Longrightarrow> bx_worker (Box_run_for f (drain_measure b) b) = Finished"
proof (induction "drain_measure b" arbitrary: b)
  case 0
  then show ?case by (cases "bx_worker b") (auto simp: drain_measure_def split: if_splits)
next
  case (Suc n)
  then have "bx_worker b \<noteq> Finished" by (auto simp: drain_measure_def)
  from drain_step [OF Suc.prems this] obtain b' where
    "Box_run_step (case bx_worker b of Running c \<Rightarrow> f c | _ \<Rightarrow> closed_result) b = Some b'"
    "bx_closed b'" "Suc (drain_measure b') = drain_measure b" by blast
  with Suc.hyps(1) [of b'] Suc.hyps(2) show ?case by (simp flip: Suc.hyps(2))
qed

lemma Box_run_for_reach: "box_reach cap b \<Longrightarrow> box_reach cap (Box_run_for f n b)"
proof (induction n arbitrary: b)
  case (Suc n)
  have "box_reach cap b'" if "Box_run_step r b = Some b'" for r b'
    using Suc.prems that by (blast intro: box_reach.step box_step.work)
  with Suc show ?case by (simp split: option.split)
qed simp

section \<open>Properties\<close>

text \<open>
  C10. Mailbox order: in every reachable state the admitted calls are exactly, in admission order,
  the calls already answered, the one the worker holds and the queued ones, each once; the functions
  that ran are a prefix of that order, so calls run one at a time, first in first out; and the
  queue never exceeds its capacity.
\<close>

theorem mailbox_fifo:
  assumes "box_reach cap b" and "0 < cap"
  shows "bx_admitted b = map fst (bx_replies b) @ held (bx_worker b) @ bx_in b \<and>
    distinct (bx_admitted b) \<and> take (length (bx_ran b)) (bx_admitted b) = bx_ran b \<and> Box_Len b \<le> cap"
proof -
  have inv: "box_inv cap b" by (rule box_reach_inv [OF assms(1)])
  have "take (length (bx_ran b)) (bx_admitted b) = bx_ran b"
  proof (cases "draining (bx_worker b)")
    case True
    then have "answered (bx_ran b) (bx_replies b)" using inv by (simp add: box_inv_def)
    then obtain ys zs where "bx_replies b = ys @ zs" "bx_ran b = map fst ys"
      by (auto simp: answered_def)
    moreover have "bx_admitted b = map fst (bx_replies b) @ held (bx_worker b) @ bx_in b"
      using inv by (simp add: box_inv_def)
    ultimately show ?thesis by simp
  next
    case False
    with inv have ran: "bx_ran b = map fst (bx_replies b) @ active_call (bx_worker b)"
      and adm: "bx_admitted b = map fst (bx_replies b) @ held (bx_worker b) @ bx_in b"
      by (simp_all add: box_inv_def)
    show ?thesis unfolding ran adm by (cases "bx_worker b") simp_all
  qed
  moreover have "bx_admitted b = map fst (bx_replies b) @ held (bx_worker b) @ bx_in b"
    "length (bx_in b) \<le> cap" using inv assms(2) by (auto simp: box_inv_def)
  ultimately show ?thesis using box_reach_distinct [OF assms(1)] by (auto simp: Box_Len_def)
qed

lemma demo_box_reach:
  "box_reach 1 (snd (Box_Call_enter (Box_New 1 :: nat box) 7))"
  by (rule box_reach.step [OF box_reach.init box_step.arrive]) (simp add: Box_New_def)

theorem mailbox_fifo_witness:
  "bx_admitted (snd (Box_Call_enter (Box_New 1 :: nat box) 7)) = [7] \<and>
    Box_Len (snd (Box_Call_enter (Box_New 1 :: nat box) 7)) \<le> 1"
  using mailbox_fifo [OF demo_box_reach] by (simp add: Box_Call_enter_def Box_New_def can_send_def)

text \<open>
  No call is lost by closing: once \<open>Done\<close> is closed every admitted call has exactly one reply,
  the calls whose function did not run are answered with \<open>ErrClosed\<close>, and every later \<open>Call\<close> is
  refused with \<open>ErrClosed\<close>.
\<close>

theorem mailbox_none_lost:
  assumes "box_reach cap b" and "bx_done b"
  shows "map fst (bx_replies b) = bx_admitted b \<and> distinct (map fst (bx_replies b)) \<and>
    (\<forall>(c, r) \<in> set (bx_replies b). c \<in> set (bx_ran b) \<or> r = closed_result) \<and>
    Box_Call_enter b c' = (Some (Sentinel MailErrClosed), b)"
proof -
  have inv: "box_inv cap b" by (rule box_reach_inv [OF assms(1)])
  with assms(2) have fin: "bx_worker b = Finished" "bx_in b = []" by (simp_all add: box_inv_def)
  then have dr: "bx_closed b" "answered (bx_ran b) (bx_replies b)"
    and adm: "map fst (bx_replies b) = bx_admitted b"
    using inv by (simp_all add: box_inv_def draining_def)
  note box_reach_distinct [OF assms(1)]
  moreover have "c \<in> set (bx_ran b) \<or> r = closed_result" if "(c, r) \<in> set (bx_replies b)" for c r
    using dr(2) that unfolding answered_def
    by (metis (no_types, lifting) Un_iff fst_conv image_eqI set_append set_map snd_conv)
  ultimately show ?thesis using adm dr(1) by (auto simp: Box_Call_enter_def)
qed

text \<open>
  A closed mailbox drains: from every reachable closed state the worker, left alone, returns
  within \<open>Len + 3\<close> steps, so \<open>Done\<close> gets closed provided the running function returns.
\<close>

theorem mailbox_drains:
  assumes "box_reach cap b"
  shows "\<exists>n \<le> Box_Len b + 3. bx_done (Box_run_for f n (Box_Close b))"
proof (intro exI conjI)
  let ?b = "Box_Close b"
  have reach: "box_reach cap ?b" by (rule box_reach.step [OF assms box_step.close])
  have closed: "bx_closed ?b" by (simp add: Box_Close_def)
  have "steps_left w \<le> 3" for w by (cases w) simp_all
  then show "drain_measure ?b \<le> Box_Len b + 3"
    by (auto simp: drain_measure_def Box_Len_def Box_Close_def)
  have "box_inv cap (Box_run_for f (drain_measure ?b) ?b)"
    by (rule box_reach_inv [OF Box_run_for_reach [OF reach]])
  with drain_finishes [OF closed] show "bx_done (Box_run_for f (drain_measure ?b) ?b)"
    by (simp add: box_inv_def)
qed

theorem mailbox_drains_witness:
  "\<exists>n \<le> 4. bx_done (Box_run_for (\<lambda>_. closed_result) n (Box_Close (snd (Box_Call_enter (Box_New 1 :: nat box) 7))))"
  using mailbox_drains [OF demo_box_reach, of "\<lambda>_. closed_result"]
  by (simp add: Box_Len_def Box_Call_enter_def Box_New_def can_send_def numeral_eq_Suc)

lemma demo_box_done:
  "box_reach 1 (Box_run_for (\<lambda>_. closed_result) 4 (Box_Close (snd (Box_Call_enter (Box_New 1 :: nat box) 7))))"
  by (rule Box_run_for_reach [OF box_reach.step [OF demo_box_reach box_step.close]])

theorem mailbox_none_lost_witness:
  "map fst (bx_replies (Box_run_for (\<lambda>_. closed_result) 4
      (Box_Close (snd (Box_Call_enter (Box_New 1 :: nat box) 7))))) = [7]"
proof -
  let ?b = "Box_run_for (\<lambda>_. closed_result) 4 (Box_Close (snd (Box_Call_enter (Box_New 1 :: nat box) 7)))"
  have eq: "bx_done ?b" "bx_admitted ?b = [7]"
    by (simp_all add: numeral_eq_Suc Box_run_step.simps Box_Close_def Box_Call_enter_def Box_New_def
        can_send_def send_reply_def Box_rejectQueued_step_def Box_isClosed_def)
  from mailbox_none_lost [OF demo_box_done eq(1)] eq(2) show ?thesis by simp
qed

end
