(* ===== verification/Gor_Timer.thy ===== *)
theory Gor_Timer
  imports Gor_Store
begin

text \<open>
  The Reminder poller of \<open>timer/timer.go\<close>: the arithmetic of the next due time with its overflow
  guards, and one poll over the Reminder table. A turn of the loop sees what the environment does
  at that point: whether the context is done, whether this node owns the Grain, which operations
  other nodes slipped in before the claim, and the error of the claim call.
\<close>

section \<open>The next due time\<close>

definition maxDuration :: duration where "maxDuration = max_int64"

definition futureDueAt :: "gtime \<Rightarrow> duration \<Rightarrow> gtime" where
  "futureDueAt now period =
     (let fallback = time_add now period
      in if now < fallback then fallback else time_add now 1)"

definition nextDueAt :: "reminder \<Rightarrow> gtime \<Rightarrow> gtime" where
  "nextDueAt r now =
     (let period = r_Interval r
      in if period \<le> 0 then time_zero
         else if now < r_DueAt r then r_DueAt r
         else
           (let elapsed = time_sub now (r_DueAt r);
                missed = go_div elapsed period
            in if missed = maxDuration then futureDueAt now period
               else
                 (let missed = wrap64 (missed + 1)
                  in if go_div maxDuration period < missed then futureDueAt now period
                     else
                       (let candidate = time_add (r_DueAt r) (wrap64 (period * missed))
                        in if \<not> now < candidate then futureDueAt now period else candidate))))"

section \<open>One poll\<close>

record poll_turn =
  pt_ctx_done :: bool
  pt_owns :: bool
  pt_others :: "memory_op list"
  pt_claim_err :: "go_error option"

text \<open>A delivered call: what \<open>newCall\<close> gets and \<open>Invoke\<close> is given. Its error is ignored.\<close>

record tick_call =
  tc_GrainId :: grain_id
  tc_Method :: string
  tc_FirstTickTime :: gtime
  tc_Period :: duration
  tc_CurrentTickTime :: gtime

definition tick_call_of :: "reminder \<Rightarrow> tick_call" where
  "tick_call_of r = \<lparr>tc_GrainId = r_GrainId r, tc_Method = r_Method r,
     tc_FirstTickTime = r_FirstTickTime r, tc_Period = r_Interval r, tc_CurrentTickTime = r_DueAt r\<rparr>"

fun poll_loop :: "bool \<Rightarrow> gtime \<Rightarrow> (poll_turn \<times> reminder) list \<Rightarrow> memory \<Rightarrow> tick_call list \<times> memory" where
  "poll_loop newCall now [] s = ([], s)"
| "poll_loop newCall now ((t, r) # rest) s =
     (if pt_ctx_done t then ([], s)
      else if \<not> pt_owns t then poll_loop newCall now rest s
      else
        (case Memory_Claim (pt_claim_err t) (memory_run s (pt_others t)) r (nextDueAt r now) of
           (claimed, s') \<Rightarrow>
             (case claimed of
                Inl _ \<Rightarrow> poll_loop newCall now rest s'
              | Inr False \<Rightarrow> poll_loop newCall now rest s'
              | Inr True \<Rightarrow>
                  if \<not> newCall then poll_loop newCall now rest s'
                  else (case poll_loop newCall now rest s' of
                          (calls, s'') \<Rightarrow> (tick_call_of r # calls, s'')))))"

text \<open>\<open>turns r\<close> is the environment of the turn that handles row \<open>r\<close>.\<close>

definition Poller_poll ::
    "bool \<Rightarrow> gtime \<Rightarrow> go_error option \<Rightarrow> (reminder \<Rightarrow> poll_turn) \<Rightarrow> memory \<Rightarrow> tick_call list \<times> memory" where
  "Poller_poll newCall now list_err turns s =
     (case Memory_ListDue list_err s now of
        Inl _ \<Rightarrow> ([], s)
      | Inr reminders \<Rightarrow> poll_loop newCall now (map (\<lambda>r. (turns r, r)) reminders) s)"

datatype poller_event = PollTick gtime "go_error option" "reminder \<Rightarrow> poll_turn" | PollDone

fun Poller_run :: "bool \<Rightarrow> poller_event list \<Rightarrow> memory \<Rightarrow> tick_call list \<times> memory" where
  "Poller_run newCall [] s = ([], s)"
| "Poller_run newCall (PollDone # _) s = ([], s)"
| "Poller_run newCall (PollTick now list_err turns # evs) s =
     (case Poller_poll newCall now list_err turns s of
        (calls, s') \<Rightarrow> (case Poller_run newCall evs s' of (later, s'') \<Rightarrow> (calls @ later, s'')))"

section \<open>Lemmas\<close>

lemma futureDueAt_future: "min_time \<le> now \<Longrightarrow> now < max_time \<Longrightarrow> now < futureDueAt now period"
  by (simp add: futureDueAt_def Let_def time_add_exact)

lemma nextDueAt_cases:
  assumes "0 < r_Interval r" and "r_DueAt r \<le> now"
  shows "nextDueAt r now = futureDueAt now (r_Interval r) \<or> now < nextDueAt r now"
  using assms by (auto simp: nextDueAt_def Let_def)

lemma nextDueAt_oneshot: "r_Interval r \<le> 0 \<Longrightarrow> nextDueAt r now = 0"
  by (simp add: nextDueAt_def)

lemma nextDueAt_gt:
  assumes "0 < r_Interval r" and "min_time \<le> now" and "now < max_time"
  shows "now < nextDueAt r now"
proof (cases "now < r_DueAt r")
  case True
  then show ?thesis using assms(1) by (simp add: nextDueAt_def)
next
  case False
  then show ?thesis
    using nextDueAt_cases [OF assms(1), of now] futureDueAt_future [OF assms(2,3)] by auto
qed

text \<open>A claim of the row as listed succeeds and replaces exactly that row.\<close>

lemma claim_listed:
  assumes "gm_get (mem_reminders s) (keyForReminder r) = Some r"
  shows "fst (Memory_Claim None s r nxt) = Inr True"
    and "gm_get (mem_reminders (snd (Memory_Claim None s r nxt))) k =
      (if k = keyForReminder r
       then (if nxt = 0 then None else Some (r\<lparr>r_DueAt := nxt, r_ETag := wrap64 (r_ETag r + 1)\<rparr>))
       else gm_get (mem_reminders s) k)"
  using assms by (simp_all add: Memory_Claim_def Let_def go_map_simps)

text \<open>A turn nobody interferes with.\<close>

definition calm_turn :: "bool \<Rightarrow> poll_turn" where
  "calm_turn own = \<lparr>pt_ctx_done = False, pt_owns = own, pt_others = [], pt_claim_err = None\<rparr>"

lemma poll_loop_calm:
  assumes "distinct (map keyForReminder rs)"
    and "\<And>r. r \<in> set rs \<Longrightarrow> gm_get (mem_reminders s) (keyForReminder r) = Some r"
  shows "poll_loop True now (map (\<lambda>r. (calm_turn (own (r_GrainId r)), r)) rs) s = (calls, s') \<Longrightarrow>
    calls = map tick_call_of (filter (\<lambda>r. own (r_GrainId r)) rs) \<and>
    (\<forall>k. gm_get (mem_reminders s') k =
      (case find (\<lambda>r. keyForReminder r = k \<and> own (r_GrainId r)) rs of
         None \<Rightarrow> gm_get (mem_reminders s) k
       | Some r \<Rightarrow> if nextDueAt r now = 0 then None
           else Some (r\<lparr>r_DueAt := nextDueAt r now, r_ETag := wrap64 (r_ETag r + 1)\<rparr>)))"
  using assms
proof (induction rs arbitrary: s calls s')
  case (Cons r rs)
  show ?case
  proof (cases "own (r_GrainId r)")
    case False
    with Cons.prems(1) have rec:
      "poll_loop True now (map (\<lambda>r. (calm_turn (own (r_GrainId r)), r)) rs) s = (calls, s')"
      by (simp add: calm_turn_def)
    have "distinct (map keyForReminder rs)" using Cons.prems(2) by simp
    from Cons.IH [OF rec this] Cons.prems(3) False show ?thesis by simp
  next
    case True
    let ?s1 = "snd (Memory_Claim None s r (nextDueAt r now))"
    have row: "gm_get (mem_reminders s) (keyForReminder r) = Some r" by (rule Cons.prems(3)) simp
    note cl = claim_listed [OF row, of "nextDueAt r now"]
    obtain calls1 where rec:
      "poll_loop True now (map (\<lambda>r. (calm_turn (own (r_GrainId r)), r)) rs) ?s1 = (calls1, s')"
      and calls: "calls = tick_call_of r # calls1"
      using Cons.prems(1) True cl(1)
      by (auto simp: calm_turn_def split: prod.splits)
    have dist: "distinct (map keyForReminder rs)" "keyForReminder r \<notin> keyForReminder ` set rs"
      using Cons.prems(2) by auto
    have rows: "gm_get (mem_reminders ?s1) (keyForReminder x) = Some x" if "x \<in> set rs" for x
    proof -
      have "keyForReminder x \<noteq> keyForReminder r" using that dist(2) by (metis imageI)
      with cl(2) [of "keyForReminder x"] Cons.prems(3) [of x] that show ?thesis by simp
    qed
    have none: "find (\<lambda>x. keyForReminder x = keyForReminder r \<and> own (r_GrainId x)) rs = None"
      using dist(2) unfolding find_None_iff by (metis imageI)
    from Cons.IH [OF rec dist(1) rows] calls True none show ?thesis
      by (auto simp: claim_listed(2) [OF row] split: option.split)
  qed
qed simp

section \<open>Properties\<close>



text \<open>
  Missed ticks are skipped without losing the phase: when the arithmetic stays in range, the
  next due time is the first point of the grid \<open>DueAt + k * Interval\<close> after now.
\<close>

theorem nextDueAt_phase:
  assumes "0 < r_Interval r" and "r_DueAt r \<le> now" and "now - r_DueAt r < max_int64"
    and "((now - r_DueAt r) div r_Interval r + 1) * r_Interval r \<le> max_int64"
    and "r_DueAt r + ((now - r_DueAt r) div r_Interval r + 1) * r_Interval r \<le> max_time"
    and "min_time \<le> r_DueAt r"
  shows "\<exists>k. nextDueAt r now = r_DueAt r + k * r_Interval r \<and>
    r_DueAt r + (k - 1) * r_Interval r \<le> now \<and> now < r_DueAt r + k * r_Interval r"
proof -
  let ?p = "r_Interval r" and ?d = "r_DueAt r"
  let ?q = "(now - ?d) div ?p"
  have q0: "0 \<le> ?q" using assms(1,2) by (simp add: pos_imp_zdiv_nonneg_iff)
  have eq: "?q * ?p + (now - ?d) mod ?p = now - ?d" by simp
  have m: "0 \<le> (now - ?d) mod ?p" "(now - ?d) mod ?p < ?p" using assms(1) by simp_all
  have sub: "time_sub now ?d = now - ?d"
    using assms(2,3) by (intro time_sub_exact) (simp add: in_int64_def min_int64_def)
  have quot: "go_div (now - ?d) ?p = ?q" using assms(1,2) by (simp add: go_div_nonneg)
  have qle: "?q \<le> now - ?d" using eq m(1) mult_left_mono [of 1 ?p ?q] q0 assms(1) by linarith
  then have qlt: "?q < max_int64" using assms(3) by simp
  have w1: "wrap64 (?q + 1) = ?q + 1" using q0 qlt by (intro wrap64_succ) (simp_all add: min_int64_def)
  have w2: "wrap64 (?p * (?q + 1)) = ?p * (?q + 1)"
  proof (rule wrap64_id)
    have "0 \<le> ?p * (?q + 1)" using assms(1) q0 by simp
    with assms(4) show "in_int64 (?p * (?q + 1))"
      by (simp add: in_int64_def min_int64_def mult.commute)
  qed
  have guard: "?q + 1 \<le> max_int64 div ?p"
    using zdiv_mono1 [OF assms(4,1)] assms(1) by simp
  have md: "go_div maxDuration ?p = max_int64 div ?p"
    using assms(1) by (simp add: go_div_nonneg maxDuration_def max_int64_def)
  have "(?q + 1) * ?p = ?q * ?p + ?p" by (simp add: distrib_right)
  then have fut: "now < ?d + (?q + 1) * ?p" and low: "?d + ?q * ?p \<le> now" using eq m by linarith+
  have add: "time_add ?d (?p * (?q + 1)) = ?d + (?q + 1) * ?p"
  proof (subst time_add_exact)
    have "0 \<le> ?p * (?q + 1)" using assms(1) q0 by simp
    then show "min_time \<le> ?d + ?p * (?q + 1)" using assms(6) by simp
    show "?d + ?p * (?q + 1) \<le> max_time" using assms(5) by (simp add: mult.commute)
  qed (simp add: mult.commute)
  have "nextDueAt r now = ?d + (?q + 1) * ?p"
    using assms(1,2) qlt guard fut
    by (simp add: nextDueAt_def Let_def sub quot w1 w2 md [unfolded maxDuration_def] add maxDuration_def)
  with fut low show ?thesis by (intro exI [of _ "?q + 1"]) simp
qed

theorem nextDueAt_phase_witness:
  "\<exists>k. nextDueAt demo_reminder 38 = 5 + k * 10 \<and> 5 + (k - 1) * 10 \<le> 38 \<and> 38 < 5 + k * (10::int)"
  using nextDueAt_phase [of demo_reminder 38] by (simp add: demo_reminder_def go_time_simps)

text \<open>
  C25. A poll that is not interfered with delivers every due Reminder this node owns exactly once,
  in due order, and leaves no owned Reminder due at that time; rows it does not own are untouched.
\<close>

theorem poll_clears_due:
  assumes "memory_ok s" and "min_time \<le> now" and "now < max_time"
    and "Poller_poll True now None (\<lambda>r. calm_turn (own (r_GrainId r))) s = (calls, s')"
  shows "\<exists>due. Memory_ListDue None s now = Inr due \<and>
    calls = map tick_call_of (filter (\<lambda>r. own (r_GrainId r)) due) \<and>
    (\<forall>k r. gm_get (mem_reminders s') k = Some r \<longrightarrow> own (r_GrainId r) \<longrightarrow> now < r_DueAt r) \<and>
    (\<forall>k. \<not> own (rk_identity k) \<longrightarrow> gm_get (mem_reminders s') k = gm_get (mem_reminders s) k)"
proof -
  obtain due where due: "Memory_ListDue None s now = Inr due" by (simp add: Memory_ListDue_def)
  have ok: "gm_ok (mem_reminders s)" using assms(1) by (simp add: memory_ok_def)
  have due_eq: "due = sortReminders (filter (\<lambda>r. \<not> now < r_DueAt r) (map snd (mem_reminders s)))"
    using due by (simp add: Memory_ListDue_def)
  have key: "keyForReminder r = k" if "(k, r) \<in> set (mem_reminders s)" for k r
    using memory_ok_tags(3) [OF assms(1)] that gm_ok_get_iff [OF ok] by blast
  then have rows: "gm_get (mem_reminders s) (keyForReminder r) = Some r" if "r \<in> snd ` set (mem_reminders s)" for r
    using that gm_ok_get_iff [OF ok] by force
  have "map (\<lambda>p. keyForReminder (snd p)) (mem_reminders s) = map fst (mem_reminders s)"
    using key by (intro map_cong) auto
  then have "map keyForReminder (map snd (mem_reminders s)) = map fst (mem_reminders s)"
    by (simp add: comp_def)
  then have "distinct (map keyForReminder (map snd (mem_reminders s)))"
    using ok unfolding gm_ok_def by argo
  then have "distinct (map keyForReminder (filter (\<lambda>r. \<not> now < r_DueAt r) (map snd (mem_reminders s))))"
    by (rule distinct_map_filter)
  then have dist: "distinct (map keyForReminder due)"
    by (simp only: due_eq sortReminders_def distinct_map distinct_sort set_sort)
  have set_due: "set due = {r \<in> snd ` set (mem_reminders s). r_DueAt r \<le> now}"
    by (auto simp: due_eq sortReminders_def not_less)
  have loop: "poll_loop True now (map (\<lambda>r. (calm_turn (own (r_GrainId r)), r)) due) s = (calls, s')"
    using assms(4) due by (simp add: Poller_poll_def)
  from poll_loop_calm [OF dist _ loop] rows set_due
  have res: "calls = map tick_call_of (filter (\<lambda>r. own (r_GrainId r)) due)"
    and get: "gm_get (mem_reminders s') k = (case find (\<lambda>r. keyForReminder r = k \<and> own (r_GrainId r)) due of
         None \<Rightarrow> gm_get (mem_reminders s) k
       | Some r \<Rightarrow> if nextDueAt r now = 0 then None
           else Some (r\<lparr>r_DueAt := nextDueAt r now, r_ETag := wrap64 (r_ETag r + 1)\<rparr>))" for k
    by auto
  have "now < r_DueAt r" if "gm_get (mem_reminders s') k = Some r" "own (r_GrainId r)" for k r
  proof (cases "find (\<lambda>r. keyForReminder r = k \<and> own (r_GrainId r)) due")
    case None
    with that get have g: "gm_get (mem_reminders s) k = Some r" by simp
    then have "keyForReminder r = k" and "r \<in> snd ` set (mem_reminders s)"
      using memory_ok_tags(3) [OF assms(1) g] map_of_SomeD [OF g] by force+
    with None that(2) set_due show ?thesis by (auto simp: find_None_iff)
  next
    case (Some x)
    with that get have x: "nextDueAt x now \<noteq> 0" "r_DueAt r = nextDueAt x now"
      by (auto split: if_splits)
    then have "0 < r_Interval x" using nextDueAt_oneshot [of x now] by linarith
    then show ?thesis using nextDueAt_gt [OF _ assms(2,3)] x(2) by simp
  qed
  moreover have "gm_get (mem_reminders s') k = gm_get (mem_reminders s) k" if "\<not> own (rk_identity k)" for k
  proof -
    have "find (\<lambda>r. keyForReminder r = k \<and> own (r_GrainId r)) due = None"
      using that by (auto simp: find_None_iff keyForReminder_def)
    then show ?thesis by (simp add: get)
  qed
  ultimately show ?thesis using due res by blast
qed

theorem poll_clears_due_witness:
  "\<exists>due. Memory_ListDue None demo_memory 5 = Inr due \<and>
    fst (Poller_poll True 5 None (\<lambda>r. calm_turn True) demo_memory) = map tick_call_of due"
  using poll_clears_due [OF demo_memory_ok(1), of 5 "\<lambda>_. True"
      "fst (Poller_poll True 5 None (\<lambda>r. calm_turn True) demo_memory)"
      "snd (Poller_poll True 5 None (\<lambda>r. calm_turn True) demo_memory)"]
  by (auto simp: go_time_simps)

end
