(* ===== verification/Gor_Ring.thy ===== *)
theory Gor_Ring
  imports Gor_Store
begin

unbundle bit_operations_syntax

text \<open>
  Ownership of Grains, \<open>cluster/cluster.go\<close>, and the ring of probe neighbours of
  \<open>cluster/probe.go\<close>: FNV-1a hashes, 128 virtual points per active member sorted into a ring,
  the owner of a Grain as the first point at or after its hash, and the two neighbours each member
  probes. The owner is shown to be the one an abstract circle gives, to depend on the set of active
  members only, and to change only towards a member that joins.
\<close>

section \<open>Hashing\<close>

definition fnv_offset :: "64 word" where "fnv_offset = 14695981039346656037"
definition fnv_prime :: "64 word" where "fnv_prime = 1099511628211"

definition fnv_write :: "64 word \<Rightarrow> byte list \<Rightarrow> 64 word" where
  "fnv_write h bs = foldl (\<lambda>h b. (h XOR ucast b) * fnv_prime) h bs"

definition hashParts :: "string list \<Rightarrow> 64 word" where
  "hashParts parts =
     foldl (\<lambda>h part. fnv_write (fnv_write h (bytes_of_string part)) [0]) fnv_offset parts"

section \<open>The ring\<close>

definition virtualPointCount :: nat where "virtualPointCount = 128"

record point =
  pt_hash :: "64 word"
  pt_nodeAddr :: string
  pt_generation :: string
  pt_sequence :: nat

record view =
  vw_points :: "point list"
  vw_members :: "member_id list"

text \<open>\<open>memberIDLess\<close> is the order of member identities.\<close>

instantiation member_id :: linorder
begin

definition less_member_id :: "member_id \<Rightarrow> member_id \<Rightarrow> bool" where
  "less_member_id left right =
     (if id_NodeAddr left \<noteq> id_NodeAddr right then id_NodeAddr left < id_NodeAddr right
      else id_Generation left < id_Generation right)"

definition less_eq_member_id :: "member_id \<Rightarrow> member_id \<Rightarrow> bool" where
  "less_eq_member_id left right = (left = right \<or> left < right)"

instance
  by intro_classes
    (auto simp: less_member_id_def less_eq_member_id_def member_id.expand split: if_splits)

end

definition memberIDLess :: "member_id \<Rightarrow> member_id \<Rightarrow> bool" where
  "memberIDLess left right =
     (if id_NodeAddr left \<noteq> id_NodeAddr right then id_NodeAddr left < id_NodeAddr right
      else id_Generation left < id_Generation right)"

lemma memberIDLess_less: "memberIDLess = (<)"
  by (simp add: fun_eq_iff memberIDLess_def less_member_id_def)

definition point_key :: "point \<Rightarrow> 64 word \<times> string \<times> string \<times> nat" where
  "point_key p = (pt_hash p, pt_nodeAddr p, pt_generation p, pt_sequence p)"

definition member_points :: "member \<Rightarrow> point list" where
  "member_points m = map (\<lambda>sequence.
     \<lparr>pt_hash = hashParts [m_NodeAddr m, m_Generation m, itoa sequence],
      pt_nodeAddr = m_NodeAddr m, pt_generation = m_Generation m, pt_sequence = sequence\<rparr>)
     [0..<virtualPointCount]"

definition buildPoints :: "member list \<Rightarrow> point list" where
  "buildPoints members = sort_key point_key (concat (map member_points members))"

definition activeMemberIDs :: "member list \<Rightarrow> member_id list" where
  "activeMemberIDs members =
     sort (map keyForMember (filter (\<lambda>m. m_Status m = MemberActive) members))"

definition NewView :: "member list \<Rightarrow> view" where
  "NewView snapshot =
     (let members = filter (\<lambda>m. m_Status m = MemberActive) snapshot
      in \<lparr>vw_points = buildPoints members, vw_members = activeMemberIDs members\<rparr>)"

definition Owner :: "view \<Rightarrow> grain_id \<Rightarrow> string option" where
  "Owner view identity =
     (if vw_points view = [] then None
      else
        (let identityHash = hashParts [GrainType identity, GrainKey identity];
             index = sort_search (\<lambda>i. identityHash \<le> pt_hash (vw_points view ! i)) 0 (length (vw_points view));
             index = (if index = length (vw_points view) then 0 else index)
         in Some (pt_nodeAddr (vw_points view ! index))))"

definition sameView :: "view \<Rightarrow> view \<Rightarrow> bool" where
  "sameView left right =
     (length (vw_points left) = length (vw_points right) \<and>
      list_all (\<lambda>i. vw_points left ! i = vw_points right ! i) [0..<length (vw_points left)])"

section \<open>Probe neighbours\<close>

text \<open>The index of the first element equal to \<open>self\<close>.\<close>

fun index_of :: "'a \<Rightarrow> 'a list \<Rightarrow> nat option" where
  "index_of x [] = None"
| "index_of x (y # ys) = (if y = x then Some 0 else map_option Suc (index_of x ys))"

definition sortProbePoints :: "(64 word \<times> member_id) list \<Rightarrow> (64 word \<times> member_id) list" where
  "sortProbePoints = sort_key (\<lambda>p. (fst p, snd p))"

definition probeTargets :: "member_id list \<Rightarrow> member_id \<Rightarrow> member_id list" where
  "probeTargets members self =
     (let points = sortProbePoints
            (map (\<lambda>m. (hashParts [id_NodeAddr m, id_Generation m], m)) members);
          n = length points
      in case index_of self (map snd points) of
           None \<Rightarrow> []
         | Some selfIndex \<Rightarrow>
             if n < 2 then []
             else
               (let nxt = snd (points ! ((selfIndex + 1) mod n));
                    previous = snd (points ! ((selfIndex + n - 1) mod n))
                in if previous \<noteq> nxt then [nxt, previous] else [nxt]))"

section \<open>The circle\<close>

text \<open>
  The abstract owner on a finite set of points: the least point at or after the hash, or the least
  point of all.
\<close>

definition least_by :: "(point \<Rightarrow> bool) \<Rightarrow> point set \<Rightarrow> point \<Rightarrow> bool" where
  "least_by P S p \<longleftrightarrow> p \<in> S \<and> P p \<and> (\<forall>q \<in> S. P q \<longrightarrow> point_key p \<le> point_key q)"

definition circle_owner :: "point set \<Rightarrow> 64 word \<Rightarrow> point \<Rightarrow> bool" where
  "circle_owner S h p \<longleftrightarrow>
     (if \<exists>q \<in> S. h \<le> pt_hash q then least_by (\<lambda>q. h \<le> pt_hash q) S p else least_by (\<lambda>q. True) S p)"

lemma point_key_inj: "inj point_key"
  by (rule injI) (simp add: point_key_def)

lemma least_by_unique: "least_by P S p \<Longrightarrow> least_by P S q \<Longrightarrow> p = q"
  unfolding least_by_def by (meson antisym injD point_key_inj)

lemma circle_owner_unique: "circle_owner S h p \<Longrightarrow> circle_owner S h q \<Longrightarrow> p = q"
  unfolding circle_owner_def by (metis least_by_unique)

lemma sorted_points_nth:
  "sorted (map point_key ps) \<Longrightarrow> i \<le> j \<Longrightarrow> j < length ps \<Longrightarrow> point_key (ps ! i) \<le> point_key (ps ! j)"
  by (metis (no_types, lifting) length_map nth_map order_le_less_trans sorted_iff_nth_mono)

lemma point_key_hash: "point_key p \<le> point_key q \<Longrightarrow> pt_hash p \<le> pt_hash q"
  by (auto simp: point_key_def less_eq_prod_simp order_less_imp_le)

text \<open>The binary search and the wrap-around find the owner of the circle.\<close>

lemma Owner_circle:
  assumes "sorted (map point_key (vw_points v))" and "vw_points v \<noteq> []"
  shows "\<exists>p. circle_owner (set (vw_points v)) (hashParts [GrainType g, GrainKey g]) p \<and>
    Owner v g = Some (pt_nodeAddr p)"
proof -
  let ?ps = "vw_points v" and ?h = "hashParts [GrainType g, GrainKey g]"
  let ?f = "\<lambda>i. ?h \<le> pt_hash (?ps ! i)" and ?n = "length (vw_points v)"
  let ?i = "sort_search ?f 0 ?n"
  have mono: "?f b" if "a \<le> b" "b < ?n" "?f a" for a b
    using point_key_hash [OF sorted_points_nth [OF assms(1) that(1,2)]] that(3) by simp
  have "?i \<le> ?n \<and> (\<forall>k < ?i. \<not> ?f k) \<and> (\<forall>k. ?i \<le> k \<and> k < ?n \<longrightarrow> ?f k)"
  proof (rule sort_search_spec [where f = ?f and i = 0 and j = ?n and n = ?n])
    show "?f b" if "a \<le> b" "b < ?n" "?f a" for a b by (rule mono [OF that])
  qed simp_all
  then have spec: "?i \<le> ?n" "\<forall>k < ?i. \<not> ?f k" "\<forall>k. ?i \<le> k \<and> k < ?n \<longrightarrow> ?f k" by blast+
  show ?thesis
  proof (cases "?i = ?n")
    case True
    then have none: "\<not> (\<exists>q \<in> set ?ps. ?h \<le> pt_hash q)"
      using spec(2) by (metis in_set_conv_nth)
    have "point_key (?ps ! 0) \<le> point_key q" if "q \<in> set ?ps" for q
      using that sorted_points_nth [OF assms(1), of 0] by (auto simp: in_set_conv_nth)
    then have "circle_owner (set ?ps) ?h (?ps ! 0)"
      using none assms(2) by (auto simp: circle_owner_def least_by_def)
    with True assms(2) show ?thesis by (auto simp: Owner_def Let_def)
  next
    case False
    then have i: "?i < ?n" using spec(1) by simp
    then have fi: "?f ?i" using spec(3) by simp
    have "point_key (?ps ! ?i) \<le> point_key q" if qs: "q \<in> set ?ps" and qh: "?h \<le> pt_hash q" for q
    proof -
      obtain j where j: "j < ?n" "q = ?ps ! j" using qs by (metis in_set_conv_nth)
      then have "?i \<le> j" using spec(2) qh by (meson not_le)
      then show ?thesis using sorted_points_nth [OF assms(1)] j by simp
    qed
    then have "circle_owner (set ?ps) ?h (?ps ! ?i)"
      using i fi by (auto simp: circle_owner_def least_by_def)
    with False assms(2) show ?thesis by (auto simp: Owner_def Let_def)
  qed
qed

lemma buildPoints_sorted: "sorted (map point_key (buildPoints ms))"
  by (simp add: buildPoints_def)

lemma set_buildPoints: "set (buildPoints ms) = (\<Union>m \<in> set ms. set (member_points m))"
  by (simp add: buildPoints_def)

lemma member_points_nonempty: "member_points m \<noteq> []"
  by (simp add: member_points_def virtualPointCount_def)

lemma buildPoints_empty: "buildPoints ms = [] \<longleftrightarrow> ms = []"
proof
  assume "buildPoints ms = []"
  then have "(\<Union>m \<in> set ms. set (member_points m)) = {}" using set_buildPoints [of ms] by simp
  then show "ms = []" using member_points_nonempty by (cases ms) auto
qed (simp add: buildPoints_def)

lemma member_points_addr: "p \<in> set (member_points m) \<Longrightarrow> pt_nodeAddr p = m_NodeAddr m \<and> pt_generation p = m_Generation m"
  by (auto simp: member_points_def)

text \<open>Only the identity of a member matters for its points.\<close>

lemma member_points_key: "keyForMember m = keyForMember m' \<Longrightarrow> member_points m = member_points m'"
  by (simp add: member_points_def keyForMember_def)

definition active_keys :: "member list \<Rightarrow> member_id set" where
  "active_keys ms = keyForMember ` {m \<in> set ms. m_Status m = MemberActive}"

definition ring_points :: "member list \<Rightarrow> point set" where
  "ring_points ms = (\<Union>m \<in> {m \<in> set ms. m_Status m = MemberActive}. set (member_points m))"

lemma NewView_points: "set (vw_points (NewView ms)) = ring_points ms"
  "sorted (map point_key (vw_points (NewView ms)))"
  "vw_points (NewView ms) = [] \<longleftrightarrow> active_keys ms = {}"
  by (auto simp: NewView_def Let_def set_buildPoints ring_points_def buildPoints_sorted
      buildPoints_empty active_keys_def filter_empty_conv)

lemma ring_points_keys:
  assumes "active_keys ms \<subseteq> active_keys ms'"
  shows "ring_points ms \<subseteq> ring_points ms'"
proof
  fix p
  assume "p \<in> ring_points ms"
  then obtain m where m: "m \<in> set ms" "m_Status m = MemberActive" "p \<in> set (member_points m)"
    by (auto simp: ring_points_def)
  then have "keyForMember m \<in> active_keys ms'" using assms by (auto simp: active_keys_def)
  then obtain m' where "m' \<in> set ms'" "m_Status m' = MemberActive" "keyForMember m' = keyForMember m"
    by (auto simp: active_keys_def)
  then show "p \<in> ring_points ms'"
    using m(3) member_points_key [of m' m] by (auto simp: ring_points_def)
qed

lemma active_keys_list: "active_keys ms = set (map keyForMember (filter (\<lambda>m. m_Status m = MemberActive) ms))"
  by (auto simp: active_keys_def)

lemma Owner_view:
  assumes "active_keys ms \<noteq> {}"
  obtains p where "circle_owner (ring_points ms) (hashParts [GrainType g, GrainKey g]) p"
    "Owner (NewView ms) g = Some (pt_nodeAddr p)"
proof -
  have "vw_points (NewView ms) \<noteq> []" using assms by (simp add: NewView_points(3))
  from Owner_circle [OF NewView_points(2) this, of g] that show ?thesis
    by (auto simp: NewView_points(1))
qed

lemma Owner_none: "active_keys ms = {} \<Longrightarrow> Owner (NewView ms) g = None"
  using NewView_points(3) [of ms] by (simp add: Owner_def)

lemma Owner_active:
  assumes "active_keys ms \<noteq> {}"
  shows "\<exists>p m. circle_owner (ring_points ms) (hashParts [GrainType g, GrainKey g]) p \<and>
     m \<in> set ms \<and> m_Status m = MemberActive \<and> p \<in> set (member_points m) \<and>
     Owner (NewView ms) g = Some (pt_nodeAddr p) \<and> pt_nodeAddr p = m_NodeAddr m"
proof -
  obtain p where p: "circle_owner (ring_points ms) (hashParts [GrainType g, GrainKey g]) p"
      "Owner (NewView ms) g = Some (pt_nodeAddr p)" by (rule Owner_view [OF assms])
  then have "p \<in> ring_points ms" by (auto simp: circle_owner_def least_by_def split: if_splits)
  then obtain m where m: "m \<in> set ms" "m_Status m = MemberActive" "p \<in> set (member_points m)"
    by (auto simp: ring_points_def)
  show ?thesis using p m member_points_addr [OF m(3)] by (intro exI [of _ p] exI [of _ m]) simp
qed

section \<open>Properties of ownership\<close>

text \<open>
  C12. \<open>Owner\<close> implements consistent hashing on the circle: with an active member it always
  answers, with the address of the point the circle assigns to the Grain, which belongs to an
  active member of the snapshot; with none it answers "no owner".
\<close>

theorem Owner_spec:
  "if active_keys ms = {} then Owner (NewView ms) g = None
   else \<exists>p m. circle_owner (ring_points ms) (hashParts [GrainType g, GrainKey g]) p \<and>
     m \<in> set ms \<and> m_Status m = MemberActive \<and> p \<in> set (member_points m) \<and>
     Owner (NewView ms) g = Some (pt_nodeAddr p) \<and> pt_nodeAddr p = m_NodeAddr m"
  using Owner_none [of ms g] Owner_active [of ms g] by (cases "active_keys ms = {}") simp_all

text \<open>
  All nodes that see the same active members agree on every owner, whatever the order of
  their snapshots, the heartbeat times, the votes and the rows of members that are not active.
\<close>

theorem Owner_agreement:
  assumes "active_keys ms = active_keys ms'"
  shows "Owner (NewView ms) g = Owner (NewView ms') g"
proof (cases "active_keys ms = {}")
  case True
  with assms show ?thesis using NewView_points(3) [of ms] NewView_points(3) [of ms'] by (simp add: Owner_def)
next
  case False
  have pts: "ring_points ms = ring_points ms'"
    using ring_points_keys assms by (metis subset_antisym subset_refl)
  obtain p where p: "circle_owner (ring_points ms) (hashParts [GrainType g, GrainKey g]) p"
    "Owner (NewView ms) g = Some (pt_nodeAddr p)" by (rule Owner_view [OF False])
  obtain p' where p': "circle_owner (ring_points ms) (hashParts [GrainType g, GrainKey g]) p'"
    "Owner (NewView ms') g = Some (pt_nodeAddr p')"
    using False assms pts by (metis Owner_view)
  show ?thesis using circle_owner_unique [OF p(1) p'(1)] p(2) p'(2) by simp
qed

text \<open>The witnesses use two members, in either order.\<close>

definition demo_member :: "string \<Rightarrow> member" where
  "demo_member addr = zero_member\<lparr>m_NodeAddr := addr, m_Generation := ''g'', m_Status := MemberActive\<rparr>"

theorem Owner_agreement_witness:
  "Owner (NewView [demo_member ''a'', demo_member ''b'']) (GrainId ''t'' ''k'') =
    Owner (NewView [demo_member ''b'', (demo_member ''a'')\<lparr>m_IamAliveAt := 9\<rparr>]) (GrainId ''t'' ''k'')"
proof (rule Owner_agreement)
  show "active_keys [demo_member ''a'', demo_member ''b''] =
      active_keys [demo_member ''b'', (demo_member ''a'')\<lparr>m_IamAliveAt := 9\<rparr>]"
    by (auto simp: active_keys_list demo_member_def keyForMember_def)
qed

text \<open>
  Minimal disruption: when a member joins, a Grain either keeps its owner or moves to the new
  member; no Grain moves between two members that were there before.
\<close>

theorem Owner_join_minimal:
  assumes "active_keys ms' = insert (keyForMember new) (active_keys ms)" and "active_keys ms \<noteq> {}"
  shows "Owner (NewView ms') g = Owner (NewView ms) g \<or> Owner (NewView ms') g = Some (m_NodeAddr new)"
proof -
  let ?h = "hashParts [GrainType g, GrainKey g]"
  obtain p where p: "circle_owner (ring_points ms) ?h p" "Owner (NewView ms) g = Some (pt_nodeAddr p)"
    by (rule Owner_view [OF assms(2)])
  have "active_keys ms' \<noteq> {}" using assms(1) by simp
  then obtain p' where p': "circle_owner (ring_points ms') ?h p'"
    "Owner (NewView ms') g = Some (pt_nodeAddr p')" by (rule Owner_view)
  have sub: "ring_points ms \<subseteq> ring_points ms'" using ring_points_keys assms(1) by blast
  have "p' \<in> ring_points ms'" using p'(1) by (auto simp: circle_owner_def least_by_def split: if_splits)
  then obtain m where m: "m \<in> set ms'" "m_Status m = MemberActive" "p' \<in> set (member_points m)"
    by (auto simp: ring_points_def)
  then have "keyForMember m \<in> active_keys ms'" by (auto simp: active_keys_def)
  then consider "keyForMember m = keyForMember new" | "keyForMember m \<in> active_keys ms"
    using assms(1) by blast
  then show ?thesis
  proof cases
    case 1
    then have "m_NodeAddr m = m_NodeAddr new" by (simp add: keyForMember_def)
    then show ?thesis using p'(2) member_points_addr [OF m(3)] by simp
  next
    case 2
    then obtain m2 where m2: "m2 \<in> set ms" "m_Status m2 = MemberActive" "keyForMember m2 = keyForMember m"
      by (auto simp: active_keys_def)
    then have in_ms: "p' \<in> ring_points ms"
      using m(3) member_points_key [of m2 m] by (auto simp: ring_points_def)
    have "circle_owner (ring_points ms) ?h p'"
      using p'(1) p(1) in_ms sub unfolding circle_owner_def least_by_def
      by (smt (verit, best) subset_iff)
    then show ?thesis using circle_owner_unique [OF p(1)] p(2) p'(2) by simp
  qed
qed

theorem Owner_join_minimal_witness:
  "Owner (NewView [demo_member ''a'', demo_member ''b'']) (GrainId ''t'' ''k'') =
      Owner (NewView [demo_member ''a'']) (GrainId ''t'' ''k'') \<or>
    Owner (NewView [demo_member ''a'', demo_member ''b'']) (GrainId ''t'' ''k'') = Some ''b''"
proof -
  have "active_keys [demo_member ''a'', demo_member ''b''] =
      insert (keyForMember (demo_member ''b'')) (active_keys [demo_member ''a''])"
    and "active_keys [demo_member ''a''] \<noteq> {}"
    by (auto simp: active_keys_list demo_member_def)
  from Owner_join_minimal [OF this, of "GrainId ''t'' ''k''"] show ?thesis
    by (simp add: demo_member_def)
qed

end
