(* ===== verification/Gor_Probe.thy ===== *)
theory Gor_Probe
  imports Gor_Ring
begin

text \<open>
  Probing and the pure part of the vote: \<open>cluster/probe.go\<close> and the helpers of \<open>cluster/vote.go\<close>.
  Tasks and failure counters are Go maps keyed by the probed member; a task is its token, and
  cancelling it is recorded. The theory shows that probing is symmetric, that a member has exactly
  as many neighbours as votes are needed against it, and that a death verdict needs an unexpired
  vote of every neighbour.
\<close>

section \<open>Probe bookkeeping\<close>

record probe_result =
  pr_ID :: member_id
  pr_Err :: "go_error option"

type_synonym token = "64 word"
type_synonym probe_tasks = "(member_id, token) gomap"
type_synonym failures = "(member_id, int) gomap"

record probe_event =
  pe_target :: member_id
  pe_token :: token
  pe_result :: probe_result

text \<open>The third component is the list of cancelled tasks.\<close>

definition reconcileProbeState ::
    "member_id list \<Rightarrow> probe_tasks \<Rightarrow> failures \<Rightarrow> probe_tasks \<times> failures \<times> token list" where
  "reconcileProbeState targets tasks fails =
     (filter (\<lambda>(target, _). target \<in> set targets) tasks,
      filter (\<lambda>(target, _). target \<in> set targets) fails,
      map snd (filter (\<lambda>(target, _). target \<notin> set targets) tasks))"

definition recordProbeEvent ::
    "probe_event \<Rightarrow> probe_tasks \<Rightarrow> failures \<Rightarrow> bool \<times> probe_tasks \<times> failures" where
  "recordProbeEvent event tasks fails =
     (if gm_get tasks (pe_target event) \<noteq> Some (pe_token event) then (False, tasks, fails)
      else
        (let tasks' = gm_del (pe_target event) tasks
         in if pr_Err (pe_result event) = None \<and> pr_ID (pe_result event) = pe_target event
            then (True, tasks', gm_put (pe_target event) 0 fails)
            else (False, tasks',
                  gm_put (pe_target event) (wrap64 (gm_get_or 0 fails (pe_target event) + 1)) fails)))"

text \<open>What the select of \<open>waitForProbe\<close> sees first.\<close>

datatype probe_wait = ProbeCtxDone go_error | ProbeReply probe_result | ProbeChannelClosed | ProbeTimer

definition no_member :: member_id where "no_member = MemberID [] []"

fun waitForProbe :: "probe_wait \<Rightarrow> probe_result" where
  "waitForProbe (ProbeCtxDone e) = \<lparr>pr_ID = no_member, pr_Err = Some e\<rparr>"
| "waitForProbe (ProbeReply r) = r"
| "waitForProbe ProbeChannelClosed = \<lparr>pr_ID = no_member, pr_Err = Some (Sentinel ClusterErrProbeClosed)\<rparr>"
| "waitForProbe ProbeTimer = \<lparr>pr_ID = no_member, pr_Err = Some (Sentinel ClusterErrProbeTimeout)\<rparr>"

section \<open>Votes\<close>

definition activeSuspectVotes :: "suspect_votes \<Rightarrow> gtime \<Rightarrow> suspect_votes" where
  "activeSuspectVotes votes now = filter (\<lambda>(voter, expires). now < expires) votes"

definition voteThreshold :: "nat \<Rightarrow> nat" where
  "voteThreshold activeCount =
     (if activeCount \<le> 1 then 0 else if activeCount - 1 < 2 then activeCount - 1 else 2)"

definition targetNeighbors :: "member list \<Rightarrow> member_id \<Rightarrow> member_id list" where
  "targetNeighbors members target = probeTargets (activeMemberIDs members) target"

definition sameMember :: "member \<Rightarrow> member \<Rightarrow> bool" where
  "sameMember left right =
     (m_NodeAddr left = m_NodeAddr right \<and> m_Generation left = m_Generation right)"

text \<open>\<open>memberIndex\<close>, with \<open>None\<close> for -1.\<close>

fun memberIndex :: "member list \<Rightarrow> member \<Rightarrow> nat option" where
  "memberIndex [] target = None"
| "memberIndex (m # ms) target =
     (if sameMember m target then Some 0 else map_option Suc (memberIndex ms target))"

definition member_named :: "member_id \<Rightarrow> member" where
  "member_named k = zero_member\<lparr>m_NodeAddr := id_NodeAddr k, m_Generation := id_Generation k\<rparr>"

definition shouldMarkDead :: "member_snapshot \<Rightarrow> member_id \<Rightarrow> bool" where
  "shouldMarkDead snapshot target =
     (let active = activeMemberIDs (ms_Members snapshot);
          threshold = voteThreshold (length active)
      in if threshold = 0 then False
         else
           (case memberIndex (ms_Members snapshot) (member_named target) of
              None \<Rightarrow> False
            | Some index \<Rightarrow>
                if m_Status (ms_Members snapshot ! index) \<noteq> MemberActive then False
                else
                  (let neighbors = targetNeighbors (ms_Members snapshot) target;
                       count = length (filter
                         (\<lambda>(voter, expires). voter \<in> set neighbors \<and> ms_TableNow snapshot < expires)
                         (m_SuspectVotes (ms_Members snapshot ! index)))
                   in threshold \<le> count)))"

definition sameSuspectVotes :: "suspect_votes \<Rightarrow> suspect_votes \<Rightarrow> bool" where
  "sameSuspectVotes left right =
     (length left = length right \<and>
      list_all (\<lambda>(voter, vote). gm_get_or time_zero right voter = vote) left)"

definition containsMemberID :: "member_id list \<Rightarrow> member_id \<Rightarrow> bool" where
  "containsMemberID members target = list_ex (\<lambda>m. m = target) members"

section \<open>The neighbour ring\<close>

lemma index_of_Some: "index_of x xs = Some i \<Longrightarrow> i < length xs \<and> xs ! i = x"
  by (induction xs arbitrary: i) (auto split: if_splits)

lemma index_of_None: "index_of x xs = None \<longleftrightarrow> x \<notin> set xs"
  by (induction xs) auto

lemma index_of_nth: "distinct xs \<Longrightarrow> i < length xs \<Longrightarrow> index_of (xs ! i) xs = Some i"
proof -
  assume d: "distinct xs" and i: "i < length xs"
  then obtain j where j: "index_of (xs ! i) xs = Some j"
    by (cases "index_of (xs ! i) xs") (auto simp: index_of_None)
  with index_of_Some [OF j] d i show ?thesis by (metis nth_eq_iff_index_eq)
qed

text \<open>The ring of members in probe order.\<close>

definition probe_ring :: "member_id list \<Rightarrow> member_id list" where
  "probe_ring members = map snd (sortProbePoints
     (map (\<lambda>m. (hashParts [id_NodeAddr m, id_Generation m], m)) members))"

lemma probe_ring_perm: "mset (probe_ring members) = mset members"
proof -
  have "mset (probe_ring members) =
      image_mset snd (mset (map (\<lambda>m. (hashParts [id_NodeAddr m, id_Generation m], m)) members))"
    unfolding probe_ring_def sortProbePoints_def by (simp only: mset_map mset_sort)
  then show ?thesis by (simp add: multiset.map_comp comp_def)
qed

lemma probe_ring_facts:
  "set (probe_ring ms) = set ms" "length (probe_ring ms) = length ms"
  "distinct (probe_ring ms) = distinct ms"
  using probe_ring_perm [of ms] by (metis set_mset_mset, metis size_mset, metis mset_eq_imp_distinct_iff)

definition succ_pos :: "nat \<Rightarrow> nat \<Rightarrow> nat" where
  "succ_pos n i = (if i + 1 = n then 0 else i + 1)"

definition pred_pos :: "nat \<Rightarrow> nat \<Rightarrow> nat" where
  "pred_pos n i = (if i = 0 then n - 1 else i - 1)"

lemma pos_mod:
  "i < n \<Longrightarrow> (i + 1) mod n = succ_pos n i" "i < n \<Longrightarrow> (i + n - 1) mod n = pred_pos n i"
proof -
  show "i < n \<Longrightarrow> (i + 1) mod n = succ_pos n i" by (auto simp: succ_pos_def)
  assume i: "i < n"
  show "(i + n - 1) mod n = pred_pos n i"
  proof (cases "i = 0")
    case False
    then have "i + n - 1 = (i - 1) + n" by simp
    then have "(i + n - 1) mod n = (i - 1) mod n" by (simp only: mod_add_self2)
    then show ?thesis using False i by (simp add: pred_pos_def)
  qed (use i in \<open>simp add: pred_pos_def\<close>)
qed

lemma pos_inverse:
  assumes "i < n"
  shows "succ_pos n i < n" "pred_pos n i < n" "pred_pos n (succ_pos n i) = i" "succ_pos n (pred_pos n i) = i"
  using assms by (auto simp: succ_pos_def pred_pos_def)

lemma pos_eq: "i < n \<Longrightarrow> 2 \<le> n \<Longrightarrow> succ_pos n i = pred_pos n i \<longleftrightarrow> n = 2"
  by (auto simp: succ_pos_def pred_pos_def split: if_splits)

lemma pos_neq: "i < n \<Longrightarrow> 2 \<le> n \<Longrightarrow> succ_pos n i \<noteq> i \<and> pred_pos n i \<noteq> i"
  by (auto simp: succ_pos_def pred_pos_def)

lemma probeTargets_ring:
  assumes "distinct ms" and "2 \<le> length ms" and "i < length ms"
  shows "probeTargets ms (probe_ring ms ! i) =
    (let nxt = probe_ring ms ! succ_pos (length ms) i; prv = probe_ring ms ! pred_pos (length ms) i
     in if prv \<noteq> nxt then [nxt, prv] else [nxt])"
proof -
  let ?pts = "sortProbePoints (map (\<lambda>m. (hashParts [id_NodeAddr m, id_Generation m], m)) ms)"
  have len: "length ?pts = length ms" by (simp add: sortProbePoints_def)
  have nth: "snd (?pts ! j) = probe_ring ms ! j" if "j < length ms" for j
    using that len by (simp add: probe_ring_def)
  have idx: "index_of (probe_ring ms ! i) (map snd ?pts) = Some i"
    using index_of_nth [of "probe_ring ms" i] assms probe_ring_facts by (simp add: probe_ring_def)
  show ?thesis
    using assms idx pos_inverse [OF assms(3)]
    by (simp add: probeTargets_def Let_def len pos_mod [OF assms(3), simplified] nth)
qed

lemma probeTargets_outside: "self \<notin> set ms \<Longrightarrow> probeTargets ms self = []"
  using index_of_None [of self "probe_ring ms"] probe_ring_facts(1) [of ms]
  by (simp add: probeTargets_def Let_def probe_ring_def)

lemma probeTargets_single: "length ms < 2 \<Longrightarrow> probeTargets ms self = []"
  by (simp add: probeTargets_def Let_def sortProbePoints_def split: option.split)

lemma probeTargets_facts:
  assumes "distinct ms" and "2 \<le> length ms" and "self \<in> set ms"
  obtains i where "i < length ms" "probe_ring ms ! i = self"
    "set (probeTargets ms self) = {probe_ring ms ! succ_pos (length ms) i, probe_ring ms ! pred_pos (length ms) i}"
    "length (probeTargets ms self) = voteThreshold (length ms)" "distinct (probeTargets ms self)"
proof -
  obtain i where i: "i < length ms" "probe_ring ms ! i = self"
    using assms(3) probe_ring_facts [of ms] by (metis in_set_conv_nth)
  note ring = probeTargets_ring [OF assms(1,2) i(1), unfolded i(2)]
  have "(probe_ring ms ! pred_pos (length ms) i = probe_ring ms ! succ_pos (length ms) i) \<longleftrightarrow> length ms = 2"
    using pos_eq [OF i(1) assms(2)] pos_inverse [OF i(1)] assms(1) probe_ring_facts [of ms]
    by (metis nth_eq_iff_index_eq)
  with ring assms(2) show ?thesis
    by (intro that [OF i]) (auto simp: voteThreshold_def Let_def)
qed

section \<open>Properties\<close>

text \<open>
  Probing is symmetric: a member probes another exactly when it is probed by it. With it, a
  member of a ring of \<open>n\<close> active members has exactly the number of neighbours that
  \<open>voteThreshold\<close> asks for, never itself and only active members.
\<close>

theorem probeTargets_symmetric:
  assumes "distinct ms" and "self \<in> set ms" and "other \<in> set ms"
  shows "(other \<in> set (probeTargets ms self) \<longleftrightarrow> self \<in> set (probeTargets ms other)) \<and>
    length (probeTargets ms self) = voteThreshold (length ms) \<and> distinct (probeTargets ms self) \<and>
    self \<notin> set (probeTargets ms self) \<and> set (probeTargets ms self) \<subseteq> set ms"
proof (cases "2 \<le> length ms")
  case False
  then show ?thesis by (simp add: probeTargets_single voteThreshold_def)
next
  case True
  note len = probe_ring_facts(2) [of ms] and dist = probe_ring_facts(3) [of ms]
  obtain i where i: "i < length ms" "probe_ring ms ! i = self"
    "set (probeTargets ms self) = {probe_ring ms ! succ_pos (length ms) i, probe_ring ms ! pred_pos (length ms) i}"
    "length (probeTargets ms self) = voteThreshold (length ms)" "distinct (probeTargets ms self)"
    by (rule probeTargets_facts [OF assms(1) True assms(2)])
  obtain j where j: "j < length ms" "probe_ring ms ! j = other"
    "set (probeTargets ms other) = {probe_ring ms ! succ_pos (length ms) j, probe_ring ms ! pred_pos (length ms) j}"
    by (rule probeTargets_facts [OF assms(1) True assms(3)])
  have eq: "probe_ring ms ! a = probe_ring ms ! b \<longleftrightarrow> a = b" if "a < length ms" "b < length ms" for a b
    using that len dist assms(1) by (simp add: nth_eq_iff_index_eq)
  have self_in: "other \<in> set (probeTargets ms self) \<longleftrightarrow> j = succ_pos (length ms) i \<or> j = pred_pos (length ms) i"
    unfolding i(3) j(2) [symmetric] using eq pos_inverse [OF i(1)] j(1) by auto
  have other_in: "self \<in> set (probeTargets ms other) \<longleftrightarrow> i = succ_pos (length ms) j \<or> i = pred_pos (length ms) j"
    unfolding j(3) i(2) [symmetric] using eq pos_inverse [OF j(1)] i(1) by auto
  have "other \<in> set (probeTargets ms self) \<longleftrightarrow> self \<in> set (probeTargets ms other)"
    unfolding self_in other_in using pos_inverse [OF i(1)] pos_inverse [OF j(1)] by metis
  moreover have "self \<notin> set (probeTargets ms self)"
    using i(3) i(2) eq [OF i(1) pos_inverse(1) [OF i(1)]] eq [OF i(1) pos_inverse(2) [OF i(1)]]
      pos_neq [OF i(1) True] by auto
  moreover have "set (probeTargets ms self) \<subseteq> set ms"
    unfolding i(3) using pos_inverse [OF i(1)] probe_ring_facts [of ms] by (metis empty_subsetI insert_subset nth_mem)
  ultimately show ?thesis using i by simp
qed

theorem probeTargets_symmetric_witness:
  "let ms = [MemberID ''a'' ''1'', MemberID ''b'' ''1'', MemberID ''c'' ''1'', MemberID ''d'' ''1'']
   in (MemberID ''b'' ''1'' \<in> set (probeTargets ms (MemberID ''a'' ''1'')) \<longleftrightarrow>
      MemberID ''a'' ''1'' \<in> set (probeTargets ms (MemberID ''b'' ''1''))) \<and>
     length (probeTargets ms (MemberID ''a'' ''1'')) = 2"
  using probeTargets_symmetric [of "[MemberID ''a'' ''1'', MemberID ''b'' ''1'', MemberID ''c'' ''1'', MemberID ''d'' ''1'']"
      "MemberID ''a'' ''1''" "MemberID ''b'' ''1''"]
  by (simp add: voteThreshold_def)

lemma memberIndex_Some:
  "memberIndex ms target = Some i \<Longrightarrow> i < length ms \<and> keyForMember (ms ! i) = keyForMember target"
  by (induction ms arbitrary: i) (auto simp: sameMember_def keyForMember_def split: if_splits)

lemma memberIndex_None: "memberIndex ms target = None \<longleftrightarrow> keyForMember target \<notin> keyForMember ` set ms"
  by (induction ms) (auto simp: sameMember_def keyForMember_def)

lemma keyForMember_named [simp]: "keyForMember (member_named k) = k"
  by (simp add: member_named_def keyForMember_def)

lemma set_activeMemberIDs: "set (activeMemberIDs ms) = active_keys ms"
  by (auto simp: activeMemberIDs_def active_keys_def)

lemma distinct_activeMemberIDs:
  "distinct (map keyForMember ms) \<Longrightarrow> distinct (activeMemberIDs ms)"
  by (simp add: activeMemberIDs_def distinct_map_filter)

text \<open>
  C11. A death verdict is unanimous among the neighbours: \<open>shouldMarkDead\<close> holds exactly when the
  target is an active member that has neighbours and every one of them has an unexpired vote
  against it in the target's row. Expired votes and votes of other members do not count.
\<close>

theorem shouldMarkDead_unanimous:
  assumes "distinct (map keyForMember (ms_Members snap))" and "row \<in> set (ms_Members snap)"
    and "keyForMember row = target" and "gm_ok (m_SuspectVotes row)"
  shows "shouldMarkDead snap target \<longleftrightarrow>
    m_Status row = MemberActive \<and> targetNeighbors (ms_Members snap) target \<noteq> [] \<and>
    (\<forall>v \<in> set (targetNeighbors (ms_Members snap) target).
       \<exists>e. gm_get (m_SuspectVotes row) v = Some e \<and> ms_TableNow snap < e)"
proof -
  let ?ms = "ms_Members snap" and ?ns = "targetNeighbors (ms_Members snap) target"
  let ?valid = "filter (\<lambda>(v, e). v \<in> set ?ns \<and> ms_TableNow snap < e) (m_SuspectVotes row)"
  obtain i where i: "memberIndex ?ms (member_named target) = Some i"
    using assms(2,3) memberIndex_None [of ?ms "member_named target"] by (cases "memberIndex ?ms (member_named target)") auto
  then have "?ms ! i = row"
    using memberIndex_Some [OF i] assms(1-3) by (metis (no_types, lifting) distinct_map inj_on_def keyForMember_named nth_mem)
  then have eq: "shouldMarkDead snap target \<longleftrightarrow> voteThreshold (length (activeMemberIDs ?ms)) \<noteq> 0 \<and>
      m_Status row = MemberActive \<and> voteThreshold (length (activeMemberIDs ?ms)) \<le> length ?valid"
    using i by (simp add: shouldMarkDead_def Let_def)
  show ?thesis
  proof (cases "m_Status row = MemberActive")
    case False
    then show ?thesis by (simp add: eq)
  next
    case True
    have dist: "distinct (activeMemberIDs ?ms)" by (rule distinct_activeMemberIDs [OF assms(1)])
    have mem: "target \<in> set (activeMemberIDs ?ms)"
      unfolding set_activeMemberIDs active_keys_def using True assms(2,3) by auto
    have ns: "length ?ns = voteThreshold (length (activeMemberIDs ?ms)) \<and> distinct ?ns"
    proof (cases "2 \<le> length (activeMemberIDs ?ms)")
      case False
      then show ?thesis by (simp add: targetNeighbors_def probeTargets_single voteThreshold_def)
    next
      case True
      show ?thesis unfolding targetNeighbors_def by (rule probeTargets_facts [OF dist True mem]) simp
    qed
    then have ns: "length ?ns = voteThreshold (length (activeMemberIDs ?ms))" "distinct ?ns" by simp_all
    have "gm_ok ?valid" using assms(4) by simp
    then have card: "card (fst ` set ?valid) = length ?valid"
      unfolding gm_ok_def using distinct_card [of "map fst ?valid"] by simp
    have sub: "fst ` set ?valid \<subseteq> set ?ns" by auto
    have vote: "v \<in> fst ` set ?valid \<longleftrightarrow> v \<in> set ?ns \<and> (\<exists>e. gm_get (m_SuspectVotes row) v = Some e \<and> ms_TableNow snap < e)" for v
      unfolding gm_ok_get_iff [OF assms(4)] by (auto simp: image_iff)
    have "length ?ns \<le> length ?valid \<longleftrightarrow> fst ` set ?valid = set ?ns"
      using card distinct_card [OF ns(2)] card_mono [OF finite_set sub] card_subset_eq [OF finite_set sub]
      by auto
    also have "\<dots> \<longleftrightarrow> (\<forall>v \<in> set ?ns. \<exists>e. gm_get (m_SuspectVotes row) v = Some e \<and> ms_TableNow snap < e)"
      using vote sub by blast
    finally show ?thesis using True by (auto simp: eq ns(1) [symmetric])
  qed
qed

definition demo_snapshot :: member_snapshot where
  "demo_snapshot = \<lparr>ms_Members = [demo_member ''a'',
      (demo_member ''b'')\<lparr>m_SuspectVotes := [(MemberID ''a'' ''g'', 20)]\<rparr>], ms_TableNow = 10\<rparr>"

theorem shouldMarkDead_unanimous_witness:
  "shouldMarkDead demo_snapshot (MemberID ''b'' ''g'') \<longleftrightarrow>
    targetNeighbors (ms_Members demo_snapshot) (MemberID ''b'' ''g'') \<noteq> [] \<and>
    (\<forall>v \<in> set (targetNeighbors (ms_Members demo_snapshot) (MemberID ''b'' ''g'')).
       \<exists>e. gm_get [(MemberID ''a'' ''g'', 20)] v = Some e \<and> 10 < (e :: int))"
proof -
  let ?row = "(demo_member ''b'')\<lparr>m_SuspectVotes := [(MemberID ''a'' ''g'', 20)]\<rparr>"
  have "distinct (map keyForMember (ms_Members demo_snapshot))" "?row \<in> set (ms_Members demo_snapshot)"
    "keyForMember ?row = MemberID ''b'' ''g''" "gm_ok (m_SuspectVotes ?row)"
    "m_Status ?row = MemberActive" "ms_TableNow demo_snapshot = 10"
    by (simp_all add: demo_snapshot_def demo_member_def keyForMember_def gm_ok_def)
  with shouldMarkDead_unanimous [of demo_snapshot ?row "MemberID ''b'' ''g''"] show ?thesis by simp
qed

end
