(* ===== verification/Gor_Vote.thy ===== *)
theory Gor_Vote
  imports Gor_Probe
begin

text \<open>
  A node and the shared member table. Between two table calls of a node the other nodes perform any
  number of \<open>WriteMember\<close> attempts with any content and any ETag, and the call itself runs, fails
  before or fails after taking effect; all of this is the environment, indexed by the number of the
  call. On this world the theory models the suspicion protocol of \<open>cluster/vote.go\<close>, and sets up
  the invariant that a row a node has read is current or superseded, from which it follows that a
  node never overwrites a dead row. The world counts the write attempts, because the argument needs
  that the 63-bit version counter has not been exhausted.
\<close>

section \<open>The world of a node\<close>

record call_env =
  ce_others :: "member list"
  ce_fate :: fate
  ce_now :: gtime

type_synonym env = "nat \<Rightarrow> call_env"

text \<open>\<open>wd_trace\<close> records the writes of this node that reached the table, with the table before.\<close>

record world =
  wd_mem :: memory
  wd_calls :: nat
  wd_puts :: nat
  wd_trace :: "(memory \<times> member) list"

definition others_step :: "env \<Rightarrow> world \<Rightarrow> world" where
  "others_step env w =
     (let others = ce_others (env (wd_calls w))
      in w\<lparr>wd_mem := foldl (\<lambda>s m. snd (Memory_WriteMember None s m)) (wd_mem w) others,
           wd_calls := wd_calls w + 1, wd_puts := wd_puts w + length others\<rparr>)"

definition table_ListMembers :: "env \<Rightarrow> world \<Rightarrow> member_snapshot result \<times> world" where
  "table_ListMembers env w =
     (let e = env (wd_calls w); w' = others_step env w
      in case fate_err (ce_fate e) of
           Some err \<Rightarrow> (Inl err, w')
         | None \<Rightarrow> (Memory_ListMembers None (wd_mem w') (ce_now e), w'))"

definition table_applied :: "world \<Rightarrow> member \<Rightarrow> world" where
  "table_applied w row = w\<lparr>wd_mem := snd (Memory_WriteMember None (wd_mem w) row),
     wd_puts := wd_puts w + 1, wd_trace := wd_trace w @ [(wd_mem w, row)]\<rparr>"

definition table_WriteMember :: "env \<Rightarrow> world \<Rightarrow> member \<Rightarrow> etag result \<times> world" where
  "table_WriteMember env w row =
     (let w' = others_step env w
      in case ce_fate (env (wd_calls w)) of
           Runs \<Rightarrow> (fst (Memory_WriteMember None (wd_mem w') row), table_applied w' row)
         | FailsBefore err \<Rightarrow> (Inl err, w')
         | FailsAfter err \<Rightarrow> (Inl err, table_applied w' row))"

section \<open>Suspicion votes\<close>

abbreviation is_conflict :: "go_error \<Rightarrow> bool" where
  "is_conflict e \<equiv> errors_Is e (TSentinel StoreErrConflict)"

text \<open>The end of a round, once the row carries the votes: the verdict.\<close>

definition voteVerdict ::
    "env \<Rightarrow> member_id \<Rightarrow> bool \<Rightarrow> member_snapshot \<Rightarrow> member \<Rightarrow> world \<Rightarrow> bool \<times> world" where
  "voteVerdict env target renew snapshot row w =
     (if \<not> renew \<or> \<not> shouldMarkDead snapshot target then (False, w)
      else (case table_WriteMember env w (row\<lparr>m_Status := MemberDead\<rparr>) of
              (Inl e, w') \<Rightarrow> (is_conflict e, w')
            | (Inr _, w') \<Rightarrow> (False, w')))"

text \<open>One round of the loop of \<open>updateSuspectVote\<close>; the flag says whether it continues.\<close>

definition voteRound ::
    "env \<Rightarrow> duration \<Rightarrow> member_id \<Rightarrow> member_id \<Rightarrow> bool \<Rightarrow> world \<Rightarrow> bool \<times> world" where
  "voteRound env voteTTL target voter renew w =
     (case table_ListMembers env w of
        (Inl _, w1) \<Rightarrow> (False, w1)
      | (Inr snapshot, w1) \<Rightarrow>
          (let members = ms_Members snapshot
           in case memberIndex members (member_named target) of
                None \<Rightarrow> (False, w1)
              | Some index \<Rightarrow>
                  if m_Status (members ! index) \<noteq> MemberActive then (False, w1)
                  else if renew \<and> \<not> containsMemberID (targetNeighbors members target) voter
                    then (False, w1)
                  else
                    (let row = members ! index;
                         active = activeSuspectVotes (m_SuspectVotes row) (ms_TableNow snapshot);
                         votes = (if renew
                           then gm_put voter (time_add (ms_TableNow snapshot) voteTTL) active
                           else gm_del voter active)
                     in if sameSuspectVotes (m_SuspectVotes row) votes
                        then voteVerdict env target renew snapshot row w1
                        else
                          (let row = row\<lparr>m_SuspectVotes := votes\<rparr>
                           in case table_WriteMember env w1 row of
                                (Inl e, w2) \<Rightarrow> (is_conflict e, w2)
                              | (Inr etag, w2) \<Rightarrow>
                                  (let row = row\<lparr>m_ETag := etag\<rparr>
                                   in voteVerdict env target renew
                                        (snapshot\<lparr>ms_Members := members[index := row]\<rparr>) row w2)))))"

text \<open>The loop, with fuel; \<open>None\<close> when the fuel is used up.\<close>

fun updateSuspectVote ::
    "nat \<Rightarrow> env \<Rightarrow> duration \<Rightarrow> member_id \<Rightarrow> member_id \<Rightarrow> bool \<Rightarrow> world \<Rightarrow> world option" where
  "updateSuspectVote 0 env voteTTL target voter renew w = None"
| "updateSuspectVote (Suc fuel) env voteTTL target voter renew w =
     (case voteRound env voteTTL target voter renew w of
        (False, w') \<Rightarrow> Some w'
      | (True, w') \<Rightarrow> updateSuspectVote fuel env voteTTL target voter renew w')"

section \<open>The invariant of the world\<close>

definition row_dead :: "memory \<Rightarrow> member_id \<Rightarrow> bool" where
  "row_dead s k \<longleftrightarrow> (case gm_get (mem_members s) k of None \<Rightarrow> False | Some m \<Rightarrow> m_Status m = MemberDead)"

definition row_tag :: "memory \<Rightarrow> member_id \<Rightarrow> etag" where
  "row_tag s k = tag_of (member_look s k)"

definition in_range :: "world \<Rightarrow> bool" where
  "in_range w \<longleftrightarrow> int (wd_puts w) < max_int64"

text \<open>No recorded write of this node hit a dead row.\<close>

definition trace_safe :: "(memory \<times> member) list \<Rightarrow> bool" where
  "trace_safe tr \<longleftrightarrow>
     (\<forall>(s, row) \<in> set tr. row_tag s (keyForMember row) = m_ETag row \<longrightarrow> \<not> row_dead s (keyForMember row))"

definition world_ok :: "world \<Rightarrow> bool" where
  "world_ok w \<longleftrightarrow> (in_range w \<longrightarrow>
     memory_ok (wd_mem w) \<and> (\<forall>k. row_tag (wd_mem w) k \<le> int (wd_puts w)) \<and> trace_safe (wd_trace w))"

text \<open>The node has read this row, and it is current or superseded.\<close>

definition known :: "world \<Rightarrow> member \<Rightarrow> bool" where
  "known w row \<longleftrightarrow> (in_range w \<longrightarrow>
     mem_mem.seen (wd_mem w) (keyForMember row) (member_content row) (m_ETag row))"

lemma row_dead_look:
  "member_look s k = Some (c, t) \<Longrightarrow> row_dead s k \<longleftrightarrow> fst c = MemberDead"
  by (auto simp: member_look_def row_dead_def member_content_def split: option.splits)

lemma row_tag_zero: "memory_ok s \<Longrightarrow> row_tag s k = 0 \<Longrightarrow> \<not> row_dead s k"
  using memory_ok_tags(2) [of s k]
  by (auto simp: row_tag_def tag_of_def member_look_def row_dead_def tag_ok_def split: option.splits)

text \<open>One write attempt, by anyone.\<close>

lemma attempt_ok:
  assumes "memory_ok s" and "\<forall>k. row_tag s k \<le> int n" and "int n < max_int64"
  shows "memory_ok (snd (Memory_WriteMember None s m))"
    and "\<forall>k. row_tag (snd (Memory_WriteMember None s m)) k \<le> int (Suc n)"
    and "mem_mem.seen s k c t \<Longrightarrow> mem_mem.seen (snd (Memory_WriteMember None s m)) k c t"
proof -
  have lt: "tag_of (member_look s (keyForMember m)) < max_int64"
    using assms(2,3) unfolding row_tag_def by (meson le_less_trans)
  show "memory_ok (snd (Memory_WriteMember None s m))"
    using mem_mem.put_step(1) [OF assms(1) lt] by (simp add: WriteMember_as_put)
  show "\<forall>k. row_tag (snd (Memory_WriteMember None s m)) k \<le> int (Suc n)"
  proof
    fix k
    have "row_tag s k \<le> int n" using assms(2) by blast
    then show "row_tag (snd (Memory_WriteMember None s m)) k \<le> int (Suc n)"
      using mem_mem.tag_after_put [OF assms(1) lt, of "member_content m" "m_ETag m" k]
      by (auto simp: WriteMember_as_put row_tag_def split: if_splits)
  qed
  show "mem_mem.seen s k c t \<Longrightarrow> mem_mem.seen (snd (Memory_WriteMember None s m)) k c t"
    using mem_mem.seen_put [OF assms(1) lt] by (simp add: WriteMember_as_put)
qed

lemma attempts_ok:
  "memory_ok s \<Longrightarrow> \<forall>k. row_tag s k \<le> int n \<Longrightarrow> int (n + length ms) < max_int64 \<Longrightarrow>
    memory_ok (foldl (\<lambda>s m. snd (Memory_WriteMember None s m)) s ms) \<and>
    (\<forall>k. row_tag (foldl (\<lambda>s m. snd (Memory_WriteMember None s m)) s ms) k \<le> int (n + length ms)) \<and>
    (mem_mem.seen s k c t \<longrightarrow> mem_mem.seen (foldl (\<lambda>s m. snd (Memory_WriteMember None s m)) s ms) k c t)"
proof (induction ms arbitrary: s n)
  case (Cons m ms)
  then have "int n < max_int64" by simp
  note one = attempt_ok [OF Cons.prems(1,2) this, where m = m]
  have "int (Suc n + length ms) < max_int64" using Cons.prems(3) by simp
  from Cons.IH [OF one(1) one(2) this] one(3) [of k c t] show ?case by simp
qed simp

lemma others_step_ok:
  assumes "world_ok w"
  shows "world_ok (others_step env w)" and "known w row \<Longrightarrow> known (others_step env w) row"
    and "wd_puts w \<le> wd_puts (others_step env w)" and "wd_trace (others_step env w) = wd_trace w"
proof -
  let ?w = "others_step env w" and ?ms = "ce_others (env (wd_calls w))"
  show puts: "wd_puts w \<le> wd_puts ?w" and tr: "wd_trace ?w = wd_trace w"
    by (simp_all add: others_step_def Let_def)
  have run: "memory_ok (wd_mem ?w) \<and> (\<forall>k. row_tag (wd_mem ?w) k \<le> int (wd_puts ?w)) \<and>
      (mem_mem.seen (wd_mem w) k c t \<longrightarrow> mem_mem.seen (wd_mem ?w) k c t)" if "in_range ?w" for k c t
    using attempts_ok [of "wd_mem w" "wd_puts w" ?ms k c t] assms that
    by (simp add: world_ok_def in_range_def others_step_def Let_def)
  have rng: "in_range ?w \<Longrightarrow> in_range w" using puts by (simp add: in_range_def)
  show "world_ok ?w" using run rng assms tr by (simp add: world_ok_def)
  show "known ?w row" if "known w row" using run rng that by (simp add: known_def)
qed

section \<open>Table calls keep the invariant\<close>

lemma clone_rows [simp]: "map (\<lambda>(k, m). cloneMember m) xs = map snd xs"
  by (induction xs) auto

lemma ListMembers_rows:
  assumes "memory_ok s" and "Memory_ListMembers None s now = Inr snap" and "row \<in> set (ms_Members snap)"
  shows "gm_get (mem_members s) (keyForMember row) = Some row"
    and "distinct (map keyForMember (ms_Members snap))"
proof -
  have ok: "gm_ok (mem_members s)" using assms(1) by (simp add: memory_ok_def)
  have rows: "ms_Members snap = sortMembers (map snd (mem_members s))"
    using assms(2) unfolding Memory_ListMembers_def by auto
  have key: "keyForMember m = k" if "(k, m) \<in> set (mem_members s)" for k m
    using memory_ok_tags(2) [OF assms(1)] that gm_ok_get_iff [OF ok] by blast
  show "gm_get (mem_members s) (keyForMember row) = Some row"
    using assms(3) rows key gm_ok_get_iff [OF ok] by (auto simp: sortMembers_def)
  have "map (\<lambda>p. keyForMember (snd p)) (mem_members s) = map fst (mem_members s)"
    using key by (intro map_cong) auto
  then have "map keyForMember (map snd (mem_members s)) = map fst (mem_members s)"
    by (simp add: comp_def)
  then have "distinct (map keyForMember (map snd (mem_members s)))"
    using ok unfolding gm_ok_def by argo
  then show "distinct (map keyForMember (ms_Members snap))"
    by (simp only: rows sortMembers_def distinct_map distinct_sort set_sort)
qed

lemma table_ListMembers_ok:
  assumes "world_ok w" and "table_ListMembers env w = (res, w')"
  shows "world_ok w'" and "known w row \<Longrightarrow> known w' row" and "wd_puts w \<le> wd_puts w'"
    and "\<And>snap r. res = Inr snap \<Longrightarrow> r \<in> set (ms_Members snap) \<Longrightarrow> known w' r"
    and "\<And>snap. res = Inr snap \<Longrightarrow> in_range w' \<Longrightarrow> distinct (map keyForMember (ms_Members snap))"
proof -
  note os = others_step_ok [OF assms(1), where env = env]
  have w': "w' = others_step env w"
    using assms(2) by (auto simp: table_ListMembers_def Let_def split: option.splits)
  show "world_ok w'" "known w row \<Longrightarrow> known w' row" "wd_puts w \<le> wd_puts w'"
    using os by (simp_all add: w')
  have list: "\<exists>now. Memory_ListMembers None (wd_mem w') now = Inr snap" if "res = Inr snap" for snap
    using assms(2) that w' by (auto simp: table_ListMembers_def Let_def split: option.splits)
  have mem: "in_range w' \<Longrightarrow> memory_ok (wd_mem w')" using os(1) by (simp add: w' world_ok_def)
  show "known w' r" if "res = Inr snap" "r \<in> set (ms_Members snap)" for snap r
    using list [OF that(1)] ListMembers_rows(1) [OF mem _ that(2)]
    by (auto simp: known_def mem_mem.seen_def member_look_def)
  show "distinct (map keyForMember (ms_Members snap))" if "res = Inr snap" "in_range w'" for snap
  proof (cases "ms_Members snap")
    case (Cons r rs)
    then show ?thesis using list [OF that(1)] ListMembers_rows(2) [OF mem [OF that(2)]] by force
  qed simp
qed

text \<open>A row the node may write: new, or based on a row it knows and that was not dead.\<close>

definition writable :: "world \<Rightarrow> member \<Rightarrow> bool" where
  "writable w row \<longleftrightarrow> m_ETag row = 0 \<or>
     (\<exists>base. known w base \<and> keyForMember base = keyForMember row \<and> m_ETag base = m_ETag row \<and>
        m_Status base \<noteq> MemberDead)"

lemma writable_safe:
  assumes "world_ok w" and "writable w row" and "in_range w"
    and "row_tag (wd_mem w) (keyForMember row) = m_ETag row"
  shows "\<not> row_dead (wd_mem w) (keyForMember row)"
  using assms(2) unfolding writable_def
proof
  assume "m_ETag row = 0"
  then show ?thesis using row_tag_zero assms by (simp add: world_ok_def)
next
  assume "\<exists>base. known w base \<and> keyForMember base = keyForMember row \<and> m_ETag base = m_ETag row \<and>
      m_Status base \<noteq> MemberDead"
  then obtain base where b: "known w base" "keyForMember base = keyForMember row"
    "m_ETag base = m_ETag row" "m_Status base \<noteq> MemberDead" by blast
  have "member_look (wd_mem w) (keyForMember row) = Some (member_content base, m_ETag row)"
    using b assms(3,4) mem_mem.seen_current by (auto simp: known_def row_tag_def)
  then show ?thesis using b(4) by (simp add: row_dead_look member_content_def)
qed

lemma table_applied_ok:
  assumes "world_ok w" and "writable w row"
  shows "world_ok (table_applied w row)" and "known w r \<Longrightarrow> known (table_applied w row) r"
    and "wd_puts w \<le> wd_puts (table_applied w row)"
    and "fst (Memory_WriteMember None (wd_mem w) row) = Inr etag \<Longrightarrow>
      known (table_applied w row) (row\<lparr>m_ETag := etag\<rparr>)"
proof -
  let ?w = "table_applied w row"
  show puts: "wd_puts w \<le> wd_puts ?w" by (simp add: table_applied_def)
  have rng: "in_range ?w \<Longrightarrow> in_range w" by (simp add: in_range_def table_applied_def)
  have base: "memory_ok (wd_mem w)" "\<forall>k. row_tag (wd_mem w) k \<le> int (wd_puts w)"
    "int (wd_puts w) < max_int64" if "in_range ?w"
    using assms(1) rng [OF that] by (simp_all add: world_ok_def in_range_def)
  have safe: "trace_safe (wd_trace ?w)" if "in_range ?w"
    using assms(1) rng [OF that] writable_safe [OF assms rng [OF that]]
    by (auto simp: trace_safe_def table_applied_def world_ok_def)
  show "world_ok ?w"
    unfolding world_ok_def
  proof (intro impI conjI safe)
    assume r: "in_range ?w"
    note one = attempt_ok [OF base(1,2,3), OF r r r, where m = row]
    show "memory_ok (wd_mem ?w)" "\<forall>k. row_tag (wd_mem ?w) k \<le> int (wd_puts ?w)"
      using one(1,2) by (simp_all add: table_applied_def)
  qed
  show "known ?w r" if k: "known w r"
    unfolding known_def
  proof
    assume r: "in_range ?w"
    show "mem_mem.seen (wd_mem ?w) (keyForMember r) (member_content r) (m_ETag r)"
      using attempt_ok(3) [OF base(1,2,3), OF r r r] k rng [OF r] by (simp add: known_def table_applied_def)
  qed
  show "known ?w (row\<lparr>m_ETag := etag\<rparr>)" if "fst (Memory_WriteMember None (wd_mem w) row) = Inr etag"
    using that
    by (auto simp: known_def mem_mem.seen_def table_applied_def Memory_WriteMember_def Let_def
        member_look_def keyForMember_def member_content_def go_map_simps split: if_splits)
qed

lemma writable_step: "(\<And>r. known w r \<Longrightarrow> known w' r) \<Longrightarrow> writable w row \<Longrightarrow> writable w' row"
  unfolding writable_def by blast

lemma table_WriteMember_ok:
  assumes "world_ok w" and "writable w row" and "table_WriteMember env w row = (res, w')"
  shows "world_ok w'" and "known w r \<Longrightarrow> known w' r" and "wd_puts w \<le> wd_puts w'"
    and "res = Inr etag \<Longrightarrow> known w' (row\<lparr>m_ETag := etag\<rparr>)"
proof -
  let ?w = "others_step env w"
  note os = others_step_ok [OF assms(1), where env = env]
  have wr: "writable ?w row" using writable_step [OF os(2) assms(2)] .
  note ap = table_applied_ok [OF os(1) wr]
  have w': "w' = ?w \<or> w' = table_applied ?w row"
    and r: "res = Inr etag \<Longrightarrow> w' = table_applied ?w row \<and> fst (Memory_WriteMember None (wd_mem ?w) row) = Inr etag"
    using assms(3) by (auto simp: table_WriteMember_def Let_def split: fate.splits)
  show "world_ok w'" "known w r \<Longrightarrow> known w' r" using w' os ap by auto
  show "wd_puts w \<le> wd_puts w'" using w' os(3) ap(3) by fastforce
  show "known w' (row\<lparr>m_ETag := etag\<rparr>)" if "res = Inr etag" using r [OF that] ap(4) by simp
qed

section \<open>The vote loop keeps the invariant\<close>

text \<open>What every operation of a node guarantees about the world it leaves.\<close>

definition world_step :: "world \<Rightarrow> world \<Rightarrow> bool" where
  "world_step w w' \<longleftrightarrow> world_ok w' \<and> (\<forall>r. known w r \<longrightarrow> known w' r) \<and> wd_puts w \<le> wd_puts w'"

lemma world_step_refl [simp]: "world_ok w \<Longrightarrow> world_step w w"
  by (simp add: world_step_def)

lemma world_step_trans: "world_step w w1 \<Longrightarrow> world_step w1 w2 \<Longrightarrow> world_step w w2"
  by (auto simp: world_step_def)

lemma world_stepD: "world_step w w' \<Longrightarrow> world_ok w'" "world_step w w' \<Longrightarrow> known w r \<Longrightarrow> known w' r"
  by (simp_all add: world_step_def)

lemma list_step:
  assumes "world_ok w" and "table_ListMembers env w = (res, w')"
  shows "world_step w w'" and "res = Inr snap \<Longrightarrow> r \<in> set (ms_Members snap) \<Longrightarrow> known w' r"
  using table_ListMembers_ok [OF assms] by (auto simp: world_step_def)

lemma write_step:
  assumes "world_ok w" and "writable w row" and "table_WriteMember env w row = (res, w')"
  shows "world_step w w'" and "res = Inr etag \<Longrightarrow> known w' (row\<lparr>m_ETag := etag\<rparr>)"
  using table_WriteMember_ok [OF assms] by (auto simp: world_step_def)

lemma writable_known:
  "known w base \<Longrightarrow> m_Status base \<noteq> MemberDead \<Longrightarrow> keyForMember base = keyForMember row \<Longrightarrow>
    m_ETag base = m_ETag row \<Longrightarrow> writable w row"
  unfolding writable_def by blast

lemma keyForMember_upd [simp]:
  "keyForMember (m\<lparr>m_Status := s\<rparr>) = keyForMember m" "keyForMember (m\<lparr>m_IamAliveAt := t\<rparr>) = keyForMember m"
  "keyForMember (m\<lparr>m_SuspectVotes := v\<rparr>) = keyForMember m" "keyForMember (m\<lparr>m_ETag := e\<rparr>) = keyForMember m"
  by (simp_all add: keyForMember_def)

lemma status_distinct [simp]:
  "MemberActive \<noteq> MemberDead" "MemberJoining \<noteq> MemberDead" "MemberJoining \<noteq> MemberActive"
  "MemberDead \<noteq> MemberActive"
  by (simp_all add: MemberActive_def MemberDead_def MemberJoining_def)

text \<open>
  The writes of the vote loop: rows of the target, either still active, or dead with the verdict
  of a snapshot that contains the row with its votes.
\<close>

definition vote_write :: "member_id \<Rightarrow> member_id \<Rightarrow> bool \<Rightarrow> member \<Rightarrow> bool" where
  "vote_write target voter renew row \<longleftrightarrow> keyForMember row = target \<and>
     (\<not> renew \<longrightarrow> gm_get (m_SuspectVotes row) voter = None) \<and>
     (m_Status row = MemberActive \<or>
      m_Status row = MemberDead \<and> renew \<and>
        (\<exists>snap. shouldMarkDead snap target \<and> row\<lparr>m_Status := MemberActive\<rparr> \<in> set (ms_Members snap)))"

definition trace_adds :: "(member \<Rightarrow> bool) \<Rightarrow> world \<Rightarrow> world \<Rightarrow> bool" where
  "trace_adds P w w' \<longleftrightarrow> (\<exists>tr. wd_trace w' = wd_trace w @ tr \<and> (\<forall>(s, row) \<in> set tr. P row))"

lemma trace_adds_refl [simp]: "trace_adds P w w"
  by (simp add: trace_adds_def)

lemma trace_adds_trans: "trace_adds P w w1 \<Longrightarrow> trace_adds P w1 w2 \<Longrightarrow> trace_adds P w w2"
  unfolding trace_adds_def by force

lemma list_trace: "table_ListMembers env w = (res, w') \<Longrightarrow> trace_adds P w w'"
  by (auto simp: table_ListMembers_def others_step_def Let_def trace_adds_def split: option.splits)

lemma write_trace: "table_WriteMember env w row = (res, w') \<Longrightarrow> P row \<Longrightarrow> trace_adds P w w'"
  by (auto simp: table_WriteMember_def table_applied_def others_step_def Let_def trace_adds_def
      split: fate.splits)

lemma voteVerdict_ok:
  assumes "world_ok w" and "known w row" and "m_Status row = MemberActive" and "keyForMember row = target"
    and "row \<in> set (ms_Members snap)" and "voteVerdict env target renew snap row w = (again, w')"
  shows "world_step w w'" and "trace_adds (vote_write target voter renew) w w'"
proof -
  have wr: "writable w (row\<lparr>m_Status := MemberDead\<rparr>)"
    by (rule writable_known [OF assms(2)]) (use assms(3) in simp_all)
  have eq: "row\<lparr>m_Status := MemberActive\<rparr> = row" using assms(3) by simp
  have "world_step w w' \<and> trace_adds (vote_write target voter renew) w w'"
  proof (cases "\<not> renew \<or> \<not> shouldMarkDead snap target")
    case True
    then show ?thesis using assms(1,6) by (auto simp: voteVerdict_def)
  next
    case False
    obtain res w1 where wm: "table_WriteMember env w (row\<lparr>m_Status := MemberDead\<rparr>) = (res, w1)" by fastforce
    then have w1: "w' = w1" using False assms(6) by (auto simp: voteVerdict_def split: sum.splits)
    have "vote_write target voter renew (row\<lparr>m_Status := MemberDead\<rparr>)"
      unfolding vote_write_def using False assms(4,5) eq by auto
    then show ?thesis using write_step(1) [OF assms(1) wr wm] write_trace [OF wm] w1 by simp
  qed
  then show "world_step w w'" and "trace_adds (vote_write target voter renew) w w'" by simp_all
qed

lemma voteRound_ok:
  assumes "world_ok w" and "voteRound env ttl target voter renew w = (again, w')"
  shows "world_step w w' \<and> trace_adds (vote_write target voter renew) w w'"
proof -
  obtain res w1 where l: "table_ListMembers env w = (res, w1)" by fastforce
  note s1 = list_step [OF assms(1) l] and t1 = list_trace [OF l]
  have ok1: "world_ok w1" by (rule world_stepD(1) [OF s1(1)])
  show ?thesis
  proof (cases res)
    case (Inl e)
    then show ?thesis using assms(2) l s1(1) t1 by (simp add: voteRound_def)
  next
    case (Inr snap)
    note r = assms(2) [unfolded voteRound_def l Inr, simplified]
    show ?thesis
    proof (cases "memberIndex (ms_Members snap) (member_named target)")
      case None
      then show ?thesis using r s1(1) t1 by simp
    next
      case (Some i)
      let ?row = "ms_Members snap ! i"
      have row: "i < length (ms_Members snap)" "keyForMember ?row = target"
        using memberIndex_Some [OF Some] by simp_all
      have k: "known w1 ?row" using s1(2) [OF Inr] row(1) by simp
      show ?thesis
      proof (cases "m_Status ?row \<noteq> MemberActive \<or> renew \<and> \<not> containsMemberID (targetNeighbors (ms_Members snap) target) voter")
        case True
        then show ?thesis using r s1(1) t1 Some by (auto simp: Let_def split: if_splits)
      next
        case False
        define votes where "votes = (if renew
            then gm_put voter (time_add (ms_TableNow snap) ttl) (activeSuspectVotes (m_SuspectVotes ?row) (ms_TableNow snap))
            else gm_del voter (activeSuspectVotes (m_SuspectVotes ?row) (ms_TableNow snap)))"
        have act: "m_Status ?row = MemberActive" using False by blast
        show ?thesis
        proof (cases "sameSuspectVotes (m_SuspectVotes ?row) votes")
          case True
          then have "voteVerdict env target renew snap ?row w1 = (again, w')"
            using r Some False by (auto simp: Let_def votes_def split: if_splits)
          from voteVerdict_ok [OF ok1 k act row(2) _ this] row(1) s1(1) t1 show ?thesis
            by (auto intro: world_step_trans trace_adds_trans)
        next
          case differs: False
          let ?row2 = "?row\<lparr>m_SuspectVotes := votes\<rparr>"
          obtain res2 w2 where wm: "table_WriteMember env w1 ?row2 = (res2, w2)" by fastforce
          have wr: "writable w1 ?row2" by (rule writable_known [OF k]) (use act in simp_all)
          note s2 = write_step [OF ok1 wr wm]
          have t2: "trace_adds (vote_write target voter renew) w1 w2"
            by (rule write_trace [OF wm]) (use row(2) act in \<open>simp add: vote_write_def votes_def go_map_simps\<close>)
          have r2: "(case res2 of Inl e \<Rightarrow> (is_conflict e, w2)
              | Inr etag \<Rightarrow> voteVerdict env target renew
                  (snap\<lparr>ms_Members := (ms_Members snap)[i := ?row2\<lparr>m_ETag := etag\<rparr>]\<rparr>) (?row2\<lparr>m_ETag := etag\<rparr>) w2) = (again, w')"
            using r Some False differs wm by (auto simp: Let_def votes_def split: if_splits sum.splits)
          have s12: "world_step w w2" "trace_adds (vote_write target voter renew) w w2"
            using s1(1) s2(1) t1 t2 by (auto intro: world_step_trans trace_adds_trans)
          show ?thesis
          proof (cases res2)
            case (Inl e)
            then show ?thesis using r2 s12 by simp
          next
            case (Inr etag)
            then have v: "voteVerdict env target renew
                (snap\<lparr>ms_Members := (ms_Members snap)[i := ?row2\<lparr>m_ETag := etag\<rparr>]\<rparr>) (?row2\<lparr>m_ETag := etag\<rparr>) w2 = (again, w')"
              using r2 by simp
            have "world_step w2 w' \<and> trace_adds (vote_write target voter renew) w2 w'"
              using voteVerdict_ok [OF world_stepD(1) [OF s2(1)] s2(2) [OF Inr] _ _ _ v] act row
              by (simp add: set_update_memI)
            with s12 show ?thesis by (auto intro: world_step_trans trace_adds_trans)
          qed
        qed
      qed
    qed
  qed
qed

lemma updateSuspectVote_ok:
  "world_ok w \<Longrightarrow> updateSuspectVote fuel env ttl target voter renew w = Some w' \<Longrightarrow>
    world_step w w' \<and> trace_adds (vote_write target voter renew) w w'"
proof (induction fuel arbitrary: w)
  case (Suc fuel)
  obtain again w1 where r: "voteRound env ttl target voter renew w = (again, w1)" by fastforce
  note one = voteRound_ok [OF Suc.prems(1) r]
  show ?case
  proof (cases again)
    case True
    then have "updateSuspectVote fuel env ttl target voter renew w1 = Some w'" using Suc.prems(2) r by simp
    from Suc.IH [OF _ this] one show ?thesis
      by (auto simp: world_step_def intro: world_step_trans trace_adds_trans)
  next
    case False
    then show ?thesis using Suc.prems(2) r one by simp
  qed
qed simp

section \<open>Termination of the vote loop\<close>

definition keys_ok :: "memory \<Rightarrow> bool" where
  "keys_ok s \<longleftrightarrow> gm_ok (mem_members s) \<and> (\<forall>k m. gm_get (mem_members s) k = Some m \<longrightarrow> keyForMember m = k)"

text \<open>From here on nobody interferes and no error looks like a conflict.\<close>

definition quiet :: "call_env \<Rightarrow> bool" where
  "quiet e \<longleftrightarrow> ce_others e = [] \<and> (\<forall>err. fate_err (ce_fate e) = Some err \<longrightarrow> \<not> is_conflict err)"

lemma keys_ok_write: "keys_ok s \<Longrightarrow> keys_ok (snd (Memory_WriteMember None s m))"
  by (auto simp: keys_ok_def Memory_WriteMember_def Let_def go_map_simps keyForMember_def split: if_splits)

lemma keys_ok_others: "keys_ok (wd_mem w) \<Longrightarrow> keys_ok (wd_mem (others_step env w))"
proof -
  have "keys_ok s \<Longrightarrow> keys_ok (foldl (\<lambda>s m. snd (Memory_WriteMember None s m)) s ms)" for s ms
    by (induction ms arbitrary: s) (auto intro: keys_ok_write)
  then show "keys_ok (wd_mem w) \<Longrightarrow> keys_ok (wd_mem (others_step env w))"
    by (simp add: others_step_def Let_def)
qed

lemma list_calls:
  assumes "keys_ok (wd_mem w)" and "table_ListMembers env w = (res, w')"
  shows "wd_calls w' = Suc (wd_calls w) \<and> keys_ok (wd_mem w') \<and>
    (\<forall>snap r. res = Inr snap \<longrightarrow> r \<in> set (ms_Members snap) \<longrightarrow> gm_get (mem_members (wd_mem w')) (keyForMember r) = Some r)"
proof -
  have w': "w' = others_step env w" and res: "\<And>snap. res = Inr snap \<Longrightarrow>
      ms_Members snap = sortMembers (map snd (mem_members (wd_mem w')))"
    using assms(2) by (auto simp: table_ListMembers_def Memory_ListMembers_def Let_def split: option.splits)
  have ok: "keys_ok (wd_mem w')" using keys_ok_others [OF assms(1)] w' by simp
  then have g: "gm_ok (mem_members (wd_mem w'))" by (simp add: keys_ok_def)
  have "gm_get (mem_members (wd_mem w')) (keyForMember r) = Some r"
    if "res = Inr snap" "r \<in> set (ms_Members snap)" for snap r
    using that(2) ok unfolding res [OF that(1)]
    by (auto simp: sortMembers_def keys_ok_def gm_ok_get_iff [OF g])
  with ok show ?thesis by (simp add: w' others_step_def Let_def)
qed

lemma write_calls:
  assumes "keys_ok (wd_mem w)" and "table_WriteMember env w row = (res, w')"
  shows "wd_calls w' = Suc (wd_calls w) \<and> keys_ok (wd_mem w')"
  using assms keys_ok_others [OF assms(1), of env]
  by (auto simp: table_WriteMember_def table_applied_def Let_def keys_ok_write others_step_def
      split: fate.splits)

text \<open>A quiet write of a row that is in the table does not conflict, and leaves the row it wrote.\<close>

lemma quiet_write:
  assumes "quiet (env (wd_calls w))" and "gm_get (mem_members (wd_mem w)) (keyForMember row) = Some cur"
    and "m_ETag cur = m_ETag row" and "table_WriteMember env w row = (res, w')"
  shows "case res of Inl e \<Rightarrow> \<not> is_conflict e
    | Inr etag \<Rightarrow> gm_get (mem_members (wd_mem w')) (keyForMember row) = Some (row\<lparr>m_ETag := etag\<rparr>)"
proof -
  have mem: "wd_mem (others_step env w) = wd_mem w"
    using assms(1) by (simp add: others_step_def quiet_def Let_def)
  show ?thesis
    using assms mem
    by (auto simp: table_WriteMember_def table_applied_def Memory_WriteMember_def Let_def quiet_def
        gm_get_or_def go_map_simps split: fate.splits if_splits)
qed

lemma quiet_verdict:
  assumes "quiet (env (wd_calls w))" and "gm_get (mem_members (wd_mem w)) (keyForMember row) = Some row"
    and "voteVerdict env target renew snap row w = (again, w')"
  shows "\<not> again"
proof -
  obtain res w1 where wm: "table_WriteMember env w (row\<lparr>m_Status := MemberDead\<rparr>) = (res, w1)" by fastforce
  from quiet_write [OF assms(1) _ _ wm, of row] assms(2)
  have "case res of Inl e \<Rightarrow> \<not> is_conflict e | Inr _ \<Rightarrow> True" by (cases res) simp_all
  then show ?thesis using assms(3) wm by (auto simp: voteVerdict_def split: if_splits sum.splits)
qed

lemma verdict_calls:
  assumes "keys_ok (wd_mem w)" and "voteVerdict env target renew snap row w = (again, w')"
  shows "wd_calls w \<le> wd_calls w' \<and> keys_ok (wd_mem w')"
  using assms write_calls [OF assms(1), of env "row\<lparr>m_Status := MemberDead\<rparr>"]
  by (auto simp: voteVerdict_def split: if_splits prod.splits sum.splits)

lemma voteRound_calls:
  assumes "keys_ok (wd_mem w)" and "voteRound env ttl target voter renew w = (again, w')"
  shows "wd_calls w < wd_calls w' \<and> keys_ok (wd_mem w')"
proof -
  obtain res w1 where l: "table_ListMembers env w = (res, w1)" by fastforce
  note lc = list_calls [OF assms(1) l]
  have "w' = w1 \<or> (\<exists>sn rw. voteVerdict env target renew sn rw w1 = (again, w')) \<or>
      (\<exists>row res2 w2. table_WriteMember env w1 row = (res2, w2) \<and>
        (w' = w2 \<or> (\<exists>sn rw. voteVerdict env target renew sn rw w2 = (again, w'))))"
    using assms(2) unfolding voteRound_def l
    by (auto simp: Let_def split: sum.splits option.splits if_splits prod.splits; blast)
  then show ?thesis
    using lc write_calls verdict_calls by (metis Suc_lessD lessI order_less_le_trans)
qed

lemma quiet_round:
  assumes "keys_ok (wd_mem w)" and "\<forall>i \<ge> wd_calls w. quiet (env i)"
    and "voteRound env ttl target voter renew w = (again, w')"
  shows "\<not> again"
proof -
  obtain res w1 where l: "table_ListMembers env w = (res, w1)" by fastforce
  note lc = list_calls [OF assms(1) l]
  have q1: "quiet (env (wd_calls w1))" "quiet (env (Suc (wd_calls w1)))" using assms(2) lc by simp_all
  show ?thesis
  proof (cases res)
    case (Inl e)
    then show ?thesis using assms(3) l by (simp add: voteRound_def)
  next
    case (Inr snap)
    note r = assms(3) [unfolded voteRound_def l Inr, simplified]
    show ?thesis
    proof (cases "memberIndex (ms_Members snap) (member_named target)")
      case None
      then show ?thesis using r by simp
    next
      case (Some i)
      let ?row = "ms_Members snap ! i"
      have row: "gm_get (mem_members (wd_mem w1)) (keyForMember ?row) = Some ?row"
        using lc Inr memberIndex_Some [OF Some] by (metis nth_mem)
      have wr: "case res2 of Inl e \<Rightarrow> \<not> is_conflict e
          | Inr etag \<Rightarrow> gm_get (mem_members (wd_mem w2)) (keyForMember ?row) = Some (?row\<lparr>m_SuspectVotes := v, m_ETag := etag\<rparr>)"
        if "table_WriteMember env w1 (?row\<lparr>m_SuspectVotes := v\<rparr>) = (res2, w2)" for v res2 w2
        using quiet_write [OF q1(1) _ _ that, of ?row] row by (cases res2) simp_all
      have vd: "\<not> b" if "table_WriteMember env w1 (?row\<lparr>m_SuspectVotes := v\<rparr>) = (Inr etag, w2)"
        "voteVerdict env target renew sn (?row\<lparr>m_SuspectVotes := v, m_ETag := etag\<rparr>) w2 = (b, w3)" for v etag w2 sn b w3
        using quiet_verdict [OF _ _ that(2)] wr [OF that(1)] write_calls [OF _ that(1)] lc q1(2) by simp
      show ?thesis
        using r Some
        by (auto simp: Let_def split: if_splits prod.splits sum.splits
            dest: wr vd quiet_verdict [of env w1, OF q1(1) row])
    qed
  qed
qed

section \<open>Properties\<close>

text \<open>
  C27. The retry loop of a vote ends: whatever the others do and whatever fails before, once nobody
  interferes with the table any more (here: after call \<open>N\<close>) the loop returns, within as many rounds
  as calls were left until then, plus one.
\<close>

theorem updateSuspectVote_returns:
  assumes "keys_ok (wd_mem w)" and "\<forall>i \<ge> N. quiet (env i)"
  shows "\<exists>w'. updateSuspectVote (Suc (N - wd_calls w)) env ttl target voter renew w = Some w'"
  using assms(1)
proof (induction "N - wd_calls w" arbitrary: w rule: less_induct)
  case less
  obtain again w1 where r: "voteRound env ttl target voter renew w = (again, w1)" by fastforce
  show ?case
  proof (cases again)
    case False
    then show ?thesis using r by simp
  next
    case True
    then have "\<not> (\<forall>i \<ge> wd_calls w. quiet (env i))" using quiet_round [OF less.prems _ r] by blast
    then have lt: "wd_calls w < N" using assms(2) by (meson le_trans not_le)
    note calls = voteRound_calls [OF less.prems r]
    with lt have "N - wd_calls w1 < N - wd_calls w" by (simp add: diff_less_mono2)
    from less.hyps [OF this] calls obtain w' where
      w': "updateSuspectVote (Suc (N - wd_calls w1)) env ttl target voter renew w1 = Some w'" by blast
    have mono: "updateSuspectVote f env ttl target voter renew v = Some u \<Longrightarrow>
        updateSuspectVote (f + d) env ttl target voter renew v = Some u" for f d v u
      by (induction f arbitrary: v) (auto split: prod.splits bool.splits)
    obtain d where "N - wd_calls w = Suc (N - wd_calls w1) + d"
      using \<open>N - wd_calls w1 < N - wd_calls w\<close> less_iff_Suc_add by (metis add_Suc)
    then have "updateSuspectVote (N - wd_calls w) env ttl target voter renew w1 = Some w'"
      using mono [OF w'] by metis
    then show ?thesis using r True by simp
  qed
qed

definition calm_env :: env where
  "calm_env i = \<lparr>ce_others = [], ce_fate = Runs, ce_now = 10\<rparr>"

definition empty_world :: world where
  "empty_world = \<lparr>wd_mem = NewMemory, wd_calls = 0, wd_puts = 0, wd_trace = []\<rparr>"

lemma empty_world_ok: "world_ok empty_world" "keys_ok (wd_mem empty_world)"
  using memory_ok_NewMemory
  by (simp_all add: world_ok_def empty_world_def trace_safe_def row_tag_def member_look_def tag_of_def
      NewMemory_def keys_ok_def)

theorem updateSuspectVote_returns_witness:
  "\<exists>w'. updateSuspectVote 1 calm_env 6 (MemberID ''b'' ''g'') (MemberID ''a'' ''g'') True empty_world = Some w'"
proof -
  have "\<forall>i \<ge> 0. quiet (calm_env i)" by (simp add: calm_env_def quiet_def)
  from updateSuspectVote_returns [OF empty_world_ok(2) this] show ?thesis by simp
qed

text \<open>
  The vote loop writes only the row of the member it votes about, retracts the voter's own vote
  when it does not renew it, leaves the row active unless the verdict is death, and writes death
  only when renewing a vote and when the snapshot it acts on,
  containing that very row with its votes, gives a unanimous verdict.
\<close>

theorem updateSuspectVote_writes:
  assumes "world_ok w" and "updateSuspectVote fuel env ttl target voter renew w = Some w'"
  shows "\<exists>tr. wd_trace w' = wd_trace w @ tr \<and>
    (\<forall>(s, row) \<in> set tr. keyForMember row = target \<and>
      (\<not> renew \<longrightarrow> gm_get (m_SuspectVotes row) voter = None) \<and>
      (m_Status row = MemberActive \<or>
       m_Status row = MemberDead \<and> renew \<and>
         (\<exists>snap. shouldMarkDead snap target \<and> row\<lparr>m_Status := MemberActive\<rparr> \<in> set (ms_Members snap))))"
  using updateSuspectVote_ok [OF assms] by (simp add: trace_adds_def vote_write_def)

theorem updateSuspectVote_writes_witness:
  "\<exists>w'. updateSuspectVote 1 calm_env 6 (MemberID ''b'' ''g'') (MemberID ''a'' ''g'') True empty_world = Some w' \<and>
    (\<exists>tr. wd_trace w' = tr \<and> (\<forall>(s, row) \<in> set tr. keyForMember row = MemberID ''b'' ''g''))"
proof -
  obtain w' where w': "updateSuspectVote 1 calm_env 6 (MemberID ''b'' ''g'') (MemberID ''a'' ''g'') True empty_world = Some w'"
    by (simp add: voteRound_def table_ListMembers_def others_step_def calm_env_def empty_world_def
        Memory_ListMembers_def NewMemory_def sortMembers_def)
  from updateSuspectVote_writes [OF empty_world_ok(1) w'] obtain tr where
    "wd_trace w' = wd_trace empty_world @ tr" "\<forall>(s, row) \<in> set tr. keyForMember row = MemberID ''b'' ''g''" by blast
  then show ?thesis using w' by (auto simp: empty_world_def)
qed

end
