(* ===== verification/Gor_Node.thy ===== *)
theory Gor_Node
  imports Gor_Vote
begin

text \<open>
  The cluster node of \<open>cluster/node.go\<close>: configuration, joining, heartbeats, the self check with its
  deadlines, health, view polling, leaving, and the event loop \<open>run\<close> over all of them, together with
  \<open>handleProbeEvent\<close> of \<open>cluster/vote.go\<close>. Times read from the clock are arguments of the
  operations. A table call made under a deadline still reaches the table when the deadline wins; a
  write that arrives even later is one of the environment's attempts.
\<close>

section \<open>Configuration\<close>

datatype node_state = StateJoining | StateActive | StateDead
datatype health = healthy | unhealthy

record config =
  cf_hasProber :: bool
  cf_NodeAddr :: string
  cf_Generation :: string
  cf_HeartbeatInterval :: duration
  cf_ViewInterval :: duration
  cf_ProbeInterval :: duration
  cf_ProbeTimeout :: duration
  cf_ProbeFailures :: int
  cf_VoteTTL :: duration
  cf_MaxTickGap :: duration
  cf_MaxTableLatency :: duration

definition default_to :: "int \<Rightarrow> int \<Rightarrow> int" where
  "default_to d x = (if x = 0 then d else x)"

text \<open>The checks and defaults at the start of \<open>New\<close>.\<close>

definition node_config :: "config \<Rightarrow> config result" where
  "node_config c =
     (if \<not> cf_hasProber c then Inl (Sentinel ClusterErrProberRequired)
      else if cf_ProbeInterval c < 0 \<or> cf_ProbeTimeout c < 0 \<or> cf_ProbeFailures c < 0 \<or> cf_VoteTTL c < 0 \<or>
              cf_MaxTickGap c < 0 \<or> cf_MaxTableLatency c < 0
        then Inl (Sentinel ClusterErrInvalidConfig)
      else Inr (c\<lparr>cf_ProbeInterval := default_to nanosPerSecond (cf_ProbeInterval c),
                  cf_ProbeTimeout := default_to (nanosPerSecond div 2) (cf_ProbeTimeout c),
                  cf_ProbeFailures := default_to 3 (cf_ProbeFailures c),
                  cf_VoteTTL := default_to (6 * nanosPerSecond) (cf_VoteTTL c),
                  cf_MaxTickGap := default_to (2 * nanosPerSecond) (cf_MaxTickGap c),
                  cf_MaxTableLatency := default_to (nanosPerSecond div 2) (cf_MaxTableLatency c)\<rparr>))"

section \<open>State\<close>

record node =
  nd_cfg :: config
  nd_state :: node_state
  nd_probeFailures :: failures
  nd_health :: health
  nd_healthyTicks :: int
  nd_lastProbeAt :: gtime
  nd_views :: "view option"
  nd_done :: bool
  nd_declaredDead :: bool

definition new_node :: "config \<Rightarrow> node" where
  "new_node c = \<lparr>nd_cfg = c, nd_state = StateJoining, nd_probeFailures = [], nd_health = healthy,
     nd_healthyTicks = 0, nd_lastProbeAt = time_zero, nd_views = None, nd_done = False,
     nd_declaredDead = False\<rparr>"

definition Node_Probe :: "node \<Rightarrow> member_id option" where
  "Node_Probe n =
     (if nd_state n \<noteq> StateActive then None
      else if nd_done n then None
      else Some (MemberID (cf_NodeAddr (nd_cfg n)) (cf_Generation (nd_cfg n))))"

text \<open>\<open>notify\<close> drops an unread view and leaves the new one in the channel of capacity one.\<close>

definition notify :: "view \<Rightarrow> node \<Rightarrow> node" where
  "notify view n = n\<lparr>nd_views := Some view\<rparr>"

section \<open>Joining\<close>

definition join :: "env \<Rightarrow> gtime \<Rightarrow> gtime \<Rightarrow> config \<Rightarrow> world \<Rightarrow> (member \<times> member list) result \<times> world" where
  "join env now1 now2 c w =
     (let self = zero_member\<lparr>m_NodeAddr := cf_NodeAddr c, m_Generation := cf_Generation c,
            m_Status := MemberJoining, m_IamAliveAt := now1\<rparr>
      in case table_WriteMember env w self of
           (Inl e, w1) \<Rightarrow> (Inl e, w1)
         | (Inr _, w1) \<Rightarrow>
             (case table_ListMembers env w1 of
                (Inl e, w2) \<Rightarrow> (Inl e, w2)
              | (Inr snapshot, w2) \<Rightarrow>
                  (let members = ms_Members snapshot
                   in case memberIndex members self of
                        None \<Rightarrow> (Inl (Sentinel ClusterErrNodeDead), w2)
                      | Some index \<Rightarrow>
                          if m_Status (members ! index) \<noteq> MemberJoining
                          then (Inl (Sentinel ClusterErrNodeDead), w2)
                          else
                            (let self = (members ! index)\<lparr>m_Status := MemberActive, m_IamAliveAt := now2\<rparr>
                             in case table_WriteMember env w2 self of
                                  (Inl e, w3) \<Rightarrow>
                                    (Inl (if is_conflict e then Sentinel ClusterErrNodeDead else e), w3)
                                | (Inr etag, w3) \<Rightarrow>
                                    (let self = self\<lparr>m_ETag := etag\<rparr>
                                     in (Inr (self, members[index := self]), w3))))))"

section \<open>Heartbeat, view polling, leaving\<close>

text \<open>The row, whether the node is alive, and the node. The view it returns is not used by its caller.\<close>

definition heartbeat :: "env \<Rightarrow> gtime \<Rightarrow> member \<Rightarrow> node \<Rightarrow> world \<Rightarrow> member \<times> bool \<times> node \<times> world" where
  "heartbeat env now self n w =
     (case table_ListMembers env w of
        (Inl _, w1) \<Rightarrow> (self, True, n, w1)
      | (Inr snapshot, w1) \<Rightarrow>
          (let members = ms_Members snapshot
           in case memberIndex members self of
                None \<Rightarrow> (self, False, n\<lparr>nd_state := StateDead\<rparr>, w1)
              | Some index \<Rightarrow>
                  if m_Status (members ! index) = MemberDead
                  then (self, False, n\<lparr>nd_state := StateDead\<rparr>, w1)
                  else
                    (let self = members ! index;
                         updated = self\<lparr>m_IamAliveAt := now,
                           m_SuspectVotes := activeSuspectVotes (m_SuspectVotes self) (ms_TableNow snapshot)\<rparr>
                     in case table_WriteMember env w1 updated of
                          (Inr etag, w2) \<Rightarrow> (updated\<lparr>m_ETag := etag\<rparr>, True, n, w2)
                        | (Inl e, w2) \<Rightarrow>
                            if \<not> is_conflict e then (self, True, n, w2)
                            else
                              (case table_ListMembers env w2 of
                                 (Inl _, w3) \<Rightarrow> (self, True, n, w3)
                               | (Inr snapshot2, w3) \<Rightarrow>
                                   (let members2 = ms_Members snapshot2
                                    in case memberIndex members2 self of
                                         None \<Rightarrow> (self, False, n\<lparr>nd_state := StateDead\<rparr>, w3)
                                       | Some index2 \<Rightarrow>
                                           if m_Status (members2 ! index2) = MemberDead
                                           then (self, False, n\<lparr>nd_state := StateDead\<rparr>, w3)
                                           else (members2 ! index2, True, n, w3))))))"

definition pollView :: "env \<Rightarrow> member \<Rightarrow> view \<Rightarrow> node \<Rightarrow> world \<Rightarrow> view \<times> bool \<times> node \<times> world" where
  "pollView env self current n w =
     (case table_ListMembers env w of
        (Inl _, w1) \<Rightarrow> (current, True, n, w1)
      | (Inr snapshot, w1) \<Rightarrow>
          (let members = ms_Members snapshot
           in case memberIndex members self of
                None \<Rightarrow> (NewView members, True, n, w1)
              | Some index \<Rightarrow>
                  if m_Status (members ! index) = MemberDead
                  then (NewView members, False, n\<lparr>nd_state := StateDead\<rparr>, w1)
                  else (NewView members, True, n, w1)))"

definition leave :: "env \<Rightarrow> member \<Rightarrow> node \<Rightarrow> world \<Rightarrow> node \<times> world" where
  "leave env self n w =
     (if nd_state n = StateDead then (n, w)
      else (case table_WriteMember env w (self\<lparr>m_Status := MemberDead\<rparr>) of
              (_, w1) \<Rightarrow> (n\<lparr>nd_state := StateDead\<rparr>, w1)))"

section \<open>The self check\<close>

definition checkProbeInterval :: "gtime \<Rightarrow> node \<Rightarrow> bool \<times> node" where
  "checkProbeInterval probeAt n =
     (let previous = nd_lastProbeAt n; n' = n\<lparr>nd_lastProbeAt := probeAt\<rparr>
      in if time_is_zero previous then (True, n')
         else (let delta = time_sub probeAt previous
               in (0 < delta \<and> delta \<le> cf_MaxTickGap (nd_cfg n), n')))"

definition updateHealth :: "bool \<Rightarrow> node \<Rightarrow> node" where
  "updateHealth checkOK n =
     (if \<not> checkOK then n\<lparr>nd_health := unhealthy, nd_healthyTicks := 0, nd_probeFailures := []\<rparr>
      else if nd_health n \<noteq> unhealthy then n
      else (let n' = n\<lparr>nd_healthyTicks := wrap64 (nd_healthyTicks n + 1)\<rparr>
            in if nd_healthyTicks n' = 3 then n'\<lparr>nd_health := healthy\<rparr> else n'))"

text \<open>Which branch of the select in the calls under a deadline is taken.\<close>

datatype check_wait = CheckResult | CheckTimer | CheckCtxDone go_error

definition listMembersForCheck ::
    "env \<Rightarrow> check_wait \<Rightarrow> world \<Rightarrow> member_snapshot result \<times> world" where
  "listMembersForCheck env wait w =
     (case table_ListMembers env w of (res, w1) \<Rightarrow>
        (case wait of
           CheckResult \<Rightarrow> (res, w1)
         | CheckTimer \<Rightarrow> (Inl (Sentinel ClusterErrMemberCheckTimeout), w1)
         | CheckCtxDone e \<Rightarrow> (Inl e, w1)))"

definition writeMemberForCheck :: "env \<Rightarrow> check_wait \<Rightarrow> member \<Rightarrow> world \<Rightarrow> etag result \<times> world" where
  "writeMemberForCheck env wait row w =
     (case table_WriteMember env w row of (res, w1) \<Rightarrow>
        (case wait of
           CheckResult \<Rightarrow> (res, w1)
         | CheckTimer \<Rightarrow> (Inl (Sentinel ClusterErrMemberCheckTimeout), w1)
         | CheckCtxDone e \<Rightarrow> (Inl e, w1)))"

text \<open>The clock readings and select outcomes of one self check, in the order they are made.\<close>

record check_times =
  ct_listStarted :: gtime
  ct_listDone :: gtime
  ct_aliveAt :: gtime
  ct_writeStarted :: gtime
  ct_writeDone :: gtime
  ct_refreshStarted :: gtime
  ct_refreshDone :: gtime
  ct_listWait :: check_wait
  ct_writeWait :: check_wait
  ct_refreshWait :: check_wait

definition too_slow :: "config \<Rightarrow> gtime \<Rightarrow> gtime \<Rightarrow> bool" where
  "too_slow c started finished =
     (time_sub finished started < 0 \<or> cf_MaxTableLatency c < time_sub finished started)"

text \<open>The second half of \<open>selfCheck\<close>: the write and, on a conflict, the refresh.\<close>

definition selfCheck_write ::
    "env \<Rightarrow> check_times \<Rightarrow> bool \<Rightarrow> member \<Rightarrow> member \<Rightarrow> view \<Rightarrow> node \<Rightarrow> world
      \<Rightarrow> member \<times> view \<times> bool \<times> bool \<times> node \<times> world" where
  "selfCheck_write env ct checkOK updated self current n w =
     (case writeMemberForCheck env (ct_writeWait ct) updated w of (res, w1) \<Rightarrow>
        (let checkOK = (checkOK \<and> \<not> too_slow (nd_cfg n) (ct_writeStarted ct) (ct_writeDone ct))
         in case res of
              Inr etag \<Rightarrow> (updated\<lparr>m_ETag := etag\<rparr>, current, True, checkOK, n, w1)
            | Inl e \<Rightarrow>
                if \<not> is_conflict e then (self, current, True, False, n, w1)
                else
                  (case listMembersForCheck env (ct_refreshWait ct) w1 of
                     (Inl _, w2) \<Rightarrow> (self, current, True, False, n, w2)
                   | (Inr refreshed, w2) \<Rightarrow>
                       (let checkOK = (checkOK \<and> \<not> too_slow (nd_cfg n) (ct_refreshStarted ct) (ct_refreshDone ct));
                            members = ms_Members refreshed
                        in case memberIndex members self of
                             None \<Rightarrow> (self, NewView members, False, False, n\<lparr>nd_state := StateDead\<rparr>, w2)
                           | Some index \<Rightarrow>
                               if m_Status (members ! index) = MemberDead
                               then (self, NewView members, False, False, n\<lparr>nd_state := StateDead\<rparr>, w2)
                               else (members ! index, NewView members, True, checkOK, n, w2)))))"

definition selfCheck ::
    "env \<Rightarrow> check_times \<Rightarrow> gtime \<Rightarrow> member \<Rightarrow> view \<Rightarrow> node \<Rightarrow> world
      \<Rightarrow> member \<times> view \<times> bool \<times> bool \<times> node \<times> world" where
  "selfCheck env ct probeAt self current n0 w0 =
     (case checkProbeInterval probeAt n0 of (checkOK, n) \<Rightarrow>
     (case listMembersForCheck env (ct_listWait ct) w0 of
        (Inl _, w) \<Rightarrow>
          selfCheck_write env ct False (self\<lparr>m_IamAliveAt := ct_aliveAt ct\<rparr>) self current n w
      | (Inr snapshot, w) \<Rightarrow>
          (let members = ms_Members snapshot;
               refresh = (\<lambda>row. row\<lparr>m_IamAliveAt := ct_aliveAt ct,
                 m_SuspectVotes := activeSuspectVotes (m_SuspectVotes row) (ms_TableNow snapshot)\<rparr>)
           in if too_slow (nd_cfg n) (ct_listStarted ct) (ct_listDone ct)
              then selfCheck_write env ct False (refresh self) self current n w
              else
                (case memberIndex members self of
                   None \<Rightarrow> (self, NewView members, False, False, n\<lparr>nd_state := StateDead\<rparr>, w)
                 | Some index \<Rightarrow>
                     if m_Status (members ! index) = MemberDead
                     then (self, NewView members, False, False, n\<lparr>nd_state := StateDead\<rparr>, w)
                     else selfCheck_write env ct checkOK (refresh (members ! index)) (members ! index)
                            (NewView members) n w))))"

section \<open>Probe events\<close>

definition handleProbeEvent ::
    "nat \<Rightarrow> env \<Rightarrow> probe_event \<Rightarrow> probe_tasks \<Rightarrow> member_id \<Rightarrow> node \<Rightarrow> world
      \<Rightarrow> (probe_tasks \<times> node \<times> world) option" where
  "handleProbeEvent fuel env event tasks self n w =
     (if gm_get tasks (pe_target event) \<noteq> Some (pe_token event) then Some (tasks, n, w)
      else
        (case recordProbeEvent event tasks (nd_probeFailures n) of (success, tasks', fails) \<Rightarrow>
           (let n1 = n\<lparr>nd_probeFailures := fails\<rparr>;
                vote = (\<lambda>renew. updateSuspectVote fuel env (cf_VoteTTL (nd_cfg n)) (pe_target event) self renew w)
            in if nd_health n = unhealthy
               then (let n2 = n1\<lparr>nd_probeFailures := []\<rparr>
                     in if success then map_option (\<lambda>w'. (tasks', n2, w')) (vote False)
                        else Some (tasks', n2, w))
               else if success then map_option (\<lambda>w'. (tasks', n1, w')) (vote False)
               else if cf_ProbeFailures (nd_cfg n) \<le> gm_get_or 0 fails (pe_target event)
                 then map_option (\<lambda>w'. (tasks', n1, w')) (vote True)
               else Some (tasks', n1, w))))"

section \<open>The event loop\<close>

record node_run =
  nr_node :: node
  nr_world :: world
  nr_self :: member
  nr_view :: view
  nr_tasks :: probe_tasks
  nr_nextToken :: token
  nr_exited :: bool

datatype node_event =
    EvHeartbeat gtime
  | EvViewTick
  | EvProbeTick gtime check_times
  | EvProbe probe_event
  | EvCtxDone

text \<open>Starting a probe gives its task the next token.\<close>

fun startProbes :: "member_id list \<Rightarrow> probe_tasks \<Rightarrow> token \<Rightarrow> probe_tasks \<times> token" where
  "startProbes [] tasks tok = (tasks, tok)"
| "startProbes (t # ts) tasks tok =
     (if gm_get tasks t \<noteq> None then startProbes ts tasks tok
      else startProbes ts (gm_put t (tok + 1) tasks) (tok + 1))"

text \<open>The deferred calls of \<open>run\<close> when it returns.\<close>

definition run_exit :: "bool \<Rightarrow> node_run \<Rightarrow> node_run" where
  "run_exit externalDeath r = r\<lparr>nr_tasks := [], nr_exited := True,
     nr_node := (nr_node r)\<lparr>nd_done := True, nd_declaredDead := externalDeath\<rparr>\<rparr>"

text \<open>One turn of the select loop; \<open>None\<close> while a vote loop is still running.\<close>

definition node_step :: "nat \<Rightarrow> env \<Rightarrow> node_event \<Rightarrow> node_run \<Rightarrow> node_run option" where
  "node_step fuel env ev r =
     (if nr_exited r then Some r
      else
        (let selfID = keyForMember (nr_self r)
         in case ev of
              EvHeartbeat now \<Rightarrow>
                (case heartbeat env now (nr_self r) (nr_node r) (nr_world r) of (updated, alive, n, w) \<Rightarrow>
                   (let r1 = r\<lparr>nr_node := n, nr_world := w\<rparr>
                    in if \<not> alive then Some (run_exit True r1) else Some (r1\<lparr>nr_self := updated\<rparr>)))
            | EvViewTick \<Rightarrow>
                (case pollView env (nr_self r) (nr_view r) (nr_node r) (nr_world r) of (updated, alive, n, w) \<Rightarrow>
                   (let r1 = r\<lparr>nr_node := n, nr_world := w\<rparr>
                    in if \<not> alive then Some (run_exit True r1)
                       else
                         (case reconcileProbeState (probeTargets (vw_members updated) selfID) (nr_tasks r1)
                                 (nd_probeFailures n) of (tasks, fails, _) \<Rightarrow>
                            (let changed = (\<not> sameView (nr_view r1) updated);
                                 n1 = n\<lparr>nd_probeFailures := fails\<rparr>;
                                 n2 = (if changed then notify updated n1 else n1)
                             in Some (r1\<lparr>nr_tasks := tasks, nr_node := n2, nr_view := updated\<rparr>)))))
            | EvProbeTick probeAt ct \<Rightarrow>
                (case selfCheck env ct probeAt (nr_self r) (nr_view r) (nr_node r) (nr_world r) of
                   (updated, updatedView, alive, checkOK, n, w) \<Rightarrow>
                   (let r1 = r\<lparr>nr_node := n, nr_world := w, nr_self := updated\<rparr>
                    in if \<not> alive then Some (run_exit True r1)
                       else
                         (let differs = (\<not> sameView (nr_view r1) updatedView);
                              view = (if differs then updatedView else nr_view r1);
                              n1 = (if differs then notify updatedView n else n);
                              n2 = updateHealth checkOK n1;
                              targets = probeTargets (vw_members view) selfID
                          in case reconcileProbeState targets (nr_tasks r1) (nd_probeFailures n2) of
                               (tasks, fails, _) \<Rightarrow>
                                 (case startProbes targets tasks (nr_nextToken r1) of (tasks', tok) \<Rightarrow>
                                    Some (r1\<lparr>nr_node := n2\<lparr>nd_probeFailures := fails\<rparr>, nr_view := view,
                                      nr_tasks := tasks', nr_nextToken := tok\<rparr>)))))
            | EvProbe event \<Rightarrow>
                map_option (\<lambda>(tasks, n, w). r\<lparr>nr_tasks := tasks, nr_node := n, nr_world := w\<rparr>)
                  (handleProbeEvent fuel env event (nr_tasks r) selfID (nr_node r) (nr_world r))
            | EvCtxDone \<Rightarrow>
                (case leave env (nr_self r) (nr_node r) (nr_world r) of (n, w) \<Rightarrow>
                   Some (run_exit False (r\<lparr>nr_node := n, nr_world := w\<rparr>)))))"

text \<open>\<open>New\<close>: the joined node with its first view, ready to run.\<close>

definition Node_New :: "env \<Rightarrow> gtime \<Rightarrow> gtime \<Rightarrow> config \<Rightarrow> world \<Rightarrow> node_run result \<times> world" where
  "Node_New env now1 now2 c0 w =
     (case node_config c0 of
        Inl e \<Rightarrow> (Inl e, w)
      | Inr c \<Rightarrow>
          (case join env now1 now2 c w of
             (Inl e, w1) \<Rightarrow> (Inl e, w1)
           | (Inr (self, members), w1) \<Rightarrow>
               (let view = NewView members
                in (Inr \<lparr>nr_node = notify view ((new_node c)\<lparr>nd_state := StateActive\<rparr>), nr_world = w1,
                      nr_self = self, nr_view = view, nr_tasks = [], nr_nextToken = 0, nr_exited = False\<rparr>, w1))))"

text \<open>\<open>Kill\<close> marks the node dead before it cancels the context.\<close>

definition Node_Kill :: "node_run \<Rightarrow> node_run" where
  "Node_Kill r = r\<lparr>nr_node := (nr_node r)\<lparr>nd_state := StateDead\<rparr>\<rparr>"

fun node_run_events :: "nat \<Rightarrow> env \<Rightarrow> node_event list \<Rightarrow> node_run \<Rightarrow> node_run option" where
  "node_run_events fuel env [] r = Some r"
| "node_run_events fuel env (ev # evs) r =
     (case node_step fuel env ev r of None \<Rightarrow> None | Some r' \<Rightarrow> node_run_events fuel env evs r')"

section \<open>The node keeps the invariant of the world\<close>

text \<open>The row the node holds as its own: known, and not dead when it was read.\<close>

definition own_row :: "world \<Rightarrow> member \<Rightarrow> bool" where
  "own_row w self \<longleftrightarrow> known w self \<and> m_Status self \<noteq> MemberDead"

lemma own_row_step: "world_step w w' \<Longrightarrow> own_row w self \<Longrightarrow> own_row w' self"
  by (simp add: own_row_def world_step_def)

lemma own_row_writable:
  "own_row w base \<Longrightarrow> keyForMember row = keyForMember base \<Longrightarrow> m_ETag row = m_ETag base \<Longrightarrow> writable w row"
  unfolding own_row_def by (rule writable_known [of w base]) simp_all

lemma listed_own_row:
  assumes "world_ok w" and "table_ListMembers env w = (Inr snap, w')"
    and "memberIndex (ms_Members snap) self = Some i" and "m_Status (ms_Members snap ! i) \<noteq> MemberDead"
  shows "own_row w' (ms_Members snap ! i) \<and> keyForMember (ms_Members snap ! i) = keyForMember self"
  using list_step(2) [OF assms(1,2) refl] memberIndex_Some [OF assms(3)] assms(4)
  by (simp add: own_row_def)

lemma written_own_row:
  assumes "world_ok w" and "own_row w base" and "keyForMember row = keyForMember base"
    and "m_ETag row = m_ETag base" and "m_Status row \<noteq> MemberDead"
    and "table_WriteMember env w row = (Inr etag, w')"
  shows "own_row w' (row\<lparr>m_ETag := etag\<rparr>)"
  using write_step(2) [OF assms(1) own_row_writable [OF assms(2-4)] assms(6) refl] assms(5)
  by (simp add: own_row_def)

definition keeps :: "member \<Rightarrow> world \<Rightarrow> member \<Rightarrow> world \<Rightarrow> bool" where
  "keeps self w self' w' \<longleftrightarrow> world_step w w' \<and> own_row w' self' \<and> keyForMember self' = keyForMember self"

lemma heartbeat_ok:
  assumes "world_ok w" and "own_row w self" and "heartbeat env now self n w = (self', alive, n', w')"
  shows "keeps self w self' w'"
proof -
  obtain res w1 where l: "table_ListMembers env w = (res, w1)" by fastforce
  note s1 = list_step(1) [OF assms(1) l]
  note ok1 = world_stepD(1) [OF s1] and own1 = own_row_step [OF s1 assms(2)]
  show ?thesis
  proof (cases "\<exists>snap i. res = Inr snap \<and> memberIndex (ms_Members snap) self = Some i \<and>
      m_Status (ms_Members snap ! i) \<noteq> MemberDead")
    case False
    then show ?thesis
      using assms(3) l s1 own1
      by (auto simp: heartbeat_def keeps_def Let_def split: sum.splits option.splits)
  next
    case True
    then obtain snap i where si: "res = Inr snap" "memberIndex (ms_Members snap) self = Some i"
      "m_Status (ms_Members snap ! i) \<noteq> MemberDead" by blast
    let ?me = "ms_Members snap ! i"
    let ?up = "?me\<lparr>m_IamAliveAt := now,
      m_SuspectVotes := activeSuspectVotes (m_SuspectVotes ?me) (ms_TableNow snap)\<rparr>"
    have me: "own_row w1 ?me" "keyForMember ?me = keyForMember self"
      using listed_own_row [OF assms(1) l [unfolded si(1)] si(2,3)] by simp_all
    obtain res2 w2 where wm: "table_WriteMember env w1 ?up = (res2, w2)" by fastforce
    have wr: "writable w1 ?up" by (rule own_row_writable [OF me(1)]) simp_all
    note s2 = write_step(1) [OF ok1 wr wm]
    note s12 = world_step_trans [OF s1 s2] and me2 = own_row_step [OF s2 me(1)]
    note r = assms(3) [unfolded heartbeat_def l si(1), simplified Let_def, simplified, unfolded si(2), simplified]
    show ?thesis
    proof (cases res2)
      case (Inr etag)
      then show ?thesis
        using r si(3) wm s12 me(2) written_own_row [OF ok1 me(1) _ _ _ wm [unfolded Inr]]
        by (auto simp: keeps_def)
    next
      case (Inl e)
      show ?thesis
      proof (cases "is_conflict e")
        case False
        then show ?thesis using r si(3) wm Inl s12 me2 me(2) by (auto simp: keeps_def)
      next
        case True
        obtain res3 w3 where l3: "table_ListMembers env w2 = (res3, w3)" by fastforce
        note s3 = list_step(1) [OF world_stepD(1) [OF s2] l3]
        note s13 = world_step_trans [OF s12 s3] and me3 = own_row_step [OF s3 me2]
        show ?thesis
          using r si(3) wm Inl True l3 s13 me3 me(2) listed_own_row [OF world_stepD(1) [OF s2], of env _ w3 ?me]
          by (auto simp: keeps_def split: sum.splits option.splits if_splits)
      qed
    qed
  qed
qed

lemma pollView_ok: "world_ok w \<Longrightarrow> pollView env self cur n w = (v, alive, n', w') \<Longrightarrow> world_step w w'"
  using list_step(1) [of w env]
  by (auto simp: pollView_def Let_def split: prod.splits sum.splits option.splits if_splits)

lemma leave_ok:
  assumes "world_ok w" and "own_row w self" and "leave env self n w = (n', w')"
  shows "world_step w w'"
proof -
  have "writable w (self\<lparr>m_Status := MemberDead\<rparr>)" by (rule own_row_writable [OF assms(2)]) simp_all
  then show ?thesis
    using assms write_step(1) [OF assms(1)] by (auto simp: leave_def split: if_splits prod.splits)
qed

lemma listForCheck_ok:
  assumes "world_ok w" and "listMembersForCheck env wait w = (res, w')"
  shows "world_step w w'" and "res = Inr snap \<Longrightarrow> table_ListMembers env w = (Inr snap, w')"
  using assms list_step(1) [OF assms(1)]
  by (auto simp: listMembersForCheck_def split: prod.splits check_wait.splits)

lemma writeForCheck_ok:
  assumes "world_ok w" and "writable w row" and "writeMemberForCheck env wait row w = (res, w')"
  shows "world_step w w'" and "res = Inr etag \<Longrightarrow> table_WriteMember env w row = (Inr etag, w')"
  using assms write_step(1) [OF assms(1,2)]
  by (auto simp: writeMemberForCheck_def split: prod.splits check_wait.splits)

lemma selfCheck_write_ok:
  assumes "world_ok w" and own: "own_row w self" and "keyForMember up = keyForMember self"
    and "m_ETag up = m_ETag self" and "m_Status up = m_Status self"
    and r: "selfCheck_write env ct ok up self cur n w = (self', v, alive, ok', n', w')"
  shows "keeps self w self' w'"
proof -
  obtain res w1 where wm: "writeMemberForCheck env (ct_writeWait ct) up w = (res, w1)" by fastforce
  have wr: "writable w up" by (rule own_row_writable [OF own assms(3,4)])
  note s1 = writeForCheck_ok [OF assms(1) wr wm]
  note ok1 = world_stepD(1) [OF s1(1)] and own1 = own_row_step [OF s1(1) own]
  show ?thesis
  proof (cases res)
    case (Inr etag)
    have "m_Status up \<noteq> MemberDead" using own assms(5) by (simp add: own_row_def)
    from written_own_row [OF assms(1) own assms(3,4) this s1(2) [OF Inr]]
    show ?thesis using r wm Inr s1(1) assms(3) by (auto simp: selfCheck_write_def keeps_def Let_def)
  next
    case (Inl e)
    obtain res2 w2 where l: "listMembersForCheck env (ct_refreshWait ct) w1 = (res2, w2)" by fastforce
    note s2 = listForCheck_ok [OF ok1 l]
    note s12 = world_step_trans [OF s1(1) s2(1)] and own2 = own_row_step [OF s2(1) own1]
    show ?thesis
      using r wm Inl l s1(1) own1 s12 own2 s2(2) listed_own_row [OF ok1, of env _ w2 self]
      by (auto simp: selfCheck_write_def keeps_def Let_def split: sum.splits option.splits if_splits)
  qed
qed

lemma keeps_trans: "keeps a w b w1 \<Longrightarrow> keeps b w1 c w2 \<Longrightarrow> keeps a w c w2"
  by (auto simp: keeps_def intro: world_step_trans)

lemma selfCheck_ok:
  assumes "world_ok w" and own: "own_row w self"
    and r: "selfCheck env ct probeAt self cur n w = (self', v, alive, ok', n', w')"
  shows "keeps self w self' w'"
proof -
  obtain ok n1 where cp: "checkProbeInterval probeAt n = (ok, n1)" by fastforce
  obtain res w1 where l: "listMembersForCheck env (ct_listWait ct) w = (res, w1)" by fastforce
  note s1 = listForCheck_ok [OF assms(1) l]
  note ok1 = world_stepD(1) [OF s1(1)] and own1 = own_row_step [OF s1(1) own]
  have base: "keeps self w self w1" using s1(1) own1 by (simp add: keeps_def)
  have wok: "keeps self w self' w'"
    if "selfCheck_write env ct k up self c m w1 = (self', v, alive, ok', n', w')"
      "keyForMember up = keyForMember self" "m_ETag up = m_ETag self" "m_Status up = m_Status self" for k up c m
    using keeps_trans [OF base selfCheck_write_ok [OF ok1 own1 that(2-4,1)]] .
  show ?thesis
  proof (cases res)
    case (Inl e)
    then have "selfCheck_write env ct False (self\<lparr>m_IamAliveAt := ct_aliveAt ct\<rparr>) self cur n1 w1 =
        (self', v, alive, ok', n', w')" using r cp l by (simp add: selfCheck_def)
    from wok [OF this] show ?thesis by simp
  next
    case (Inr snap)
    note r' = r [unfolded selfCheck_def cp l Inr, simplified Let_def, simplified]
    show ?thesis
    proof (cases "too_slow (nd_cfg n1) (ct_listStarted ct) (ct_listDone ct)")
      case True
      then have "selfCheck_write env ct False (self\<lparr>m_IamAliveAt := ct_aliveAt ct,
          m_SuspectVotes := activeSuspectVotes (m_SuspectVotes self) (ms_TableNow snap)\<rparr>) self cur n1 w1 =
          (self', v, alive, ok', n', w')" using r' by simp
      from wok [OF this] show ?thesis by simp
    next
      case False
      show ?thesis
      proof (cases "\<exists>i. memberIndex (ms_Members snap) self = Some i \<and> m_Status (ms_Members snap ! i) \<noteq> MemberDead")
        case dead: False
        then show ?thesis using r' False base by (auto split: option.splits if_splits)
      next
        case True
        then obtain i where i: "memberIndex (ms_Members snap) self = Some i"
          "m_Status (ms_Members snap ! i) \<noteq> MemberDead" by blast
        have me: "keeps self w (ms_Members snap ! i) w1"
          using listed_own_row [OF assms(1) s1(2) [OF Inr] i] s1(1) by (simp add: keeps_def)
        let ?me = "ms_Members snap ! i"
        have sc: "selfCheck_write env ct ok (?me\<lparr>m_IamAliveAt := ct_aliveAt ct,
            m_SuspectVotes := activeSuspectVotes (m_SuspectVotes ?me) (ms_TableNow snap)\<rparr>) ?me
            (NewView (ms_Members snap)) n1 w1 = (self', v, alive, ok', n', w')"
          using r' False i by simp
        have "own_row w1 ?me" using me by (simp add: keeps_def)
        from selfCheck_write_ok [OF ok1 this _ _ _ sc] have "keeps ?me w1 self' w'" by simp
        with me show ?thesis by (rule keeps_trans)
      qed
    qed
  qed
qed

lemma handleProbeEvent_ok:
  assumes "world_ok w" and "handleProbeEvent fuel env event tasks self n w = Some (tasks', n', w')"
  shows "world_step w w'"
  using assms updateSuspectVote_ok [OF assms(1)]
  by (auto simp: handleProbeEvent_def Let_def split: if_splits prod.splits)

definition node_inv :: "node_run \<Rightarrow> bool" where
  "node_inv r \<longleftrightarrow> world_ok (nr_world r) \<and> own_row (nr_world r) (nr_self r)"

lemma run_exit_inv [simp]: "node_inv (run_exit d r) = node_inv r"
  by (simp add: node_inv_def run_exit_def)

lemma node_inv_upd [simp]:
  "node_inv (r\<lparr>nr_node := n\<rparr>) = node_inv r" "node_inv (r\<lparr>nr_view := v\<rparr>) = node_inv r"
  "node_inv (r\<lparr>nr_tasks := t\<rparr>) = node_inv r" "node_inv (r\<lparr>nr_nextToken := k\<rparr>) = node_inv r"
  by (simp_all add: node_inv_def)

lemma keeps_inv: "keeps (nr_self r) (nr_world r) self w \<Longrightarrow> node_inv (r\<lparr>nr_world := w, nr_self := self\<rparr>)"
  by (simp add: node_inv_def keeps_def world_step_def)

lemma world_step_inv: "node_inv r \<Longrightarrow> world_step (nr_world r) w \<Longrightarrow> node_inv (r\<lparr>nr_world := w\<rparr>)"
  by (simp add: node_inv_def world_step_def own_row_def)

lemma keeps_world_step: "keeps a w b w' \<Longrightarrow> world_step w w'"
  by (simp add: keeps_def)

lemma node_step_inv:
  assumes inv: "node_inv r" and step: "node_step fuel env ev r = Some r'"
  shows "node_inv r'"
proof (cases "nr_exited r")
  case True
  then show ?thesis using assms by (simp add: node_step_def)
next
  case False
  have w: "world_ok (nr_world r)" "own_row (nr_world r) (nr_self r)" using inv by (simp_all add: node_inv_def)
  show ?thesis
  proof (cases ev)
    case (EvHeartbeat now)
    obtain s' a n' w' where h: "heartbeat env now (nr_self r) (nr_node r) (nr_world r) = (s', a, n', w')"
      by (metis prod_cases4)
    note k = heartbeat_ok [OF w h]
    show ?thesis
      using step False EvHeartbeat h keeps_inv [OF k] world_step_inv [OF inv keeps_world_step [OF k]]
      by (auto simp: node_step_def Let_def node_inv_def run_exit_def split: if_splits)
  next
    case EvViewTick
    obtain v a n' w' where h: "pollView env (nr_self r) (nr_view r) (nr_node r) (nr_world r) = (v, a, n', w')"
      by (metis prod_cases4)
    note k = world_step_inv [OF inv pollView_ok [OF w(1) h]]
    show ?thesis
      using step False EvViewTick h k
      by (auto simp: node_step_def Let_def node_inv_def run_exit_def split: if_splits prod.splits)
  next
    case (EvProbeTick at ct)
    obtain s' v a ok n' w' where h: "selfCheck env ct at (nr_self r) (nr_view r) (nr_node r) (nr_world r) =
        (s', v, a, ok, n', w')" by (metis prod_cases6)
    note k = keeps_inv [OF selfCheck_ok [OF w h]]
    show ?thesis
      using step False EvProbeTick h k
      by (auto simp: node_step_def Let_def node_inv_def run_exit_def split: if_splits prod.splits)
  next
    case (EvProbe e)
    then show ?thesis
      using step False handleProbeEvent_ok [OF w(1)] world_step_inv [OF inv]
      by (auto simp: node_step_def Let_def node_inv_def run_exit_def)
  next
    case EvCtxDone
    obtain n' w' where h: "leave env (nr_self r) (nr_node r) (nr_world r) = (n', w')" by fastforce
    show ?thesis
      using step False EvCtxDone h world_step_inv [OF inv leave_ok [OF w h]]
      by (auto simp: node_step_def Let_def node_inv_def run_exit_def)
  qed
qed

lemma node_run_inv: "node_inv r \<Longrightarrow> node_run_events fuel env evs r = Some r' \<Longrightarrow> node_inv r'"
  by (induction evs arbitrary: r) (auto split: option.splits dest: node_step_inv)

lemma join_ok:
  assumes "world_ok w" and "join env now1 now2 c w = (Inr (self, ms), w')"
  shows "world_ok w' \<and> own_row w' self \<and> m_Status self = MemberActive"
proof -
  let ?new = "zero_member\<lparr>m_NodeAddr := cf_NodeAddr c, m_Generation := cf_Generation c,
    m_Status := MemberJoining, m_IamAliveAt := now1\<rparr>"
  obtain res1 w1 where w1: "table_WriteMember env w ?new = (res1, w1)" by fastforce
  have "writable w ?new" by (simp add: writable_def zero_member_def)
  note s1 = world_stepD(1) [OF write_step(1) [OF assms(1) this w1]]
  obtain res2 w2 where w2: "table_ListMembers env w1 = (res2, w2)" by fastforce
  note s2 = world_stepD(1) [OF list_step(1) [OF s1 w2]]
  obtain snap i etag where x: "res2 = Inr snap" "memberIndex (ms_Members snap) ?new = Some i"
    "m_Status (ms_Members snap ! i) = MemberJoining"
    "table_WriteMember env w2 ((ms_Members snap ! i)\<lparr>m_Status := MemberActive, m_IamAliveAt := now2\<rparr>) = (Inr etag, w')"
    "self = (ms_Members snap ! i)\<lparr>m_Status := MemberActive, m_IamAliveAt := now2, m_ETag := etag\<rparr>"
    using assms(2) w1 w2
    by (auto simp: join_def Let_def split: sum.splits option.splits if_splits prod.splits)
  have own: "own_row w2 (ms_Members snap ! i)"
    using listed_own_row [OF s1 w2 [unfolded x(1)] x(2)] x(3) by simp
  have "writable w2 ((ms_Members snap ! i)\<lparr>m_Status := MemberActive, m_IamAliveAt := now2\<rparr>)"
    by (rule own_row_writable [OF own]) simp_all
  from write_step(1) [OF s2 this x(4)] written_own_row [OF s2 own _ _ _ x(4)] x(5)
  show ?thesis by (simp add: world_step_def)
qed

lemma Node_New_inv:
  assumes "world_ok w" and "Node_New env now1 now2 c w = (Inr r, w')"
  shows "node_inv r \<and> \<not> nr_exited r \<and> nd_state (nr_node r) = StateActive"
  using assms(2) join_ok [OF assms(1)]
  by (auto simp: Node_New_def node_inv_def notify_def Let_def split: sum.splits prod.splits)

section \<open>The life of the loop\<close>

definition same_channels :: "node \<Rightarrow> node \<Rightarrow> bool \<Rightarrow> bool" where
  "same_channels n n' alive \<longleftrightarrow> nd_done n' = nd_done n \<and> nd_declaredDead n' = nd_declaredDead n \<and>
     (\<not> alive \<longrightarrow> nd_state n' = StateDead)"

lemma heartbeat_life: "heartbeat env now s n w = (s', a, n', w') \<Longrightarrow> same_channels n n' a"
  by (auto simp: heartbeat_def same_channels_def Let_def split: prod.splits sum.splits option.splits if_splits)

lemma pollView_life: "pollView env s v n w = (v', a, n', w') \<Longrightarrow> same_channels n n' a"
  by (auto simp: pollView_def same_channels_def Let_def split: prod.splits sum.splits option.splits if_splits)

lemma selfCheck_write_life:
  "selfCheck_write env ct k up s v n w = (s', v', a, ok, n', w') \<Longrightarrow> same_channels n n' a"
  by (auto simp: selfCheck_write_def same_channels_def Let_def split: prod.splits sum.splits option.splits if_splits)

lemma selfCheck_life: "selfCheck env ct at s v n w = (s', v', a, ok, n', w') \<Longrightarrow> same_channels n n' a"
  by (auto simp: selfCheck_def checkProbeInterval_def same_channels_def Let_def
      split: prod.splits sum.splits option.splits if_splits
      dest!: selfCheck_write_life [unfolded same_channels_def])

lemma handleProbeEvent_life:
  "handleProbeEvent fuel env event tasks self n w = Some (tasks', n', w') \<Longrightarrow> same_channels n n' True"
  by (auto simp: handleProbeEvent_def same_channels_def Let_def split: if_splits prod.splits)

lemma updateHealth_life: "same_channels n (updateHealth ok n) True"
  by (simp add: updateHealth_def same_channels_def Let_def)

definition node_life :: "node_run \<Rightarrow> bool" where
  "node_life r \<longleftrightarrow> (if nr_exited r then nd_state (nr_node r) = StateDead \<and> nd_done (nr_node r)
     else \<not> nd_done (nr_node r) \<and> \<not> nd_declaredDead (nr_node r))"

lemma leave_dead: "leave env s n w = (n', w') \<Longrightarrow> nd_state n' = StateDead"
  by (auto simp: leave_def split: if_splits prod.splits)

lemma node_step_life:
  assumes "node_life r" and "node_step fuel env ev r = Some r'"
  shows "node_life r'"
proof (cases "nr_exited r")
  case True
  then show ?thesis using assms by (simp add: node_step_def)
next
  case False
  then have live: "\<not> nd_done (nr_node r)" "\<not> nd_declaredDead (nr_node r)" using assms(1) by (simp_all add: node_life_def)
  show ?thesis
  proof (cases ev)
    case (EvHeartbeat now)
    with assms(2) False live show ?thesis
      by (auto simp: node_step_def Let_def node_life_def run_exit_def same_channels_def
          split: prod.splits if_splits dest!: heartbeat_life)
  next
    case EvViewTick
    with assms(2) False live show ?thesis
      by (auto simp: node_step_def Let_def node_life_def run_exit_def same_channels_def notify_def
          split: prod.splits if_splits dest!: pollView_life)
  next
    case (EvProbeTick at ct)
    with assms(2) False live show ?thesis
      using updateHealth_life
      by (auto simp: node_step_def Let_def node_life_def run_exit_def same_channels_def notify_def
          split: prod.splits if_splits dest!: selfCheck_life)
  next
    case (EvProbe e)
    with assms(2) False live show ?thesis
      by (auto simp: node_step_def Let_def node_life_def same_channels_def dest!: handleProbeEvent_life)
  next
    case EvCtxDone
    with assms(2) False live show ?thesis
      by (auto simp: node_step_def Let_def node_life_def run_exit_def split: prod.splits dest: leave_dead)
  qed
qed

lemma node_run_life: "node_life r \<Longrightarrow> node_run_events fuel env evs r = Some r' \<Longrightarrow> node_life r'"
  by (induction evs arbitrary: r) (auto split: option.splits dest: node_step_life)

lemma Node_New_life: "Node_New env now1 now2 c w = (Inr r, w') \<Longrightarrow> node_life r"
  by (auto simp: Node_New_def node_life_def new_node_def notify_def Let_def split: sum.splits prod.splits)

section \<open>Properties\<close>

text \<open>
  C3. Dead stays dead: from joining to leaving, through any sequence of heartbeats, self checks,
  votes and view polls, with any interleaved writes of other nodes and any failures, no write of
  this node ever replaces a row that is marked dead. (The version counter of 63 bits is assumed
  not exhausted.)
\<close>

theorem node_never_overwrites_dead:
  assumes "world_ok w" and "Node_New env now1 now2 c w = (Inr r, w1)"
    and "node_run_events fuel env evs r = Some r'" and "in_range (nr_world r')"
  shows "\<forall>(s, row) \<in> set (wd_trace (nr_world r')).
    row_tag s (keyForMember row) = m_ETag row \<longrightarrow> \<not> row_dead s (keyForMember row)"
proof -
  have "node_inv r'" using Node_New_inv [OF assms(1,2)] node_run_inv assms(3) by blast
  then show ?thesis using assms(4) by (simp add: node_inv_def world_ok_def trace_safe_def)
qed

definition demo_config :: config where
  "demo_config = \<lparr>cf_hasProber = True, cf_NodeAddr = ''a'', cf_Generation = ''g'',
     cf_HeartbeatInterval = 1, cf_ViewInterval = 1, cf_ProbeInterval = 0, cf_ProbeTimeout = 0,
     cf_ProbeFailures = 0, cf_VoteTTL = 0, cf_MaxTickGap = 0, cf_MaxTableLatency = 0\<rparr>"

lemma demo_node_new:
  "\<exists>r w1. Node_New calm_env 1 2 demo_config empty_world = (Inr r, w1) \<and>
    node_run_events 1 calm_env [] r = Some r \<and> in_range (nr_world r) \<and> length (wd_trace (nr_world r)) = 2"
  by (simp add: Node_New_def node_config_def demo_config_def join_def table_WriteMember_def
      table_ListMembers_def others_step_def table_applied_def calm_env_def empty_world_def
      Memory_WriteMember_def Memory_ListMembers_def NewMemory_def gm_get_or_def zero_member_def
      keyForMember_def sortMembers_def sameMember_def in_range_def max_int64_def Let_def)

theorem node_never_overwrites_dead_witness:
  "\<exists>r w1. Node_New calm_env 1 2 demo_config empty_world = (Inr r, w1) \<and>
    (\<forall>(s, row) \<in> set (wd_trace (nr_world r)).
      row_tag s (keyForMember row) = m_ETag row \<longrightarrow> \<not> row_dead s (keyForMember row))"
proof -
  obtain r w1 where r: "Node_New calm_env 1 2 demo_config empty_world = (Inr r, w1)"
    "node_run_events 1 calm_env [] r = Some r" "in_range (nr_world r)" using demo_node_new by blast
  from node_never_overwrites_dead [OF empty_world_ok(1) r] r(1) show ?thesis by blast
qed

text \<open>
  Health hysteresis: after a failed self check the node is unhealthy, and it takes three
  successful checks in a row before it counts as healthy again.
\<close>

theorem updateHealth_recovery:
  "nd_health (foldl (\<lambda>n ok. updateHealth ok n) n (earlier @ [False] @ replicate k True)) =
    (if k < 3 then unhealthy else healthy)"
proof -
  define n0 where "n0 = foldl (\<lambda>n ok. updateHealth ok n) n (earlier @ [False])"
  have z: "nd_health n0 = unhealthy" "nd_healthyTicks n0 = 0" by (simp_all add: n0_def updateHealth_def)
  have keep: "nd_health m = healthy \<Longrightarrow> nd_health (foldl (\<lambda>n ok. updateHealth ok n) m (replicate j True)) = healthy" for m j
    by (induction j arbitrary: m) (simp_all add: updateHealth_def)
  have low: "nd_health (updateHealth True n0) = unhealthy" "nd_healthyTicks (updateHealth True n0) = 1"
    using z by (simp_all add: updateHealth_def wrap64_def)
  then have mid: "nd_health (updateHealth True (updateHealth True n0)) = unhealthy"
    "nd_healthyTicks (updateHealth True (updateHealth True n0)) = 2"
    by (simp_all add: updateHealth_def wrap64_def)
  then have high: "nd_health (updateHealth True (updateHealth True (updateHealth True n0))) = healthy"
    by (simp add: updateHealth_def wrap64_def)
  consider "k = 0" | "k = 1" | "k = 2" | j where "k = 3 + j" by (metis One_nat_def add.commute less_2_cases less_Suc_eq not_less_eq numeral_2_eq_2 numeral_3_eq_3 nat_le_iff_add not_less)
  then have "nd_health (foldl (\<lambda>n ok. updateHealth ok n) n0 (replicate k True)) = (if k < 3 then unhealthy else healthy)"
    using z low mid keep [OF high] by cases (simp_all add: numeral_2_eq_2 numeral_3_eq_3 del: updateHealth_def)
  then show ?thesis by (simp add: n0_def)
qed

text \<open>
  An unhealthy node accuses nobody: while the self check says it is unhealthy, handling a probe
  result writes nothing but retractions of its own vote: every row it writes stays active and no
  longer carries its vote, and its failure counters are cleared.
\<close>

theorem unhealthy_never_accuses:
  assumes "world_ok w" and "nd_health n = unhealthy"
    and "gm_get tasks (pe_target event) = Some (pe_token event)"
    and "handleProbeEvent fuel env event tasks self n w = Some (tasks', n', w')"
  shows "nd_probeFailures n' = [] \<and>
    (\<exists>tr. wd_trace w' = wd_trace w @ tr \<and>
      (\<forall>(s, row) \<in> set tr. keyForMember row = pe_target event \<and> m_Status row = MemberActive \<and>
         gm_get (m_SuspectVotes row) self = None))"
proof -
  have "nd_probeFailures n' = [] \<and>
      (w' = w \<or> updateSuspectVote fuel env (cf_VoteTTL (nd_cfg n)) (pe_target event) self False w = Some w')"
    using assms(2-4) by (auto simp: handleProbeEvent_def Let_def split: prod.splits if_splits)
  moreover have "trace_adds (vote_write (pe_target event) self False) w w'"
    using calculation updateSuspectVote_ok [OF assms(1)] by auto
  ultimately show ?thesis unfolding trace_adds_def vote_write_def by fastforce
qed

theorem unhealthy_never_accuses_witness:
  "\<exists>n' w'. handleProbeEvent 1 calm_env
      \<lparr>pe_target = MemberID ''b'' ''g'', pe_token = 1, pe_result = waitForProbe ProbeTimer\<rparr>
      [(MemberID ''b'' ''g'', 1)] (MemberID ''a'' ''g'') ((new_node demo_config)\<lparr>nd_health := unhealthy\<rparr>)
      empty_world = Some ([], n', w') \<and> nd_probeFailures n' = []"
proof -
  let ?e = "\<lparr>pe_target = MemberID ''b'' ''g'', pe_token = 1, pe_result = waitForProbe ProbeTimer\<rparr>"
  let ?n = "(new_node demo_config)\<lparr>nd_health := unhealthy\<rparr>"
  obtain n' w' where h: "handleProbeEvent 1 calm_env ?e [(MemberID ''b'' ''g'', 1)] (MemberID ''a'' ''g'') ?n
      empty_world = Some ([], n', w')"
    by (simp add: handleProbeEvent_def recordProbeEvent_def Let_def)
  from unhealthy_never_accuses [OF empty_world_ok(1) _ _ h] h show ?thesis by simp
qed

text \<open>
  A node that has stopped is dead to itself and to probes: once its loop has exited, by a
  voluntary stop or by a verdict of the cluster, its state is dead, \<open>Done\<close> is closed, it refuses
  probes, and no later event writes to the table. \<open>DeclaredDead\<close> is closed only on the way out.
\<close>

theorem stopped_node_is_dead:
  assumes "world_ok w" and "Node_New env now1 now2 c w = (Inr r, w1)"
    and "node_run_events fuel env evs r = Some r'"
  shows "if nr_exited r'
    then nd_state (nr_node r') = StateDead \<and> nd_done (nr_node r') \<and> Node_Probe (nr_node r') = None \<and>
      node_step fuel env ev r' = Some r'
    else \<not> nd_done (nr_node r') \<and> \<not> nd_declaredDead (nr_node r')"
proof -
  have "node_life r'"
    using node_run_life [OF _ assms(3)] Node_New_inv [OF assms(1,2)] Node_New_life [OF assms(2)] by blast
  then show ?thesis by (auto simp: node_life_def Node_Probe_def node_step_def)
qed

theorem stopped_node_is_dead_witness:
  "\<exists>r w1. Node_New calm_env 1 2 demo_config empty_world = (Inr r, w1) \<and>
    (\<not> nr_exited r \<longrightarrow> \<not> nd_done (nr_node r) \<and> \<not> nd_declaredDead (nr_node r))"
proof -
  obtain r w1 where r: "Node_New calm_env 1 2 demo_config empty_world = (Inr r, w1)"
    "node_run_events 1 calm_env [] r = Some r" using demo_node_new by blast
  from stopped_node_is_dead [OF empty_world_ok(1) r] r(1) show ?thesis by auto
qed

end
