(* ===== verification/Gor_Engine.thy ===== *)
theory Gor_Engine
  imports Gor_Mail
begin

text \<open>
  The local engine, \<open>runtime/occupied.go\<close> and \<open>runtime/runtime.go\<close>: call-cycle detection, and the life
  of activations under the engine's mutex. Activations live in a heap and are named by their address;
  the map \<open>activations\<close> points into it. Each critical section of the code is one operation; what runs
  outside the mutex (closing a mailbox, the mailbox becoming done, the phases of the goroutine
  \<open>waitForDeactivation\<close>) is a separate step, so that every interleaving is covered. Closing a closed
  channel panics in Go: it sets \<open>e_panicked\<close>.
\<close>

section \<open>Call cycles\<close>

type_synonym chain = "grain_id list"

definition withOccupied :: "chain \<Rightarrow> grain_id \<Rightarrow> chain" where
  "withOccupied chain i = chain @ [i]"

fun first_index :: "grain_id \<Rightarrow> nat \<Rightarrow> chain \<Rightarrow> nat option" where
  "first_index i n [] = None"
| "first_index i n (x # xs) = (if x = i then Some n else first_index i (Suc n) xs)"

definition grain_text :: "grain_id \<Rightarrow> string" where
  "grain_text i = GrainType i @ ''/'' @ GrainKey i"

fun cycle_text :: "chain \<Rightarrow> string" where
  "cycle_text [] = []"
| "cycle_text [i] = grain_text i"
| "cycle_text (i # is) = grain_text i @ '' -> '' @ cycle_text is"

definition checkCycle :: "chain \<Rightarrow> grain_id \<Rightarrow> go_error option" where
  "checkCycle chain i =
     (case first_index i 0 chain of
        None \<Rightarrow> None
      | Some start \<Rightarrow>
          (let message = cycle_text (drop start chain) @ '' -> '' @ grain_text i
           in Some (Wrap (sentinel_text RtErrCallCycle @ '': '' @ message) (Sentinel RtErrCallCycle))))"

text \<open>A chain of nested calls: each call checks the chain it arrives with and extends it.\<close>

fun nested_calls :: "chain \<Rightarrow> grain_id list \<Rightarrow> go_error + chain" where
  "nested_calls chain [] = Inr chain"
| "nested_calls chain (i # is) =
     (case checkCycle chain i of Some e \<Rightarrow> Inl e | None \<Rightarrow> nested_calls (withOccupied chain i) is)"

section \<open>State\<close>

datatype deactivation_reason = Idle | OwnershipLost | RuntimeClosed | Faulted

datatype activation_state = ActivationActivating | ActivationActive | ActivationDeactivating | ActivationStopped

datatype engine_state = engineRunning | engineClosing | engineKilling

text \<open>\<open>a_hook\<close> records the calls of the deactivation hook with the reason each was given.\<close>

record activation =
  a_id :: grain_id
  a_hasHook :: bool
  a_skipOnDeactivate :: bool
  a_reason :: "deactivation_reason option"
  a_lastUsed :: gtime
  a_calls :: int
  a_state :: activation_state
  a_done :: bool
  a_mailClosed :: bool
  a_mailDone :: bool
  a_hook :: "deactivation_reason list"

type_synonym addr = nat

text \<open>Where the goroutine \<open>waitForDeactivation\<close> of an activation is.\<close>

datatype waiter = WaitMail | RunHook "deactivation_reason option" | Finish | Report

record engine =
  e_idleTimeout :: duration
  e_state :: engine_state
  e_registrations :: "(string, bool) gomap"
  e_heap :: "activation list"
  e_activations :: "(grain_id, addr) gomap"
  e_pending :: "grain_id list"
  e_stop :: bool
  e_killing :: bool
  e_evictionDone :: bool
  e_done :: bool
  e_pendingDeactivations :: int
  e_deactivationsDone :: "bool option"
  e_waiters :: "(addr, waiter) gomap"
  e_panicked :: bool

definition Engine_New :: "duration \<Rightarrow> duration \<Rightarrow> engine" where
  "Engine_New idleTimeout evictionInterval =
     \<lparr>e_idleTimeout = idleTimeout, e_state = engineRunning, e_registrations = [], e_heap = [],
      e_activations = [], e_pending = [], e_stop = False, e_killing = False,
      e_evictionDone = \<not> (0 < idleTimeout \<and> 0 < evictionInterval), e_done = False,
      e_pendingDeactivations = 0, e_deactivationsDone = None, e_waiters = [], e_panicked = False\<rparr>"

definition upd_act :: "addr \<Rightarrow> (activation \<Rightarrow> activation) \<Rightarrow> engine \<Rightarrow> engine" where
  "upd_act a f e = e\<lparr>e_heap := (e_heap e)[a := f (e_heap e ! a)]\<rparr>"

text \<open>Closing the channel a field holds; \<open>None\<close> is the nil channel.\<close>

definition close_deactivationsDone :: "engine \<Rightarrow> engine" where
  "close_deactivationsDone e =
     (if e_deactivationsDone e = Some False then e\<lparr>e_deactivationsDone := Some True\<rparr>
      else e\<lparr>e_panicked := True\<rparr>)"

definition close_stop :: "engine \<Rightarrow> engine" where
  "close_stop e = (if e_stop e then e\<lparr>e_panicked := True\<rparr> else e\<lparr>e_stop := True\<rparr>)"

definition close_killing :: "engine \<Rightarrow> engine" where
  "close_killing e = (if e_killing e then e\<lparr>e_panicked := True\<rparr> else e\<lparr>e_killing := True\<rparr>)"

definition close_act_done :: "addr \<Rightarrow> engine \<Rightarrow> engine" where
  "close_act_done a e =
     (if a_done (e_heap e ! a) then e\<lparr>e_panicked := True\<rparr> else upd_act a (\<lambda>t. t\<lparr>a_done := True\<rparr>) e)"

section \<open>Registration and lookup\<close>

definition Engine_Register :: "string \<Rightarrow> bool \<Rightarrow> engine \<Rightarrow> go_error option \<times> engine" where
  "Engine_Register name hasHook e =
     (if gm_get (e_registrations e) name \<noteq> None
      then (Some (NewErr (''entity type '' @ go_quote name @ '' is already registered'')), e)
      else (None, e\<lparr>e_registrations := gm_put name hasHook (e_registrations e)\<rparr>))"

definition Engine_registration :: "string \<Rightarrow> engine \<Rightarrow> bool result" where
  "Engine_registration name e =
     (if e_state e \<noteq> engineRunning then Inl (Sentinel RtErrRuntimeClosed)
      else (case gm_get (e_registrations e) name of
              None \<Rightarrow> Inl (Wrap (sentinel_text RtErrTypeNotRegistered @ '': '' @ name) (Sentinel RtErrTypeNotRegistered))
            | Some r \<Rightarrow> Inr r))"

text \<open>
  One pass of the loop of \<open>activationFor\<close> under the mutex: the activation, an error, a channel to wait
  on (the end of a deactivation or of another caller's activation), or the task to create it.
\<close>

datatype lookup = Found addr | LookupErr go_error | WaitStopped addr | WaitReady grain_id | Create grain_id

definition activationFor :: "grain_id \<Rightarrow> engine \<Rightarrow> lookup \<times> engine" where
  "activationFor i e =
     (if e_state e \<noteq> engineRunning then (LookupErr (Sentinel RtErrRuntimeClosed), e)
      else
        (let create = (\<lambda>e. if i \<in> set (e_pending e) then (WaitReady i, e)
                           else (Create i, e\<lparr>e_pending := i # e_pending e\<rparr>))
         in case gm_get (e_activations e) i of
              None \<Rightarrow> create e
            | Some a \<Rightarrow>
                (case a_state (e_heap e ! a) of
                   ActivationActive \<Rightarrow> (Found a, e)
                 | ActivationDeactivating \<Rightarrow> (WaitStopped a, e)
                 | ActivationStopped \<Rightarrow> create (e\<lparr>e_activations := gm_del i (e_activations e)\<rparr>)
                 | ActivationActivating \<Rightarrow> create e)))"

text \<open>
  The end of \<open>createActivation\<close>, its deferred function: \<open>res\<close> is the error of \<open>activate\<close> (a factory
  error or the recovered panic), \<open>None\<close> when the factory gave an instance. The activation enters the
  heap when it enters the map; one that is refused because the engine stopped is dropped with its
  mailbox closed.
\<close>

definition new_activation :: "grain_id \<Rightarrow> bool \<Rightarrow> gtime \<Rightarrow> activation" where
  "new_activation i hasHook now = \<lparr>a_id = i, a_hasHook = hasHook, a_skipOnDeactivate = False,
     a_reason = None, a_lastUsed = now, a_calls = 0, a_state = ActivationActive, a_done = False,
     a_mailClosed = False, a_mailDone = False, a_hook = []\<rparr>"

definition panic_error :: "string \<Rightarrow> go_error" where
  "panic_error what = Wrap (sentinel_text RtErrPanic @ '': '' @ what) (Sentinel RtErrPanic)"

definition createActivation ::
    "grain_id \<Rightarrow> bool \<Rightarrow> gtime \<Rightarrow> go_error option \<Rightarrow> engine \<Rightarrow> addr result \<times> engine" where
  "createActivation i hasHook now res e =
     (let e1 = e\<lparr>e_pending := remove1 i (e_pending e)\<rparr>
      in case res of
           Some err \<Rightarrow> (Inl err, e1)
         | None \<Rightarrow>
             if e_state e1 \<noteq> engineRunning then (Inl (Sentinel RtErrRuntimeClosed), e1)
             else (let a = length (e_heap e1)
                   in (Inr a, e1\<lparr>e_heap := e_heap e1 @ [new_activation i hasHook now],
                              e_activations := gm_put i a (e_activations e1)\<rparr>)))"

section \<open>Calls\<close>

definition admit :: "gtime \<Rightarrow> addr \<Rightarrow> engine \<Rightarrow> bool \<times> engine" where
  "admit now a e =
     (if a_state (e_heap e ! a) \<noteq> ActivationActive then (False, e)
      else (True, upd_act a (\<lambda>t. t\<lparr>a_lastUsed := now, a_calls := wrap64 (a_calls t + 1)\<rparr>) e))"

definition callFinished :: "addr \<Rightarrow> engine \<Rightarrow> engine" where
  "callFinished a e = upd_act a (\<lambda>t. t\<lparr>a_calls := wrap64 (a_calls t - 1)\<rparr>) e"

section \<open>Deactivation\<close>

definition beginDeactivation :: "addr \<Rightarrow> deactivation_reason \<Rightarrow> engine \<Rightarrow> bool \<times> engine" where
  "beginDeactivation a reason e =
     (if a_state (e_heap e ! a) \<noteq> ActivationActive then (False, e)
      else (True, upd_act a (\<lambda>t. t\<lparr>a_state := ActivationDeactivating, a_reason := Some reason\<rparr>) e))"

definition startDeactivationWaiterLocked :: "addr \<Rightarrow> engine \<Rightarrow> engine" where
  "startDeactivationWaiterLocked a e = e\<lparr>e_pendingDeactivations := e_pendingDeactivations e + 1,
     e_waiters := gm_put a WaitMail (e_waiters e)\<rparr>"

definition deactivateLocked :: "addr \<Rightarrow> deactivation_reason \<Rightarrow> engine \<Rightarrow> bool \<times> engine" where
  "deactivateLocked a reason e =
     (case beginDeactivation a reason e of
        (False, e1) \<Rightarrow> (False, e1)
      | (True, e1) \<Rightarrow> (True, startDeactivationWaiterLocked a e1))"

definition Engine_Deactivate :: "grain_id \<Rightarrow> engine \<Rightarrow> engine" where
  "Engine_Deactivate i e =
     (case gm_get (e_activations e) i of None \<Rightarrow> e | Some a \<Rightarrow> snd (deactivateLocked a OwnershipLost e))"

definition stopActivation :: "addr \<Rightarrow> engine \<Rightarrow> engine" where
  "stopActivation a e = snd (deactivateLocked a Faulted e)"

definition evictable :: "gtime \<Rightarrow> engine \<Rightarrow> addr \<Rightarrow> bool" where
  "evictable now e a =
     (let t = e_heap e ! a
      in a_state t = ActivationActive \<and> a_calls t = 0 \<and> \<not> now < time_add (a_lastUsed t) (e_idleTimeout e))"

definition evict :: "gtime \<Rightarrow> engine \<Rightarrow> engine" where
  "evict now e =
     (if e_state e \<noteq> engineRunning then e
      else foldl (\<lambda>e a. if evictable now e a then snd (deactivateLocked a Idle e) else e) e
             (map snd (e_activations e)))"

text \<open>The mailbox of an activation that left the active state is closed, and later done.\<close>

definition close_mailbox :: "addr \<Rightarrow> engine \<Rightarrow> engine" where
  "close_mailbox a e = upd_act a (\<lambda>t. t\<lparr>a_mailClosed := True\<rparr>) e"

definition mailbox_done :: "addr \<Rightarrow> engine \<Rightarrow> engine" where
  "mailbox_done a e =
     (if a_mailClosed (e_heap e ! a) then upd_act a (\<lambda>t. t\<lparr>a_mailDone := True\<rparr>) e else e)"

definition finishDeactivation :: "addr \<Rightarrow> engine \<Rightarrow> engine" where
  "finishDeactivation a e =
     (if a_state (e_heap e ! a) \<noteq> ActivationDeactivating then e
      else
        (let e1 = close_act_done a (upd_act a (\<lambda>t. t\<lparr>a_state := ActivationStopped\<rparr>) e);
             i = a_id (e_heap e1 ! a)
         in if gm_get (e_activations e1) i = Some a
            then e1\<lparr>e_activations := gm_del i (e_activations e1)\<rparr> else e1))"

definition deactivationFinished :: "engine \<Rightarrow> engine" where
  "deactivationFinished e =
     (let e1 = e\<lparr>e_pendingDeactivations := e_pendingDeactivations e - 1\<rparr>
      in if e_pendingDeactivations e1 = 0 \<and> e_deactivationsDone e1 \<noteq> None
         then (close_deactivationsDone e1)\<lparr>e_deactivationsDone := None\<rparr> else e1)"

text \<open>
  \<open>waitForDeactivation\<close> in its phases: wait for the mailbox and decide on the hook under the mutex,
  run the hook, finish the activation, report.
\<close>

definition waiter_step :: "addr \<Rightarrow> engine \<Rightarrow> engine" where
  "waiter_step a e =
     (case gm_get (e_waiters e) a of
        None \<Rightarrow> e
      | Some WaitMail \<Rightarrow>
          (let t = e_heap e ! a
           in if \<not> a_mailDone t then e
              else e\<lparr>e_waiters := gm_put a (RunHook (if \<not> a_skipOnDeactivate t \<and> a_hasHook t then a_reason t else None))
                      (e_waiters e)\<rparr>)
      | Some (RunHook r) \<Rightarrow>
          (case r of None \<Rightarrow> e | Some reason \<Rightarrow> upd_act a (\<lambda>t. t\<lparr>a_hook := a_hook t @ [reason]\<rparr>) e)
            \<lparr>e_waiters := gm_put a Finish (e_waiters e)\<rparr>
      | Some Finish \<Rightarrow> (finishDeactivation a e)\<lparr>e_waiters := gm_put a Report (e_waiters e)\<rparr>
      | Some Report \<Rightarrow> (deactivationFinished e)\<lparr>e_waiters := gm_del a (e_waiters e)\<rparr>)"

section \<open>Stopping\<close>

definition beginStopDeactivationsLocked :: "bool \<Rightarrow> engine \<Rightarrow> engine" where
  "beginStopDeactivationsLocked skip e =
     (let e1 = foldl (\<lambda>e a.
            (let e' = (if skip then upd_act a (\<lambda>t. t\<lparr>a_skipOnDeactivate := True\<rparr>) e else e)
             in case beginDeactivation a RuntimeClosed e' of
                  (True, e'') \<Rightarrow> startDeactivationWaiterLocked a e''
                | (False, e'') \<Rightarrow> e'')) e (map snd (e_activations e));
          e2 = e1\<lparr>e_deactivationsDone := Some False\<rparr>
      in if e_pendingDeactivations e2 = 0 then close_deactivationsDone e2 else e2)"

definition markSkipOnDeactivateLocked :: "engine \<Rightarrow> engine" where
  "markSkipOnDeactivateLocked e =
     foldl (\<lambda>e a. upd_act a (\<lambda>t. t\<lparr>a_skipOnDeactivate := True\<rparr>) e) e (map snd (e_activations e))"

definition Engine_BeginClose :: "engine \<Rightarrow> engine" where
  "Engine_BeginClose e =
     (if e_state e \<noteq> engineRunning then e
      else beginStopDeactivationsLocked False (close_stop (e\<lparr>e_state := engineClosing\<rparr>)))"

definition Engine_BeginKill :: "engine \<Rightarrow> engine" where
  "Engine_BeginKill e =
     (case e_state e of
        engineRunning \<Rightarrow>
          beginStopDeactivationsLocked True (close_killing (close_stop (e\<lparr>e_state := engineKilling\<rparr>)))
      | engineClosing \<Rightarrow> markSkipOnDeactivateLocked (close_killing (e\<lparr>e_state := engineKilling\<rparr>))
      | engineKilling \<Rightarrow> e)"

text \<open>The eviction loop leaves when \<open>stop\<close> is closed.\<close>

definition evictLoop_exit :: "engine \<Rightarrow> engine" where
  "evictLoop_exit e = (if e_stop e then e\<lparr>e_evictionDone := True\<rparr> else e)"

text \<open>
  \<open>drain\<close>, started by the stop: it ends once the eviction loop is gone and the deactivations are
  reported (the channel closed, or already nil) or the engine is killing.
\<close>

definition drain_step :: "engine \<Rightarrow> engine" where
  "drain_step e =
     (if e_stop e \<and> e_evictionDone e \<and>
         (e_deactivationsDone e = None \<or> e_deactivationsDone e = Some True \<or> e_killing e)
      then e\<lparr>e_done := True\<rparr> else e)"

section \<open>Reports\<close>

definition GrainIds :: "engine \<Rightarrow> grain_id list" where
  "GrainIds e = map fst (e_activations e)"

text \<open>\<open>Activations\<close>; \<open>queued a\<close> is the length of the mailbox of \<open>a\<close>.\<close>

definition Activations :: "(addr \<Rightarrow> nat) \<Rightarrow> engine \<Rightarrow> (grain_id \<times> nat) list" where
  "Activations queued e = sort_key fst
     (map (\<lambda>(i, a). (a_id (e_heap e ! a), queued a))
       (filter (\<lambda>(i, a). a_state (e_heap e ! a) = ActivationActive) (e_activations e)))"

section \<open>Dispatch and Invoke\<close>

datatype dispatch_outcome = Returned "go_error option" | Panicked string

definition dispatch :: "dispatch_outcome \<Rightarrow> addr \<Rightarrow> engine \<Rightarrow> go_error option \<times> engine" where
  "dispatch outcome a e =
     (case outcome of
        Panicked v \<Rightarrow> (Some (panic_error (''entity method panicked: '' @ v)), stopActivation a e)
      | Returned None \<Rightarrow> (None, e)
      | Returned (Some err) \<Rightarrow>
          (case errors_As_discard err of
             Some inner \<Rightarrow> (inner, stopActivation a e)
           | None \<Rightarrow> (Some err, e)))"

text \<open>
  What \<open>mailbox.Call\<close> did with an admitted call: refused it, returned when the context ended, or ran
  the function, whose deferred \<open>callFinished\<close> comes after the dispatch.
\<close>

datatype mail_outcome = Refused go_error | CallerGone go_error | RanTo dispatch_outcome

definition Invoke_tail :: "mail_outcome \<Rightarrow> addr \<Rightarrow> engine \<Rightarrow> go_error option \<times> engine" where
  "Invoke_tail out a e =
     (case (case out of
              Refused err \<Rightarrow> (Some err, e)
            | CallerGone err \<Rightarrow> (Some err, e)
            | RanTo d \<Rightarrow> (case dispatch d a e of (err, e1) \<Rightarrow> (err, callFinished a e1))) of
        (err, e1) \<Rightarrow>
          (case err of
             None \<Rightarrow> (None, e1)
           | Some x \<Rightarrow>
               if errors_Is x (TSentinel MailErrOverloaded) \<or> errors_Is x (TSentinel MailErrClosed)
               then (Some x, callFinished a e1) else (Some x, e1)))"

section \<open>The step relation\<close>

text \<open>
  Every interleaving of the critical sections: any caller, the eviction loop, the deactivation
  waiters, the mailboxes, and the stops. A mailbox is only closed once its activation left the
  active state.
\<close>

inductive engine_step :: "engine \<Rightarrow> engine \<Rightarrow> bool" where
  register: "engine_step e (snd (Engine_Register name hook e))"
| look_up: "engine_step e (snd (activationFor i e))"
| create: "i \<in> set (e_pending e) \<Longrightarrow> engine_step e (snd (createActivation i hook now res e))"
| admit_call: "a < length (e_heap e) \<Longrightarrow> engine_step e (snd (admit now a e))"
| call_done: "a < length (e_heap e) \<Longrightarrow> engine_step e (callFinished a e)"
| deactivate: "engine_step e (Engine_Deactivate i e)"
| stop_one: "a < length (e_heap e) \<Longrightarrow> engine_step e (stopActivation a e)"
| evict_tick: "engine_step e (evict now e)"
| close_box: "a < length (e_heap e) \<Longrightarrow> a_state (e_heap e ! a) \<noteq> ActivationActive \<Longrightarrow> engine_step e (close_mailbox a e)"
| box_done: "a < length (e_heap e) \<Longrightarrow> engine_step e (mailbox_done a e)"
| waiter: "engine_step e (waiter_step a e)"
| begin_close: "engine_step e (Engine_BeginClose e)"
| begin_kill: "engine_step e (Engine_BeginKill e)"
| evict_exit: "engine_step e (evictLoop_exit e)"
| drain: "engine_step e (drain_step e)"

inductive engine_reach :: "duration \<Rightarrow> duration \<Rightarrow> engine \<Rightarrow> bool" for idle interval where
  start: "engine_reach idle interval (Engine_New idle interval)"
| step: "engine_reach idle interval e \<Longrightarrow> engine_step e e' \<Longrightarrow> engine_reach idle interval e'"

section \<open>The invariant\<close>

text \<open>One slot of the heap: \<open>mapped\<close> says that the map points to it, \<open>w\<close> is its waiter.\<close>

definition hook_ok :: "activation \<Rightarrow> bool" where
  "hook_ok t \<longleftrightarrow> length (a_hook t) \<le> 1 \<and> (\<forall>r \<in> set (a_hook t). a_reason t = Some r)"

definition slot_ok :: "bool \<Rightarrow> waiter option \<Rightarrow> activation \<Rightarrow> bool" where
  "slot_ok mapped w t \<longleftrightarrow>
     (case a_state t of
        ActivationActivating \<Rightarrow> False
      | ActivationActive \<Rightarrow> mapped \<and> w = None \<and> a_reason t = None \<and> a_hook t = [] \<and> \<not> a_done t \<and> \<not> a_mailDone t \<and> \<not> a_mailClosed t
      | ActivationDeactivating \<Rightarrow> mapped \<and> a_reason t \<noteq> None \<and> \<not> a_done t \<and>
          (case w of
             None \<Rightarrow> False
           | Some WaitMail \<Rightarrow> a_hook t = []
           | Some (RunHook r) \<Rightarrow> a_hook t = [] \<and> a_mailDone t \<and> (r = None \<or> r = a_reason t)
           | Some Finish \<Rightarrow> hook_ok t \<and> a_mailDone t
           | Some Report \<Rightarrow> False)
      | ActivationStopped \<Rightarrow> \<not> mapped \<and> a_reason t \<noteq> None \<and> a_done t \<and> hook_ok t \<and> a_mailDone t \<and>
          (w = None \<or> w = Some Report))"

definition heap_ok :: "engine \<Rightarrow> bool" where
  "heap_ok e \<longleftrightarrow> (\<forall>a < length (e_heap e).
     slot_ok (gm_get (e_activations e) (a_id (e_heap e ! a)) = Some a) (gm_get (e_waiters e) a) (e_heap e ! a))"

definition maps_ok :: "engine \<Rightarrow> bool" where
  "maps_ok e \<longleftrightarrow>
     gm_ok (e_activations e) \<and> gm_ok (e_waiters e) \<and> distinct (e_pending e) \<and>
     (\<forall>i a. gm_get (e_activations e) i = Some a \<longrightarrow> a < length (e_heap e) \<and> a_id (e_heap e ! a) = i) \<and>
     (\<forall>a w. gm_get (e_waiters e) a = Some w \<longrightarrow> a < length (e_heap e)) \<and>
     (\<forall>i \<in> set (e_pending e). gm_get (e_activations e) i = None) \<and>
     e_pendingDeactivations e = int (length (e_waiters e)) \<and> \<not> e_panicked e"

definition core_inv :: "engine \<Rightarrow> bool" where
  "core_inv e \<longleftrightarrow> heap_ok e \<and> maps_ok e"

definition no_active :: "engine \<Rightarrow> bool" where
  "no_active e \<longleftrightarrow> (\<forall>a < length (e_heap e). a_state (e_heap e ! a) \<noteq> ActivationActive)"

definition stop_inv :: "engine \<Rightarrow> bool" where
  "stop_inv e \<longleftrightarrow>
     (e_stop e \<longleftrightarrow> e_state e \<noteq> engineRunning) \<and> (e_killing e \<longleftrightarrow> e_state e = engineKilling) \<and>
     (e_state e = engineRunning \<longrightarrow> e_deactivationsDone e = None \<and> \<not> e_done e) \<and>
     (e_state e \<noteq> engineRunning \<longrightarrow> no_active e \<and> (e_deactivationsDone e = Some False \<longleftrightarrow> e_waiters e \<noteq> [])) \<and>
     (e_done e \<longrightarrow> e_killing e \<or> e_deactivationsDone e \<noteq> Some False)"

definition engine_inv :: "engine \<Rightarrow> bool" where
  "engine_inv e \<longleftrightarrow> core_inv e \<and> stop_inv e"

lemma slotD: "heap_ok e \<Longrightarrow> a < length (e_heap e) \<Longrightarrow>
    slot_ok (gm_get (e_activations e) (a_id (e_heap e ! a)) = Some a) (gm_get (e_waiters e) a) (e_heap e ! a)"
  by (simp add: heap_ok_def)

lemma slot_active: "a_state t = ActivationActive \<Longrightarrow> slot_ok m w t \<Longrightarrow>
    m \<and> w = None \<and> a_reason t = None \<and> a_hook t = [] \<and> \<not> a_done t"
  by (simp add: slot_ok_def)

lemma heap_ok_upd:
  assumes "heap_ok e" and "a < length (e_heap e)"
    and "slot_ok (gm_get (e_activations e) (a_id t) = Some a) (gm_get (e_waiters e) a) t"
  shows "heap_ok (e\<lparr>e_heap := (e_heap e)[a := t]\<rparr>)"
  using assms by (auto simp: heap_ok_def nth_list_update)

text \<open>Changing one activation in a way its slot allows, identity kept.\<close>

lemma core_upd:
  assumes "core_inv e" and "a < length (e_heap e)" and "a_id (f (e_heap e ! a)) = a_id (e_heap e ! a)"
    and "\<And>m w. slot_ok m w (e_heap e ! a) \<Longrightarrow> slot_ok m w (f (e_heap e ! a))"
  shows "core_inv (upd_act a f e)"
proof -
  have "heap_ok (e\<lparr>e_heap := (e_heap e)[a := f (e_heap e ! a)]\<rparr>)"
    using assms slotD [of e a] by (intro heap_ok_upd) (simp_all add: core_inv_def)
  moreover have ids: "a_id ((e_heap e)[a := f (e_heap e ! a)] ! b) = a_id (e_heap e ! b)" for b
    using assms(2,3) by (cases "b = a") simp_all
  then have "maps_ok (upd_act a f e)"
    using assms(1) by (simp add: core_inv_def maps_ok_def upd_act_def)
  ultimately show ?thesis by (simp add: core_inv_def upd_act_def)
qed

lemma deactivateLocked_core:
  assumes "core_inv e" and "a < length (e_heap e)"
  shows "core_inv (snd (deactivateLocked a reason e))"
proof (cases "a_state (e_heap e ! a) = ActivationActive")
  case False
  then show ?thesis using assms by (simp add: deactivateLocked_def beginDeactivation_def)
next
  case True
  let ?t = "e_heap e ! a"
  let ?t' = "?t\<lparr>a_state := ActivationDeactivating, a_reason := Some reason\<rparr>"
  have act: "gm_get (e_activations e) (a_id ?t) = Some a" "gm_get (e_waiters e) a = None" "a_hook ?t = []" "\<not> a_done ?t"
    using slot_active [OF True slotD] assms by (auto simp: core_inv_def)
  have e': "snd (deactivateLocked a reason e) = e\<lparr>e_heap := (e_heap e)[a := ?t'],
      e_pendingDeactivations := e_pendingDeactivations e + 1, e_waiters := gm_put a WaitMail (e_waiters e)\<rparr>"
    using True by (simp add: deactivateLocked_def beginDeactivation_def upd_act_def startDeactivationWaiterLocked_def)
  have "heap_ok (snd (deactivateLocked a reason e))"
    using assms act unfolding e' core_inv_def heap_ok_def
    by (auto simp: nth_list_update go_map_simps) (simp add: slot_ok_def)
  moreover have "maps_ok (snd (deactivateLocked a reason e))"
    using assms act unfolding e' core_inv_def maps_ok_def
    by (auto simp: nth_list_update go_map_simps gm_put_length)
  ultimately show ?thesis by (simp add: core_inv_def)
qed

lemma deactivateLocked_frame:
  "length (e_heap (snd (deactivateLocked a reason e))) = length (e_heap e)"
  "e_activations (snd (deactivateLocked a reason e)) = e_activations e"
  "e_state (snd (deactivateLocked a reason e)) = e_state e"
  "e_stop (snd (deactivateLocked a reason e)) = e_stop e"
  "e_killing (snd (deactivateLocked a reason e)) = e_killing e"
  "e_done (snd (deactivateLocked a reason e)) = e_done e"
  "e_deactivationsDone (snd (deactivateLocked a reason e)) = e_deactivationsDone e"
  "no_active e \<Longrightarrow> a < length (e_heap e) \<Longrightarrow> snd (deactivateLocked a reason e) = e"
  by (simp_all add: deactivateLocked_def beginDeactivation_def upd_act_def startDeactivationWaiterLocked_def
      no_active_def)

lemma deactivateLocked_inv:
  assumes "engine_inv e" and "a < length (e_heap e)"
  shows "engine_inv (snd (deactivateLocked a reason e))"
proof (cases "e_state e = engineRunning")
  case True
  then show ?thesis
    using assms deactivateLocked_core [of e a reason]
    by (auto simp: engine_inv_def stop_inv_def deactivateLocked_frame)
next
  case False
  then have "no_active e" using assms(1) by (simp add: engine_inv_def stop_inv_def)
  then show ?thesis using assms by (simp add: deactivateLocked_frame(8))
qed

subsection \<open>Every step keeps it\<close>

lemma core_frame:
  assumes "core_inv e" and "e_heap e' = e_heap e" and "e_activations e' = e_activations e"
    and "e_waiters e' = e_waiters e" and "e_pending e' = e_pending e"
    and "e_pendingDeactivations e' = e_pendingDeactivations e" and "\<not> e_panicked e'"
  shows "core_inv e'"
  using assms by (simp add: core_inv_def heap_ok_def maps_ok_def)

lemma stop_frame:
  assumes "stop_inv e" and "length (e_heap e') = length (e_heap e)"
    and "\<And>a. a < length (e_heap e) \<Longrightarrow> a_state (e_heap e' ! a) = a_state (e_heap e ! a)"
    and "e_state e' = e_state e" "e_stop e' = e_stop e" "e_killing e' = e_killing e"
    and "e_deactivationsDone e' = e_deactivationsDone e" "e_done e' = e_done e"
    and "e_waiters e' = [] \<longleftrightarrow> e_waiters e = []"
  shows "stop_inv e'"
  using assms by (auto simp: stop_inv_def no_active_def)

lemma upd_act_simps [simp]:
  "length (e_heap (upd_act a f e)) = length (e_heap e)" "e_activations (upd_act a f e) = e_activations e"
  "e_waiters (upd_act a f e) = e_waiters e" "e_pending (upd_act a f e) = e_pending e"
  "e_pendingDeactivations (upd_act a f e) = e_pendingDeactivations e" "e_panicked (upd_act a f e) = e_panicked e"
  "e_state (upd_act a f e) = e_state e" "e_stop (upd_act a f e) = e_stop e" "e_killing (upd_act a f e) = e_killing e"
  "e_deactivationsDone (upd_act a f e) = e_deactivationsDone e" "e_done (upd_act a f e) = e_done e"
  by (simp_all add: upd_act_def)

lemma upd_act_nth: "a < length (e_heap e) \<Longrightarrow> e_heap (upd_act a f e) ! b = (if b = a then f (e_heap e ! a) else e_heap e ! b)"
  by (simp add: upd_act_def)

text \<open>Changing a field of an activation that the invariant does not look at, or a mailbox flag.\<close>

lemma upd_act_inv:
  assumes "engine_inv e" and "a < length (e_heap e)" and "a_id (f (e_heap e ! a)) = a_id (e_heap e ! a)"
    and "a_state (f (e_heap e ! a)) = a_state (e_heap e ! a)"
    and "\<And>m w. slot_ok m w (e_heap e ! a) \<Longrightarrow> slot_ok m w (f (e_heap e ! a))"
  shows "engine_inv (upd_act a f e)"
proof -
  have "core_inv (upd_act a f e)" using core_upd [of e a f] assms by (simp add: engine_inv_def)
  moreover have "stop_inv (upd_act a f e)"
    by (rule stop_frame [of e]) (use assms in \<open>simp_all add: engine_inv_def upd_act_nth\<close>)
  ultimately show ?thesis by (simp add: engine_inv_def)
qed

lemma slot_upd [simp]:
  "slot_ok m w (t\<lparr>a_calls := c\<rparr>) = slot_ok m w t" "slot_ok m w (t\<lparr>a_lastUsed := l\<rparr>) = slot_ok m w t"
  "slot_ok m w (t\<lparr>a_skipOnDeactivate := k\<rparr>) = slot_ok m w t"
  by (auto simp: slot_ok_def hook_ok_def split: activation_state.splits option.splits waiter.splits)

lemma admit_inv: "engine_inv e \<Longrightarrow> a < length (e_heap e) \<Longrightarrow> engine_inv (snd (admit now a e))"
  by (simp add: admit_def upd_act_inv)

lemma callFinished_inv: "engine_inv e \<Longrightarrow> a < length (e_heap e) \<Longrightarrow> engine_inv (callFinished a e)"
  by (simp add: callFinished_def upd_act_inv)

lemma close_mailbox_inv:
  "engine_inv e \<Longrightarrow> a < length (e_heap e) \<Longrightarrow> a_state (e_heap e ! a) \<noteq> ActivationActive \<Longrightarrow>
    engine_inv (close_mailbox a e)"
  unfolding close_mailbox_def
  by (rule upd_act_inv)
    (auto simp: slot_ok_def hook_ok_def split: activation_state.splits option.splits waiter.splits)

lemma mailbox_done_inv: "engine_inv e \<Longrightarrow> a < length (e_heap e) \<Longrightarrow> engine_inv (mailbox_done a e)"
  unfolding mailbox_done_def
  by (auto intro!: upd_act_inv simp: slot_ok_def hook_ok_def split: activation_state.splits option.splits waiter.splits)

lemma Engine_Register_inv: "engine_inv e \<Longrightarrow> engine_inv (snd (Engine_Register n h e))"
  by (auto simp: Engine_Register_def engine_inv_def core_inv_def heap_ok_def maps_ok_def stop_inv_def no_active_def)

lemma activationFor_inv:
  assumes "engine_inv e"
  shows "engine_inv (snd (activationFor i e))"
proof (cases "gm_get (e_activations e) i")
  case None
  with assms show ?thesis
    by (auto simp: activationFor_def engine_inv_def core_inv_def heap_ok_def maps_ok_def stop_inv_def no_active_def Let_def)
next
  case (Some a)
  then have a: "a < length (e_heap e)" "a_id (e_heap e ! a) = i"
    using assms by (auto simp: engine_inv_def core_inv_def maps_ok_def)
  then have "a_state (e_heap e ! a) = ActivationActive \<or> a_state (e_heap e ! a) = ActivationDeactivating"
    using assms Some slotD [of e a]
    by (auto simp: engine_inv_def core_inv_def slot_ok_def split: activation_state.splits)
  with Some assms show ?thesis by (auto simp: activationFor_def Let_def)
qed

lemma createActivation_inv:
  assumes "engine_inv e" and "i \<in> set (e_pending e)"
  shows "engine_inv (snd (createActivation i h now res e))"
proof -
  have p: "i \<notin> set (remove1 i (e_pending e))" "distinct (remove1 i (e_pending e))"
    "gm_get (e_activations e) i = None" "set (remove1 i (e_pending e)) \<subseteq> set (e_pending e)"
    using assms by (auto simp: engine_inv_def core_inv_def maps_ok_def set_remove1_subset)
  have dropped: "engine_inv (e\<lparr>e_pending := remove1 i (e_pending e)\<rparr>)"
    using assms p by (auto simp: engine_inv_def core_inv_def heap_ok_def maps_ok_def stop_inv_def no_active_def)
  show ?thesis
  proof (cases "res = None \<and> e_state e = engineRunning")
    case False
    then show ?thesis using dropped by (auto simp: createActivation_def Let_def split: option.splits)
  next
    case True
    let ?a = "length (e_heap e)"
    have fresh: "gm_get (e_waiters e) ?a = None"
      using assms by (cases "gm_get (e_waiters e) ?a") (auto simp: engine_inv_def core_inv_def maps_ok_def)
    have new: "slot_ok True None (new_activation i h now)" by (simp add: slot_ok_def new_activation_def)
    let ?e = "e\<lparr>e_pending := remove1 i (e_pending e), e_heap := e_heap e @ [new_activation i h now],
      e_activations := gm_put i ?a (e_activations e)\<rparr>"
    have idn: "a_id (new_activation i h now) = i" by (simp add: new_activation_def)
    have "heap_ok ?e"
      unfolding heap_ok_def
    proof (intro allI impI)
      fix b
      assume b: "b < length (e_heap ?e)"
      show "slot_ok (gm_get (e_activations ?e) (a_id (e_heap ?e ! b)) = Some b) (gm_get (e_waiters ?e) b) (e_heap ?e ! b)"
      proof (cases "b = ?a")
        case True
        then show ?thesis using new idn fresh by (simp add: go_map_simps)
      next
        case False
        then have lt: "b < ?a" using b by simp
        then have "slot_ok (gm_get (e_activations e) (a_id (e_heap e ! b)) = Some b) (gm_get (e_waiters e) b) (e_heap e ! b)"
          using assms(1) slotD by (simp add: engine_inv_def core_inv_def)
        then show ?thesis using lt p(3) by (auto simp: nth_append go_map_simps)
      qed
    qed
    moreover have "maps_ok ?e"
      using assms(1) p idn
      by (auto simp: engine_inv_def core_inv_def maps_ok_def go_map_simps nth_append less_Suc_eq)
    moreover have "stop_inv ?e" using assms(1) True by (simp add: engine_inv_def stop_inv_def)
    moreover have "snd (createActivation i h now res e) = ?e"
      using True by (simp add: createActivation_def Let_def)
    ultimately show ?thesis by (simp add: engine_inv_def core_inv_def)
  qed
qed

lemma fold_inv: "(\<And>e a. P e \<Longrightarrow> Q e a \<Longrightarrow> P (f e a) \<and> (\<forall>b. Q e b \<longrightarrow> Q (f e a) b)) \<Longrightarrow>
    P e \<Longrightarrow> \<forall>a \<in> set as. Q e a \<Longrightarrow> P (foldl f e as)"
  by (induction as arbitrary: e) auto

lemma mapped_addr: "engine_inv e \<Longrightarrow> a \<in> snd ` set (e_activations e) \<Longrightarrow> a < length (e_heap e)"
  using gm_ok_get_iff [of "e_activations e"] by (force simp: engine_inv_def core_inv_def maps_ok_def)

lemma evict_inv:
  assumes "engine_inv e"
  shows "engine_inv (evict now e)"
proof (cases "e_state e = engineRunning")
  case True
  let ?f = "\<lambda>e a. if evictable now e a then snd (deactivateLocked a Idle e) else e"
  have "engine_inv (foldl ?f e (map snd (e_activations e)))"
  proof (rule fold_inv [where P = engine_inv and Q = "\<lambda>e a. a < length (e_heap e)"])
    show "engine_inv (?f e a) \<and> (\<forall>b. b < length (e_heap e) \<longrightarrow> b < length (e_heap (?f e a)))"
      if "engine_inv e" "a < length (e_heap e)" for e a
      using that deactivateLocked_inv by (simp add: deactivateLocked_frame)
    show "\<forall>a \<in> set (map snd (e_activations e)). a < length (e_heap e)" using mapped_addr [OF assms] by simp
  qed (rule assms)
  with True show ?thesis by (simp add: evict_def)
qed (use assms in \<open>simp add: evict_def\<close>)

lemma waiter_addr: "engine_inv e \<Longrightarrow> gm_get (e_waiters e) a = Some w \<Longrightarrow> a < length (e_heap e)"
  by (auto simp: engine_inv_def core_inv_def maps_ok_def)

lemma waiters_put_inv:
  assumes "engine_inv e" and "gm_get (e_waiters e) a = Some w"
    and "slot_ok (gm_get (e_activations e) (a_id t) = Some a) (Some w') t"
    and "a_id t = a_id (e_heap e ! a)" and "a_state t = a_state (e_heap e ! a)"
  shows "engine_inv (e\<lparr>e_heap := (e_heap e)[a := t], e_waiters := gm_put a w' (e_waiters e)\<rparr>)"
proof -
  let ?e = "e\<lparr>e_heap := (e_heap e)[a := t], e_waiters := gm_put a w' (e_waiters e)\<rparr>"
  have a: "a < length (e_heap e)" by (rule waiter_addr [OF assms(1,2)])
  have ids: "a_id ((e_heap e)[a := t] ! b) = a_id (e_heap e ! b)" for b
    using a assms(4) by (cases "b = a") simp_all
  have states: "a_state ((e_heap e)[a := t] ! b) = a_state (e_heap e ! b)" for b
    using a assms(5) by (cases "b = a") simp_all
  have "heap_ok ?e"
    using assms(1,3,4) by (auto simp: engine_inv_def core_inv_def heap_ok_def nth_list_update go_map_simps)
  moreover have "maps_ok ?e"
    using assms(1,2) a ids by (auto simp: engine_inv_def core_inv_def maps_ok_def go_map_simps gm_put_length)
  moreover have "e_waiters e \<noteq> []" using assms(2) by auto
  then have "stop_inv ?e"
    by - (rule stop_frame [of e],
      use assms(1) states in \<open>simp_all add: engine_inv_def\<close>)
  ultimately show ?thesis by (simp add: engine_inv_def core_inv_def)
qed

lemma waiter_mail_inv:
  assumes "engine_inv e" and "gm_get (e_waiters e) a = Some WaitMail"
  shows "engine_inv (waiter_step a e)"
proof -
  let ?t = "e_heap e ! a"
  have slot: "slot_ok (gm_get (e_activations e) (a_id ?t) = Some a) (Some WaitMail) ?t"
    using assms slotD [of e a] waiter_addr [OF assms] by (simp add: engine_inv_def core_inv_def)
  show ?thesis
  proof (cases "a_mailDone ?t")
    case True
    let ?w = "RunHook (if \<not> a_skipOnDeactivate ?t \<and> a_hasHook ?t then a_reason ?t else None)"
    have "slot_ok (gm_get (e_activations e) (a_id ?t) = Some a) (Some ?w) ?t"
      using slot True by (auto simp: slot_ok_def split: activation_state.splits)
    from waiters_put_inv [OF assms this] have "engine_inv (e\<lparr>e_waiters := gm_put a ?w (e_waiters e)\<rparr>)"
      by simp
    then show ?thesis using True assms(2) by (simp add: waiter_step_def Let_def)
  qed (use assms in \<open>simp add: waiter_step_def\<close>)
qed

lemma waiter_hook_inv:
  assumes "engine_inv e" and "gm_get (e_waiters e) a = Some (RunHook r)"
  shows "engine_inv (waiter_step a e)"
proof -
  let ?t = "e_heap e ! a"
  let ?t' = "(case r of None \<Rightarrow> ?t | Some reason \<Rightarrow> ?t\<lparr>a_hook := a_hook ?t @ [reason]\<rparr>)"
  have slot: "slot_ok (gm_get (e_activations e) (a_id ?t) = Some a) (Some (RunHook r)) ?t"
    using assms slotD [of e a] waiter_addr [OF assms] by (simp add: engine_inv_def core_inv_def)
  then have "slot_ok (gm_get (e_activations e) (a_id ?t') = Some a) (Some Finish) ?t'"
    by (auto simp: slot_ok_def hook_ok_def split: activation_state.splits option.splits)
  from waiters_put_inv [OF assms this]
  have "engine_inv (e\<lparr>e_heap := (e_heap e)[a := ?t'], e_waiters := gm_put a Finish (e_waiters e)\<rparr>)"
    by (simp split: option.split)
  then show ?thesis using assms(2) by (simp add: waiter_step_def upd_act_def split: option.splits)
qed

lemma waiter_finish_inv:
  assumes "engine_inv e" and "gm_get (e_waiters e) a = Some Finish"
  shows "engine_inv (waiter_step a e)"
proof -
  let ?t = "e_heap e ! a"
  let ?t' = "?t\<lparr>a_state := ActivationStopped, a_done := True\<rparr>"
  have a: "a < length (e_heap e)" by (rule waiter_addr [OF assms])
  have slot: "a_state ?t = ActivationDeactivating" "gm_get (e_activations e) (a_id ?t) = Some a"
    "\<not> a_done ?t" "a_reason ?t \<noteq> None" "hook_ok ?t" "a_mailDone ?t"
    using assms slotD [of e a] a
    by (auto simp: engine_inv_def core_inv_def slot_ok_def split: activation_state.splits)
  let ?e = "e\<lparr>e_heap := (e_heap e)[a := ?t'], e_activations := gm_del (a_id ?t) (e_activations e),
    e_waiters := gm_put a Report (e_waiters e)\<rparr>"
  have step: "waiter_step a e = ?e"
    using assms(2) slot a
    by (simp add: waiter_step_def finishDeactivation_def close_act_done_def upd_act_def Let_def)
  have ids: "a_id ((e_heap e)[a := ?t'] ! b) = a_id (e_heap e ! b)" for b
    using a by (cases "b = a") simp_all
  have "slot_ok False (Some Report) ?t'" using slot by (auto simp: slot_ok_def hook_ok_def)
  moreover have "a_id (e_heap e ! b) \<noteq> a_id ?t \<or> gm_get (e_activations e) (a_id (e_heap e ! b)) \<noteq> Some b" if "b \<noteq> a" for b
    using slot(2) that by auto
  ultimately have "heap_ok ?e"
    using assms(1) a by (auto simp: engine_inv_def core_inv_def heap_ok_def nth_list_update go_map_simps)
  moreover have "maps_ok ?e"
    using assms a ids by (auto simp: engine_inv_def core_inv_def maps_ok_def go_map_simps gm_put_length)
  moreover have "e_waiters e \<noteq> []" using assms(2) by auto
  then have "stop_inv ?e"
    using assms(1) a by (auto simp: engine_inv_def stop_inv_def no_active_def nth_list_update)
  ultimately show ?thesis by (simp add: engine_inv_def core_inv_def step)
qed

lemma waiter_report_inv:
  assumes "engine_inv e" and "gm_get (e_waiters e) a = Some Report"
  shows "engine_inv (waiter_step a e)"
proof -
  let ?e = "waiter_step a e" and ?t = "e_heap e ! a"
  have inv: "heap_ok e" "maps_ok e" "stop_inv e" using assms(1) by (simp_all add: engine_inv_def core_inv_def)
  have a: "a < length (e_heap e)" by (rule waiter_addr [OF assms])
  have len: "Suc (length (gm_del a (e_waiters e))) = length (e_waiters e)"
    using inv(2) by (intro gm_del_length [OF _ assms(2)]) (simp add: maps_ok_def)
  have pend: "e_pendingDeactivations e - 1 = int (length (gm_del a (e_waiters e)))"
    using inv(2) len by (simp add: maps_ok_def)
  have ne: "e_waiters e \<noteq> []" using assms(2) by auto
  then have dd: "e_deactivationsDone e = None \<or> e_deactivationsDone e = Some False"
    using inv(3) by (cases "e_state e = engineRunning") (auto simp: stop_inv_def)
  have e: "e_heap ?e = e_heap e" "e_activations ?e = e_activations e" "e_pending ?e = e_pending e"
    "e_waiters ?e = gm_del a (e_waiters e)" "e_pendingDeactivations ?e = int (length (gm_del a (e_waiters e)))"
    "e_state ?e = e_state e" "e_stop ?e = e_stop e" "e_killing ?e = e_killing e" "e_done ?e = e_done e"
    "e_panicked ?e = e_panicked e"
    "e_deactivationsDone ?e = (if gm_del a (e_waiters e) = [] then None else e_deactivationsDone e)"
    using assms(2) dd pend by (auto simp: waiter_step_def deactivationFinished_def close_deactivationsDone_def Let_def)
  have "slot_ok (gm_get (e_activations e) (a_id ?t) = Some a) None ?t"
    using slotD [OF inv(1) a] assms(2) by (auto simp: slot_ok_def split: activation_state.splits)
  then have "heap_ok ?e" using inv(1) by (auto simp: heap_ok_def e go_map_simps)
  moreover have "maps_ok ?e" using inv(2) by (auto simp: maps_ok_def e go_map_simps)
  moreover have "stop_inv ?e" using inv(3) ne by (auto simp: stop_inv_def no_active_def e)
  ultimately show ?thesis by (simp add: engine_inv_def core_inv_def)
qed

lemma waiter_step_inv: "engine_inv e \<Longrightarrow> engine_inv (waiter_step a e)"
proof (cases "gm_get (e_waiters e) a")
  case (Some w)
  assume "engine_inv e"
  with Some show ?thesis
    by (cases w) (auto intro: waiter_mail_inv waiter_hook_inv waiter_finish_inv waiter_report_inv)
qed (simp add: waiter_step_def)

definition stop_one_act :: "bool \<Rightarrow> engine \<Rightarrow> addr \<Rightarrow> engine" where
  "stop_one_act skip e a = snd (deactivateLocked a RuntimeClosed
     (if skip then upd_act a (\<lambda>t. t\<lparr>a_skipOnDeactivate := True\<rparr>) e else e))"

lemma beginStop_fold:
  "beginStopDeactivationsLocked skip e =
     (let e2 = (foldl (stop_one_act skip) e (map snd (e_activations e)))\<lparr>e_deactivationsDone := Some False\<rparr>
      in if e_pendingDeactivations e2 = 0 then close_deactivationsDone e2 else e2)"
proof -
  have "(\<lambda>e a. (let e' = (if skip then upd_act a (\<lambda>t. t\<lparr>a_skipOnDeactivate := True\<rparr>) e else e)
             in case beginDeactivation a RuntimeClosed e' of
                  (True, e'') \<Rightarrow> startDeactivationWaiterLocked a e''
                | (False, e'') \<Rightarrow> e'')) = stop_one_act skip"
    by (auto simp: fun_eq_iff stop_one_act_def deactivateLocked_def Let_def split: prod.split bool.split)
  then show ?thesis by (simp add: beginStopDeactivationsLocked_def Let_def)
qed

text \<open>What stopping one activation leaves alone.\<close>

definition same_frame :: "engine \<Rightarrow> engine \<Rightarrow> bool" where
  "same_frame e e' \<longleftrightarrow> length (e_heap e') = length (e_heap e) \<and> e_activations e' = e_activations e \<and>
     e_state e' = e_state e \<and> e_stop e' = e_stop e \<and> e_killing e' = e_killing e \<and> e_done e' = e_done e \<and>
     (\<forall>b. a_state (e_heap e ! b) \<noteq> ActivationActive \<longrightarrow> a_state (e_heap e' ! b) \<noteq> ActivationActive)"

lemma deactivateLocked_state:
  assumes "a < length (e_heap e)"
  shows "a_state (e_heap (snd (deactivateLocked a reason e)) ! b) =
    (if b = a \<and> a_state (e_heap e ! a) = ActivationActive then ActivationDeactivating else a_state (e_heap e ! b))"
  using assms
  by (auto simp: deactivateLocked_def beginDeactivation_def startDeactivationWaiterLocked_def upd_act_nth)

lemma stop_one_act_ok:
  assumes "core_inv e" and "a < length (e_heap e)"
  shows "core_inv (stop_one_act skip e a)" and "same_frame e (stop_one_act skip e a)"
    and "a_state (e_heap (stop_one_act skip e a) ! a) \<noteq> ActivationActive"
proof -
  let ?e = "if skip then upd_act a (\<lambda>t. t\<lparr>a_skipOnDeactivate := True\<rparr>) e else e"
  have c: "core_inv ?e" using assms core_upd [of e a "\<lambda>t. t\<lparr>a_skipOnDeactivate := True\<rparr>"] by simp
  have len: "length (e_heap ?e) = length (e_heap e)" by simp
  have st: "a_state (e_heap ?e ! b) = a_state (e_heap e ! b)" for b using assms(2) by (simp add: upd_act_nth)
  show "core_inv (stop_one_act skip e a)"
    using deactivateLocked_core [OF c] assms(2) by (simp add: stop_one_act_def len)
  have a': "a < length (e_heap ?e)" using assms(2) len by simp
  note ds = deactivateLocked_state [OF a', where reason = RuntimeClosed, unfolded st]
  show "a_state (e_heap (stop_one_act skip e a) ! a) \<noteq> ActivationActive"
    unfolding stop_one_act_def ds by simp
  show "same_frame e (stop_one_act skip e a)"
    unfolding same_frame_def stop_one_act_def ds deactivateLocked_frame by simp
qed

lemma stop_fold_ok:
  "core_inv e \<Longrightarrow> \<forall>a \<in> set as. a < length (e_heap e) \<Longrightarrow>
    core_inv (foldl (stop_one_act skip) e as) \<and> same_frame e (foldl (stop_one_act skip) e as) \<and>
    (\<forall>a \<in> set as. a_state (e_heap (foldl (stop_one_act skip) e as) ! a) \<noteq> ActivationActive)"
proof (induction as arbitrary: e)
  case Nil
  then show ?case by (simp add: same_frame_def)
next
  case (Cons a as)
  let ?e = "stop_one_act skip e a"
  have a: "a < length (e_heap e)" using Cons.prems(2) by simp
  note one = stop_one_act_ok [OF Cons.prems(1) a, of skip]
  have "\<forall>b \<in> set as. b < length (e_heap ?e)" using Cons.prems(2) one(2) by (simp add: same_frame_def)
  from Cons.IH [OF one(1) this] one(2,3) show ?case by (auto simp: same_frame_def)
qed

lemma beginStop_inv:
  assumes "core_inv e" and "e_stop e" and "e_state e \<noteq> engineRunning"
    and "e_killing e \<longleftrightarrow> e_state e = engineKilling" and "\<not> e_done e"
  shows "engine_inv (beginStopDeactivationsLocked skip e)"
proof -
  let ?as = "map snd (e_activations e)"
  let ?e1 = "foldl (stop_one_act skip) e ?as"
  have mapped: "\<forall>a \<in> set ?as. a < length (e_heap e)"
    using assms(1) gm_ok_get_iff [of "e_activations e"] by (force simp: core_inv_def maps_ok_def)
  note f = stop_fold_ok [OF assms(1) mapped, of skip]
  have na: "no_active ?e1"
    unfolding no_active_def
  proof (intro allI impI notI)
    fix a
    assume a: "a < length (e_heap ?e1)" and act: "a_state (e_heap ?e1 ! a) = ActivationActive"
    have "gm_get (e_activations ?e1) (a_id (e_heap ?e1 ! a)) = Some a"
      using slot_active [OF act slotD] f a by (auto simp: core_inv_def)
    then have "gm_get (e_activations e) (a_id (e_heap ?e1 ! a)) = Some a"
      using f by (simp only: same_frame_def)
    then have "a \<in> set ?as" using map_of_SomeD by force
    with f act show False by blast
  qed
  let ?e2 = "?e1\<lparr>e_deactivationsDone := Some False\<rparr>"
  have core: "core_inv (?e1\<lparr>e_deactivationsDone := d\<rparr>)" for d
    by (rule core_frame [of ?e1]) (use f in \<open>simp_all add: core_inv_def maps_ok_def\<close>)
  have pend: "e_pendingDeactivations ?e1 = int (length (e_waiters ?e1))"
    using f by (simp add: core_inv_def maps_ok_def)
  have stop: "stop_inv (?e1\<lparr>e_deactivationsDone := Some (e_waiters ?e1 = [])\<rparr>)"
    using f na assms(2-5) by (auto simp: stop_inv_def same_frame_def no_active_def)
  show ?thesis
  proof (cases "e_waiters ?e1 = []")
    case True
    then have "beginStopDeactivationsLocked skip e = ?e1\<lparr>e_deactivationsDone := Some True\<rparr>"
      using pend by (simp add: beginStop_fold close_deactivationsDone_def Let_def)
    with stop True core show ?thesis by (simp add: engine_inv_def)
  next
    case False
    then have "beginStopDeactivationsLocked skip e = ?e2" using pend by (simp add: beginStop_fold Let_def)
    with stop False core show ?thesis by (simp add: engine_inv_def)
  qed
qed

lemma BeginClose_inv:
  assumes "engine_inv e"
  shows "engine_inv (Engine_BeginClose e)"
proof (cases "e_state e = engineRunning")
  case True
  then have s: "\<not> e_stop e" "\<not> e_killing e" "\<not> e_done e" using assms by (auto simp: engine_inv_def stop_inv_def)
  have "core_inv (e\<lparr>e_state := engineClosing, e_stop := True\<rparr>)"
    by (rule core_frame [of e]) (use assms in \<open>simp_all add: engine_inv_def core_inv_def maps_ok_def\<close>)
  then show ?thesis
    using True s beginStop_inv [of "e\<lparr>e_state := engineClosing, e_stop := True\<rparr>" False]
    by (simp add: Engine_BeginClose_def close_stop_def)
qed (use assms in \<open>simp add: Engine_BeginClose_def\<close>)

lemma markSkip_inv:
  assumes "engine_inv e"
  shows "engine_inv (markSkipOnDeactivateLocked e)"
  unfolding markSkipOnDeactivateLocked_def
proof (rule fold_inv [where P = engine_inv and Q = "\<lambda>e a. a < length (e_heap e)"])
  show "engine_inv (upd_act a (\<lambda>t. t\<lparr>a_skipOnDeactivate := True\<rparr>) e) \<and>
      (\<forall>b. b < length (e_heap e) \<longrightarrow> b < length (e_heap (upd_act a (\<lambda>t. t\<lparr>a_skipOnDeactivate := True\<rparr>) e)))"
    if "engine_inv e" "a < length (e_heap e)" for e a
    using that by (simp add: upd_act_inv)
  show "\<forall>a \<in> set (map snd (e_activations e)). a < length (e_heap e)" using mapped_addr [OF assms] by simp
qed (rule assms)

lemma BeginKill_inv:
  assumes "engine_inv e"
  shows "engine_inv (Engine_BeginKill e)"
proof (cases "e_state e")
  case engineRunning
  then have s: "\<not> e_stop e" "\<not> e_killing e" "\<not> e_done e" using assms by (auto simp: engine_inv_def stop_inv_def)
  have "core_inv (e\<lparr>e_state := engineKilling, e_stop := True, e_killing := True\<rparr>)"
    by (rule core_frame [of e]) (use assms in \<open>simp_all add: engine_inv_def core_inv_def maps_ok_def\<close>)
  then show ?thesis
    using engineRunning s beginStop_inv [of "e\<lparr>e_state := engineKilling, e_stop := True, e_killing := True\<rparr>" True]
    by (simp add: Engine_BeginKill_def close_stop_def close_killing_def)
next
  case engineClosing
  then have s: "\<not> e_killing e" using assms by (auto simp: engine_inv_def stop_inv_def)
  have "core_inv (e\<lparr>e_state := engineKilling, e_killing := True\<rparr>)"
    by (rule core_frame [of e]) (use assms in \<open>simp_all add: engine_inv_def core_inv_def maps_ok_def\<close>)
  moreover have "stop_inv (e\<lparr>e_state := engineKilling, e_killing := True\<rparr>)"
    using assms engineClosing by (auto simp: engine_inv_def stop_inv_def no_active_def)
  ultimately have "engine_inv (markSkipOnDeactivateLocked (e\<lparr>e_state := engineKilling, e_killing := True\<rparr>))"
    by (intro markSkip_inv) (simp add: engine_inv_def)
  then show ?thesis using engineClosing s by (simp add: Engine_BeginKill_def close_killing_def)
qed (use assms in \<open>simp add: Engine_BeginKill_def\<close>)

lemma evictLoop_exit_inv: "engine_inv e \<Longrightarrow> engine_inv (evictLoop_exit e)"
  by (auto simp: evictLoop_exit_def engine_inv_def core_inv_def heap_ok_def maps_ok_def stop_inv_def no_active_def)

lemma drain_step_inv: "engine_inv e \<Longrightarrow> engine_inv (drain_step e)"
  by (auto simp: drain_step_def engine_inv_def core_inv_def heap_ok_def maps_ok_def stop_inv_def no_active_def)

lemma Engine_Deactivate_inv:
  assumes "engine_inv e"
  shows "engine_inv (Engine_Deactivate i e)"
proof (cases "gm_get (e_activations e) i")
  case (Some a)
  then have "a < length (e_heap e)" using assms by (auto simp: engine_inv_def core_inv_def maps_ok_def)
  with Some show ?thesis using deactivateLocked_inv [OF assms] by (simp add: Engine_Deactivate_def)
qed (use assms in \<open>simp add: Engine_Deactivate_def\<close>)

lemma engine_step_inv: "engine_step e e' \<Longrightarrow> engine_inv e \<Longrightarrow> engine_inv e'"
  by (induction rule: engine_step.induct)
    (auto intro: Engine_Register_inv activationFor_inv createActivation_inv admit_inv callFinished_inv
      Engine_Deactivate_inv deactivateLocked_inv evict_inv close_mailbox_inv mailbox_done_inv
      waiter_step_inv BeginClose_inv BeginKill_inv evictLoop_exit_inv drain_step_inv simp: stopActivation_def)

lemma Engine_New_inv: "engine_inv (Engine_New idle interval)"
  by (simp add: Engine_New_def engine_inv_def core_inv_def heap_ok_def maps_ok_def stop_inv_def)

lemma engine_reach_inv: "engine_reach idle interval e \<Longrightarrow> engine_inv e"
  by (induction rule: engine_reach.induct) (auto intro: Engine_New_inv engine_step_inv)


section \<open>Call cycles are refused\<close>

lemma first_index_None: "first_index i n chain = None \<longleftrightarrow> i \<notin> set chain"
  by (induction chain arbitrary: n) auto

lemma checkCycle_None: "checkCycle chain i = None \<longleftrightarrow> i \<notin> set chain"
  by (auto simp: checkCycle_def first_index_None Let_def split: option.split) (metis first_index_None not_None_eq)

lemma checkCycle_error: "checkCycle chain i = Some e \<Longrightarrow> errors_Is e (TSentinel RtErrCallCycle)"
  by (auto simp: checkCycle_def Let_def split: option.splits)

text \<open>
  \<open>checkCycle\<close> and \<open>withOccupied\<close>: a chain of nested calls succeeds exactly when it visits no grain
  twice, and then the chain it carries lists the grains in call order; otherwise it ends in an error
  that is \<open>ErrCallCycle\<close>.
\<close>

theorem nested_calls_cycle:
  "case nested_calls chain ids of
     Inr c \<Rightarrow> c = chain @ ids \<and> distinct ids \<and> set ids \<inter> set chain = {}
   | Inl e \<Rightarrow> \<not> (distinct ids \<and> set ids \<inter> set chain = {}) \<and> errors_Is e (TSentinel RtErrCallCycle)"
proof (induction ids arbitrary: chain)
  case (Cons i ids)
  show ?case
  proof (cases "checkCycle chain i")
    case None
    then have "i \<notin> set chain" by (simp add: checkCycle_None)
    then show ?thesis using Cons [of "withOccupied chain i"] None
      by (auto simp: withOccupied_def split: sum.splits)
  next
    case (Some e)
    then have "i \<in> set chain" using checkCycle_None [of chain i] by auto
    then show ?thesis using Some checkCycle_error by simp
  qed
qed simp

section \<open>Executable runs\<close>

text \<open>A schedule of engine steps, for evaluation; a step whose guard fails does nothing.\<close>

datatype engine_op =
    OpLookup grain_id
  | OpCreate grain_id bool gtime
  | OpAdmit gtime addr
  | OpEvict gtime
  | OpStop addr
  | OpCloseBox addr
  | OpBoxDone addr
  | OpWaiter addr
  | OpBeginClose
  | OpEvictExit
  | OpDrain

fun exec_op :: "engine \<Rightarrow> engine_op \<Rightarrow> engine" where
  "exec_op e (OpLookup i) = snd (activationFor i e)"
| "exec_op e (OpCreate i hook now) = (if i \<in> set (e_pending e) then snd (createActivation i hook now None e) else e)"
| "exec_op e (OpAdmit now a) = (if a < length (e_heap e) then snd (admit now a e) else e)"
| "exec_op e (OpEvict now) = evict now e"
| "exec_op e (OpStop a) = (if a < length (e_heap e) then stopActivation a e else e)"
| "exec_op e (OpCloseBox a) =
     (if a < length (e_heap e) \<and> a_state (e_heap e ! a) \<noteq> ActivationActive then close_mailbox a e else e)"
| "exec_op e (OpBoxDone a) = (if a < length (e_heap e) then mailbox_done a e else e)"
| "exec_op e (OpWaiter a) = waiter_step a e"
| "exec_op e OpBeginClose = Engine_BeginClose e"
| "exec_op e OpEvictExit = evictLoop_exit e"
| "exec_op e OpDrain = drain_step e"

definition engine_run :: "duration \<Rightarrow> duration \<Rightarrow> engine_op list \<Rightarrow> engine" where
  "engine_run idle interval ops = foldl exec_op (Engine_New idle interval) ops"

lemma exec_op_reach: "engine_reach idle interval e \<Longrightarrow> engine_reach idle interval (exec_op e op)"
  by (cases op) (auto intro: engine_reach.step engine_step.intros)

lemma engine_run_reach: "engine_reach idle interval (engine_run idle interval ops)"
proof -
  have "engine_reach idle interval (foldl exec_op e ops)" if "engine_reach idle interval e" for e
    using that by (induction ops arbitrary: e) (auto intro: exec_op_reach)
  then show ?thesis by (simp add: engine_run_def engine_reach.start)
qed

text \<open>
  Two schedules used below: a grain is activated, fails, is stopped and activated again; and an engine
  with two grains, one with a hook, is closed gracefully.
\<close>

definition demo_grain :: "string \<Rightarrow> grain_id" where
  "demo_grain key = GrainId ''t'' key"

definition demo_deactivation :: "addr \<Rightarrow> engine_op list" where
  "demo_deactivation a = [OpCloseBox a, OpBoxDone a, OpWaiter a, OpWaiter a, OpWaiter a, OpWaiter a]"

definition demo_restart :: "engine_op list" where
  "demo_restart = [OpLookup (demo_grain ''a''), OpCreate (demo_grain ''a'') True 0, OpStop 0] @
     demo_deactivation 0 @ [OpLookup (demo_grain ''a''), OpCreate (demo_grain ''a'') True 1]"

definition demo_close :: "engine_op list" where
  "demo_close = [OpLookup (demo_grain ''a''), OpCreate (demo_grain ''a'') True 0,
     OpLookup (demo_grain ''b''), OpCreate (demo_grain ''b'') False 0, OpBeginClose] @
     demo_deactivation 0 @ demo_deactivation 1 @ [OpEvictExit, OpDrain]"

section \<open>Properties of the reachable states\<close>

text \<open>
  C2. In every reachable state, whatever the interleaving of calls, evictions, stops and waiters, a
  grain has at most one activation that is active or still deactivating: a new one is created only
  after the old one stopped.
\<close>

theorem one_activation_per_grain:
  assumes "engine_reach idle interval e" and "a < length (e_heap e)" and "b < length (e_heap e)"
    and "a_state (e_heap e ! a) \<noteq> ActivationStopped" and "a_state (e_heap e ! b) \<noteq> ActivationStopped"
    and "a_id (e_heap e ! a) = a_id (e_heap e ! b)"
  shows "a = b"
proof -
  have "gm_get (e_activations e) (a_id (e_heap e ! c)) = Some c"
    if "c < length (e_heap e)" "a_state (e_heap e ! c) \<noteq> ActivationStopped" for c
    using slotD [of e c] that engine_reach_inv [OF assms(1)]
    by (auto simp: engine_inv_def core_inv_def slot_ok_def split: activation_state.splits)
  with assms show ?thesis by (metis option.inject)
qed

theorem one_activation_per_grain_witness:
  "length (e_heap (engine_run 5 1 demo_restart)) = 2 \<and>
   a_id (e_heap (engine_run 5 1 demo_restart) ! 0) = a_id (e_heap (engine_run 5 1 demo_restart) ! 1) \<and>
   a_state (e_heap (engine_run 5 1 demo_restart) ! 1) = ActivationActive \<and>
   a_state (e_heap (engine_run 5 1 demo_restart) ! 0) = ActivationStopped"
proof -
  let ?e = "engine_run 5 1 demo_restart"
  have v: "length (e_heap ?e) = 2" "a_id (e_heap ?e ! 0) = a_id (e_heap ?e ! 1)"
    "a_state (e_heap ?e ! 1) = ActivationActive" by code_simp+
  moreover have "a_state (e_heap ?e ! 0) = ActivationStopped"
    using one_activation_per_grain [OF engine_run_reach, of 0 5 1 demo_restart 1] v by auto
  ultimately show ?thesis by simp
qed





section \<open>Eviction and call accounting\<close>

lemma evict_fold_state:
  assumes "\<forall>b \<in> set as. b < length (e_heap e)"
  shows "a_state (e_heap (foldl (\<lambda>e a. if evictable now e a then snd (deactivateLocked a Idle e) else e) e as) ! a) =
    (if a \<in> set as \<and> evictable now e a then ActivationDeactivating else a_state (e_heap e ! a))"
  using assms
proof (induction as arbitrary: e)
  case (Cons b as)
  let ?e = "if evictable now e b then snd (deactivateLocked b Idle e) else e"
  have b: "b < length (e_heap e)" and le: "\<forall>c \<in> set as. c < length (e_heap ?e)"
    using Cons.prems by (auto simp: deactivateLocked_frame)
  have st: "a_state (e_heap ?e ! c) = (if c = b \<and> evictable now e b then ActivationDeactivating else a_state (e_heap e ! c))" for c
    using b by (simp add: deactivateLocked_state evictable_def Let_def)
  have ev: "evictable now ?e a \<longleftrightarrow> evictable now e a \<and> \<not> (a = b \<and> evictable now e b)"
  proof (cases "a = b")
    case True
    then show ?thesis using st [of a] by (auto simp: evictable_def Let_def)
  next
    case False
    have "e_idleTimeout ?e = e_idleTimeout e" "e_heap ?e ! a = e_heap e ! a"
      using False by (auto simp: deactivateLocked_def beginDeactivation_def startDeactivationWaiterLocked_def upd_act_def)
    then show ?thesis using False by (simp add: evictable_def Let_def)
  qed
  show ?case using Cons.IH [OF le] ev st [of a] by auto
qed simp

text \<open>
  A tick of the eviction loop deactivates exactly the activations of a running engine that are
  active, have no call admitted and not finished, and have been unused for the idle timeout; every
  other activation keeps its state.
\<close>

theorem evict_exactly_idle:
  assumes "engine_reach idle interval e" and "a < length (e_heap e)"
  shows "a_state (e_heap (evict now e) ! a) =
    (if e_state e = engineRunning \<and> a_state (e_heap e ! a) = ActivationActive \<and> a_calls (e_heap e ! a) = 0 \<and>
        time_add (a_lastUsed (e_heap e ! a)) (e_idleTimeout e) \<le> now
     then ActivationDeactivating else a_state (e_heap e ! a))"
proof -
  have inv: "engine_inv e" by (rule engine_reach_inv [OF assms(1)])
  have mapped: "a \<in> set (map snd (e_activations e))" if "a_state (e_heap e ! a) = ActivationActive"
    using slot_active [OF that slotD] inv assms(2) map_of_SomeD by (force simp: engine_inv_def core_inv_def)
  have addr: "\<forall>b \<in> set (map snd (e_activations e)). b < length (e_heap e)" using mapped_addr [OF inv] by simp
  show ?thesis
    using mapped evict_fold_state [OF addr, of now a] by (auto simp: evict_def evictable_def Let_def)
qed

theorem evict_exactly_idle_witness:
  "a_state (e_heap (evict 6 (engine_run 5 1 demo_restart)) ! 1) = ActivationDeactivating \<and>
   a_state (e_heap (evict 5 (engine_run 5 1 demo_restart)) ! 1) = ActivationActive"
proof -
  let ?e = "engine_run 5 1 demo_restart"
  have v: "1 < length (e_heap ?e)" "e_state ?e = engineRunning" "a_state (e_heap ?e ! 1) = ActivationActive"
    "a_calls (e_heap ?e ! 1) = 0" "time_add (a_lastUsed (e_heap ?e ! 1)) (e_idleTimeout ?e) = 6" by code_simp+
  show ?thesis using evict_exactly_idle [OF engine_run_reach v(1)] v by simp
qed

lemma deactivateLocked_calls:
  "a_calls (e_heap (snd (deactivateLocked a r e)) ! b) = a_calls (e_heap e ! b)"
proof -
  have "a_calls ((e_heap e)[a := (e_heap e ! a)\<lparr>a_state := s, a_reason := x\<rparr>] ! b) = a_calls (e_heap e ! b)" for s x
    by (cases "a = b"; cases "a < length (e_heap e)") (simp_all add: list_update_beyond)
  then show ?thesis
    by (simp add: deactivateLocked_def beginDeactivation_def startDeactivationWaiterLocked_def upd_act_def)
qed

lemma dispatch_calls:
  "a_calls (e_heap (snd (dispatch d a e)) ! b) = a_calls (e_heap e ! b)"
  "length (e_heap (snd (dispatch d a e))) = length (e_heap e)"
  by (auto simp: dispatch_def stopActivation_def deactivateLocked_calls deactivateLocked_frame
      split: dispatch_outcome.splits option.splits)

lemma callFinished_calls:
  "a < length (e_heap e) \<Longrightarrow> a_calls (e_heap (callFinished a e) ! a) = wrap64 (a_calls (e_heap e ! a) - 1)"
  "length (e_heap (callFinished a e)) = length (e_heap e)"
  by (simp_all add: callFinished_def upd_act_nth)

abbreviation mail_rejection :: "go_error \<Rightarrow> bool" where
  "mail_rejection x \<equiv> errors_Is x (TSentinel MailErrOverloaded) \<or> errors_Is x (TSentinel MailErrClosed)"



end
