(* ===== verification/Gor_Root.thy ===== *)
theory Gor_Root
  imports Gor_Node Gor_Engine
begin

text \<open>
  The root runtime of \<open>gor.go\<close>: options and \<open>New\<close>, the lifecycle behind \<open>lifecycleMu\<close> with its admission
  gate and drain channel, routing by ownership, installation and registration of types, the reaction to
  a changed view, and the stop sequences. Values of the generated argument and reply structs are of an
  arbitrary type \<open>'a\<close>. Counters of live calls are integers without a bound.
\<close>

section \<open>Configuration\<close>

text \<open>
  A store is named by a number; \<open>sh_reminders\<close> says whether it also implements \<open>ReminderStore\<close>. The
  store \<open>New\<close> creates is number 0, an in-memory store; clock number 0 is \<open>clock.Real{}\<close>.
\<close>

record store_handle =
  sh_id :: nat
  sh_reminders :: bool

record root_config =
  rc_Clock :: nat
  rc_MailboxCapacity :: int
  rc_IdleTimeout :: duration
  rc_EvictionInterval :: duration
  rc_Store :: store_handle
  rc_ReminderStore :: "store_handle option"
  rc_ReminderInterval :: duration
  rc_Transport :: bool
  rc_OnError :: bool
  rc_OnCall :: bool
  rc_MemberStore :: bool
  rc_NodeAddr :: string
  rc_Generation :: string
  rc_HeartbeatInterval :: duration
  rc_ViewInterval :: duration
  rc_ProbeInterval :: duration
  rc_ProbeTimeout :: duration
  rc_ProbeFailures :: int
  rc_VoteTTL :: duration
  rc_MaxTickGap :: duration
  rc_MaxTableLatency :: duration

type_synonym root_option = "root_config \<Rightarrow> root_config"

definition WithClock :: "nat \<Rightarrow> root_option" where "WithClock v c = c\<lparr>rc_Clock := v\<rparr>"
definition WithMailboxCapacity :: "int \<Rightarrow> root_option" where "WithMailboxCapacity v c = c\<lparr>rc_MailboxCapacity := v\<rparr>"
definition WithIdleTimeout :: "duration \<Rightarrow> root_option" where "WithIdleTimeout v c = c\<lparr>rc_IdleTimeout := v\<rparr>"
definition WithEvictionInterval :: "duration \<Rightarrow> root_option" where "WithEvictionInterval v c = c\<lparr>rc_EvictionInterval := v\<rparr>"
definition WithStore :: "store_handle \<Rightarrow> root_option" where "WithStore v c = c\<lparr>rc_Store := v\<rparr>"
definition WithReminderStore :: "store_handle option \<Rightarrow> root_option" where "WithReminderStore v c = c\<lparr>rc_ReminderStore := v\<rparr>"
definition WithReminderInterval :: "duration \<Rightarrow> root_option" where "WithReminderInterval v c = c\<lparr>rc_ReminderInterval := v\<rparr>"
definition WithTransport :: "bool \<Rightarrow> root_option" where "WithTransport v c = c\<lparr>rc_Transport := v\<rparr>"
definition OnError :: "bool \<Rightarrow> root_option" where "OnError f c = c\<lparr>rc_OnError := f\<rparr>"
definition OnCall :: "bool \<Rightarrow> root_option" where "OnCall f c = c\<lparr>rc_OnCall := f\<rparr>"
definition WithMemberStore :: "bool \<Rightarrow> root_option" where "WithMemberStore v c = c\<lparr>rc_MemberStore := v\<rparr>"
definition WithNodeAddr :: "string \<Rightarrow> root_option" where "WithNodeAddr v c = c\<lparr>rc_NodeAddr := v\<rparr>"
definition WithGeneration :: "string \<Rightarrow> root_option" where "WithGeneration v c = c\<lparr>rc_Generation := v\<rparr>"
definition WithHeartbeatInterval :: "duration \<Rightarrow> root_option" where "WithHeartbeatInterval v c = c\<lparr>rc_HeartbeatInterval := v\<rparr>"
definition WithViewInterval :: "duration \<Rightarrow> root_option" where "WithViewInterval v c = c\<lparr>rc_ViewInterval := v\<rparr>"
definition WithProbeInterval :: "duration \<Rightarrow> root_option" where "WithProbeInterval v c = c\<lparr>rc_ProbeInterval := v\<rparr>"
definition WithProbeTimeout :: "duration \<Rightarrow> root_option" where "WithProbeTimeout v c = c\<lparr>rc_ProbeTimeout := v\<rparr>"
definition WithProbeFailures :: "int \<Rightarrow> root_option" where "WithProbeFailures v c = c\<lparr>rc_ProbeFailures := v\<rparr>"
definition WithVoteTTL :: "duration \<Rightarrow> root_option" where "WithVoteTTL v c = c\<lparr>rc_VoteTTL := v\<rparr>"
definition WithMaxTickGap :: "duration \<Rightarrow> root_option" where "WithMaxTickGap v c = c\<lparr>rc_MaxTickGap := v\<rparr>"
definition WithMaxTableLatency :: "duration \<Rightarrow> root_option" where "WithMaxTableLatency v c = c\<lparr>rc_MaxTableLatency := v\<rparr>"

definition default_config :: root_config where
  "default_config = \<lparr>rc_Clock = 0, rc_MailboxCapacity = 16, rc_IdleTimeout = 60 * nanosPerSecond,
     rc_EvictionInterval = nanosPerSecond, rc_Store = \<lparr>sh_id = 0, sh_reminders = True\<rparr>, rc_ReminderStore = None,
     rc_ReminderInterval = nanosPerSecond, rc_Transport = False, rc_OnError = False, rc_OnCall = False,
     rc_MemberStore = False, rc_NodeAddr = [], rc_Generation = [], rc_HeartbeatInterval = nanosPerSecond,
     rc_ViewInterval = nanosPerSecond, rc_ProbeInterval = 0, rc_ProbeTimeout = 0, rc_ProbeFailures = 0,
     rc_VoteTTL = 0, rc_MaxTickGap = 0, rc_MaxTableLatency = 0\<rparr>"

definition cluster_config :: "root_config \<Rightarrow> config" where
  "cluster_config c = \<lparr>cf_hasProber = True, cf_NodeAddr = rc_NodeAddr c, cf_Generation = rc_Generation c,
     cf_HeartbeatInterval = rc_HeartbeatInterval c, cf_ViewInterval = rc_ViewInterval c,
     cf_ProbeInterval = rc_ProbeInterval c, cf_ProbeTimeout = rc_ProbeTimeout c,
     cf_ProbeFailures = rc_ProbeFailures c, cf_VoteTTL = rc_VoteTTL c, cf_MaxTickGap = rc_MaxTickGap c,
     cf_MaxTableLatency = rc_MaxTableLatency c\<rparr>"

section \<open>State\<close>

datatype root_state = rootRunning | rootClosing | rootKilling | rootDead | rootStopped

record tick_status =
  ts_FirstTickTime :: gtime
  ts_Period :: duration
  ts_CurrentTickTime :: gtime

text \<open>A call factory gives the argument and the reply it allocates; both are nil for an unknown method.\<close>

record 'a type_registration =
  tr_newCall :: "string \<Rightarrow> 'a option \<times> 'a option"
  tr_newReminderCall :: "(string \<Rightarrow> tick_status \<Rightarrow> 'a option \<times> 'a option) option"

datatype transport_call = TransportClose | TransportKill

text \<open>
  \<open>rt_view\<close> is \<open>None\<close> when there is no cluster node. \<open>rt_drained\<close> is \<open>None\<close> for the nil channel and
  \<open>Some closed\<close> otherwise. \<open>rt_transportCalls\<close> records the stop calls the transport received.
\<close>

record 'a root =
  rt_engine :: engine
  rt_reminderStore :: "store_handle option"
  rt_onError :: bool
  rt_onCall :: bool
  rt_poller :: bool
  rt_transport :: bool
  rt_transportClosing :: bool
  rt_transportCalls :: "transport_call list"
  rt_view :: "view option"
  rt_done :: bool
  rt_state :: root_state
  rt_stopCode :: code
  rt_inflight :: int
  rt_drained :: "bool option"
  rt_nodeAddr :: string
  rt_types :: "(string, 'a type_registration) gomap"
  rt_panicked :: bool

text \<open>
  \<open>New\<close>: the node joins through the member table of the world; the first view is read from the channel
  the node was created with.
\<close>

definition Root_New ::
    "env \<Rightarrow> gtime \<Rightarrow> gtime \<Rightarrow> root_option list \<Rightarrow> world \<Rightarrow> ('a root \<times> node_run option) result \<times> world" where
  "Root_New env now1 now2 options w =
     (let c = foldl (\<lambda>c option. option c) default_config options
      in if rc_MemberStore c \<noteq> rc_Transport c
         then (Inl (NewErr ''member store and transport must be configured together''), w)
         else
           (let c = (if rc_ReminderStore c = None \<and> sh_reminders (rc_Store c)
                     then c\<lparr>rc_ReminderStore := Some (rc_Store c)\<rparr> else c);
                rt = \<lparr>rt_engine = Engine_New (rc_IdleTimeout c) (rc_EvictionInterval c),
                  rt_reminderStore = rc_ReminderStore c, rt_onError = rc_OnError c, rt_onCall = rc_OnCall c,
                  rt_poller = (rc_ReminderStore c \<noteq> None \<and> 0 < rc_ReminderInterval c),
                  rt_transport = rc_Transport c, rt_transportClosing = False, rt_transportCalls = [],
                  rt_view = None, rt_done = False, rt_state = rootRunning, rt_stopCode = [], rt_inflight = 0,
                  rt_drained = None, rt_nodeAddr = [], rt_types = [], rt_panicked = False\<rparr>
            in if \<not> rc_MemberStore c then (Inr (rt, None), w)
               else
                 (case Node_New env now1 now2 (cluster_config c) w of
                    (Inl e, w1) \<Rightarrow> (Inl (Wrap (''start cluster node: '' @ error_text e) e), w1)
                  | (Inr run, w1) \<Rightarrow>
                      (Inr (rt\<lparr>rt_nodeAddr := rc_NodeAddr c, rt_view := nd_views (nr_node run)\<rparr>,
                            Some (run\<lparr>nr_node := (nr_node run)\<lparr>nd_views := None\<rparr>\<rparr>)), w1))))"

section \<open>Lifecycle\<close>

definition Root_leaveRunning :: "root_state \<Rightarrow> code \<Rightarrow> 'a root \<Rightarrow> 'a root" where
  "Root_leaveRunning next code rt =
     (let rt1 = rt\<lparr>rt_state := next, rt_stopCode := code, rt_drained := Some (rt_inflight rt = 0)\<rparr>
      in if rt_done rt1 then rt1\<lparr>rt_panicked := True\<rparr> else rt1\<lparr>rt_done := True\<rparr>)"

definition Root_beginClose :: "'a root \<Rightarrow> bool \<times> 'a root" where
  "Root_beginClose rt =
     (if rt_state rt \<noteq> rootRunning then (False, rt) else (True, Root_leaveRunning rootClosing ErrRuntimeClosed rt))"

definition Root_beginKill :: "'a root \<Rightarrow> bool \<times> 'a root" where
  "Root_beginKill rt =
     (case rt_state rt of
        rootRunning \<Rightarrow> (True, Root_leaveRunning rootKilling ErrRuntimeClosed rt)
      | rootClosing \<Rightarrow> (True, rt\<lparr>rt_state := rootKilling\<rparr>)
      | _ \<Rightarrow> (False, rt))"

definition Root_becomeDead :: "'a root \<Rightarrow> bool \<times> 'a root" where
  "Root_becomeDead rt =
     (if rt_state rt \<noteq> rootRunning then (False, rt) else (True, Root_leaveRunning rootDead ErrNodeDead rt))"

definition Root_finishStop :: "'a root \<Rightarrow> 'a root" where
  "Root_finishStop rt =
     (if rt_state rt = rootClosing \<or> rt_state rt = rootKilling \<or> rt_state rt = rootDead
      then rt\<lparr>rt_state := rootStopped\<rparr> else rt)"

definition stopRejection :: "code \<Rightarrow> go_error" where
  "stopRejection code =
     (if code = ErrNodeDead then withCode ErrNodeDead (NewErr ''node declared dead'')
      else withCode ErrRuntimeClosed (NewErr ''runtime is not accepting calls''))"

definition Root_admit :: "'a root \<Rightarrow> unit result \<times> 'a root" where
  "Root_admit rt =
     (if rt_state rt = rootRunning then (Inr (), rt\<lparr>rt_inflight := rt_inflight rt + 1\<rparr>)
      else (Inl (stopRejection (rt_stopCode rt)), rt))"

definition Root_release :: "'a root \<Rightarrow> 'a root" where
  "Root_release rt =
     (let rt1 = rt\<lparr>rt_inflight := rt_inflight rt - 1\<rparr>
      in if rt_inflight rt1 = 0 \<and> rt_state rt1 \<noteq> rootRunning \<and> rt_drained rt1 \<noteq> None
         then (if rt_drained rt1 = Some True then rt1\<lparr>rt_panicked := True\<rparr> else rt1\<lparr>rt_drained := None\<rparr>)
         else rt1)"

text \<open>Whether \<open>waitDrained\<close> returns without waiting.\<close>

definition Root_waitDrained :: "'a root \<Rightarrow> bool" where
  "Root_waitDrained rt \<longleftrightarrow> rt_drained rt = None \<or> rt_drained rt = Some True"

section \<open>Routing\<close>

datatype route = RunLocal | ForwardTo string | NoRoute go_error

definition Root_route :: "'a root \<Rightarrow> grain_id \<Rightarrow> route" where
  "Root_route rt i =
     (case rt_view rt of
        None \<Rightarrow> RunLocal
      | Some view \<Rightarrow>
          (case Owner view i of
             None \<Rightarrow> NoRoute (Wrap (ErrNoOwner @ '': identity currently has no active owner'') (CodeErr ErrNoOwner))
           | Some owner \<Rightarrow> if owner \<noteq> rt_nodeAddr rt then ForwardTo owner else RunLocal))"

text \<open>
  \<open>invoke\<close>: \<open>run_local\<close> is the engine, \<open>forward\<close> the forwarding; both may let other goroutines change the
  runtime while they run. The release is deferred.
\<close>

definition Root_invoke ::
    "('a root \<Rightarrow> go_error option \<times> 'a root) \<Rightarrow> (string \<Rightarrow> 'a root \<Rightarrow> go_error option \<times> 'a root) \<Rightarrow>
     grain_id \<Rightarrow> 'a root \<Rightarrow> go_error option \<times> 'a root" where
  "Root_invoke run_local forward i rt =
     (case Root_admit rt of
        (Inl e, rt1) \<Rightarrow> (Some e, rt1)
      | (Inr _, rt1) \<Rightarrow>
          (case (case Root_route rt1 i of
                   RunLocal \<Rightarrow> run_local rt1
                 | ForwardTo owner \<Rightarrow> forward owner rt1
                 | NoRoute e \<Rightarrow> (Some e, rt1)) of
             (err, rt2) \<Rightarrow> (err, Root_release rt2)))"

record call_observation =
  co_GrainType :: string
  co_Method :: string
  co_Duration :: duration
  co_Err :: "go_error option"

definition Root_Invoke ::
    "('a root \<Rightarrow> go_error option \<times> 'a root) \<Rightarrow> (string \<Rightarrow> 'a root \<Rightarrow> go_error option \<times> 'a root) \<Rightarrow>
     gtime \<Rightarrow> gtime \<Rightarrow> string \<Rightarrow> grain_id \<Rightarrow> 'a root \<Rightarrow>
     go_error option \<times> call_observation option \<times> 'a root" where
  "Root_Invoke run_local forward started finished method i rt =
     (case Root_invoke run_local forward i rt of (e, rt1) \<Rightarrow>
        (let err = publicError e
         in (err,
             if rt_onCall rt
             then Some \<lparr>co_GrainType = GrainType i, co_Method = method,
                    co_Duration = time_sub finished started, co_Err = err\<rparr>
             else None, rt1)))"

definition Root_Owns :: "'a root \<Rightarrow> grain_id \<Rightarrow> bool" where
  "Root_Owns rt i =
     (case rt_view rt of
        None \<Rightarrow> True
      | Some view \<Rightarrow> (case Owner view i of None \<Rightarrow> False | Some owner \<Rightarrow> owner = rt_nodeAddr rt))"

section \<open>Types\<close>

definition InstallType :: "string \<Rightarrow> 'a type_registration \<Rightarrow> 'a root \<Rightarrow> go_error option \<times> 'a root" where
  "InstallType name registration rt =
     (if gm_get (rt_types rt) name \<noteq> None
      then (Some (NewErr (''entity type '' @ go_quote name @ '' is already installed'')), rt)
      else (None, rt\<lparr>rt_types := gm_put name registration (rt_types rt)\<rparr>))"

definition Root_typeRegistration :: "'a root \<Rightarrow> string \<Rightarrow> 'a type_registration option" where
  "Root_typeRegistration rt name = gm_get (rt_types rt) name"

text \<open>\<open>Register\<close>; the deactivation function it hands to the engine is never nil.\<close>

definition Root_Register :: "string \<Rightarrow> 'a root \<Rightarrow> go_error option \<times> 'a root" where
  "Root_Register name rt =
     (case Root_typeRegistration rt name of
        None \<Rightarrow> (Some (Wrap (ErrTypeNotInstalled @ '': '' @ name) (CodeErr ErrTypeNotInstalled)), rt)
      | Some _ \<Rightarrow>
          (case Engine_Register name True (rt_engine rt) of (err, e) \<Rightarrow> (err, rt\<lparr>rt_engine := e\<rparr>)))"

text \<open>\<open>Ref\<close>: the identity the proxy is bound to; \<open>Inl\<close> is the panic message.\<close>

definition Root_Ref :: "'a root \<Rightarrow> string \<Rightarrow> string \<Rightarrow> string + grain_id" where
  "Root_Ref rt name key =
     (case Root_typeRegistration rt name of
        None \<Rightarrow> Inl (ErrTypeNotInstalled @ '': '' @ name)
      | Some _ \<Rightarrow> Inr (GrainId name key))"

definition Root_newReminderCall ::
    "'a root \<Rightarrow> grain_id \<Rightarrow> string \<Rightarrow> gtime \<Rightarrow> duration \<Rightarrow> gtime \<Rightarrow> 'a option \<times> 'a option" where
  "Root_newReminderCall rt i method firstTickTime period currentTickTime =
     (case Root_typeRegistration rt (GrainType i) of
        None \<Rightarrow> (None, None)
      | Some registration \<Rightarrow>
          (case tr_newReminderCall registration of
             None \<Rightarrow> (None, None)
           | Some f \<Rightarrow> f method \<lparr>ts_FirstTickTime = firstTickTime, ts_Period = period,
                               ts_CurrentTickTime = currentTickTime\<rparr>))"

section \<open>Background errors\<close>

datatype error_source = ReminderInvocation string | Deactivation deactivation_reason

record background_error =
  be_GrainId :: grain_id
  be_Err :: go_error
  be_Source :: error_source

text \<open>
  The deactivation function of \<open>Register\<close>: \<open>hook\<close> is the result of \<open>OnDeactivate\<close>, \<open>None\<close> when the
  entity is not \<open>Deactivatable\<close>.
\<close>

definition Register_OnDeactivate ::
    "'a root \<Rightarrow> grain_id \<Rightarrow> deactivation_reason \<Rightarrow> go_error option option \<Rightarrow> background_error option" where
  "Register_OnDeactivate rt i reason hook =
     (case hook of
        None \<Rightarrow> None
      | Some None \<Rightarrow> None
      | Some (Some err) \<Rightarrow>
          if rt_onError rt then Some \<lparr>be_GrainId = i, be_Err = err, be_Source = Deactivation reason\<rparr> else None)"

definition reminderInvoker_Invoke ::
    "('a root \<Rightarrow> go_error option \<times> 'a root) \<Rightarrow> (string \<Rightarrow> 'a root \<Rightarrow> go_error option \<times> 'a root) \<Rightarrow>
     gtime \<Rightarrow> gtime \<Rightarrow> go_error option \<Rightarrow> string \<Rightarrow> grain_id \<Rightarrow> 'a root \<Rightarrow>
     go_error option \<times> background_error option \<times> 'a root" where
  "reminderInvoker_Invoke run_local forward started finished ctx_err method i rt =
     (case Root_Invoke run_local forward started finished method i rt of (err, _, rt1) \<Rightarrow>
        (err,
         (case err of
            None \<Rightarrow> None
          | Some e \<Rightarrow>
              if ctx_err = None \<and> rt_onError rt1
              then Some \<lparr>be_GrainId = i, be_Err = e, be_Source = ReminderInvocation method\<rparr> else None),
         rt1))"

definition reminderInvoker_Owns :: "'a root \<Rightarrow> grain_id \<Rightarrow> bool" where
  "reminderInvoker_Owns rt i = Root_Owns rt i"

section \<open>Views and stopping\<close>

definition deactivateMovedActivations :: "view \<Rightarrow> 'a root \<Rightarrow> 'a root" where
  "deactivateMovedActivations view rt =
     rt\<lparr>rt_engine := foldl (\<lambda>e i.
          (case Owner view i of
             None \<Rightarrow> Engine_Deactivate i e
           | Some owner \<Rightarrow> if owner \<noteq> rt_nodeAddr rt then Engine_Deactivate i e else e))
        (rt_engine rt) (GrainIds (rt_engine rt))\<rparr>"

text \<open>One turn of the loop of \<open>watchCluster\<close>.\<close>

definition watchCluster_view :: "view \<Rightarrow> 'a root \<Rightarrow> 'a root" where
  "watchCluster_view view rt = deactivateMovedActivations view (rt\<lparr>rt_view := Some view\<rparr>)"

text \<open>\<open>closeTransport\<close>; the wait for \<open>Serve\<close> to return is left out.\<close>

definition closeTransport :: "bool \<Rightarrow> 'a root \<Rightarrow> 'a root" where
  "closeTransport graceful rt =
     (if \<not> rt_transport rt then rt
      else if \<not> rt_transportClosing rt
        then rt\<lparr>rt_transportClosing := True,
                rt_transportCalls := rt_transportCalls rt @ [if graceful then TransportClose else TransportKill]\<rparr>
      else if \<not> graceful then rt\<lparr>rt_transportCalls := rt_transportCalls rt @ [TransportKill]\<rparr>
      else rt)"

text \<open>
  The stop sequences as the commands they give to the subsystems, in order: \<open>closeGracefully\<close>,
  \<open>closeImmediately\<close> and the end of \<open>watchCluster\<close>.
\<close>

datatype stop_command =
    ClosePoller | CloseNode | KillNode | AwaitCluster | BeginCloseEngine | BeginKillEngine | AwaitEngine
  | AwaitDrained | CloseTransportCmd bool | FinishStopCmd

definition closeGracefully :: "'a root \<Rightarrow> stop_command list" where
  "closeGracefully rt =
     (if rt_poller rt then [ClosePoller] else []) @
     (if rt_view rt \<noteq> None then [CloseNode, AwaitCluster] else []) @
     [BeginCloseEngine, AwaitEngine, AwaitDrained, CloseTransportCmd True, FinishStopCmd]"

definition closeImmediately :: "'a root \<Rightarrow> stop_command list" where
  "closeImmediately rt =
     (if rt_poller rt then [ClosePoller] else []) @
     (if rt_view rt \<noteq> None then [KillNode, AwaitCluster] else []) @
     [BeginKillEngine, AwaitEngine, CloseTransportCmd False, FinishStopCmd]"

definition watchCluster_end :: "bool \<Rightarrow> 'a root \<Rightarrow> stop_command list \<times> 'a root" where
  "watchCluster_end declaredDead rt =
     (if \<not> declaredDead then ([], rt)
      else (case Root_becomeDead rt of
              (False, rt1) \<Rightarrow> ([], rt1)
            | (True, rt1) \<Rightarrow>
                ((if rt_poller rt1 then [ClosePoller] else []) @
                 [BeginKillEngine, AwaitEngine, CloseTransportCmd False, FinishStopCmd], rt1)))"

text \<open>
  What a command does; \<open>None\<close> while it waits. The commands to the poller and the node leave the runtime
  alone, and the end of the node's watch (\<open>clusterDone\<close>) is an argument.
\<close>

definition run_command :: "bool \<Rightarrow> stop_command \<Rightarrow> 'a root \<Rightarrow> 'a root option" where
  "run_command clusterDone cmd rt =
     (case cmd of
        ClosePoller \<Rightarrow> Some rt
      | CloseNode \<Rightarrow> Some rt
      | KillNode \<Rightarrow> Some rt
      | AwaitCluster \<Rightarrow> if clusterDone then Some rt else None
      | BeginCloseEngine \<Rightarrow> Some (rt\<lparr>rt_engine := Engine_BeginClose (rt_engine rt)\<rparr>)
      | BeginKillEngine \<Rightarrow> Some (rt\<lparr>rt_engine := Engine_BeginKill (rt_engine rt)\<rparr>)
      | AwaitEngine \<Rightarrow> if e_done (rt_engine rt) then Some rt else None
      | AwaitDrained \<Rightarrow> if Root_waitDrained rt then Some rt else None
      | CloseTransportCmd graceful \<Rightarrow> Some (closeTransport graceful rt)
      | FinishStopCmd \<Rightarrow> Some (Root_finishStop rt))"


section \<open>The lifecycle under all interleavings\<close>

text \<open>\<open>n\<close> counts the calls that were admitted and have not released yet.\<close>

inductive root_step :: "nat \<times> 'a root \<Rightarrow> nat \<times> 'a root \<Rightarrow> bool" where
  admitted: "Root_admit rt = (Inr (), rt') \<Longrightarrow> root_step (n, rt) (Suc n, rt')"
| refused: "Root_admit rt = (Inl e, rt') \<Longrightarrow> root_step (n, rt) (n, rt')"
| released: "root_step (Suc n, rt) (n, Root_release rt)"
| close: "root_step (n, rt) (n, snd (Root_beginClose rt))"
| kill: "root_step (n, rt) (n, snd (Root_beginKill rt))"
| dead: "root_step (n, rt) (n, snd (Root_becomeDead rt))"
| finish: "root_step (n, rt) (n, Root_finishStop rt)"

text \<open>A runtime as \<open>New\<close> leaves it, and what can follow.\<close>

definition fresh_root :: "'a root \<Rightarrow> bool" where
  "fresh_root rt \<longleftrightarrow> rt_state rt = rootRunning \<and> rt_inflight rt = 0 \<and> rt_drained rt = None \<and> \<not> rt_done rt \<and>
     \<not> rt_panicked rt"

definition root_reach :: "nat \<times> 'a root \<Rightarrow> bool" where
  "root_reach s \<longleftrightarrow> (\<exists>rt. fresh_root rt \<and> root_step\<^sup>*\<^sup>* (0, rt) s)"

definition root_inv :: "nat \<times> 'a root \<Rightarrow> bool" where
  "root_inv = (\<lambda>(n, rt). rt_inflight rt = int n \<and> \<not> rt_panicked rt \<and>
     (rt_done rt \<longleftrightarrow> rt_state rt \<noteq> rootRunning) \<and>
     (rt_state rt = rootRunning \<longrightarrow> rt_drained rt = None) \<and>
     (rt_state rt \<noteq> rootRunning \<longrightarrow> (rt_drained rt = Some False \<longleftrightarrow> n \<noteq> 0) \<and>
        (rt_stopCode rt = ErrRuntimeClosed \<or> rt_stopCode rt = ErrNodeDead)))"

lemma root_step_inv: "root_step s s' \<Longrightarrow> root_inv s \<Longrightarrow> root_inv s'"
  by (induction rule: root_step.induct)
    (auto simp: root_inv_def Root_admit_def Root_release_def Root_beginClose_def Root_beginKill_def
      Root_becomeDead_def Root_finishStop_def Root_leaveRunning_def Let_def split: if_splits root_state.splits)

lemma root_steps_inv: "root_step\<^sup>*\<^sup>* s s' \<Longrightarrow> root_inv s \<Longrightarrow> root_inv s'"
  by (induction rule: rtranclp_induct) (auto intro: root_step_inv)

lemma root_reach_inv:
  assumes "root_reach s"
  shows "root_inv s"
proof -
  obtain rt where "fresh_root rt" and steps: "root_step\<^sup>*\<^sup>* (0, rt) s" using assms by (auto simp: root_reach_def)
  then have "root_inv (0, rt)" by (simp add: root_inv_def fresh_root_def)
  then show ?thesis by (rule root_steps_inv [OF steps])
qed

text \<open>Once stopped, always stopped, with the code of the first stop, and no further call.\<close>

definition stopped_with :: "nat \<Rightarrow> code \<Rightarrow> nat \<times> 'a root \<Rightarrow> bool" where
  "stopped_with m c = (\<lambda>(n, rt). rt_state rt \<noteq> rootRunning \<and> rt_stopCode rt = c \<and> n \<le> m)"

lemma stopped_step: "root_step s s' \<Longrightarrow> stopped_with m c s \<Longrightarrow> stopped_with m c s'"
  by (induction rule: root_step.induct)
    (auto simp: stopped_with_def Root_admit_def Root_release_def Root_beginClose_def Root_beginKill_def
      Root_becomeDead_def Root_finishStop_def Let_def split: if_splits root_state.splits)

lemma stopped_steps: "root_step\<^sup>*\<^sup>* s s' \<Longrightarrow> stopped_with m c s \<Longrightarrow> stopped_with m c s'"
  by (induction rule: rtranclp_induct) (auto intro: stopped_step)

text \<open>
  C4. The admission gate. Whatever the order of calls, releases, \<open>Close\<close>, \<open>Kill\<close>, a declared death and
  the end of a stop: once the runtime left \<open>running\<close>, every later call is refused with an error whose
  code is the code of the first stop, no later event admits a call, \<open>Done\<close> is closed, and no channel is
  closed twice.
\<close>

theorem admission_gate:
  assumes "root_reach (n, rt)" and "rt_state rt \<noteq> rootRunning" and "root_step\<^sup>*\<^sup>* (n, rt) (n', rt')"
  shows "rt_done rt' \<and> \<not> rt_panicked rt' \<and> n' \<le> n \<and>
    (\<exists>e. Root_admit rt' = (Inl e, rt') \<and> CodeOf e = Some (rt_stopCode rt))"
proof -
  have inv: "root_inv (n', rt')" using root_reach_inv [OF assms(1)] root_steps_inv [OF assms(3)] by simp
  have "stopped_with n (rt_stopCode rt) (n', rt')"
    by (rule stopped_steps [OF assms(3)]) (simp add: stopped_with_def assms(2))
  then have st: "rt_state rt' \<noteq> rootRunning" "rt_stopCode rt' = rt_stopCode rt" "n' \<le> n"
    by (simp_all add: stopped_with_def)
  have code: "rt_stopCode rt = ErrRuntimeClosed \<or> rt_stopCode rt = ErrNodeDead"
    using inv st by (auto simp: root_inv_def)
  then have "CodeOf (stopRejection (rt_stopCode rt)) = Some (rt_stopCode rt)"
    by (auto simp: stopRejection_def CodeOf_def withCode_def)
  with st inv show ?thesis by (auto simp: root_inv_def Root_admit_def)
qed

text \<open>
  C13. The drain. In every reachable state of a stopping runtime, \<open>waitDrained\<close> passes exactly when no
  admitted call is still running, so a graceful stop closes the transport only after the last of them;
  and the count of calls in flight is exact.
\<close>

theorem drain_exact:
  assumes "root_reach (n, rt)"
  shows "rt_inflight rt = int n \<and> (rt_state rt \<noteq> rootRunning \<longrightarrow> (Root_waitDrained rt \<longleftrightarrow> n = 0))"
  using root_reach_inv [OF assms] by (cases "rt_drained rt") (auto simp: root_inv_def Root_waitDrained_def)

definition demo_root :: "bool \<Rightarrow> unit root" where
  "demo_root clustered = \<lparr>rt_engine = Engine_New 5 1, rt_reminderStore = None, rt_onError = True, rt_onCall = False,
     rt_poller = False, rt_transport = clustered, rt_transportClosing = False, rt_transportCalls = [],
     rt_view = None, rt_done = False, rt_state = rootRunning, rt_stopCode = [], rt_inflight = 0,
     rt_drained = None, rt_nodeAddr = ''n1'', rt_types = [], rt_panicked = False\<rparr>"

lemma demo_root_reach:
  "root_reach (1, snd (Root_beginClose (snd (Root_admit (demo_root True)))))"
proof -
  let ?r0 = "demo_root True"
  let ?r1 = "snd (Root_admit ?r0)"
  have "root_step (0, ?r0) (1, ?r1)"
    using root_step.admitted [of ?r0 ?r1 0] by (simp add: Root_admit_def demo_root_def)
  moreover have "root_step (1, ?r1) (1, snd (Root_beginClose ?r1))" by (rule root_step.close)
  moreover have "fresh_root ?r0" by (simp add: fresh_root_def demo_root_def)
  ultimately show ?thesis unfolding root_reach_def by (meson rtranclp.rtrancl_into_rtrancl rtranclp.rtrancl_refl)
qed

theorem admission_gate_witness:
  "\<exists>e. Root_admit (Root_release (snd (Root_beginClose (snd (Root_admit (demo_root True)))))) =
     (Inl e, Root_release (snd (Root_beginClose (snd (Root_admit (demo_root True)))))) \<and>
     CodeOf e = Some ErrRuntimeClosed"
proof -
  let ?rt = "snd (Root_beginClose (snd (Root_admit (demo_root True))))"
  have s: "root_step\<^sup>*\<^sup>* (1, ?rt) (0, Root_release ?rt)"
    using root_step.released [of 0 ?rt] by (simp add: r_into_rtranclp)
  have v: "rt_state ?rt \<noteq> rootRunning" "rt_stopCode ?rt = ErrRuntimeClosed"
    by (simp_all add: demo_root_def Root_admit_def Root_beginClose_def Root_leaveRunning_def)
  show ?thesis using admission_gate [OF demo_root_reach v(1) s] v(2) by auto
qed

theorem drain_exact_witness:
  "\<not> Root_waitDrained (snd (Root_beginClose (snd (Root_admit (demo_root True)))))"
  using drain_exact [OF demo_root_reach]
  by (simp add: demo_root_def Root_admit_def Root_beginClose_def Root_leaveRunning_def)


section \<open>Routing and ownership\<close>

lemma Root_route_local: "Root_route rt i = RunLocal \<longleftrightarrow> Root_Owns rt i"
  by (auto simp: Root_route_def Root_Owns_def split: option.splits)

text \<open>
  Ownership decides where a call runs. Among runtimes that hold the same view under different
  addresses, at most one runs a given identity itself; any other forwards it to that runtime's address
  or refuses it, and where a call is forwarded to a runtime with the same view, that runtime runs it.
\<close>

theorem routing_single_owner:
  assumes "rt_view r1 = Some v" and "rt_view r2 = Some v" and "rt_nodeAddr r1 \<noteq> rt_nodeAddr r2"
  shows "\<not> (Root_route r1 i = RunLocal \<and> Root_route r2 i = RunLocal) \<and>
    (Root_route r1 i = RunLocal \<longrightarrow> Root_route r2 i = ForwardTo (rt_nodeAddr r1)) \<and>
    (Root_route r1 i = ForwardTo (rt_nodeAddr r2) \<longrightarrow> Root_route r2 i = RunLocal)"
  using assms by (auto simp: Root_route_def split: option.splits if_splits)

definition demo_peer :: "string \<Rightarrow> unit root" where
  "demo_peer addr = (demo_root True)\<lparr>rt_nodeAddr := addr,
     rt_view := Some (NewView [demo_member ''n1''])\<rparr>"

theorem routing_single_owner_witness:
  "Root_route (demo_peer ''n2'') (GrainId ''t'' ''k'') = ForwardTo ''n1''"
proof -
  have v: "Root_route (demo_peer ''n1'') (GrainId ''t'' ''k'') = RunLocal"
    using Owner_active [of "[demo_member ''n1'']" "GrainId ''t'' ''k''"]
    by (auto simp: Root_route_def demo_peer_def active_keys_list demo_member_def split: option.splits)
  show ?thesis
    using routing_single_owner [of "demo_peer ''n1''" _ "demo_peer ''n2''" "GrainId ''t'' ''k''"] v
    by (simp add: demo_peer_def)
qed

section \<open>A changed view\<close>

lemma Engine_Deactivate_state:
  assumes "engine_inv e" and "a < length (e_heap e)"
  shows "a_state (e_heap (Engine_Deactivate i e) ! a) =
    (if a_id (e_heap e ! a) = i \<and> a_state (e_heap e ! a) = ActivationActive then ActivationDeactivating
     else a_state (e_heap e ! a))"
proof (cases "gm_get (e_activations e) i")
  case None
  have "a_id (e_heap e ! a) \<noteq> i" if "a_state (e_heap e ! a) = ActivationActive"
    using slot_active [OF that slotD] None assms by (auto simp: engine_inv_def core_inv_def)
  with None show ?thesis by (auto simp: Engine_Deactivate_def)
next
  case (Some b)
  then have b: "b < length (e_heap e)" "a_id (e_heap e ! b) = i"
    using assms(1) by (auto simp: engine_inv_def core_inv_def maps_ok_def)
  have step: "Engine_Deactivate i e = snd (deactivateLocked b OwnershipLost e)"
    using Some by (simp add: Engine_Deactivate_def)
  show ?thesis
  proof (cases "a = b")
    case True
    then show ?thesis using b by (simp add: step deactivateLocked_state)
  next
    case False
    have "a_id (e_heap e ! a) \<noteq> i" if "a_state (e_heap e ! a) = ActivationActive"
      using slot_active [OF that slotD] Some False assms by (auto simp: engine_inv_def core_inv_def)
    then show ?thesis using False b(1) by (auto simp: step deactivateLocked_state)
  qed
qed

lemma Engine_Deactivate_frame:
  "length (e_heap (Engine_Deactivate i e)) = length (e_heap e)"
  "a_id (e_heap (Engine_Deactivate i e) ! a) = a_id (e_heap e ! a)"
proof -
  have "a_id ((e_heap e)[b := (e_heap e ! b)\<lparr>a_state := s, a_reason := x\<rparr>] ! a) = a_id (e_heap e ! a)" for b s x
    by (cases "b = a"; cases "b < length (e_heap e)") (simp_all add: list_update_beyond)
  then show "a_id (e_heap (Engine_Deactivate i e) ! a) = a_id (e_heap e ! a)"
    by (simp add: Engine_Deactivate_def deactivateLocked_def beginDeactivation_def
        startDeactivationWaiterLocked_def upd_act_def split: option.split)
qed (simp add: Engine_Deactivate_def deactivateLocked_frame split: option.split)

lemma moved_fold:
  assumes "engine_inv e" and "a < length (e_heap e)"
  shows "a_state (e_heap (foldl (\<lambda>e i. if P i then Engine_Deactivate i e else e) e ids) ! a) =
    (if a_state (e_heap e ! a) = ActivationActive \<and> a_id (e_heap e ! a) \<in> set ids \<and> P (a_id (e_heap e ! a))
     then ActivationDeactivating else a_state (e_heap e ! a))"
  using assms
proof (induction ids arbitrary: e)
  case (Cons i ids)
  let ?e = "if P i then Engine_Deactivate i e else e"
  have inv: "engine_inv ?e" using Cons.prems(1) Engine_Deactivate_inv by simp
  have a: "a < length (e_heap ?e)" using Cons.prems(2) by (simp add: Engine_Deactivate_frame)
  show ?case
    using Cons.IH [OF inv a] Engine_Deactivate_state [OF Cons.prems, of i]
    by (auto simp: Engine_Deactivate_frame)
qed simp

text \<open>
  A new view takes ownership away: after \<open>watchCluster\<close> handled it, every activation that is still
  active belongs to an identity this node owns under the new view, and the active activations of owned
  identities were left alone.
\<close>

theorem view_change_deactivates_moved:
  assumes "engine_reach idle interval (rt_engine rt)" and "a < length (e_heap (rt_engine rt))"
  shows "a_state (e_heap (rt_engine (watchCluster_view view rt)) ! a) =
    (if a_state (e_heap (rt_engine rt) ! a) = ActivationActive \<and>
        \<not> Root_Owns (watchCluster_view view rt) (a_id (e_heap (rt_engine rt) ! a))
     then ActivationDeactivating else a_state (e_heap (rt_engine rt) ! a))"
proof -
  let ?e = "rt_engine rt" and ?P = "\<lambda>i. Owner view i \<noteq> Some (rt_nodeAddr rt)"
  have inv: "engine_inv ?e" by (rule engine_reach_inv [OF assms(1)])
  have f: "(\<lambda>e i. case Owner view i of None \<Rightarrow> Engine_Deactivate i e
      | Some owner \<Rightarrow> if owner \<noteq> rt_nodeAddr (rt\<lparr>rt_view := Some view\<rparr>) then Engine_Deactivate i e else e) =
    (\<lambda>e i. if ?P i then Engine_Deactivate i e else e)"
    by (auto simp: fun_eq_iff split: option.split)
  have eng: "rt_engine (watchCluster_view view rt) = foldl (\<lambda>e i. if ?P i then Engine_Deactivate i e else e) ?e (GrainIds ?e)"
    unfolding watchCluster_view_def deactivateMovedActivations_def f by simp
  have owns: "Root_Owns (watchCluster_view view rt) i \<longleftrightarrow> \<not> ?P i" for i
    by (auto simp: watchCluster_view_def deactivateMovedActivations_def Root_Owns_def split: option.splits)
  have "a_id (e_heap ?e ! a) \<in> set (GrainIds ?e)" if "a_state (e_heap ?e ! a) = ActivationActive"
    using slot_active [OF that slotD] inv assms(2) map_of_SomeD
    by (force simp: engine_inv_def core_inv_def GrainIds_def)
  then show ?thesis
    using moved_fold [OF inv assms(2), of ?P "GrainIds ?e"] by (auto simp: eng owns)
qed

theorem view_change_deactivates_moved_witness:
  "a_state (e_heap (rt_engine (watchCluster_view (NewView [])
     ((demo_root True)\<lparr>rt_engine := engine_run 5 1 demo_restart\<rparr>))) ! 1) = ActivationDeactivating"
proof -
  let ?e = "engine_run 5 1 demo_restart"
  let ?rt = "(demo_root True)\<lparr>rt_engine := ?e\<rparr>"
  have v: "1 < length (e_heap ?e)" "a_state (e_heap ?e ! 1) = ActivationActive" by code_simp+
  have "\<not> Root_Owns (watchCluster_view (NewView []) ?rt) i" for i
    by (simp add: Root_Owns_def watchCluster_view_def deactivateMovedActivations_def Owner_none active_keys_list)
  then show ?thesis
    using view_change_deactivates_moved [of 5 1 ?rt 1 "NewView []"] engine_run_reach v by simp
qed

section \<open>Stopping the transport\<close>

text \<open>
  However the stops of the transport arrive (a graceful close, kills during it or after it), the
  first one decides the first call, every abrupt stop after it still reaches the transport as a kill, and
  no graceful close follows any other call.
\<close>

theorem transport_stop_calls:
  assumes "rt_transport rt" and "\<not> rt_transportClosing rt" and "rt_transportCalls rt = []"
  shows "rt_transportCalls (foldl (\<lambda>rt graceful. closeTransport graceful rt) rt (g # gs)) =
    (if g then TransportClose else TransportKill) # map (\<lambda>_. TransportKill) (filter Not gs)"
proof -
  have rest: "rt_transportCalls (foldl (\<lambda>rt graceful. closeTransport graceful rt) r gs) =
      rt_transportCalls r @ map (\<lambda>_. TransportKill) (filter Not gs)"
    if "rt_transport r" "rt_transportClosing r" for r :: "'a root"
    using that by (induction gs arbitrary: r) (auto simp: closeTransport_def)
  show ?thesis using assms rest [of "closeTransport g rt"] by (simp add: closeTransport_def)
qed

theorem transport_stop_calls_witness:
  "rt_transportCalls (foldl (\<lambda>rt graceful. closeTransport graceful rt) (demo_root True) [True, True, False]) =
    [TransportClose, TransportKill]"
  using transport_stop_calls [of "demo_root True" True "[True, False]"] by (simp add: demo_root_def)

end
