(* ===== verification/Gor_Frame.thy ===== *)
theory Gor_Frame
  imports Gor_Errors
begin

text \<open>
  The frame format of \<open>transport/frame.go\<close>: a header of thirteen bytes (payload length, correlation ID,
  frame type, big-endian) and the payload. A reader is the bytes it will still deliver and the error it
  ends with; a writer is what was written to it and how many bytes it still takes.
\<close>

section \<open>Big-endian integers\<close>

text \<open>\<open>binary.BigEndian\<close>: the most significant byte first.\<close>

fun be_put :: "nat \<Rightarrow> nat \<Rightarrow> byte list" where
  "be_put 0 v = []"
| "be_put (Suc n) v = be_put n (v div 256) @ [word_of_nat v]"

definition be_get :: "byte list \<Rightarrow> nat" where
  "be_get bs = foldl (\<lambda>v b. v * 256 + unat b) 0 bs"

definition PutUint32 :: "32 word \<Rightarrow> byte list" where "PutUint32 v = be_put 4 (unat v)"
definition Uint32 :: "byte list \<Rightarrow> 32 word" where "Uint32 bs = word_of_nat (be_get bs)"
definition PutUint64 :: "64 word \<Rightarrow> byte list" where "PutUint64 v = be_put 8 (unat v)"
definition Uint64 :: "byte list \<Rightarrow> 64 word" where "Uint64 bs = word_of_nat (be_get bs)"

lemma be_put_length [simp]: "length (be_put n v) = n"
  by (induction n v rule: be_put.induct) simp_all

lemma unat_byte: "unat (word_of_nat v :: byte) = v mod 256"
  by (simp add: unat_of_nat)

lemma be_get_put: "be_get (be_put n v) = v mod 256 ^ n"
proof (induction n v rule: be_put.induct)
  case (2 n v)
  have "(v div 256 mod 256 ^ n) * 256 + v mod 256 = v mod (256 * 256 ^ n)"
    by (simp add: mod_mult2_eq)
  with 2 show ?case by (simp add: be_get_def unat_byte)
qed (simp add: be_get_def)

lemma be_get_snoc: "be_get (bs @ [b]) = be_get bs * 256 + unat b"
  by (simp add: be_get_def)

lemma be_put_get: "be_put (length bs) (be_get bs) = bs"
proof (induction bs rule: rev_induct)
  case (snoc b bs)
  have b: "unat b < 256" using unsigned_less [where 'a = nat, of b] by simp
  have "(be_get bs * 256 + unat b) div 256 = be_get bs" using b by simp
  moreover have "word_of_nat (be_get bs * 256 + unat b) = b"
    by (rule unsigned_word_eqI [where 'a = nat], unfold unat_byte) (use b in simp)
  ultimately show ?case using snoc by (simp add: be_get_snoc)
qed simp

lemma be_get_less: "be_get bs < 256 ^ length bs"
  using be_get_put [of "length bs" "be_get bs"] by (metis be_put_get mod_less_divisor zero_less_numeral zero_less_power)

lemma Uint32_Put [simp]: "Uint32 (PutUint32 v) = v"
  using unsigned_less [where 'a = nat, of v] by (simp add: Uint32_def PutUint32_def be_get_put)

lemma Uint64_Put [simp]: "Uint64 (PutUint64 v) = v"
  using unsigned_less [where 'a = nat, of v] by (simp add: Uint64_def PutUint64_def be_get_put)

lemma PutUint32_get:
  assumes "length bs = 4"
  shows "PutUint32 (Uint32 bs) = bs"
proof -
  have "unat (Uint32 bs) = be_get bs"
    using be_get_less [of bs] assms by (simp add: Uint32_def unat_of_nat)
  then show ?thesis using be_put_get [of bs] assms by (simp add: PutUint32_def)
qed

lemma PutUint64_get:
  assumes "length bs = 8"
  shows "PutUint64 (Uint64 bs) = bs"
proof -
  have "unat (Uint64 bs) = be_get bs"
    using be_get_less [of bs] assms by (simp add: Uint64_def unat_of_nat)
  then show ?thesis using be_put_get [of bs] assms by (simp add: PutUint64_def)
qed

lemma Put_length [simp]: "length (PutUint32 v) = 4" "length (PutUint64 w) = 8"
  by (simp_all add: PutUint32_def PutUint64_def)

section \<open>Frames\<close>

definition MaxPayloadSize :: nat where "MaxPayloadSize = 2 ^ 20"
definition frameHeaderSize :: nat where "frameHeaderSize = 4 + 8 + 1"

text \<open>\<open>FrameType\<close> is a byte; three of its values have names.\<close>

definition FrameRequest :: byte where "FrameRequest = 1"
definition FrameResponse :: byte where "FrameResponse = 2"
definition FrameError :: byte where "FrameError = 3"

definition FrameType_valid :: "byte \<Rightarrow> bool" where
  "FrameType_valid t \<longleftrightarrow> FrameRequest \<le> t \<and> t \<le> FrameError"

record frame =
  fr_ID :: "64 word"
  fr_Type :: byte
  fr_Payload :: "byte list"

definition errPayloadTooLarge :: "nat \<Rightarrow> go_error" where
  "errPayloadTooLarge n = Wrap (sentinel_text TransportErrPayloadTooLarge @ '': '' @ itoa n @ '' bytes'')
     (Sentinel TransportErrPayloadTooLarge)"

definition errInvalidFrameType :: "byte \<Rightarrow> go_error" where
  "errInvalidFrameType t = Wrap (sentinel_text TransportErrInvalidFrameType @ '': '' @ itoa (unat t))
     (Sentinel TransportErrInvalidFrameType)"

record reader =
  rd_bytes :: "byte list"
  rd_end :: go_error

text \<open>\<open>io.ReadFull\<close>: an end of input after some bytes is \<open>ErrUnexpectedEOF\<close>, another error is kept.\<close>

definition ReadFull :: "nat \<Rightarrow> reader \<Rightarrow> byte list result \<times> reader" where
  "ReadFull n r =
     (if n \<le> length (rd_bytes r) then (Inr (take n (rd_bytes r)), r\<lparr>rd_bytes := drop n (rd_bytes r)\<rparr>)
      else (Inl (if rd_end r = Sentinel IoEOF \<and> rd_bytes r \<noteq> [] then Sentinel IoErrUnexpectedEOF else rd_end r),
            r\<lparr>rd_bytes := []\<rparr>))"

definition ReadFrame :: "reader \<Rightarrow> frame result \<times> reader" where
  "ReadFrame r =
     (case ReadFull frameHeaderSize r of
        (Inl e, r1) \<Rightarrow> (Inl e, r1)
      | (Inr header, r1) \<Rightarrow>
          (let payloadSize = unat (Uint32 (take 4 header))
           in if MaxPayloadSize < payloadSize then (Inl (errPayloadTooLarge payloadSize), r1)
              else
                (let i = Uint64 (take 8 (drop 4 header)); t = header ! 12
                 in if \<not> FrameType_valid t then (Inl (errInvalidFrameType t), r1)
                    else (case ReadFull payloadSize r1 of
                            (Inl e, r2) \<Rightarrow> (Inl e, r2)
                          | (Inr payload, r2) \<Rightarrow> (Inr \<lparr>fr_ID = i, fr_Type = t, fr_Payload = payload\<rparr>, r2)))))"

record writer =
  wr_out :: "byte list"
  wr_room :: "nat option"
  wr_err :: go_error

text \<open>\<open>Write\<close>: a writer that runs out of room takes what fits and fails.\<close>

definition writer_Write :: "writer \<Rightarrow> byte list \<Rightarrow> go_error option \<times> writer" where
  "writer_Write w bs =
     (case wr_room w of
        None \<Rightarrow> (None, w\<lparr>wr_out := wr_out w @ bs\<rparr>)
      | Some room \<Rightarrow>
          if length bs \<le> room then (None, w\<lparr>wr_out := wr_out w @ bs, wr_room := Some (room - length bs)\<rparr>)
          else (Some (wr_err w), w\<lparr>wr_out := wr_out w @ take room bs, wr_room := Some 0\<rparr>))"

definition frame_header :: "frame \<Rightarrow> byte list" where
  "frame_header f = PutUint32 (word_of_nat (length (fr_Payload f))) @ PutUint64 (fr_ID f) @ [fr_Type f]"

definition WriteFrame :: "writer \<Rightarrow> frame \<Rightarrow> go_error option \<times> writer" where
  "WriteFrame w f =
     (if \<not> FrameType_valid (fr_Type f) then (Some (errInvalidFrameType (fr_Type f)), w)
      else if MaxPayloadSize < length (fr_Payload f) then (Some (errPayloadTooLarge (length (fr_Payload f))), w)
      else (case writer_Write w (frame_header f) of
              (Some e, w1) \<Rightarrow> (Some e, w1)
            | (None, w1) \<Rightarrow> writer_Write w1 (fr_Payload f)))"

section \<open>The wire format\<close>

definition frame_ok :: "frame \<Rightarrow> bool" where
  "frame_ok f \<longleftrightarrow> FrameType_valid (fr_Type f) \<and> length (fr_Payload f) \<le> MaxPayloadSize"

definition frame_bytes :: "frame \<Rightarrow> byte list" where
  "frame_bytes f = frame_header f @ fr_Payload f"

lemma frame_header_parts:
  "length (frame_header f) = frameHeaderSize" "take 4 (frame_header f) = PutUint32 (word_of_nat (length (fr_Payload f)))"
  "take 8 (drop 4 (frame_header f)) = PutUint64 (fr_ID f)" "frame_header f ! 12 = fr_Type f"
  by (simp_all add: frame_header_def frameHeaderSize_def nth_append)

lemma payload_size: "n \<le> MaxPayloadSize \<Longrightarrow> unat (word_of_nat n :: 32 word) = n"
  by (simp add: unat_of_nat MaxPayloadSize_def)

lemma ReadFull_append: "length bs = n \<Longrightarrow> ReadFull n (r\<lparr>rd_bytes := bs @ rest\<rparr>) = (Inr bs, r\<lparr>rd_bytes := rest\<rparr>)"
  by (simp add: ReadFull_def)

lemma ReadFrame_append:
  assumes "frame_ok f"
  shows "ReadFrame (r\<lparr>rd_bytes := frame_bytes f @ rest\<rparr>) = (Inr f, r\<lparr>rd_bytes := rest\<rparr>)"
proof -
  have "ReadFull frameHeaderSize (r\<lparr>rd_bytes := frame_bytes f @ rest\<rparr>) =
      (Inr (frame_header f), r\<lparr>rd_bytes := fr_Payload f @ rest\<rparr>)"
    by (simp add: frame_bytes_def ReadFull_append frame_header_parts)
  then show ?thesis
    using assms by (simp add: ReadFrame_def frame_ok_def frame_header_parts payload_size ReadFull_append)
qed

text \<open>What was read is exactly the bytes of the frame that came out.\<close>

lemma ReadFull_Inr:
  "ReadFull n r = (Inr bs, r') \<Longrightarrow> length bs = n \<and> rd_bytes r = bs @ rd_bytes r' \<and> rd_end r' = rd_end r"
  by (auto simp: ReadFull_def split: if_splits)

lemma header_split:
  assumes "length h = 13"
  shows "take 4 h @ take 8 (drop 4 h) @ [h ! 12] = h"
proof -
  have "drop 12 h = [h ! 12]" using assms Cons_nth_drop_Suc [of 12 h] by simp
  moreover have "take 8 (drop 4 h) @ drop 12 h = drop 4 h"
    using append_take_drop_id [of 8 "drop 4 h"] by simp
  ultimately show ?thesis using append_take_drop_id [of 4 h] by metis
qed

lemma ReadFrame_bytes:
  assumes "ReadFrame r = (Inr f, r')"
  shows "frame_ok f \<and> rd_bytes r = frame_bytes f @ rd_bytes r' \<and> rd_end r' = rd_end r"
proof -
  obtain h r1 where h: "ReadFull frameHeaderSize r = (Inr h, r1)"
    using assms by (auto simp: ReadFrame_def split: prod.splits sum.splits)
  define n where "n = unat (Uint32 (take 4 h))"
  obtain p where p: "ReadFull n r1 = (Inr p, r')" and f: "f = \<lparr>fr_ID = Uint64 (take 8 (drop 4 h)), fr_Type = h ! 12, fr_Payload = p\<rparr>"
    and ok: "FrameType_valid (h ! 12)" "n \<le> MaxPayloadSize"
    using assms h by (auto simp: ReadFrame_def n_def Let_def split: prod.splits sum.splits if_splits)
  have len: "length h = 13" "length p = n"
    and bytes: "rd_bytes r = h @ rd_bytes r1" "rd_bytes r1 = p @ rd_bytes r'" "rd_end r' = rd_end r"
    using ReadFull_Inr [OF h] ReadFull_Inr [OF p] by (simp_all add: frameHeaderSize_def)
  have "word_of_nat n = Uint32 (take 4 h)" by (simp add: n_def)
  then have "frame_header f = h"
    using len header_split [OF len(1)] f by (simp add: frame_header_def PutUint32_get PutUint64_get)
  with f ok len bytes show ?thesis by (simp add: frame_ok_def frame_bytes_def)
qed


section \<open>Properties\<close>

lemma WriteFrame_out:
  "WriteFrame w f = (None, w') \<Longrightarrow> frame_ok f \<and> wr_out w' = wr_out w @ frame_bytes f"
  by (auto simp: WriteFrame_def writer_Write_def frame_ok_def frame_bytes_def
      split: if_splits option.splits prod.splits)

fun WriteFrames :: "writer \<Rightarrow> frame list \<Rightarrow> go_error option \<times> writer" where
  "WriteFrames w [] = (None, w)"
| "WriteFrames w (f # fs) = (case WriteFrame w f of (Some e, w1) \<Rightarrow> (Some e, w1) | (None, w1) \<Rightarrow> WriteFrames w1 fs)"

fun ReadFrames :: "nat \<Rightarrow> reader \<Rightarrow> frame list result \<times> reader" where
  "ReadFrames 0 r = (Inr [], r)"
| "ReadFrames (Suc n) r =
     (case ReadFrame r of
        (Inl e, r1) \<Rightarrow> (Inl e, r1)
      | (Inr f, r1) \<Rightarrow> (case ReadFrames n r1 of (Inl e, r2) \<Rightarrow> (Inl e, r2) | (Inr fs, r2) \<Rightarrow> (Inr (f # fs), r2)))"

lemma WriteFrames_out:
  "WriteFrames w fs = (None, w') \<Longrightarrow>
    list_all frame_ok fs \<and> wr_out w' = wr_out w @ concat (map frame_bytes fs)"
  by (induction fs arbitrary: w) (auto split: prod.splits option.splits dest!: WriteFrame_out)

lemma ReadFrames_append:
  "list_all frame_ok fs \<Longrightarrow>
    ReadFrames (length fs) (r\<lparr>rd_bytes := concat (map frame_bytes fs) @ rest\<rparr>) = (Inr fs, r\<lparr>rd_bytes := rest\<rparr>)"
  by (induction fs) (simp_all add: ReadFrame_append)

text \<open>
  C20. Frames survive the wire: when a sequence of frames was written without an error, reading that
  many frames from the bytes, whatever follows them, gives back the same frames in the same order and
  leaves exactly what followed. A frame of an unknown type or with a payload over the limit is refused
  before a byte is written.
\<close>

theorem frames_roundtrip:
  assumes "WriteFrames w fs = (None, w')" and "wr_out w = []"
  shows "ReadFrames (length fs) \<lparr>rd_bytes = wr_out w' @ rest, rd_end = e\<rparr> = (Inr fs, \<lparr>rd_bytes = rest, rd_end = e\<rparr>) \<and>
    (\<forall>f. \<not> frame_ok f \<longrightarrow> fst (WriteFrame w' f) \<noteq> None \<and> snd (WriteFrame w' f) = w')"
  using WriteFrames_out [OF assms(1)] assms(2)
    ReadFrames_append [where fs = fs and rest = rest and r = "\<lparr>rd_bytes = [], rd_end = e\<rparr>"]
  by (auto simp: WriteFrame_def frame_ok_def)

definition demo_frame :: frame where
  "demo_frame = \<lparr>fr_ID = 7, fr_Type = FrameRequest, fr_Payload = [1, 2, 3]\<rparr>"

definition demo_writer :: writer where
  "demo_writer = \<lparr>wr_out = [], wr_room = Some 40, wr_err = NewErr ''full''\<rparr>"

lemma demo_frame_ok: "frame_ok demo_frame" "length (frame_bytes demo_frame) = 16"
  by (simp_all add: frame_ok_def demo_frame_def FrameType_valid_def FrameRequest_def FrameError_def
      MaxPayloadSize_def frame_bytes_def frame_header_def)

lemma demo_write:
  "wr_room w = Some (16 + n) \<Longrightarrow>
    WriteFrame w demo_frame = (None, w\<lparr>wr_out := wr_out w @ frame_bytes demo_frame, wr_room := Some n\<rparr>)"
  using demo_frame_ok
  by (simp add: WriteFrame_def frame_ok_def writer_Write_def frame_bytes_def frame_header_parts frameHeaderSize_def demo_frame_def)

theorem frames_roundtrip_witness:
  "fst (WriteFrames demo_writer [demo_frame, demo_frame]) = None \<and>
   ReadFrames 2 \<lparr>rd_bytes = wr_out (snd (WriteFrames demo_writer [demo_frame, demo_frame])) @ [9], rd_end = Sentinel IoEOF\<rparr> =
     (Inr [demo_frame, demo_frame], \<lparr>rd_bytes = [9], rd_end = Sentinel IoEOF\<rparr>)"
proof -
  have v: "fst (WriteFrames demo_writer [demo_frame, demo_frame]) = None"
    using demo_write [of demo_writer 24] demo_write [of "demo_writer\<lparr>wr_out := frame_bytes demo_frame, wr_room := Some 24\<rparr>" 8]
    by (simp add: demo_writer_def)
  then obtain w where w: "WriteFrames demo_writer [demo_frame, demo_frame] = (None, w)" by (metis prod.collapse)
  have "wr_out demo_writer = []" "length [demo_frame, demo_frame] = 2" by (simp_all add: demo_writer_def)
  with frames_roundtrip [OF w, of "[9]" "Sentinel IoEOF"] w v show ?thesis by (metis snd_conv)
qed

text \<open>
  The reader accepts nothing else: a frame that comes out is well formed and its encoding is exactly
  the bytes that were consumed, and an input that ends inside a frame, at any byte of it, is an error:
  \<open>io.EOF\<close> before its first byte or between header and payload, \<open>io.ErrUnexpectedEOF\<close> elsewhere.
\<close>

theorem ReadFrame_strict:
  assumes "frame_ok f" and "n < length (frame_bytes f)"
  shows "fst (ReadFrame \<lparr>rd_bytes = take n (frame_bytes f), rd_end = Sentinel IoEOF\<rparr>) =
      Inl (Sentinel (if n = 0 \<or> n = frameHeaderSize then IoEOF else IoErrUnexpectedEOF)) \<and>
    (\<forall>r g r'. ReadFrame r = (Inr g, r') \<longrightarrow> frame_ok g \<and> rd_bytes r = frame_bytes g @ rd_bytes r')"
proof -
  have len: "length (frame_bytes f) = frameHeaderSize + length (fr_Payload f)"
    by (simp add: frame_bytes_def frame_header_parts)
  have "fst (ReadFrame \<lparr>rd_bytes = take n (frame_bytes f), rd_end = Sentinel IoEOF\<rparr>) =
      Inl (Sentinel (if n = 0 \<or> n = frameHeaderSize then IoEOF else IoErrUnexpectedEOF))"
  proof (cases "n < frameHeaderSize")
    case True
    then show ?thesis using assms(2) by (auto simp: ReadFrame_def ReadFull_def)
  next
    case False
    then have "take n (frame_bytes f) = frame_header f @ take (n - frameHeaderSize) (fr_Payload f)"
      by (simp add: frame_bytes_def frame_header_parts)
    then have "ReadFull frameHeaderSize \<lparr>rd_bytes = take n (frame_bytes f), rd_end = Sentinel IoEOF\<rparr> =
        (Inr (frame_header f), \<lparr>rd_bytes = take (n - frameHeaderSize) (fr_Payload f), rd_end = Sentinel IoEOF\<rparr>)"
      using ReadFull_append [where bs = "frame_header f" and r = "\<lparr>rd_bytes = [], rd_end = Sentinel IoEOF\<rparr>"]
      by (simp add: frame_header_parts)
    moreover have "\<not> length (fr_Payload f) \<le> n - frameHeaderSize" and "frameHeaderSize \<noteq> 0"
      using assms(2) len False by (auto simp: frameHeaderSize_def)
    ultimately show ?thesis
      using assms(1) False
      by (auto simp: ReadFrame_def frame_ok_def frame_header_parts payload_size ReadFull_def)
  qed
  then show ?thesis using ReadFrame_bytes by blast
qed

theorem ReadFrame_strict_witness:
  "fst (ReadFrame \<lparr>rd_bytes = take 13 (frame_bytes demo_frame), rd_end = Sentinel IoEOF\<rparr>) = Inl (Sentinel IoEOF)"
proof -
  have "13 < length (frame_bytes demo_frame)" by (simp add: demo_frame_ok)
  from ReadFrame_strict [OF demo_frame_ok(1) this] show ?thesis by (simp add: frameHeaderSize_def)
qed

end
