(* ===== verification/Gor_Utf8.thy ===== *)
theory Gor_Utf8
  imports Gor_Prelude
begin

text \<open>
  UTF-8 as the package \<open>unicode/utf8\<close> of Go reads it, on strings as sequences of bytes: validity, the size
  of the first rune, the encoding of a code point, and the replacement of invalid bytes by U+FFFD that
  \<open>encoding/json\<close> applies to the strings it writes and reads.
\<close>

section \<open>Valid byte sequences\<close>

definition cont_byte :: "nat \<Rightarrow> bool" where "cont_byte b \<longleftrightarrow> 128 \<le> b \<and> b \<le> 191"

text \<open>The encodings of two, three and four bytes: no overlong forms, no surrogates, nothing above U+10FFFF.\<close>

definition rune2 :: "nat \<Rightarrow> nat \<Rightarrow> bool" where
  "rune2 a b \<longleftrightarrow> 194 \<le> a \<and> a \<le> 223 \<and> cont_byte b"

definition rune3 :: "nat \<Rightarrow> nat \<Rightarrow> nat \<Rightarrow> bool" where
  "rune3 a b c \<longleftrightarrow> 224 \<le> a \<and> a \<le> 239 \<and> cont_byte b \<and> cont_byte c \<and> (a = 224 \<longrightarrow> 160 \<le> b) \<and> (a = 237 \<longrightarrow> b \<le> 159)"

definition rune4 :: "nat \<Rightarrow> nat \<Rightarrow> nat \<Rightarrow> nat \<Rightarrow> bool" where
  "rune4 a b c d \<longleftrightarrow> 240 \<le> a \<and> a \<le> 244 \<and> cont_byte b \<and> cont_byte c \<and> cont_byte d \<and>
     (a = 240 \<longrightarrow> 144 \<le> b) \<and> (a = 244 \<longrightarrow> b \<le> 143)"

fun valid_utf8_bytes :: "nat list \<Rightarrow> bool" where
  "valid_utf8_bytes [] = True"
| "valid_utf8_bytes (a # bs) =
     (a < 128 \<and> valid_utf8_bytes bs \<or>
      (case bs of
         [] \<Rightarrow> False
       | b # cs \<Rightarrow>
           rune2 a b \<and> valid_utf8_bytes cs \<or>
           (case cs of
              [] \<Rightarrow> False
            | c # ds \<Rightarrow>
                rune3 a b c \<and> valid_utf8_bytes ds \<or>
                (case ds of [] \<Rightarrow> False | d # es \<Rightarrow> rune4 a b c d \<and> valid_utf8_bytes es))))"

text \<open>\<open>utf8.ValidString\<close>.\<close>

definition valid_utf8 :: "string \<Rightarrow> bool" where
  "valid_utf8 s = valid_utf8_bytes (map of_char s)"

declare valid_utf8_bytes.simps(2) [simp del]

inductive runes :: "nat list \<Rightarrow> bool" where
  "runes []"
| "a < 128 \<Longrightarrow> runes bs \<Longrightarrow> runes (a # bs)"
| "rune2 a b \<Longrightarrow> runes cs \<Longrightarrow> runes (a # b # cs)"
| "rune3 a b c \<Longrightarrow> runes ds \<Longrightarrow> runes (a # b # c # ds)"
| "rune4 a b c d \<Longrightarrow> runes es \<Longrightarrow> runes (a # b # c # d # es)"

lemma valid_iff_runes: "valid_utf8_bytes xs \<longleftrightarrow> runes xs"
proof
  show "valid_utf8_bytes xs \<Longrightarrow> runes xs"
  proof (induction xs rule: valid_utf8_bytes.induct)
    case (2 a bs)
    from 2(5) show ?case
      unfolding valid_utf8_bytes.simps(2) using 2(1-4) by (auto intro: runes.intros split: list.splits)
  qed (rule runes.intros)
  show "runes xs \<Longrightarrow> valid_utf8_bytes xs"
    by (induction rule: runes.induct) (simp, (subst valid_utf8_bytes.simps(2), simp)+)
qed

lemma valid_append: "valid_utf8_bytes xs \<Longrightarrow> valid_utf8_bytes ys \<Longrightarrow> valid_utf8_bytes (xs @ ys)"
  unfolding valid_iff_runes by (induction rule: runes.induct) (auto intro: runes.intros)

lemma valid_utf8_append: "valid_utf8 s \<Longrightarrow> valid_utf8 t \<Longrightarrow> valid_utf8 (s @ t)"
  by (simp add: valid_utf8_def valid_append)

lemma valid_ascii: "list_all (\<lambda>c. (of_char c :: nat) < 128) s \<Longrightarrow> valid_utf8 s"
  unfolding valid_utf8_def valid_iff_runes by (induction s) (auto intro: runes.intros)

section \<open>Runes\<close>

text \<open>The number of bytes of the rune a text starts with, 0 when it starts with none.\<close>

fun rune_size :: "nat list \<Rightarrow> nat" where
  "rune_size [] = 0"
| "rune_size [a] = (if a < 128 then 1 else 0)"
| "rune_size [a, b] = (if a < 128 then 1 else if rune2 a b then 2 else 0)"
| "rune_size [a, b, c] = (if a < 128 then 1 else if rune2 a b then 2 else if rune3 a b c then 3 else 0)"
| "rune_size (a # b # c # d # rest) =
     (if a < 128 then 1 else if rune2 a b then 2 else if rune3 a b c then 3 else if rune4 a b c d then 4 else 0)"

abbreviation head_size :: "string \<Rightarrow> nat" where
  "head_size s \<equiv> rune_size (map of_char s)"

text \<open>The bytes of U+FFFD.\<close>

definition replacement :: string where
  "replacement = [CHR 0xEF, CHR 0xBF, CHR 0xBD]"

fun to_valid :: "string \<Rightarrow> string" where
  "to_valid [] = []"
| "to_valid (c # cs) =
     (case head_size (c # cs) of
        0 \<Rightarrow> replacement @ to_valid cs
      | Suc n \<Rightarrow> c # take n cs @ to_valid (drop n cs))"

declare to_valid.simps(2) [simp del]

text \<open>UTF-8 of a code point; a surrogate becomes U+FFFD.\<close>

definition utf8 :: "nat \<Rightarrow> string" where
  "utf8 n =
     (let n = (if 55296 \<le> n \<and> n \<le> 57343 then 65533 else n)
      in if n < 128 then [char_of n]
         else if n < 2048 then [char_of (192 + n div 64), char_of (128 + n mod 64)]
         else if n < 65536 then [char_of (224 + n div 4096), char_of (128 + n div 64 mod 64), char_of (128 + n mod 64)]
         else [char_of (240 + n div 262144), char_of (128 + n div 4096 mod 64), char_of (128 + n div 64 mod 64),
               char_of (128 + n mod 64)])"

lemma utf8_replacement: "utf8 65533 = replacement"
  by (simp add: utf8_def replacement_def Let_def char_of_def bit_0)

lemma utf8_ascii: "(of_char c :: nat) < 128 \<Longrightarrow> utf8 (of_char c) = [c]"
  by (simp add: utf8_def Let_def)

lemma rune_size_bound: "rune_size xs \<le> length xs"
  by (induction xs rule: rune_size.induct) auto

text \<open>The size depends on the bytes of the rune alone.\<close>

lemma rune_size_take: "rune_size xs = n \<Longrightarrow> 0 < n \<Longrightarrow> rune_size (take n xs @ ys) = n"
  by (induction xs rule: rune_size.induct; cases ys rule: rune_size.cases)
    (auto simp: rune2_def rune3_def rune4_def split: if_splits)

lemma rune_size_cases:
  assumes "rune_size xs = n" and "0 < n"
  shows "\<exists>a ds. xs = a # ds \<and> (n = 1 \<and> a < 128 \<or> n = 2 \<and> (\<exists>b cs. ds = b # cs \<and> rune2 a b) \<or>
    n = 3 \<and> (\<exists>b c cs. ds = b # c # cs \<and> rune3 a b c) \<or> n = 4 \<and> (\<exists>b c d cs. ds = b # c # d # cs \<and> rune4 a b c d))"
  using assms by (induction xs rule: rune_size.induct) (auto split: if_splits)

lemma rune_size_runes:
  "a < 128 \<Longrightarrow> rune_size (a # xs) = 1" "rune2 a b \<Longrightarrow> rune_size (a # b # xs) = 2"
  "rune3 a b c \<Longrightarrow> rune_size (a # b # c # xs) = 3" "rune4 a b c d \<Longrightarrow> rune_size (a # b # c # d # xs) = 4"
  by (cases xs rule: rune_size.cases; auto simp: rune2_def rune3_def rune4_def)+

declare rune_size.simps [simp del]

text \<open>Valid text is kept, and what \<open>to_valid\<close> returns is valid.\<close>

lemma to_valid_head:
  "head_size s = n \<Longrightarrow> 0 < n \<Longrightarrow> to_valid s = take n s @ to_valid (drop n s)"
  "head_size (c # cs) = 0 \<Longrightarrow> to_valid (c # cs) = replacement @ to_valid cs"
  by (cases s; cases n; simp add: to_valid.simps(2)) (simp add: to_valid.simps(2))

lemma to_valid_runes: "runes xs \<Longrightarrow> xs = map of_char s \<Longrightarrow> to_valid s = s"
  by (induction arbitrary: s rule: runes.induct) (auto simp: Cons_eq_map_conv to_valid_head(1) [OF _ zero_less_one] to_valid_head(1) [OF _ zero_less_numeral] rune_size_runes)

lemma to_valid_id: "valid_utf8 s \<Longrightarrow> to_valid s = s"
  using to_valid_runes by (simp add: valid_utf8_def valid_iff_runes)

lemma replacement_valid: "valid_utf8 replacement"
  by code_simp

lemma valid_head: "head_size s = n \<Longrightarrow> 0 < n \<Longrightarrow> valid_utf8 (take n s)"
  using rune_size_cases [of "map of_char s" n]
  by (auto simp: valid_utf8_def valid_iff_runes Cons_eq_map_conv intro!: runes.intros)

lemma to_valid_valid: "valid_utf8 (to_valid s)"
proof (induction s rule: to_valid.induct)
  case 1
  show ?case by (simp add: valid_utf8_def)
next
  case (2 c cs)
  show ?case
  proof (cases "head_size (c # cs)")
    case 0
    then show ?thesis using 2(1) replacement_valid by (simp add: to_valid.simps(2) valid_utf8_append)
  next
    case (Suc n)
    have "valid_utf8 (take (Suc n) (c # cs) @ to_valid (drop n cs))"
      using 2(2) [OF Suc] valid_head [OF Suc] by (intro valid_utf8_append) simp_all
    then show ?thesis using Suc by (simp add: to_valid.simps(2))
  qed
qed

end
