(* ===== verification/Gor_Json_Text.thy ===== *)
theory Gor_Json_Text
  imports Gor_Json Gor_Utf8
begin

text \<open>
  The text of JSON documents as \<open>encoding/json\<close> writes and reads it: \<open>json_print\<close> is the compact output
  of \<open>Marshal\<close> with its escapes, \<open>json_decode\<close> reads a whole document with white space, escapes and
  numbers. The result of the theory is that a printed document reads back as itself, so the components
  that store and send documents can be followed down to their bytes. Strings are sequences of UTF-8
  bytes.
\<close>

section \<open>Characters\<close>

abbreviation (input) quot :: char where "quot \<equiv> CHR 0x22"
abbreviation (input) bslash :: char where "bslash \<equiv> CHR 0x5C"

definition is_ws :: "char \<Rightarrow> bool" where
  "is_ws c \<longleftrightarrow> c = CHR 0x20 \<or> c = CHR 0x09 \<or> c = CHR 0x0A \<or> c = CHR 0x0D"

definition skip_ws :: "string \<Rightarrow> string" where "skip_ws s = dropWhile is_ws s"

definition is_digit :: "char \<Rightarrow> bool" where
  "is_digit c \<longleftrightarrow> 48 \<le> (of_char c :: nat) \<and> (of_char c :: nat) \<le> 57"

definition hex_digit :: "nat \<Rightarrow> char" where
  "hex_digit n = (if n < 10 then char_of (48 + n) else char_of (87 + n))"

definition hex_val :: "char \<Rightarrow> nat option" where
  "hex_val c =
     (let n = (of_char c :: nat)
      in if 48 \<le> n \<and> n \<le> 57 then Some (n - 48)
         else if 97 \<le> n \<and> n \<le> 102 then Some (n - 87)
         else if 65 \<le> n \<and> n \<le> 70 then Some (n - 55) else None)"

definition hex4 :: "char \<Rightarrow> char \<Rightarrow> char \<Rightarrow> char \<Rightarrow> nat option" where
  "hex4 a b c d =
     (case (hex_val a, hex_val b, hex_val c, hex_val d) of
        (Some w, Some x, Some y, Some z) \<Rightarrow> Some (((w * 16 + x) * 16 + y) * 16 + z)
      | _ \<Rightarrow> None)"

section \<open>Strings\<close>

text \<open>The escapes of \<open>Marshal\<close>: control characters and the characters special in HTML.\<close>

definition escape_char :: "char \<Rightarrow> string" where
  "escape_char c =
     (if c = quot \<or> c = bslash then [bslash, c]
      else if c = CHR 0x08 then [bslash, CHR ''b'']
      else if c = CHR 0x0C then [bslash, CHR ''f'']
      else if c = CHR 0x0A then [bslash, CHR ''n'']
      else if c = CHR 0x0D then [bslash, CHR ''r'']
      else if c = CHR 0x09 then [bslash, CHR ''t'']
      else if (of_char c :: nat) < 32 \<or> c = CHR ''<'' \<or> c = CHR ''>'' \<or> c = CHR ''&''
        then [bslash, CHR ''u'', CHR ''0'', CHR ''0'', hex_digit (of_char c div 16), hex_digit (of_char c mod 16)]
      else [c])"

definition unescape_char :: "char \<Rightarrow> char option" where
  "unescape_char e =
     (if e = quot \<or> e = bslash \<or> e = CHR ''/'' then Some e
      else if e = CHR ''b'' then Some (CHR 0x08)
      else if e = CHR ''f'' then Some (CHR 0x0C)
      else if e = CHR ''n'' then Some (CHR 0x0A)
      else if e = CHR ''r'' then Some (CHR 0x0D)
      else if e = CHR ''t'' then Some (CHR 0x09)
      else None)"

text \<open>
  The line separators U+2028 and U+2029, three bytes each, are escaped as well; a byte that starts no rune
  is written as the escape of U+FFFD.
\<close>

definition is_separator :: "string \<Rightarrow> bool" where
  "is_separator s \<longleftrightarrow> take 3 s = [CHR 0xE2, CHR 0x80, CHR 0xA8] \<or> take 3 s = [CHR 0xE2, CHR 0x80, CHR 0xA9]"

fun escape_text :: "string \<Rightarrow> string" where
  "escape_text [] = []"
| "escape_text (c # cs) =
     (if is_separator (c # cs)
      then [bslash, CHR ''u'', CHR ''2'', CHR ''0'', CHR ''2'', if cs ! 1 = CHR 0xA8 then CHR ''8'' else CHR ''9''] @
           escape_text (drop 2 cs)
      else if (of_char c :: nat) < 128 then escape_char c @ escape_text cs
      else
        (case head_size (c # cs) of
           0 \<Rightarrow> [bslash, CHR ''u'', CHR ''f'', CHR ''f'', CHR ''f'', CHR ''d''] @ escape_text cs
         | Suc n \<Rightarrow> c # take n cs @ escape_text (drop n cs)))"

definition print_string :: "string \<Rightarrow> string" where
  "print_string s = quot # escape_text s @ [quot]"

text \<open>The second half of a surrogate pair, when the text continues with its escape.\<close>

definition low_surrogate :: "string \<Rightarrow> nat option" where
  "low_surrogate s =
     (case s of
        b # u # h1 # h2 # h3 # h4 # _ \<Rightarrow>
          if b = bslash \<and> u = CHR ''u''
          then (case hex4 h1 h2 h3 h4 of Some m \<Rightarrow> if 56320 \<le> m \<and> m \<le> 57343 then Some m else None | None \<Rightarrow> None)
          else None
      | _ \<Rightarrow> None)"

text \<open>The rest of a string literal after its opening quote.\<close>

fun parse_str :: "string \<Rightarrow> (string \<times> string) option" where
  "parse_str [] = None"
| "parse_str (c # cs) =
     (if c = quot then Some ([], cs)
      else if c = bslash then
        (case cs of
           [] \<Rightarrow> None
         | e # cs1 \<Rightarrow>
             if e = CHR ''u'' then
               (case cs1 of
                  h1 # h2 # h3 # h4 # cs2 \<Rightarrow>
                    (case hex4 h1 h2 h3 h4 of
                       None \<Rightarrow> None
                     | Some n \<Rightarrow>
                         (case (if 55296 \<le> n \<and> n \<le> 56319 then low_surrogate cs2 else None) of
                            Some m \<Rightarrow>
                              map_option (\<lambda>(s, r). (utf8 (65536 + (n - 55296) * 1024 + (m - 56320)) @ s, r))
                                (parse_str (drop 6 cs2))
                          | None \<Rightarrow> map_option (\<lambda>(s, r). (utf8 n @ s, r)) (parse_str cs2)))
                | _ \<Rightarrow> None)
             else
               (case unescape_char e of
                  None \<Rightarrow> None
                | Some x \<Rightarrow> map_option (\<lambda>(s, r). (x # s, r)) (parse_str cs1)))
      else if (of_char c :: nat) < 32 then None
      else if (of_char c :: nat) < 128 then map_option (\<lambda>(s, r). (c # s, r)) (parse_str cs)
      else
        (case head_size (c # cs) of
           0 \<Rightarrow> map_option (\<lambda>(s, r). (replacement @ s, r)) (parse_str cs)
         | Suc n \<Rightarrow> map_option (\<lambda>(s, r). (c # take n cs @ s, r)) (parse_str (drop n cs))))"

section \<open>Numbers\<close>

definition is_numchar :: "char \<Rightarrow> bool" where
  "is_numchar c \<longleftrightarrow> is_digit c \<or> c = CHR ''-'' \<or> c = CHR ''+'' \<or> c = CHR ''.'' \<or> c = CHR ''e'' \<or> c = CHR ''E''"

definition print_int :: "int \<Rightarrow> string" where
  "print_int n = (if n < 0 then CHR ''-'' # itoa (nat (- n)) else itoa (nat n))"

text \<open>Digits without a superfluous leading zero.\<close>

definition int_digits :: "string \<Rightarrow> bool" where
  "int_digits ds \<longleftrightarrow> ds \<noteq> [] \<and> list_all is_digit ds \<and> (hd ds = CHR ''0'' \<longrightarrow> length ds = 1)"

definition digits_val :: "string \<Rightarrow> nat" where
  "digits_val ds = foldl (\<lambda>v c. v * 10 + (of_char c - 48)) 0 ds"

definition strip_minus :: "string \<Rightarrow> bool \<times> string" where
  "strip_minus s = (case s of c # cs \<Rightarrow> if c = CHR ''-'' then (True, cs) else (False, s) | [] \<Rightarrow> (False, s))"

text \<open>A literal with a fraction, an exponent or both after its integer digits.\<close>

definition exponent_ok :: "string \<Rightarrow> bool" where
  "exponent_ok s =
     (case s of
        [] \<Rightarrow> True
      | c # cs \<Rightarrow>
          (c = CHR ''e'' \<or> c = CHR ''E'') \<and>
          (let ds = (case cs of d # ds \<Rightarrow> if d = CHR ''+'' \<or> d = CHR ''-'' then ds else cs | [] \<Rightarrow> cs)
           in ds \<noteq> [] \<and> list_all is_digit ds))"

definition real_literal :: "string \<Rightarrow> bool" where
  "real_literal s =
     (let s1 = snd (strip_minus s); ds = takeWhile is_digit s1; r = dropWhile is_digit s1
      in int_digits ds \<and> r \<noteq> [] \<and>
         (if hd r = CHR ''.''
          then takeWhile is_digit (tl r) \<noteq> [] \<and> exponent_ok (dropWhile is_digit (tl r))
          else exponent_ok r))"

definition parse_number :: "string \<Rightarrow> (json \<times> string) option" where
  "parse_number s =
     (let tok = takeWhile is_numchar s; r = dropWhile is_numchar s; (neg, ds) = strip_minus tok
      in if int_digits ds then Some (JNum (if neg then - int (digits_val ds) else int (digits_val ds)), r)
         else if real_literal tok then Some (JReal tok, r) else None)"

section \<open>Values\<close>

fun commas :: "string list \<Rightarrow> string" where
  "commas [] = []"
| "commas [s] = s"
| "commas (s # ss) = s @ CHR '','' # commas ss"

fun json_print :: "json \<Rightarrow> string" where
  "json_print JNull = ''null''"
| "json_print (JBool b) = (if b then ''true'' else ''false'')"
| "json_print (JNum n) = print_int n"
| "json_print (JReal s) = s"
| "json_print (JStr s) = print_string s"
| "json_print (JArr js) = ''['' @ commas (map json_print js) @ '']''"
| "json_print (JObj ms) = ''{'' @ commas (map (\<lambda>(k, j). print_string k @ '':'' @ json_print j) ms) @ ''}''"

definition strip_prefix :: "string \<Rightarrow> string \<Rightarrow> string option" where
  "strip_prefix p s = (if take (length p) s = p then Some (drop (length p) s) else None)"

fun parse_val :: "nat \<Rightarrow> string \<Rightarrow> (json \<times> string) option"
  and parse_elems :: "nat \<Rightarrow> string \<Rightarrow> (json list \<times> string) option"
  and parse_members :: "nat \<Rightarrow> string \<Rightarrow> ((string \<times> json) list \<times> string) option" where
  "parse_val 0 s = None"
| "parse_val (Suc n) s =
     (case skip_ws s of
        [] \<Rightarrow> None
      | c # cs \<Rightarrow>
          if c = quot then map_option (\<lambda>(t, r). (JStr t, r)) (parse_str cs)
          else if c = CHR ''['' then
            (if skip_ws cs \<noteq> [] \<and> hd (skip_ws cs) = CHR '']'' then Some (JArr [], tl (skip_ws cs))
             else map_option (\<lambda>(js, r). (JArr js, r)) (parse_elems n cs))
          else if c = CHR ''{'' then
            (if skip_ws cs \<noteq> [] \<and> hd (skip_ws cs) = CHR ''}'' then Some (JObj [], tl (skip_ws cs))
             else map_option (\<lambda>(ms, r). (JObj ms, r)) (parse_members n cs))
          else if c = CHR ''n'' then map_option (\<lambda>r. (JNull, r)) (strip_prefix ''ull'' cs)
          else if c = CHR ''t'' then map_option (\<lambda>r. (JBool True, r)) (strip_prefix ''rue'' cs)
          else if c = CHR ''f'' then map_option (\<lambda>r. (JBool False, r)) (strip_prefix ''alse'' cs)
          else parse_number (c # cs))"
| "parse_elems 0 s = None"
| "parse_elems (Suc n) s =
     (case parse_val n s of
        None \<Rightarrow> None
      | Some (j, r) \<Rightarrow>
          (case skip_ws r of
             [] \<Rightarrow> None
           | c # r1 \<Rightarrow>
               if c = CHR '','' then map_option (\<lambda>(js, r2). (j # js, r2)) (parse_elems n r1)
               else if c = CHR '']'' then Some ([j], r1) else None))"
| "parse_members 0 s = None"
| "parse_members (Suc n) s =
     (case skip_ws s of
        [] \<Rightarrow> None
      | q # s1 \<Rightarrow>
          if q \<noteq> quot then None
          else
            (case parse_str s1 of
               None \<Rightarrow> None
             | Some (k, r) \<Rightarrow>
                 (case skip_ws r of
                    [] \<Rightarrow> None
                  | c # r1 \<Rightarrow>
                      if c \<noteq> CHR '':'' then None
                      else
                        (case parse_val n r1 of
                           None \<Rightarrow> None
                         | Some (j, r2) \<Rightarrow>
                             (case skip_ws r2 of
                                [] \<Rightarrow> None
                              | d # r3 \<Rightarrow>
                                  if d = CHR '','' then map_option (\<lambda>(ms, r4). ((k, j) # ms, r4)) (parse_members n r3)
                                  else if d = CHR ''}'' then Some ([(k, j)], r3) else None)))))"

text \<open>A whole document; two units of fuel per character are enough, since each level consumes one.\<close>

definition json_decode :: "string \<Rightarrow> json option" where
  "json_decode s =
     (case parse_val (2 * length s + 2) s of
        None \<Rightarrow> None
      | Some (j, r) \<Rightarrow> if skip_ws r = [] then Some j else None)"


section \<open>Printed strings and numbers read back\<close>

lemma hex_val_digit: "n < 16 \<Longrightarrow> hex_val (hex_digit n) = Some n"
  by (auto simp: hex_val_def hex_digit_def Let_def)

lemma hex4_low: "n < 256 \<Longrightarrow> hex4 (CHR ''0'') (CHR ''0'') (hex_digit (n div 16)) (hex_digit (n mod 16)) = Some n"
proof -
  assume "n < 256"
  then have "hex_val (hex_digit (n div 16)) = Some (n div 16)" "hex_val (hex_digit (n mod 16)) = Some (n mod 16)"
    by (simp_all add: hex_val_digit)
  moreover have "hex_val (CHR ''0'') = Some 0" by (simp add: hex_val_def)
  ultimately show ?thesis by (simp add: hex4_def)
qed

lemma parse_str_escape: "(of_char c :: nat) < 128 \<Longrightarrow> parse_str (escape_char c @ r) = map_option (\<lambda>(s, r). (c # s, r)) (parse_str r)"
proof (cases "(of_char c :: nat) < 32 \<or> c = CHR ''<'' \<or> c = CHR ''>'' \<or> c = CHR ''&''")
  case True
  then have small: "(of_char c :: nat) < 128" by auto
  then have "hex4 (CHR ''0'') (CHR ''0'') (hex_digit (of_char c div 16)) (hex_digit (of_char c mod 16)) = Some (of_char c)"
    by (intro hex4_low) simp
  then show ?thesis using True small utf8_ascii [OF small]
    by (auto simp: escape_char_def unescape_char_def)
next
  case False
  moreover assume "(of_char c :: nat) < 128"
  ultimately show ?thesis by (auto simp: escape_char_def unescape_char_def)
qed

lemma separator_cases:
  assumes "is_separator (c # cs)"
  shows "\<exists>d. c # cs = CHR 0xE2 # CHR 0x80 # d # drop 2 cs \<and> (d = CHR 0xA8 \<or> d = CHR 0xA9)"
proof -
  have "c = CHR 0xE2" and t: "take 2 cs = [CHR 0x80, CHR 0xA8] \<or> take 2 cs = [CHR 0x80, CHR 0xA9]"
    using assms by (auto simp: is_separator_def eval_nat_numeral)
  moreover have "cs = take 2 cs @ drop 2 cs" by simp
  ultimately show ?thesis by (metis append_Cons append_Nil)
qed

lemma separator_utf8:
  "hex4 (CHR ''2'') (CHR ''0'') (CHR ''2'') (CHR ''8'') = Some 8232" "utf8 8232 = [CHR 0xE2, CHR 0x80, CHR 0xA8]"
  "hex4 (CHR ''2'') (CHR ''0'') (CHR ''2'') (CHR ''9'') = Some 8233" "utf8 8233 = [CHR 0xE2, CHR 0x80, CHR 0xA9]"
  by (simp_all add: hex4_def hex_val_def utf8_def Let_def char_of_def bit_0)

lemma separator_to_valid:
  "d = CHR 0xA8 \<or> d = CHR 0xA9 \<Longrightarrow> to_valid (CHR 0xE2 # CHR 0x80 # d # cs) = CHR 0xE2 # CHR 0x80 # d # to_valid cs"
  using to_valid_head(1) [of "CHR 0xE2 # CHR 0x80 # d # cs" 3]
  by (auto simp: rune_size_runes rune3_def cont_byte_def)

lemma parse_str_replaced:
  "parse_str ([bslash, CHR ''u'', CHR ''f'', CHR ''f'', CHR ''f'', CHR ''d''] @ t) =
    map_option (\<lambda>(s, r). (replacement @ s, r)) (parse_str t)"
  using utf8_replacement by (simp add: hex4_def hex_val_def)

lemma parse_str_rune:
  assumes "head_size (c # cs) = Suc n" and "128 \<le> (of_char c :: nat)"
  shows "parse_str (c # take n cs @ t) = map_option (\<lambda>(s, r). (c # take n cs @ s, r)) (parse_str t)"
proof -
  have len: "n \<le> length cs" using rune_size_bound [of "map of_char (c # cs)"] assms(1) by simp
  have "head_size (c # take n cs @ t) = Suc n"
    using rune_size_take [OF assms(1), of "map of_char t"] by (simp add: take_map)
  moreover have "c \<noteq> quot" "c \<noteq> bslash" using assms(2) by auto
  ultimately show ?thesis using assms(2) len by simp
qed

text \<open>A printed string reads back with its invalid bytes replaced.\<close>

lemma parse_str_print: "parse_str (escape_text s @ quot # r) = Some (to_valid s, r)"
proof (induction s rule: escape_text.induct)
  case (2 c cs)
  consider (sep) "is_separator (c # cs)" | (ascii) "\<not> is_separator (c # cs)" "(of_char c :: nat) < 128"
    | (bad) "\<not> is_separator (c # cs)" "128 \<le> (of_char c :: nat)" "head_size (c # cs) = 0"
    | (rune) n where "\<not> is_separator (c # cs)" "128 \<le> (of_char c :: nat)" "head_size (c # cs) = Suc n"
    by (metis nat.exhaust not_less)
  then show ?case
  proof cases
    case sep
    then obtain d where d: "c # cs = CHR 0xE2 # CHR 0x80 # d # drop 2 cs" "d = CHR 0xA8 \<or> d = CHR 0xA9"
      using separator_cases by blast
    then have "cs ! 1 = d" by (metis One_nat_def list.inject nth_Cons_0 nth_Cons_Suc)
    moreover have "to_valid (c # cs) = CHR 0xE2 # CHR 0x80 # d # to_valid (drop 2 cs)"
      using separator_to_valid [OF d(2), of "drop 2 cs"] d(1) by simp
    ultimately show ?thesis using sep 2(1) d by (auto simp: separator_utf8 split: if_splits)
  next
    case ascii
    then have "head_size (c # cs) = 1" by (simp add: rune_size_runes)
    then have "to_valid (c # cs) = c # to_valid cs" using to_valid_head(1) [of "c # cs" 1] by simp
    then show ?thesis using ascii 2(2) by (simp add: parse_str_escape)
  next
    case bad
    have "escape_text (c # cs) = [bslash, CHR ''u'', CHR ''f'', CHR ''f'', CHR ''f'', CHR ''d''] @ escape_text cs"
      using bad by simp
    then show ?thesis using 2(3) bad to_valid_head(2) [OF bad(3)] parse_str_replaced [of "escape_text cs @ quot # r"] by simp
  next
    case (rune n)
    have "escape_text (c # cs) = c # take n cs @ escape_text (drop n cs)" using rune by simp
    moreover have "to_valid (c # cs) = c # take n cs @ to_valid (drop n cs)"
      using to_valid_head(1) [OF rune(3)] by simp
    ultimately show ?thesis
      using 2(4) [OF rune(1) _ rune(3)] rune(2) parse_str_rune [OF rune(3,2), of "escape_text (drop n cs) @ quot # r"] by simp
  qed
qed simp

lemma digit_char: "(m :: nat) < 10 \<Longrightarrow> is_digit (char_of (48 + m))"
  by (simp add: is_digit_def)

lemma itoa_digits: "list_all is_digit (itoa n) \<and> itoa n \<noteq> []"
  by (induction n rule: itoa.induct) (subst (1 2) itoa.simps, auto intro: digit_char)

lemma itoa_head: "0 < n \<Longrightarrow> hd (itoa n) \<noteq> CHR ''0''"
proof (induction n rule: itoa.induct)
  case (1 n)
  show ?case
  proof (cases "n < 10")
    case True
    have "char_of (48 + n) \<noteq> CHR ''0''"
    proof
      assume "char_of (48 + n) = CHR ''0''"
      then have "(of_char (char_of (48 + n) :: char) :: nat) = of_char (CHR ''0'')" by simp
      then show False using True 1(2) by simp
    qed
    then show ?thesis using True by (subst itoa.simps) simp
  next
    case False
    then show ?thesis using 1 itoa_digits [of "n div 10"] by (subst itoa.simps) simp
  qed
qed

lemma digits_val_itoa: "digits_val (itoa n) = n"
proof (induction n rule: itoa.induct)
  case (1 n)
  show ?case
    using 1 by (subst itoa.simps) (auto simp: digits_val_def)
qed

lemma itoa_inj: "itoa m = itoa n \<Longrightarrow> m = n"
  by (metis digits_val_itoa)

lemma int_digits_itoa: "int_digits (itoa n)"
proof (cases "n = 0")
  case True
  then show ?thesis by (subst True, subst itoa.simps) (simp add: int_digits_def is_digit_def)
next
  case False
  then show ?thesis using itoa_digits [of n] itoa_head [of n] by (simp add: int_digits_def)
qed

definition delim :: "string \<Rightarrow> bool" where "delim r \<longleftrightarrow> r = [] \<or> \<not> is_numchar (hd r)"

lemma takeWhile_delim: "list_all P s \<Longrightarrow> r = [] \<or> \<not> P (hd r) \<Longrightarrow> takeWhile P (s @ r) = s \<and> dropWhile P (s @ r) = r"
  by (cases r) (auto simp: list_all_iff takeWhile_append dropWhile_append)

lemma digit_not_minus: "is_digit c \<Longrightarrow> c \<noteq> CHR ''-''"
  by (auto simp: is_digit_def)

lemma parse_number_token:
  assumes "delim r" and "list_all is_numchar s" and "strip_minus s = (neg, ds)"
  shows "parse_number (s @ r) =
    (if int_digits ds then Some (JNum (if neg then - int (digits_val ds) else int (digits_val ds)), r)
     else if real_literal s then Some (JReal s, r) else None)"
proof -
  have "takeWhile is_numchar (s @ r) = s \<and> dropWhile is_numchar (s @ r) = r"
    by (rule takeWhile_delim [OF assms(2)]) (use assms(1) in \<open>simp add: delim_def\<close>)
  then show ?thesis by (simp only: parse_number_def Let_def assms(3) split_conv)
qed

lemma print_int_numchars: "list_all is_numchar (print_int n)"
  using itoa_digits by (auto simp: print_int_def is_numchar_def list_all_iff)

lemma strip_minus_int: "strip_minus (print_int n) = (n < 0, itoa (nat \<bar>n\<bar>))"
proof (cases "n < 0")
  case False
  obtain d ds where "itoa (nat n) = d # ds" "is_digit d" using itoa_digits [of "nat n"] by (cases "itoa (nat n)") auto
  with False digit_not_minus show ?thesis by (simp add: strip_minus_def print_int_def)
qed (simp add: strip_minus_def print_int_def)

lemma parse_number_int: "delim r \<Longrightarrow> parse_number (print_int n @ r) = Some (JNum n, r)"
  by (simp add: parse_number_token [OF _ print_int_numchars strip_minus_int] int_digits_itoa digits_val_itoa)

lemma parse_number_real:
  assumes "delim r" and "list_all is_numchar s" and "real_literal s"
  shows "parse_number (s @ r) = Some (JReal s, r)"
proof -
  obtain neg ds where sm: "strip_minus s = (neg, ds)" by force
  have "\<not> int_digits ds"
  proof
    assume "int_digits ds"
    then have "dropWhile is_digit ds = []" by (simp add: int_digits_def list_all_iff)
    with assms(3) sm show False by (simp add: real_literal_def Let_def)
  qed
  then show ?thesis by (simp add: parse_number_token [OF assms(1,2) sm] assms(3))
qed

section \<open>Printed documents read back\<close>

fun json_ok :: "json \<Rightarrow> bool" where
  "json_ok (JReal s) = (list_all is_numchar s \<and> real_literal s)"
| "json_ok (JArr js) = list_all json_ok js"
| "json_ok (JObj ms) = list_all (\<lambda>(k, j). json_ok j) ms"
| "json_ok _ = True"

text \<open>The value a printed document has: strings and names with their invalid bytes replaced.\<close>

fun json_coerce :: "json \<Rightarrow> json" where
  "json_coerce (JStr s) = JStr (to_valid s)"
| "json_coerce (JArr js) = JArr (map json_coerce js)"
| "json_coerce (JObj ms) = JObj (map (\<lambda>(k, j). (to_valid k, json_coerce j)) ms)"
| "json_coerce j = j"

text \<open>A document whose strings are valid UTF-8 is its own value.\<close>

fun json_utf8 :: "json \<Rightarrow> bool" where
  "json_utf8 (JStr s) = valid_utf8 s"
| "json_utf8 (JArr js) = list_all json_utf8 js"
| "json_utf8 (JObj ms) = list_all (\<lambda>(k, j). valid_utf8 k \<and> json_utf8 j) ms"
| "json_utf8 _ = True"

lemma json_coerce_id: "json_utf8 j \<Longrightarrow> json_coerce j = j"
  by (induction j rule: json_coerce.induct) (fastforce simp: list_all_iff to_valid_id intro!: map_idI)+

text \<open>The fuel a value needs.\<close>

fun json_fuel :: "json \<Rightarrow> nat" where
  "json_fuel (JArr js) = 1 + sum_list (map (\<lambda>j. 1 + json_fuel j) js)"
| "json_fuel (JObj ms) = 1 + sum_list (map (\<lambda>(k, j). 1 + json_fuel j) ms)"
| "json_fuel _ = 1"

lemma numchar_head: "is_numchar c \<Longrightarrow> \<not> is_ws c \<and> c \<noteq> quot \<and> c \<noteq> CHR ''['' \<and> c \<noteq> CHR '']'' \<and> c \<noteq> CHR ''{'' \<and>
    c \<noteq> CHR ''}'' \<and> c \<noteq> CHR ''n'' \<and> c \<noteq> CHR ''t'' \<and> c \<noteq> CHR ''f''"
  by (auto simp: is_numchar_def is_digit_def is_ws_def)

lemma print_int_head: "\<exists>c cs. print_int n = c # cs \<and> is_numchar c"
proof -
  obtain d ds where "itoa (nat n) = d # ds" "is_digit d" using itoa_digits [of "nat n"] by (cases "itoa (nat n)") auto
  then show ?thesis by (auto simp: print_int_def is_numchar_def)
qed

lemma real_head: "list_all is_numchar s \<Longrightarrow> real_literal s \<Longrightarrow> \<exists>c cs. s = c # cs \<and> is_numchar c"
  by (cases s) (auto simp: real_literal_def strip_minus_def Let_def int_digits_def)

text \<open>No printed value starts with white space or a closing bracket.\<close>

lemma print_head: "json_ok j \<Longrightarrow> \<exists>c cs. json_print j = c # cs \<and> \<not> is_ws c \<and> c \<noteq> CHR '']''"
proof (cases j)
  case (JNum n)
  then show ?thesis using print_int_head [of n] numchar_head by auto
next
  case (JReal s)
  moreover assume "json_ok j"
  ultimately show ?thesis using real_head [of s] numchar_head by auto
qed (auto simp: print_string_def is_ws_def)

lemma skip_print: "json_ok j \<Longrightarrow> skip_ws (json_print j @ r) = json_print j @ r"
  using print_head [of j] by (auto simp: skip_ws_def)

lemma parse_number_val:
  assumes "is_numchar c" and "parse_number (c # cs) = Some res"
  shows "parse_val (Suc n) (c # cs) = Some res"
  using numchar_head [OF assms(1)] assms(2) by (simp add: skip_ws_def)


text \<open>What reading back one value means, for every amount of fuel that is enough.\<close>

definition reads_back :: "json \<Rightarrow> bool" where
  "reads_back j \<longleftrightarrow> (\<forall>n r. json_fuel j \<le> n \<longrightarrow> delim r \<longrightarrow> parse_val n (json_print j @ r) = Some (json_coerce j, r))"

lemma delim_punct: "delim (CHR '','' # r)" "delim (CHR '']'' # r)" "delim (CHR ''}'' # r)" "delim []"
  by (auto simp: delim_def is_numchar_def is_digit_def)

lemma fuel_pos: "0 < json_fuel j"
  by (cases j) simp_all

lemma elems_read_back:
  assumes "list_all reads_back js" and "js \<noteq> []" and "sum_list (map (\<lambda>j. 1 + json_fuel j) js) \<le> n"
  shows "parse_elems n (commas (map json_print js) @ CHR '']'' # r) = Some (map json_coerce js, r)"
  using assms
proof (induction js arbitrary: n)
  case (Cons j js)
  obtain n' where n: "n = Suc n'" using Cons.prems(3) by (cases n) simp_all
  have fuel: "json_fuel j \<le> n'" "sum_list (map (\<lambda>j. 1 + json_fuel j) js) \<le> n'" using Cons.prems(3) n by simp_all
  have j: "parse_val n' (json_print j @ s) = Some (json_coerce j, s)" if "delim s" for s
    using Cons.prems(1) fuel(1) that by (simp add: reads_back_def)
  show ?case
  proof (cases js)
    case Nil
    then show ?thesis using j [OF delim_punct(2)] n by (simp add: skip_ws_def is_ws_def)
  next
    case (Cons k ks)
    have "parse_elems n' (commas (map json_print js) @ CHR '']'' # r) = Some (map json_coerce js, r)"
      using Cons.IH fuel(2) Cons.prems(1) Cons by simp
    then show ?thesis
      using j [OF delim_punct(1)] n Cons by (simp add: skip_ws_def is_ws_def)
  qed
qed simp


abbreviation print_member :: "string \<times> json \<Rightarrow> string" where
  "print_member \<equiv> (\<lambda>(k, j). print_string k @ '':'' @ json_print j)"

lemma skip_punct [simp]:
  "skip_ws (CHR '','' # r) = CHR '','' # r" "skip_ws (CHR '']'' # r) = CHR '']'' # r"
  "skip_ws (CHR ''}'' # r) = CHR ''}'' # r" "skip_ws (CHR '':'' # r) = CHR '':'' # r" "skip_ws (quot # r) = quot # r"
  "skip_ws [] = []"
  by (simp_all add: skip_ws_def is_ws_def)

lemma parse_member:
  assumes "parse_val n (json_print j @ s) = Some (v, s)"
  shows "parse_members (Suc n) (print_member (k, j) @ s) =
    (case skip_ws s of
       [] \<Rightarrow> None
     | d # r3 \<Rightarrow>
         if d = CHR '','' then map_option (\<lambda>(ms, r4). ((to_valid k, v) # ms, r4)) (parse_members n r3)
         else if d = CHR ''}'' then Some ([(to_valid k, v)], r3) else None)"
  using assms parse_str_print [of k "CHR '':'' # json_print j @ s"] by (simp add: print_string_def)

abbreviation coerce_member :: "string \<times> json \<Rightarrow> string \<times> json" where
  "coerce_member \<equiv> (\<lambda>(k, j). (to_valid k, json_coerce j))"

lemma members_read_back:
  assumes "list_all (\<lambda>(k, j). reads_back j) ms" and "ms \<noteq> []"
    and "sum_list (map (\<lambda>(k, j). 1 + json_fuel j) ms) \<le> n"
  shows "parse_members n (commas (map print_member ms) @ CHR ''}'' # r) = Some (map coerce_member ms, r)"
  using assms
proof (induction ms arbitrary: n)
  case (Cons m ms)
  obtain k j where m: "m = (k, j)" by force
  obtain n' where n: "n = Suc n'" using Cons.prems(3) m by (cases n) simp_all
  have fuel: "json_fuel j \<le> n'" "sum_list (map (\<lambda>(k, j). 1 + json_fuel j) ms) \<le> n'"
    using Cons.prems(3) n m by simp_all
  have j: "parse_val n' (json_print j @ s) = Some (json_coerce j, s)" if "delim s" for s
    using Cons.prems(1) m fuel(1) that by (simp add: reads_back_def)
  show ?case
  proof (cases "ms = []")
    case True
    then show ?thesis using parse_member [OF j [OF delim_punct(3)], of k r] n m by simp
  next
    case False
    have "parse_members n' (commas (map print_member ms) @ CHR ''}'' # r) = Some (map coerce_member ms, r)"
      using Cons.IH fuel(2) Cons.prems(1) False by simp
    moreover have "commas (map print_member (m # ms)) = print_member (k, j) @ CHR '','' # commas (map print_member ms)"
      using False m by (cases ms) simp_all
    ultimately show ?thesis
      using parse_member [OF j [OF delim_punct(1)], of k "commas (map print_member ms) @ CHR ''}'' # r"] n m by simp
  qed
qed simp

lemma commas_Cons: "\<exists>t. commas (s # ss) = s @ t"
  by (cases ss) simp_all

lemma commas_head:
  assumes "js \<noteq> []" and "list_all json_ok js"
  shows "\<exists>c cs. commas (map json_print js) @ r = c # cs \<and> \<not> is_ws c \<and> c \<noteq> CHR '']''"
proof (cases js)
  case (Cons j js')
  obtain c cs where "json_print j = c # cs" "\<not> is_ws c" "c \<noteq> CHR '']''"
    using print_head [of j] assms(2) Cons by auto
  with commas_Cons [of "json_print j" "map json_print js'"] Cons show ?thesis by auto
qed (use assms in simp)

lemma commas_member_head:
  assumes "ms \<noteq> []"
  shows "\<exists>cs. commas (map print_member ms) @ r = quot # cs"
proof (cases ms)
  case (Cons m ms')
  with commas_Cons [of "print_member m" "map print_member ms'"] show ?thesis
    by (cases m) (auto simp: print_string_def)
qed (use assms in simp)

lemma print_reads_back: "json_ok j \<Longrightarrow> reads_back j"
proof (induction j rule: json_print.induct)
  case (3 n)
  then show ?case
    using print_int_head [of n] parse_number_int [of _ n] parse_number_val
    by (fastforce simp: reads_back_def Suc_le_eq gr0_conv_Suc)
next
  case (4 s)
  then show ?case
    using real_head [of s] parse_number_real [of _ s] parse_number_val
    by (fastforce simp: reads_back_def Suc_le_eq gr0_conv_Suc)
next
  case (5 s)
  have "parse_val (Suc n) (print_string s @ r) = Some (JStr (to_valid s), r)" for n r
    using parse_str_print [of s r] by (simp add: print_string_def)
  then show ?case by (auto simp: reads_back_def Suc_le_eq gr0_conv_Suc)
next
  case (6 js)
  show ?case unfolding reads_back_def
  proof (intro allI impI)
    fix n r
    assume fuel: "json_fuel (JArr js) \<le> n"
    then obtain n' where n: "n = Suc n'" by (cases n) simp_all
    have all: "list_all reads_back js" using 6 by (auto simp: list_all_iff)
    show "parse_val n (json_print (JArr js) @ r) = Some (json_coerce (JArr js), r)"
    proof (cases "js = []")
      case True
      then show ?thesis using n by (simp add: skip_ws_def is_ws_def)
    next
      case False
      obtain c cs where c: "commas (map json_print js) @ CHR '']'' # r = c # cs" "\<not> is_ws c" "c \<noteq> CHR '']''"
        using commas_head [OF False, of "CHR '']'' # r"] 6(2) by auto
      have "parse_elems n' (c # cs) = Some (map json_coerce js, r)"
        using elems_read_back [OF all False, of n' r] fuel n c(1) by simp
      then show ?thesis using n c by (simp add: skip_ws_def is_ws_def)
    qed
  qed
next
  case (7 ms)
  show ?case unfolding reads_back_def
  proof (intro allI impI)
    fix n r
    assume fuel: "json_fuel (JObj ms) \<le> n"
    then obtain n' where n: "n = Suc n'" by (cases n) simp_all
    have all: "list_all (\<lambda>(k, j). reads_back j) ms" using 7 by (fastforce simp: list_all_iff)
    show "parse_val n (json_print (JObj ms) @ r) = Some (json_coerce (JObj ms), r)"
    proof (cases "ms = []")
      case True
      then show ?thesis using n by (simp add: skip_ws_def is_ws_def)
    next
      case False
      obtain cs where c: "commas (map print_member ms) @ CHR ''}'' # r = quot # cs"
        using commas_member_head [OF False] by blast
      have "parse_members n' (quot # cs) = Some (map coerce_member ms, r)"
        using members_read_back [OF all False, of n' r] fuel n c by simp
      then show ?thesis using n c by (simp add: skip_ws_def is_ws_def)
    qed
  qed
qed (auto simp: reads_back_def Suc_le_eq gr0_conv_Suc skip_ws_def is_ws_def strip_prefix_def)


lemma commas_length: "sum_list (map length ss) + length ss \<le> Suc (length (commas ss))"
  by (induction ss rule: commas.induct) simp_all

lemma fuel_length: "json_ok j \<Longrightarrow> json_fuel j \<le> length (json_print j)"
proof (induction j rule: json_print.induct)
  case (6 js)
  have "sum_list (map (\<lambda>j. 1 + json_fuel j) js) \<le> sum_list (map length (map json_print js)) + length js"
    using 6 by (induction js) (fastforce simp: list_all_iff)+
  with commas_length [of "map json_print js"] show ?case by simp
next
  case (7 ms)
  have "sum_list (map (\<lambda>(k, j). 1 + json_fuel j) ms) \<le> sum_list (map length (map print_member ms)) + length ms"
    using 7 by (induction ms) (fastforce simp: list_all_iff)+
  with commas_length [of "map print_member ms"] show ?case by simp
next
  case (3 n)
  then show ?case using print_int_head [of n] by auto
next
  case (4 s)
  then show ?case using real_head [of s] by auto
qed (simp_all add: print_string_def)

text \<open>Every document \<open>Marshal\<close> prints is read back, as itself when its strings are valid UTF-8.\<close>

theorem json_print_decode:
  assumes "json_ok j"
  shows "json_decode (json_print j) = Some (json_coerce j)"
proof -
  have "json_fuel j \<le> 2 * length (json_print j) + 2" using fuel_length [OF assms] by simp
  then have "parse_val (2 * length (json_print j) + 2) (json_print j @ []) = Some (json_coerce j, [])"
    using print_reads_back [OF assms] delim_punct(4) unfolding reads_back_def by blast
  then show ?thesis by (simp add: json_decode_def)
qed

section \<open>Bytes\<close>

text \<open>\<open>json.Marshal\<close> of a value that encodes as \<open>j\<close>, and the syntax half of \<open>json.Unmarshal\<close>.\<close>

definition json_bytes :: "json \<Rightarrow> byte list" where
  "json_bytes j = bytes_of_string (json_print j)"

definition unmarshal_bytes :: "byte list \<Rightarrow> json result" where
  "unmarshal_bytes bs = (case json_decode (string_of_bytes bs) of None \<Rightarrow> Inl json_syntax_error | Some j \<Rightarrow> Inr j)"

lemma unmarshal_coerced: "json_ok j \<Longrightarrow> unmarshal_bytes (json_bytes j) = Inr (json_coerce j)"
  by (simp add: unmarshal_bytes_def json_bytes_def json_print_decode)

lemma unmarshal_json_bytes: "json_ok j \<Longrightarrow> json_utf8 j \<Longrightarrow> unmarshal_bytes (json_bytes j) = Inr j"
  by (simp add: unmarshal_coerced json_coerce_id)

lemma json_bytes_nonempty: "json_ok j \<Longrightarrow> json_bytes j \<noteq> []"
  using print_head [of j] by (auto simp: json_bytes_def bytes_of_string_def)

section \<open>Raw members\<close>

text \<open>
  \<open>json.RawMessage\<close> keeps the text of a member. \<open>raw_object\<close> splits an object into its names and the text
  of each value without the white space around it; \<open>object_text\<close> writes one with raw values, which
  \<open>Marshal\<close> copies when they are compact already.
\<close>

fun raw_members :: "nat \<Rightarrow> string \<Rightarrow> (string \<times> string) list option" where
  "raw_members 0 s = None"
| "raw_members (Suc n) s =
     (case skip_ws s of
        [] \<Rightarrow> None
      | q # s1 \<Rightarrow>
          (case parse_str s1 of
             None \<Rightarrow> None
           | Some (k, r) \<Rightarrow>
               (case skip_ws r of
                  [] \<Rightarrow> None
                | _ # r1 \<Rightarrow>
                    (let t = skip_ws r1
                     in case parse_val (2 * length t + 2) t of
                          None \<Rightarrow> None
                        | Some (_, r2) \<Rightarrow>
                            (case skip_ws r2 of
                               [] \<Rightarrow> None
                             | d # r3 \<Rightarrow>
                                 if d = CHR '',''
                                 then map_option (\<lambda>ms. (k, take (length t - length r2) t) # ms) (raw_members n r3)
                                 else Some [(k, take (length t - length r2) t)])))))"

definition raw_object :: "string \<Rightarrow> (string \<times> string) list option" where
  "raw_object s =
     (case skip_ws s of
        [] \<Rightarrow> None
      | c # cs \<Rightarrow>
          if c \<noteq> CHR ''{'' then None
          else if skip_ws cs \<noteq> [] \<and> hd (skip_ws cs) = CHR ''}'' then Some []
          else raw_members (length cs) cs)"

definition object_text :: "(string \<times> string) list \<Rightarrow> string" where
  "object_text ms = ''{'' @ commas (map (\<lambda>(k, t). print_string k @ '':'' @ t) ms) @ ''}''"

lemma object_text_print: "object_text (map (\<lambda>(k, j). (k, json_print j)) ms) = json_print (JObj ms)"
  by (simp add: object_text_def comp_def split_def)

lemma parse_val_print:
  assumes "json_ok j" and "delim s"
  shows "parse_val (2 * length (json_print j @ s) + 2) (json_print j @ s) = Some (json_coerce j, s)"
proof -
  have "json_fuel j \<le> 2 * length (json_print j @ s) + 2" using fuel_length [OF assms(1)] by simp
  then show ?thesis using print_reads_back [OF assms(1)] assms(2) unfolding reads_back_def by blast
qed

lemma raw_member:
  assumes "json_ok j" and "delim s"
  shows "raw_members (Suc n) (print_member (k, j) @ s) =
    (case skip_ws s of
       [] \<Rightarrow> None
     | d # r3 \<Rightarrow>
         if d = CHR '','' then map_option (\<lambda>ms. (to_valid k, json_print j) # ms) (raw_members n r3)
         else Some [(to_valid k, json_print j)])"
  using parse_str_print [of k "CHR '':'' # json_print j @ s"] parse_val_print [OF assms] skip_print [OF assms(1), of s]
  by (simp add: print_string_def Let_def del: parse_val.simps split: list.split)

lemma raw_members_print:
  assumes "list_all (\<lambda>(k, j). json_ok j) ms" and "ms \<noteq> []" and "length ms \<le> n"
  shows "raw_members n (commas (map print_member ms) @ ''}'') = Some (map (\<lambda>(k, j). (to_valid k, json_print j)) ms)"
  using assms
proof (induction ms arbitrary: n)
  case (Cons m ms)
  obtain k j where m: "m = (k, j)" by force
  obtain n' where n: "n = Suc n'" using Cons.prems(3) by (cases n) simp_all
  have j: "json_ok j" using Cons.prems(1) m by simp
  show ?case
  proof (cases "ms = []")
    case True
    then show ?thesis using raw_member [OF j delim_punct(3), of n' k "[]"] n m by simp
  next
    case False
    have "raw_members n' (commas (map print_member ms) @ ''}'') = Some (map (\<lambda>(k, j). (to_valid k, json_print j)) ms)"
      using Cons.IH Cons.prems n False by simp
    moreover have "commas (map print_member (m # ms)) = print_member (k, j) @ CHR '','' # commas (map print_member ms)"
      using False m by (cases ms) simp_all
    ultimately show ?thesis
      using raw_member [OF j delim_punct(1), of n' k "commas (map print_member ms) @ ''}''"] n m by simp
  qed
qed simp

lemma raw_object_print:
  assumes "json_ok (JObj ms)"
  shows "raw_object (json_print (JObj ms)) = Some (map (\<lambda>(k, j). (to_valid k, json_print j)) ms)"
proof (cases "ms = []")
  case True
  then show ?thesis by (simp add: raw_object_def skip_ws_def is_ws_def)
next
  case False
  obtain cs where c: "commas (map print_member ms) @ ''}'' = quot # cs" using commas_member_head [OF False] by blast
  have "length ms \<le> length (commas (map print_member ms) @ ''}'')"
    using commas_length [of "map print_member ms"] by simp
  then have "length ms \<le> Suc (length cs)" unfolding c by simp
  from raw_members_print [OF _ False this] show ?thesis
    using assms c by (simp add: raw_object_def skip_ws_def is_ws_def del: raw_members.simps)
qed

end
