(* ===== verification/Gor_State.thy ===== *)
theory Gor_State
  imports Gor_Root Gor_Sqlite Gor_Json_Text
begin

text \<open>
  Grain State and Reminders as an entity sees them: \<open>state.go\<close>, \<open>schedule.go\<close>, and the factory and
  dispatch functions \<open>Register\<close> of \<open>gor.go\<close> hands to the engine. The named states of a Grain share one
  record; its data is a JSON object, printed to bytes and parsed back. A state's type is known by its
  codec: zero value, \<open>json.Marshal\<close> and \<open>json.Unmarshal\<close> for that type.
\<close>

section \<open>Binder and states\<close>

record 'v codec =
  cd_zero :: 'v
  cd_marshal :: "'v \<Rightarrow> json result"
  cd_unmarshal :: "json \<Rightarrow> 'v \<Rightarrow> 'v result"

record 'v cell =
  c_codec :: "'v codec"
  c_value :: 'v
  c_present :: bool

record 'v grain_binder =
  b_identity :: grain_id
  b_etag :: etag
  b_states :: "(string, 'v cell) gomap"
  b_discard :: "go_error option"

definition newBinder :: "grain_id \<Rightarrow> 'v grain_binder" where
  "newBinder i = \<lparr>b_identity = i, b_etag = 0, b_states = [], b_discard = None\<rparr>"

definition binder_Self :: "'v grain_binder \<Rightarrow> grain_id" where
  "binder_Self b = GrainId (GrainType (b_identity b)) (GrainKey (b_identity b))"

text \<open>\<open>NewState\<close>; \<open>Inl\<close> is the panic message.\<close>

definition NewState :: "string \<Rightarrow> 'v codec \<Rightarrow> 'v grain_binder \<Rightarrow> string + 'v grain_binder" where
  "NewState name codec b =
     (if gm_get (b_states b) name \<noteq> None then Inl (''state '' @ go_quote name @ '' is already registered'')
      else Inr (b\<lparr>b_states := gm_put name \<lparr>c_codec = codec, c_value = cd_zero codec, c_present = False\<rparr> (b_states b)\<rparr>))"

definition cell_encode :: "'v cell \<Rightarrow> json result" where
  "cell_encode c = cd_marshal (c_codec c) (c_value c)"

definition cell_decode :: "json \<Rightarrow> 'v cell \<Rightarrow> 'v cell result" where
  "cell_decode data c =
     (case cd_unmarshal (c_codec c) data (c_value c) of
        Inl e \<Rightarrow> Inl e
      | Inr v \<Rightarrow> Inr (c\<lparr>c_value := v, c_present := True\<rparr>))"

definition State_Get :: "'v grain_binder \<Rightarrow> string \<Rightarrow> 'v option" where
  "State_Get b name = map_option c_value (gm_get (b_states b) name)"

definition State_Exists :: "'v grain_binder \<Rightarrow> string \<Rightarrow> bool option" where
  "State_Exists b name = map_option c_present (gm_get (b_states b) name)"

definition is_cancellation :: "go_error \<Rightarrow> bool" where
  "is_cancellation e \<longleftrightarrow> errors_Is e (TSentinel CtxCanceled) \<or> errors_Is e (TSentinel CtxDeadlineExceeded)"

text \<open>Decoding a document into \<open>map[string]json.RawMessage\<close>: the last of equal names stays.\<close>

definition document_of :: "json \<Rightarrow> (string, json) gomap result" where
  "document_of j =
     (case j of
        JNull \<Rightarrow> Inr []
      | JObj ms \<Rightarrow> Inr (foldl (\<lambda>d (k, v). gm_put k v d) [] ms)
      | _ \<Rightarrow> Inl json_type_error)"

text \<open>The loop of \<open>load\<close> over the registered states.\<close>

fun decode_states :: "(string, json) gomap \<Rightarrow> (string \<times> 'v cell) list \<Rightarrow> (string \<times> 'v cell) list result" where
  "decode_states doc [] = Inr []"
| "decode_states doc ((name, c) # cs) =
     (case gm_get doc name of
        None \<Rightarrow> map_sum id (\<lambda>rest. (name, c) # rest) (decode_states doc cs)
      | Some data \<Rightarrow>
          (case cell_decode data c of
             Inl e \<Rightarrow> Inl e
           | Inr c' \<Rightarrow> map_sum id (\<lambda>rest. (name, c') # rest) (decode_states doc cs)))"

definition Binder_load :: "(grain_id \<Rightarrow> store_record result) \<Rightarrow> 'v grain_binder \<Rightarrow> go_error option \<times> 'v grain_binder" where
  "Binder_load rd b =
     (case rd (b_identity b) of
        Inl e \<Rightarrow> (Some (if is_cancellation e then e else withCode ErrPersistenceFailed e), b)
      | Inr rec \<Rightarrow>
          if rec_Data rec = [] then (None, b\<lparr>b_etag := rec_ETag rec\<rparr>)
          else
            (case unmarshal_bytes (rec_Data rec) of
               Inl e \<Rightarrow> (Some e, b)
             | Inr j \<Rightarrow>
                 (case document_of j of
                    Inl e \<Rightarrow> (Some e, b)
                  | Inr doc \<Rightarrow>
                      (case decode_states doc (b_states b) of
                         Inl e \<Rightarrow> (Some e, b)
                       | Inr cells \<Rightarrow> (None, b\<lparr>b_states := cells, b_etag := rec_ETag rec\<rparr>)))))"

text \<open>The document \<open>persist\<close> builds: \<open>changed\<close> is the state that is written, with its data or absent.\<close>

fun build_document ::
    "string \<Rightarrow> json option \<Rightarrow> (string \<times> 'v cell) list \<Rightarrow> (string \<times> json) list result" where
  "build_document changed data [] = Inr []"
| "build_document changed data ((name, c) # cs) =
     (if name = changed
      then (case data of None \<Rightarrow> build_document changed data cs
            | Some j \<Rightarrow> map_sum id (\<lambda>rest. (name, j) # rest) (build_document changed data cs))
      else if \<not> c_present c then build_document changed data cs
      else (case cell_encode c of
              Inl e \<Rightarrow> Inl e
            | Inr j \<Rightarrow> map_sum id (\<lambda>rest. (name, j) # rest) (build_document changed data cs)))"

type_synonym 's store_write = "'s \<Rightarrow> grain_id \<Rightarrow> byte list \<Rightarrow> etag \<Rightarrow> etag result \<times> 's"

definition Binder_persist ::
    "'s store_write \<Rightarrow> string \<Rightarrow> json option \<Rightarrow> 'v grain_binder \<Rightarrow> 's \<Rightarrow> go_error option \<times> 'v grain_binder \<times> 's" where
  "Binder_persist wr changed data b s =
     (case build_document changed data (b_states b) of
        Inl e \<Rightarrow> (Some e, b, s)
      | Inr document \<Rightarrow>
          (case wr s (b_identity b) (json_bytes (JObj (sort_key fst document))) (b_etag b) of
             (Inr etag, s') \<Rightarrow> (None, b\<lparr>b_etag := etag\<rparr>, s')
           | (Inl e, s') \<Rightarrow>
               if is_cancellation e then (Some e, b, s')
               else
                 (let d = (if errors_Is e (TSentinel StoreErrConflict) then withCode ErrPersistenceConflict e
                           else withCode ErrPersistenceFailed e)
                  in (Some d, b\<lparr>b_discard := Some d\<rparr>, s'))))"

definition set_cell :: "string \<Rightarrow> ('v cell \<Rightarrow> 'v cell) \<Rightarrow> 'v grain_binder \<Rightarrow> 'v grain_binder" where
  "set_cell name f b =
     b\<lparr>b_states := map (\<lambda>(n, c). if n = name then (n, f c) else (n, c)) (b_states b)\<rparr>"

text \<open>\<open>Set\<close> and \<open>Clear\<close> on the handle of the state \<open>name\<close>, whose type has the codec \<open>codec\<close>.\<close>

definition State_Set ::
    "'s store_write \<Rightarrow> 'v codec \<Rightarrow> string \<Rightarrow> 'v \<Rightarrow> 'v grain_binder \<Rightarrow> 's \<Rightarrow> go_error option \<times> 'v grain_binder \<times> 's" where
  "State_Set wr codec name v b s =
     (case cd_marshal codec v of
        Inl e \<Rightarrow> (Some e, b, s)
      | Inr encoded \<Rightarrow>
          (case Binder_persist wr name (Some encoded) b s of
             (Some e, b', s') \<Rightarrow> (Some e, b', s')
           | (None, b', s') \<Rightarrow> (None, set_cell name (\<lambda>c. c\<lparr>c_value := v, c_present := True\<rparr>) b', s')))"

definition State_Clear ::
    "'s store_write \<Rightarrow> 'v codec \<Rightarrow> string \<Rightarrow> 'v grain_binder \<Rightarrow> 's \<Rightarrow> go_error option \<times> 'v grain_binder \<times> 's" where
  "State_Clear wr codec name b s =
     (case Binder_persist wr name None b s of
        (Some e, b', s') \<Rightarrow> (Some e, b', s')
      | (None, b', s') \<Rightarrow> (None, set_cell name (\<lambda>c. c\<lparr>c_value := cd_zero codec, c_present := False\<rparr>) b', s'))"

section \<open>The functions Register hands to the engine\<close>

text \<open>
  \<open>factory\<close> is the entity's constructor, which registers its states on the \<open>Binder\<close>; \<open>on_activate\<close> is the
  result of the activation hook, \<open>None\<close> when the entity has none.
\<close>

definition Register_Factory ::
    "('v grain_binder \<Rightarrow> 'v grain_binder) \<Rightarrow> (grain_id \<Rightarrow> store_record result) \<Rightarrow> go_error option option \<Rightarrow> grain_id \<Rightarrow>
     'v grain_binder result" where
  "Register_Factory factory rd on_activate i =
     (case Binder_load rd (factory (newBinder i)) of
        (Some e, _) \<Rightarrow> Inl e
      | (None, b) \<Rightarrow> (case on_activate of Some (Some e) \<Rightarrow> Inl e | _ \<Rightarrow> Inr b))"

definition Register_Dispatch :: "go_error option \<Rightarrow> 'v grain_binder \<Rightarrow> go_error option" where
  "Register_Dispatch err b =
     (case b_discard b of
        Some d \<Rightarrow> Some (Discard (errors_join [err, Some d]))
      | None \<Rightarrow> err)"

section \<open>Reminders\<close>

record reminder_time =
  rt_delay :: duration
  rt_interval :: duration

definition After :: "duration \<Rightarrow> reminder_time" where "After delay = \<lparr>rt_delay = delay, rt_interval = 0\<rparr>"
definition Every :: "duration \<Rightarrow> reminder_time" where "Every interval = \<lparr>rt_delay = interval, rt_interval = interval\<rparr>"

text \<open>\<open>Handle\<close>: the part of the function's full name after its last dot.\<close>

definition Handle :: "string \<Rightarrow> string" where
  "Handle full = rev (takeWhile (\<lambda>c. c \<noteq> CHR ''.'') (rev full))"

definition Reminder_Set ::
    "('s \<Rightarrow> reminder \<Rightarrow> unit result \<times> 's) option \<Rightarrow> gtime \<Rightarrow> grain_id \<Rightarrow> string \<Rightarrow> reminder_time \<Rightarrow> string \<Rightarrow> 's \<Rightarrow>
     go_error option \<times> 's" where
  "Reminder_Set put now i name whn method s =
     (case put of
        None \<Rightarrow> (Some (Sentinel ErrReminderStoreUnavailable), s)
      | Some f \<Rightarrow>
          (let firstTickTime = time_add now (rt_delay whn)
           in case f s \<lparr>r_GrainId = i, r_Name = name, r_Method = method, r_FirstTickTime = firstTickTime,
                       r_DueAt = firstTickTime, r_Interval = rt_interval whn, r_ETag = 0\<rparr> of
                (Inl e, s') \<Rightarrow> (Some e, s')
              | (Inr _, s') \<Rightarrow> (None, s')))"

definition Reminder_Cancel ::
    "('s \<Rightarrow> grain_id \<Rightarrow> string \<Rightarrow> unit result \<times> 's) option \<Rightarrow> grain_id \<Rightarrow> string \<Rightarrow> 's \<Rightarrow> go_error option \<times> 's" where
  "Reminder_Cancel del i name s =
     (case del of
        None \<Rightarrow> (Some (Sentinel ErrReminderStoreUnavailable), s)
      | Some f \<Rightarrow> (case f s i name of (Inl e, s') \<Rightarrow> (Some e, s') | (Inr _, s') \<Rightarrow> (None, s')))"


section \<open>A successful write is what the next activation loads\<close>

text \<open>Values of the type survive their encoding, starting from the zero value.\<close>

definition codec_ok :: "'v codec \<Rightarrow> bool" where
  "codec_ok cd \<longleftrightarrow>
     (\<forall>v j. cd_marshal cd v = Inr j \<longrightarrow> json_ok j \<and> json_utf8 j \<and> cd_unmarshal cd j (cd_zero cd) = Inr v)"

lemma codec_okD:
  assumes "codec_ok cd" and "cd_marshal cd v = Inr j"
  shows "json_ok j \<and> json_utf8 j" and "cd_unmarshal cd j (cd_zero cd) = Inr v"
  using assms unfolding codec_ok_def by blast+

text \<open>Names are distinct and valid UTF-8, and an absent state holds its zero value.\<close>

definition binder_ok :: "'v grain_binder \<Rightarrow> bool" where
  "binder_ok b \<longleftrightarrow> gm_ok (b_states b) \<and>
     (\<forall>(n, c) \<in> set (b_states b). valid_utf8 n \<and> codec_ok (c_codec c) \<and> (\<not> c_present c \<longrightarrow> c_value c = cd_zero (c_codec c)))"

text \<open>The states of a new activation of the same entity, before loading.\<close>

definition unloaded_cell :: "'v cell \<Rightarrow> 'v cell" where
  "unloaded_cell c = c\<lparr>c_value := cd_zero (c_codec c), c_present := False\<rparr>"

definition unloaded :: "'v grain_binder \<Rightarrow> 'v grain_binder" where
  "unloaded b = b\<lparr>b_etag := 0, b_states := map (\<lambda>(n, c). (n, unloaded_cell c)) (b_states b), b_discard := None\<rparr>"

lemma gm_put_fold: "gm_get (foldl (\<lambda>d (k, v). gm_put k v d) d ms) k =
    (case map_of (rev ms) k of None \<Rightarrow> gm_get d k | Some v \<Rightarrow> Some v)"
  by (induction ms arbitrary: d) (auto simp: go_map_simps map_add_def split: option.splits)

lemma sorted_document_get:
  assumes "distinct (map fst ms)" and "document_of (JObj (sort_key fst ms)) = Inr doc"
  shows "gm_get doc k = map_of ms k"
proof -
  have "distinct (map fst (sort_key fst ms))" using assms(1) by (simp add: distinct_map)
  then have "map_of (rev (sort_key fst ms)) = map_of (sort_key fst ms)"
    by (metis distinct_rev map_of_inject_set rev_map set_rev)
  moreover have "map_of (sort_key fst ms) = map_of ms"
    by (rule map_of_inject_set [THEN iffD2]) (use assms(1) \<open>distinct (map fst (sort_key fst ms))\<close> in auto)
  ultimately show ?thesis
    using assms(2) gm_put_fold [of "[]" "sort_key fst ms" k] by (auto simp: document_of_def split: option.splits)
qed

lemma decode_unloaded:
  assumes "\<And>n c. (n, c) \<in> set cs \<Longrightarrow>
      (if c_present c then \<exists>j. gm_get doc n = Some j \<and> cd_unmarshal (c_codec c) j (cd_zero (c_codec c)) = Inr (c_value c)
       else gm_get doc n = None \<and> c_value c = cd_zero (c_codec c))"
  shows "decode_states doc (map (\<lambda>(n, c). (n, unloaded_cell c)) cs) = Inr cs"
  using assms
proof (induction cs)
  case (Cons p cs)
  obtain n c where p: "p = (n, c)" by force
  have "decode_states doc (map (\<lambda>(n, c). (n, unloaded_cell c)) cs) = Inr cs"
    by (rule Cons.IH) (rule Cons.prems, simp)
  then show ?case using Cons.prems [of n c] p
    by (cases "c_present c") (auto simp: unloaded_cell_def cell_decode_def)
qed simp

text \<open>The document holds, per state, the entry below.\<close>

definition entry_of :: "string \<Rightarrow> json option \<Rightarrow> string \<Rightarrow> 'v cell \<Rightarrow> json option" where
  "entry_of changed data n c =
     (if n = changed then data
      else if c_present c then (case cell_encode c of Inl _ \<Rightarrow> None | Inr j \<Rightarrow> Some j) else None)"

definition entries :: "(string \<Rightarrow> 'c \<Rightarrow> json option) \<Rightarrow> (string \<times> 'c) list \<Rightarrow> (string \<times> json) list" where
  "entries f cs = List.map_filter (\<lambda>(n, c). map_option (Pair n) (f n c)) cs"

lemma entries_simps [simp]:
  "entries f [] = []"
  "entries f ((n, c) # cs) = (case f n c of None \<Rightarrow> entries f cs | Some j \<Rightarrow> (n, j) # entries f cs)"
  by (simp_all add: entries_def List.map_filter_def split: option.split)

lemma entries_source: "(n, j) \<in> set (entries f cs) \<Longrightarrow> \<exists>c. (n, c) \<in> set cs \<and> f n c = Some j"
  unfolding entries_def List.map_filter_def by auto

lemma entries_keys: "fst ` set (entries f cs) \<subseteq> fst ` set cs"
proof
  fix n
  assume "n \<in> fst ` set (entries f cs)"
  then obtain j where "(n, j) \<in> set (entries f cs)" by auto
  then show "n \<in> fst ` set cs" using entries_source [of n j f cs] by force
qed

lemma entries_distinct: "distinct (map fst cs) \<Longrightarrow> distinct (map fst (entries f cs))"
proof (induction cs)
  case (Cons p cs)
  obtain n c where p: "p = (n, c)" by force
  have "n \<notin> fst ` set (entries f cs)" using Cons.prems entries_keys [of f cs] p by auto
  then show ?case using Cons p by (simp split: option.split)
qed simp

lemma entries_get: "distinct (map fst cs) \<Longrightarrow> (n, c) \<in> set cs \<Longrightarrow> map_of (entries f cs) n = f n c"
proof (induction cs)
  case (Cons p cs)
  obtain m d where p: "p = (m, d)" by force
  show ?case
  proof (cases "(n, c) = (m, d)")
    case True
    have "m \<notin> fst ` set (entries f cs)" using entries_keys [of f cs] Cons.prems(1) p by auto
    then have "map_of (entries f cs) m = None" by (simp add: map_of_eq_None_iff)
    then show ?thesis using True p by (auto split: option.split)
  next
    case False
    then have "(n, c) \<in> set cs" "n \<noteq> m" using Cons.prems p by force+
    then show ?thesis using Cons p by (auto split: option.split)
  qed
qed simp

lemma build_document_entries:
  "build_document changed data cs = Inr doc \<Longrightarrow>
    doc = entries (entry_of changed data) cs \<and>
    (\<forall>(n, c) \<in> set cs. n \<noteq> changed \<longrightarrow> c_present c \<longrightarrow> (\<exists>j. cell_encode c = Inr j))"
proof (induction cs arbitrary: doc)
  case (Cons p cs)
  obtain n c where p: "p = (n, c)" by force
  obtain rest where rest: "build_document changed data cs = Inr rest"
    using Cons.prems p
    by (cases "build_document changed data cs") (auto split: if_splits option.splits sum.splits)
  from Cons.IH [OF rest] Cons.prems rest show ?case
    by (auto simp: p entry_of_def split: if_splits option.splits sum.splits)
qed simp

section \<open>The store a Binder writes to\<close>

text \<open>
  The contract of \<open>store.Store\<close>: a compare-and-swap table of records that a read returns, with the zero
  record for a missing one.
\<close>

locale grain_store = cas_table look put inv
  for look :: "'s \<Rightarrow> grain_id \<Rightarrow> (byte list \<times> int) option"
    and put :: "'s \<Rightarrow> grain_id \<Rightarrow> byte list \<Rightarrow> int \<Rightarrow> int result \<times> 's"
    and inv :: "'s \<Rightarrow> bool" +
  fixes get :: "'s \<Rightarrow> grain_id \<Rightarrow> store_record result"
  assumes get_look: "inv s \<Longrightarrow>
      get s i = Inr (case look s i of None \<Rightarrow> zero_record | Some (d, t) \<Rightarrow> \<lparr>rec_Data = d, rec_ETag = t\<rparr>)"
begin

lemma put_ok:
  assumes "inv s" and "tag_of (look s i) < max_int64" and "put s i d t = (Inr t', s')"
  shows "inv s'" and "t' = t + 1" and "get s' i = Inr \<lparr>rec_Data = d, rec_ETag = t + 1\<rparr>"
proof -
  have hit: "tag_of (look s i) = t" using put_miss [OF assms(1), of i t d] assms(3) by auto
  from put_hit [OF assms(1) hit, of d] assms(2,3) hit
  show i: "inv s'" and "t' = t + 1" and "get s' i = Inr \<lparr>rec_Data = d, rec_ETag = t + 1\<rparr>"
    by (auto simp: get_look)
qed

lemma persist_reload:
  assumes "inv s" and "tag_of (look s (b_identity b)) < max_int64" and "binder_ok b"
    and "Binder_persist put name data b s = (None, b', s')"
    and "\<forall>j. data = Some j \<longrightarrow> json_ok j \<and> json_utf8 j"
    and "cells = map (\<lambda>(n, c). if n = name then (n, f c) else (n, c)) (b_states b)"
    and "\<And>c. (name, c) \<in> set (b_states b) \<Longrightarrow> c_codec (f c) = c_codec c \<and>
      (case data of
         None \<Rightarrow> \<not> c_present (f c) \<and> c_value (f c) = cd_zero (c_codec c)
       | Some j \<Rightarrow> c_present (f c) \<and> cd_unmarshal (c_codec c) j (cd_zero (c_codec c)) = Inr (c_value (f c)))"
  shows "Binder_load (get s') (unloaded (b'\<lparr>b_states := cells\<rparr>)) = (None, b'\<lparr>b_states := cells, b_discard := None\<rparr>)"
proof -
  obtain doc where doc: "build_document name data (b_states b) = Inr doc"
    using assms(4) by (cases "build_document name data (b_states b)") (auto simp: Binder_persist_def)
  let ?cs = "b_states b" and ?j = "JObj (sort_key fst doc)"
  obtain t where w: "put s (b_identity b) (json_bytes ?j) (b_etag b) = (Inr t, s')" and b': "b' = b\<lparr>b_etag := t\<rparr>"
    using assms(4) doc
    by (auto simp: Binder_persist_def Let_def split: prod.splits sum.splits if_splits)
  note put = put_ok [OF assms(1,2) w]
  note ents = build_document_entries [OF doc]
  have dist: "distinct (map fst ?cs)" using assms(3) by (simp add: binder_ok_def gm_ok_def)
  have "json_ok ?j \<and> json_utf8 ?j"
  proof -
    have "valid_utf8 n \<and> json_ok j \<and> json_utf8 j" if mem: "(n, j) \<in> set doc" for n j
    proof -
      obtain c where c: "(n, c) \<in> set ?cs" "entry_of name data n c = Some j"
        using mem ents entries_source [of n j "entry_of name data" ?cs] by auto
      have n: "valid_utf8 n" "codec_ok (c_codec c)" using assms(3) c(1) by (auto simp: binder_ok_def)
      from n(1) codec_okD(1) [OF n(2)] show ?thesis using assms(5) c(2)
        by (auto simp: entry_of_def cell_encode_def split: if_splits sum.splits)
    qed
    then show ?thesis by (auto simp: list_all_iff)
  qed
  then have data: "unmarshal_bytes (json_bytes ?j) = Inr ?j" "json_bytes ?j \<noteq> []"
    by (simp_all add: unmarshal_json_bytes json_bytes_nonempty)
  obtain d where d: "document_of ?j = Inr d" by (simp add: document_of_def)
  have get: "gm_get d n = entry_of name data n c" if "(n, c) \<in> set ?cs" for n c
    using sorted_document_get [OF _ d] entries_distinct [OF dist] entries_get [OF dist that] ents by simp
  have "decode_states d (map (\<lambda>(n, c). (n, unloaded_cell c)) cells) = Inr cells"
  proof (rule decode_unloaded)
    fix n c
    assume "(n, c) \<in> set cells"
    then obtain c0 where c0: "(n, c0) \<in> set ?cs" "c = (if n = name then f c0 else c0)"
      using assms(6) by (auto split: if_splits)
    show "if c_present c then \<exists>j. gm_get d n = Some j \<and> cd_unmarshal (c_codec c) j (cd_zero (c_codec c)) = Inr (c_value c)
       else gm_get d n = None \<and> c_value c = cd_zero (c_codec c)"
    proof (cases "n = name")
      case True
      then show ?thesis using assms(7) [of c0] c0 get [OF c0(1)] by (auto simp: entry_of_def split: option.splits)
    next
      case False
      have "codec_ok (c_codec c)" "\<not> c_present c \<longrightarrow> c_value c = cd_zero (c_codec c)"
        using assms(3) c0 False by (auto simp: binder_ok_def)
      moreover have "c_present c \<longrightarrow> (\<exists>j. cell_encode c = Inr j)" using ents c0 False by auto
      ultimately show ?thesis using get [OF c0(1)] c0(2) False codec_okD(2) [of "c_codec c" "c_value c"]
        by (auto simp: entry_of_def cell_encode_def)
    qed
  qed
  then show ?thesis
    using put(2,3) data d by (simp add: Binder_load_def unloaded_def b')
qed

lemma set_reload:
  assumes "inv s" and "tag_of (look s (b_identity b)) < max_int64" and "binder_ok b"
    and "gm_get (b_states b) name = Some c" and "State_Set put (c_codec c) name v b s = (None, b', s')"
  shows "Binder_load (get s') (unloaded b') = (None, b'\<lparr>b_discard := None\<rparr>)"
proof -
  obtain j b1 where j: "cd_marshal (c_codec c) v = Inr j"
    and p: "Binder_persist put name (Some j) b s = (None, b1, s')"
    and b': "b' = set_cell name (\<lambda>c. c\<lparr>c_value := v, c_present := True\<rparr>) b1"
    using assms(5) by (auto simp: State_Set_def split: sum.splits prod.splits option.splits)
  have st: "b_states b1 = b_states b"
    using p by (auto simp: Binder_persist_def Let_def split: sum.splits prod.splits if_splits)
  have "(name, c) \<in> set (b_states b)" using assms(4) by (rule map_of_SomeD)
  then have ok: "codec_ok (c_codec c)" using assms(3) by (auto simp: binder_ok_def)
  have uniq: "c0 = c" if "(name, c0) \<in> set (b_states b)" for c0
    using assms(3,4) that gm_ok_get_iff [of "b_states b" name c0] by (simp add: binder_ok_def)
  let ?f = "\<lambda>c. c\<lparr>c_value := v, c_present := True\<rparr>"
  let ?cells = "map (\<lambda>(n, c). if n = name then (n, ?f c) else (n, c)) (b_states b)"
  have "Binder_load (get s') (unloaded (b1\<lparr>b_states := ?cells\<rparr>)) = (None, b1\<lparr>b_states := ?cells, b_discard := None\<rparr>)"
  proof (rule persist_reload [OF assms(1-3) p _ refl])
    show "\<forall>j'. Some j = Some j' \<longrightarrow> json_ok j' \<and> json_utf8 j'" using codec_okD(1) [OF ok j] by simp
    fix c0
    assume "(name, c0) \<in> set (b_states b)"
    then have "c0 = c" by (rule uniq)
    then show "c_codec (?f c0) = c_codec c0 \<and>
        (case Some j of
           None \<Rightarrow> \<not> c_present (?f c0) \<and> c_value (?f c0) = cd_zero (c_codec c0)
         | Some j \<Rightarrow> c_present (?f c0) \<and> cd_unmarshal (c_codec c0) j (cd_zero (c_codec c0)) = Inr (c_value (?f c0)))"
      using codec_okD(2) [OF ok j] by simp
  qed
  moreover have "b' = b1\<lparr>b_states := ?cells\<rparr>" by (simp add: b' set_cell_def st)
  ultimately show ?thesis by simp
qed

lemma clear_reload:
  assumes "inv s" and "tag_of (look s (b_identity b)) < max_int64" and "binder_ok b"
    and "gm_get (b_states b) name = Some c" and "State_Clear put (c_codec c) name b s = (None, b', s')"
  shows "Binder_load (get s') (unloaded b') = (None, b'\<lparr>b_discard := None\<rparr>)"
proof -
  let ?f = "\<lambda>c'. c'\<lparr>c_value := cd_zero (c_codec c), c_present := False\<rparr>"
  let ?cells = "map (\<lambda>(n, c). if n = name then (n, ?f c) else (n, c)) (b_states b)"
  obtain b1 where p: "Binder_persist put name None b s = (None, b1, s')" and b': "b' = set_cell name ?f b1"
    using assms(5) by (auto simp: State_Clear_def split: prod.splits option.splits)
  have st: "b_states b1 = b_states b"
    using p by (auto simp: Binder_persist_def Let_def split: sum.splits prod.splits if_splits)
  have uniq: "c0 = c" if "(name, c0) \<in> set (b_states b)" for c0
    using assms(3,4) that gm_ok_get_iff [of "b_states b" name c0] by (simp add: binder_ok_def)
  have "Binder_load (get s') (unloaded (b1\<lparr>b_states := ?cells\<rparr>)) = (None, b1\<lparr>b_states := ?cells, b_discard := None\<rparr>)"
    by (rule persist_reload [OF assms(1-3) p _ refl]) (auto dest!: uniq)
  moreover have "b' = b1\<lparr>b_states := ?cells\<rparr>" by (simp add: b' set_cell_def st)
  ultimately show ?thesis by simp
qed

end


interpretation mem_store: grain_store record_look "Memory_Write None" memory_ok "Memory_Read None"
  by unfold_locales (auto simp: Memory_Read_def record_look_def clone_bytes_def split: option.split)

interpretation sql_store: grain_store "\<lambda>s. record_look (memory_of s)" "SQLite_Write Runs" sqlite_ok "SQLite_Read None"
proof unfold_locales
  fix s i
  assume ok: "sqlite_ok s"
  show "SQLite_Read None s i =
      Inr (case record_look (memory_of s) i of None \<Rightarrow> zero_record | Some (d, t) \<Rightarrow> \<lparr>rec_Data = d, rec_ETag = t\<rparr>)"
    by (cases "find (\<lambda>r. rr_identity r = i) (sq_records s)")
      (simp_all add: SQLite_Read_def record_look_def memory_of_def tbl_get record_of_row_def clone_bytes_def)
qed

text \<open>
  C7. What a Grain confirmed is what its next activation loads. On the SQLite store, after a successful
  \<open>Set\<close> of one named state, loading a new activation of the same entity succeeds and gives every state of
  the Grain the value, the presence and the ETag the old activation holds: the changed one and all
  others, through the JSON text of the shared record.
\<close>

theorem state_set_reload:
  assumes "sqlite_ok s" and "tag_of (record_look (memory_of s) (b_identity b)) < max_int64" and "binder_ok b"
    and "gm_get (b_states b) name = Some c"
    and "State_Set (SQLite_Write Runs) (c_codec c) name v b s = (None, b', s')"
  shows "Binder_load (SQLite_Read None s') (unloaded b') = (None, b'\<lparr>b_discard := None\<rparr>)"
  using assms by (rule sql_store.set_reload)

text \<open>
  Clearing is symmetric: on the in-memory store, after a successful \<open>Clear\<close> the next activation finds
  that state absent with its zero value and every other state as it was.
\<close>

theorem state_clear_reload:
  assumes "memory_ok s" and "tag_of (record_look s (b_identity b)) < max_int64" and "binder_ok b"
    and "gm_get (b_states b) name = Some c"
    and "State_Clear (Memory_Write None) (c_codec c) name b s = (None, b', s')"
  shows "Binder_load (Memory_Read None s') (unloaded b') = (None, b'\<lparr>b_discard := None\<rparr>) \<and>
    State_Exists b' name = Some False \<and> State_Get b' name = Some (cd_zero (c_codec c))"
proof -
  have "State_Exists b' name = Some False \<and> State_Get b' name = Some (cd_zero (c_codec c))"
  proof -
    have "gm_get (map (\<lambda>(n, c'). if n = name then (n, f c') else (n, c')) cs) name = map_option f (gm_get cs name)"
      for f and cs :: "(string \<times> 'a cell) list"
      by (induction cs) auto
    then show ?thesis
      using assms(4,5)
      by (auto simp: State_Clear_def State_Exists_def State_Get_def set_cell_def Binder_persist_def Let_def
          split: prod.splits option.splits sum.splits if_splits)
  qed
  with mem_store.clear_reload [OF assms] show ?thesis by simp
qed


section \<open>Failed writes\<close>

lemma State_Set_failed:
  assumes "cd_marshal codec v = Inr j" and "build_document name (Some j) (b_states b) = Inr doc"
    and "wr s (b_identity b) (json_bytes (JObj (sort_key fst doc))) (b_etag b) = (Inl e, s')"
  shows "State_Set wr codec name v b s =
    (if is_cancellation e then (Some e, b, s')
     else (let d = withCode (if errors_Is e (TSentinel StoreErrConflict) then ErrPersistenceConflict else ErrPersistenceFailed) e
           in (Some d, b\<lparr>b_discard := Some d\<rparr>, s')))"
  using assms by (simp add: State_Set_def Binder_persist_def Let_def)


lemma SQLite_Write_after:
  "SQLite_Write (FailsAfter e) s i d t = (Inl e, snd (SQLite_Write Runs s i d t))"
  by (simp add: SQLite_Write_def exec_def Let_def split: prod.splits)

text \<open>
  The exception: a write that reached the database but returned because the caller's context ended is
  not followed by a discard. The activation stays active with its old ETag, whatever the method returns,
  and its next \<open>Set\<close> is refused as a conflict.
\<close>

theorem cancelled_write_keeps_stale_activation:
  assumes "sqlite_ok s" and "tag_of (record_look (memory_of s) (b_identity b)) = b_etag b" and "b_etag b < max_int64"
    and "cd_marshal codec v = Inr j" and "build_document name (Some j) (b_states b) = Inr doc"
    and "is_cancellation e" and "b_discard b = None"
    and "State_Set (SQLite_Write (FailsAfter e)) codec name v b s = (err, b', s')"
  shows "err = Some e \<and> b' = b \<and> Register_Dispatch merr b' = merr \<and>
    State_Set (SQLite_Write Runs) codec name v b' s' =
      (Some (withCode ErrPersistenceConflict (Sentinel StoreErrConflict)),
       b\<lparr>b_discard := Some (withCode ErrPersistenceConflict (Sentinel StoreErrConflict))\<rparr>, s')"
proof -
  let ?data = "json_bytes (JObj (sort_key fst doc))"
  have first: "err = Some e" "b' = b" "s' = snd (SQLite_Write Runs s (b_identity b) ?data (b_etag b))"
    using State_Set_failed [where wr = "SQLite_Write (FailsAfter e)" and s = s, OF assms(4,5) SQLite_Write_after] assms(6,8) by auto
  from sql_rec.put_hit [OF assms(1,2,3)] obtain s1 where
    "SQLite_Write Runs s (b_identity b) ?data (b_etag b) = (Inr (b_etag b + 1), s1)" "sqlite_ok s1"
    "record_look (memory_of s1) = (record_look (memory_of s))(b_identity b \<mapsto> (?data, b_etag b + 1))" by blast
  with first have s': "sqlite_ok s'" "tag_of (record_look (memory_of s') (b_identity b)) \<noteq> b_etag b"
    by (simp_all add: tag_of_def)
  from sql_rec.put_miss [OF s'] have "SQLite_Write Runs s' (b_identity b) ?data (b_etag b) = (Inl (Sentinel StoreErrConflict), s')" .
  from State_Set_failed [where wr = "SQLite_Write Runs" and s = s', OF assms(4,5) this] first assms(7) show ?thesis
    by (simp add: is_cancellation_def Register_Dispatch_def Let_def)
qed

section \<open>Witnesses\<close>

text \<open>A Grain with two integer states.\<close>

definition demo_codec :: "int codec" where
  "demo_codec = \<lparr>cd_zero = 0, cd_marshal = (\<lambda>n. if in_int64 n then Inr (JNum n) else Inl json_type_error),
     cd_unmarshal = (\<lambda>j old. un_int64 old j)\<rparr>"

definition demo_binder :: "int grain_binder" where
  "demo_binder = \<lparr>b_identity = GrainId ''account'' ''7'', b_etag = 0,
     b_states = [(''balance'', \<lparr>c_codec = demo_codec, c_value = 0, c_present = False\<rparr>),
       (''limit'', \<lparr>c_codec = demo_codec, c_value = 0, c_present = False\<rparr>)], b_discard = None\<rparr>"

lemma demo_codec_ok: "codec_ok demo_codec"
  by (simp add: codec_ok_def demo_codec_def split: if_splits)

lemma demo_binder_ok: "binder_ok demo_binder"
  using demo_codec_ok valid_ascii [of "''balance''"] valid_ascii [of "''limit''"]
  by (simp add: binder_ok_def demo_binder_def gm_ok_def) (simp add: demo_codec_def)


lemma demo_set:
  "State_Set wr demo_codec ''balance'' 5 demo_binder s =
    (case wr s (GrainId ''account'' ''7'') (json_bytes (JObj [(''balance'', JNum 5)])) 0 of
       (Inr t, s') \<Rightarrow> (None, demo_binder\<lparr>b_etag := t,
          b_states := [(''balance'', \<lparr>c_codec = demo_codec, c_value = 5, c_present = True\<rparr>),
            (''limit'', \<lparr>c_codec = demo_codec, c_value = 0, c_present = False\<rparr>)]\<rparr>, s')
     | (Inl e, s') \<Rightarrow>
         if is_cancellation e then (Some e, demo_binder, s')
         else (let d = withCode (if errors_Is e (TSentinel StoreErrConflict) then ErrPersistenceConflict else ErrPersistenceFailed) e
               in (Some d, demo_binder\<lparr>b_discard := Some d\<rparr>, s')))"
proof -
  have "cd_marshal demo_codec 5 = Inr (JNum 5)" by (simp add: demo_codec_def in_int64_def min_int64_def max_int64_def)
  then show ?thesis
    by (simp add: State_Set_def Binder_persist_def demo_binder_def set_cell_def Let_def split: prod.split sum.split)
qed

lemma demo_first_write:
  "SQLite_Write Runs NewSQLite i d 0 = (Inr 1, NewSQLite\<lparr>sq_records := [\<lparr>rr_identity = i, rr_data = d, rr_etag = 1\<rparr>]\<rparr>)"
  by (simp add: SQLite_Write_def NewSQLite_def exec_def sql_insert_ignore_def)


lemma demo_tag: "tag_of (record_look (memory_of NewSQLite) i) = 0"
  by (simp add: NewSQLite_ok(2) NewMemory_def record_look_def tag_of_def)

theorem state_set_reload_witness:
  "\<exists>b' s'. State_Set (SQLite_Write Runs) demo_codec ''balance'' 5 demo_binder NewSQLite = (None, b', s') \<and>
     State_Get b' ''balance'' = Some 5 \<and>
     Binder_load (SQLite_Read None s') (unloaded b') = (None, b')"
proof -
  obtain b' s' where w: "State_Set (SQLite_Write Runs) demo_codec ''balance'' 5 demo_binder NewSQLite = (None, b', s')"
    and b': "State_Get b' ''balance'' = Some 5" "b_discard b' = None"
    by (simp add: demo_set demo_first_write State_Get_def) (simp add: demo_binder_def)
  have c: "gm_get (b_states demo_binder) ''balance'' = Some \<lparr>c_codec = demo_codec, c_value = 0, c_present = False\<rparr>"
    by (simp add: demo_binder_def)
  have "Binder_load (SQLite_Read None s') (unloaded b') = (None, b'\<lparr>b_discard := None\<rparr>)"
    by (rule state_set_reload [OF NewSQLite_ok(1) _ demo_binder_ok c])
      (use w in \<open>simp_all add: demo_tag max_int64_def\<close>)
  moreover have "b'\<lparr>b_discard := None\<rparr> = b'" using b'(2) by simp
  ultimately show ?thesis using w b'(1) by metis
qed

theorem state_clear_reload_witness:
  "\<exists>b' s'. State_Clear (Memory_Write None) demo_codec ''limit'' demo_binder NewMemory = (None, b', s') \<and>
     Binder_load (Memory_Read None s') (unloaded b') = (None, b'\<lparr>b_discard := None\<rparr>)"
proof -
  obtain b' s' where w: "State_Clear (Memory_Write None) demo_codec ''limit'' demo_binder NewMemory = (None, b', s')"
    by (simp add: State_Clear_def Binder_persist_def demo_binder_def Memory_Write_def NewMemory_def gm_get_or_def
        zero_record_def)
  have c: "gm_get (b_states demo_binder) ''limit'' = Some \<lparr>c_codec = demo_codec, c_value = 0, c_present = False\<rparr>"
    by (simp add: demo_binder_def)
  have mem: "memory_ok NewMemory" "tag_of (record_look NewMemory (b_identity demo_binder)) < max_int64"
    by (simp_all add: memory_ok_def NewMemory_def record_look_def tag_of_def max_int64_def)
  show ?thesis using state_clear_reload [OF mem demo_binder_ok c] w by simp
qed

lemma demo_document:
  "cd_marshal demo_codec 5 = Inr (JNum 5)"
  "build_document ''balance'' (Some (JNum 5)) (b_states demo_binder) = Inr [(''balance'', JNum 5)]"
  by (simp_all add: demo_codec_def in_int64_def min_int64_def max_int64_def demo_binder_def)


theorem cancelled_write_keeps_stale_activation_witness:
  "fst (State_Set (SQLite_Write Runs) demo_codec ''balance'' 5 demo_binder
     (snd (snd (State_Set (SQLite_Write (FailsAfter (Sentinel CtxDeadlineExceeded))) demo_codec ''balance'' 5 demo_binder NewSQLite)))) =
   Some (withCode ErrPersistenceConflict (Sentinel StoreErrConflict))"
proof -
  let ?e = "Sentinel CtxDeadlineExceeded"
  obtain err b' s' where set:
    "State_Set (SQLite_Write (FailsAfter ?e)) demo_codec ''balance'' 5 demo_binder NewSQLite = (err, b', s')"
    using prod_cases3 by blast
  have b: "tag_of (record_look (memory_of NewSQLite) (b_identity demo_binder)) = b_etag demo_binder"
    "b_etag demo_binder < max_int64" "b_discard demo_binder = None"
    by (simp_all add: demo_tag) (simp_all add: demo_binder_def max_int64_def)
  have c: "is_cancellation ?e" by (simp add: is_cancellation_def)
  from cancelled_write_keeps_stale_activation [OF NewSQLite_ok(1) b(1,2) demo_document c b(3) set, of None] set
  show ?thesis by auto
qed

section \<open>Reminders\<close>

lemma key_filter:
  assumes "gm_ok m" and "\<forall>(k, r) \<in> set m. keyForReminder r = k"
  shows "filter (\<lambda>r. keyForReminder r = k) (map snd m) = (case gm_get m k of None \<Rightarrow> [] | Some r \<Rightarrow> [r])"
  using assms
proof (induction m)
  case (Cons p m)
  obtain k' r where p: "p = (k', r)" by force
  have "gm_get m k' = None" using Cons.prems(1) p by (simp add: gm_ok_def map_of_eq_None_iff)
  then show ?case using Cons p by (auto simp: gm_ok_def)
qed simp

lemma ListDue_key:
  assumes "gm_ok (mem_reminders s)" and "\<forall>k r. gm_get (mem_reminders s) k = Some r \<longrightarrow> keyForReminder r = k"
    and "Memory_ListDue None s later = Inr due"
  shows "filter (\<lambda>r. r_GrainId r = i \<and> r_Name r = name) due =
    (case gm_get (mem_reminders s) (ReminderKey i name) of
       None \<Rightarrow> [] | Some r \<Rightarrow> if r_DueAt r \<le> later then [r] else [])"
proof -
  have own: "\<forall>(k, r) \<in> set (mem_reminders s). keyForReminder r = k"
    using assms(2) gm_ok_get_iff [OF assms(1)] by blast
  have "filter (\<lambda>r. r_GrainId r = i \<and> r_Name r = name) due =
      sortReminders (filter (\<lambda>r. \<not> later < r_DueAt r) (filter (\<lambda>r. keyForReminder r = ReminderKey i name) (map snd (mem_reminders s))))"
    using assms(3)
    by (auto simp: Memory_ListDue_def sortReminders_def filter_sort keyForReminder_def intro!: arg_cong [where f = "sort_key _"] filter_cong)
  then show ?thesis
    by (simp only: key_filter [OF assms(1) own]) (auto simp: sortReminders_def split: option.split)
qed

text \<open>
  A Reminder that was set is due from its first tick on and not before: after \<open>Set\<close> on the in-memory
  store, a poll at a later time lists exactly one row for that Grain and name, with the method and the
  interval of the request, when the first tick time is not after it, and none otherwise; after \<open>Cancel\<close>
  it lists none at any time. Without a Reminder store both report that.
\<close>

theorem reminder_set_due:
  assumes "memory_ok s" and "Reminder_Set (Some (Memory_Put None)) now i name whn method s = (err, s')"
    and "Reminder_Cancel (Some (Memory_Delete None)) i name s' = (err', s'')"
    and "Memory_ListDue None s' later = Inr due" and "Memory_ListDue None s'' later = Inr due'"
  shows "err = None \<and> err' = None \<and>
    map (\<lambda>r. (r_Method r, r_FirstTickTime r, r_DueAt r, r_Interval r))
      (filter (\<lambda>r. r_GrainId r = i \<and> r_Name r = name) due) =
      (if time_add now (rt_delay whn) \<le> later
       then [(method, time_add now (rt_delay whn), time_add now (rt_delay whn), rt_interval whn)] else []) \<and>
    filter (\<lambda>r. r_GrainId r = i \<and> r_Name r = name) due' = [] \<and>
    fst (Reminder_Set None now i name whn method s) = Some (Sentinel ErrReminderStoreUnavailable)"
proof -
  let ?k = "ReminderKey i name" and ?m = "mem_reminders s"
  have ok: "gm_ok ?m" "\<forall>k r. gm_get ?m k = Some r \<longrightarrow> keyForReminder r = k"
    using assms(1) by (simp_all add: memory_ok_def)
  obtain r where s': "mem_reminders s' = gm_put ?k r ?m" and r: "keyForReminder r = ?k" "r_Method r = method"
      "r_FirstTickTime r = time_add now (rt_delay whn)" "r_DueAt r = time_add now (rt_delay whn)" "r_Interval r = rt_interval whn"
    and err: "err = None"
    using assms(2) by (auto simp: Reminder_Set_def Memory_Put_def keyForReminder_def Let_def)
  have s'': "mem_reminders s'' = gm_del ?k (gm_put ?k r ?m)" and err': "err' = None"
    using assms(3) s' by (auto simp: Reminder_Cancel_def Memory_Delete_def)
  have ok': "gm_ok (mem_reminders s')" "\<forall>k r. gm_get (mem_reminders s') k = Some r \<longrightarrow> keyForReminder r = k"
    using ok r(1) by (auto simp: s' go_map_simps split: if_splits)
  have ok'': "gm_ok (mem_reminders s'')" "\<forall>k r. gm_get (mem_reminders s'') k = Some r \<longrightarrow> keyForReminder r = k"
    using ok r(1) by (auto simp: s'' go_map_simps split: if_splits)
  show ?thesis
    using ListDue_key [OF ok' assms(4), of i name] ListDue_key [OF ok'' assms(5), of i name] r err err'
    by (simp add: s' s'' go_map_simps Reminder_Set_def)
qed

theorem reminder_set_due_witness:
  "length (projr (Memory_ListDue None (snd (Reminder_Set (Some (Memory_Put None)) 100 (GrainId ''t'' ''k'') ''r'' (After 5) ''Tick'' NewMemory)) 105)) = 1"
proof -
  obtain err s' where set: "Reminder_Set (Some (Memory_Put None)) 100 (GrainId ''t'' ''k'') ''r'' (After 5) ''Tick'' NewMemory = (err, s')" by force
  obtain err' s'' where del: "Reminder_Cancel (Some (Memory_Delete None)) (GrainId ''t'' ''k'') ''r'' s' = (err', s'')" by force
  obtain due due' where l: "Memory_ListDue None s' 105 = Inr due" "Memory_ListDue None s'' 105 = Inr due'"
    by (simp add: Memory_ListDue_def)
  have ok: "memory_ok NewMemory" by (simp add: memory_ok_def NewMemory_def)
  have "time_add 100 5 = 105" by code_simp
  then have "length (filter (\<lambda>r. r_GrainId r = GrainId ''t'' ''k'' \<and> r_Name r = ''r'') due) = 1"
    using reminder_set_due [OF ok set del l] by (auto simp: After_def dest!: arg_cong [where f = length])
  moreover have "length due \<le> 1"
    using set l(1) by (auto simp: Reminder_Set_def Memory_Put_def NewMemory_def Memory_ListDue_def sortReminders_def Let_def)
  moreover have "length (filter P due) \<le> length due" for P by simp
  ultimately show ?thesis using set l(1) by (metis (no_types, lifting) le_antisym snd_conv sum.sel(2))
qed

end
