(* ===== verification/Gor_Context.thy ===== *)
theory Gor_Context
  imports Gor_Json_Text
begin

text \<open>
  The Request Context of \<open>request_context.go\<close>: scalar entries that travel with a call, their canonical
  types, the limits on entries, keys and encoded size, and the wire form that crosses to another runtime.
  A context is represented by its Request Context values; a finite \<open>float64\<close> is represented by its JSON
  literal. Entries of a wire object are decoded from their parsed values.
\<close>

section \<open>Values\<close>

datatype int_kind = K_int | K_8 | K_16 | K_32 | K_64

datatype go_float = F_NaN | F_Inf | F_Lit string

text \<open>A Go value of type \<open>any\<close>; \<open>AnyOther\<close> is a value of any other type, with the type's name.\<close>

datatype any =
    AnyNil
  | AnyBool bool
  | AnyString string
  | AnyInt int_kind int
  | AnyUint int_kind int
  | AnyFloat32 go_float
  | AnyFloat64 go_float
  | AnyOther string

definition maxRequestContextEntries :: nat where "maxRequestContextEntries = 32"
definition maxRequestContextBytes :: nat where "maxRequestContextBytes = 4096"
definition maxRequestContextKeySize :: nat where "maxRequestContextKeySize = 128"

type_synonym snapshot = "(string, any) gomap"

section \<open>Validation\<close>

definition validateRequestContextKey :: "string \<Rightarrow> go_error option" where
  "validateRequestContextKey key =
     (if key = [] then Some (NewErr ''key is empty'')
      else if \<not> valid_utf8 key then Some (NewErr ''key is not valid UTF-8'')
      else if maxRequestContextKeySize < length key
        then Some (NewErr (''key is '' @ itoa (length key) @ '' bytes, maximum is '' @ itoa maxRequestContextKeySize))
      else None)"

definition not_finite :: go_error where "not_finite = NewErr ''value is not finite''"

definition normalizeRequestContextValue :: "any \<Rightarrow> any result" where
  "normalizeRequestContextValue v =
     (case v of
        AnyNil \<Rightarrow> Inr AnyNil
      | AnyBool b \<Rightarrow> Inr (AnyBool b)
      | AnyString s \<Rightarrow> if \<not> valid_utf8 s then Inl (NewErr ''value is not valid UTF-8'') else Inr (AnyString s)
      | AnyInt k n \<Rightarrow> Inr (AnyInt K_64 n)
      | AnyUint k n \<Rightarrow> Inr (AnyUint K_64 n)
      | AnyFloat32 f \<Rightarrow> (case f of F_Lit s \<Rightarrow> Inr (AnyFloat64 (F_Lit s)) | _ \<Rightarrow> Inl not_finite)
      | AnyFloat64 f \<Rightarrow> (case f of F_Lit s \<Rightarrow> Inr (AnyFloat64 (F_Lit s)) | _ \<Rightarrow> Inl not_finite)
      | AnyOther name \<Rightarrow> Inl (NewErr (''value type '' @ name @ '' is not a supported scalar'')))"

text \<open>The number a literal denotes in a document.\<close>

definition literal_json :: "string \<Rightarrow> json" where
  "literal_json s = (case parse_number s of Some (j, []) \<Rightarrow> j | _ \<Rightarrow> JReal s)"

definition wire_entry :: "string \<Rightarrow> json option \<Rightarrow> json" where
  "wire_entry typeName value =
     JObj ((''type'', JStr typeName) # (case value of None \<Rightarrow> [] | Some j \<Rightarrow> [(''value'', j)]))"

definition marshalRequestContextEntry :: "any \<Rightarrow> json result" where
  "marshalRequestContextEntry value =
     (case normalizeRequestContextValue value of
        Inl e \<Rightarrow> Inl e
      | Inr canonical \<Rightarrow>
          (case canonical of
             AnyNil \<Rightarrow> Inr (wire_entry ''null'' None)
           | AnyBool b \<Rightarrow> Inr (wire_entry ''bool'' (Some (JBool b)))
           | AnyString s \<Rightarrow> Inr (wire_entry ''string'' (Some (JStr s)))
           | AnyInt K_64 n \<Rightarrow> Inr (wire_entry ''int64'' (Some (JNum n)))
           | AnyUint K_64 n \<Rightarrow> Inr (wire_entry ''uint64'' (Some (JNum n)))
           | AnyFloat64 (F_Lit s) \<Rightarrow> Inr (wire_entry ''float64'' (Some (literal_json s)))
           | _ \<Rightarrow> Inl (NewErr ''value type is not a canonical scalar'')))"

fun marshal_entries :: "snapshot \<Rightarrow> (string \<times> json) list result" where
  "marshal_entries [] = Inr []"
| "marshal_entries ((key, value) # rest) =
     (case validateRequestContextKey key of
        Some e \<Rightarrow> Inl e
      | None \<Rightarrow>
          (case marshalRequestContextEntry value of
             Inl e \<Rightarrow> Inl (Wrap (''key '' @ go_quote key @ '': '' @ error_text e) e)
           | Inr entry \<Rightarrow> map_sum id (\<lambda>es. (key, entry) # es) (marshal_entries rest)))"

definition marshalRequestContext :: "snapshot \<Rightarrow> byte list result" where
  "marshalRequestContext values =
     (if maxRequestContextEntries < length values
      then Inl (NewErr (''has '' @ itoa (length values) @ '' entries, maximum is '' @ itoa maxRequestContextEntries))
      else
        (case marshal_entries values of
           Inl e \<Rightarrow> Inl e
         | Inr wire \<Rightarrow>
             (let encoded = json_bytes (JObj (sort_key fst wire))
              in if maxRequestContextBytes < length encoded
                 then Inl (NewErr (''is '' @ itoa (length encoded) @ '' bytes, maximum is '' @ itoa maxRequestContextBytes))
                 else Inr encoded)))"

section \<open>Access\<close>

text \<open>\<open>None\<close> is the nil context.\<close>

definition requestContextSnapshotFrom :: "snapshot option \<Rightarrow> snapshot" where
  "requestContextSnapshotFrom ctx = (case ctx of None \<Rightarrow> [] | Some values \<Rightarrow> values)"

definition requestContextEncodeError :: "go_error \<Rightarrow> go_error" where
  "requestContextEncodeError e = withCode ErrRequestEncodeFailed (Wrap (''request context: '' @ error_text e) e)"

definition cloneRequestContextValues :: "snapshot \<Rightarrow> snapshot" where
  "cloneRequestContextValues values = map (\<lambda>(k, v). (k, v)) values"

definition WithRequestContext :: "snapshot option \<Rightarrow> string \<Rightarrow> any \<Rightarrow> snapshot option \<times> go_error option" where
  "WithRequestContext ctx key value =
     (case ctx of
        None \<Rightarrow> (None, Some (requestContextEncodeError (NewErr ''context is nil'')))
      | Some _ \<Rightarrow>
          (case validateRequestContextKey key of
             Some e \<Rightarrow> (ctx, Some (requestContextEncodeError e))
           | None \<Rightarrow>
               (case normalizeRequestContextValue value of
                  Inl e \<Rightarrow> (ctx, Some (requestContextEncodeError e))
                | Inr canonical \<Rightarrow>
                    (let values = gm_put key canonical (cloneRequestContextValues (requestContextSnapshotFrom ctx))
                     in case marshalRequestContext values of
                          Inl e \<Rightarrow> (ctx, Some (requestContextEncodeError e))
                        | Inr _ \<Rightarrow> (Some values, None)))))"

definition RequestContextValue :: "snapshot option \<Rightarrow> string \<Rightarrow> any option" where
  "RequestContextValue ctx key =
     (case ctx of None \<Rightarrow> None | Some _ \<Rightarrow> gm_get (requestContextSnapshotFrom ctx) key)"

definition withRequestContextSnapshot :: "snapshot option \<Rightarrow> snapshot \<Rightarrow> snapshot option" where
  "withRequestContextSnapshot ctx values = Some values"

text \<open>\<open>None\<close> is the nil payload of a context without entries.\<close>

definition requestContextPayload :: "snapshot option \<Rightarrow> byte list option result" where
  "requestContextPayload ctx =
     (let values = requestContextSnapshotFrom ctx
      in if values = [] then Inr None else map_sum id Some (marshalRequestContext values))"

section \<open>Decoding\<close>

definition fields_of :: "(string \<times> json) list \<Rightarrow> (string, json) gomap" where
  "fields_of ms = foldl (\<lambda>d (k, v). gm_put k v d) [] ms"

definition decode_number :: "string \<Rightarrow> (int \<Rightarrow> bool) \<Rightarrow> json \<Rightarrow> int result" where
  "decode_number typeName ok j =
     (case j of
        JNum n \<Rightarrow> if ok n then Inr n else Inl (Wrap (''decode '' @ typeName @ '' value: '' @ error_text json_type_error) json_type_error)
      | _ \<Rightarrow> Inl (Wrap (''decode '' @ typeName @ '' value: '' @ error_text json_type_error) json_type_error))"

definition decodeRequestContextEntry :: "json \<Rightarrow> any result" where
  "decodeRequestContextEntry raw =
     (case raw of
        JObj ms \<Rightarrow>
          (let fields = fields_of ms
           in case gm_get fields ''type'' of
                None \<Rightarrow> Inl (NewErr ''entry type is missing'')
              | Some JNull \<Rightarrow> Inl (NewErr ''entry type is missing'')
              | Some (JStr typeName) \<Rightarrow>
                  if typeName = [] then Inl (NewErr ''entry type is not a string'')
                  else if typeName = ''null'' then
                    (if gm_get fields ''value'' \<noteq> None then Inl (NewErr ''null entry must not have a value'')
                     else Inr AnyNil)
                  else if gm_get fields ''value'' = None \<or> gm_get fields ''value'' = Some JNull
                    then Inl (NewErr (typeName @ '' entry value is missing or null''))
                  else
                    (let value = the (gm_get fields ''value''); bad = Inl (Wrap (''decode '' @ typeName @ '' value'') json_type_error)
                     in if typeName = ''bool'' then (case value of JBool b \<Rightarrow> Inr (AnyBool b) | _ \<Rightarrow> bad)
                        else if typeName = ''string'' then (case value of JStr s \<Rightarrow> Inr (AnyString s) | _ \<Rightarrow> bad)
                        else if typeName = ''int64''
                          then map_sum id (AnyInt K_64) (decode_number typeName in_int64 value)
                        else if typeName = ''uint64''
                          then map_sum id (AnyUint K_64) (decode_number typeName (\<lambda>n. 0 \<le> n \<and> n < 2 ^ 64) value)
                        else if typeName = ''float64'' then
                          (case value of
                             JNum n \<Rightarrow> Inr (AnyFloat64 (F_Lit (print_int n)))
                           | JReal s \<Rightarrow> Inr (AnyFloat64 (F_Lit s))
                           | _ \<Rightarrow> bad)
                        else Inl (NewErr (''unknown entry type '' @ go_quote typeName)))
              | _ \<Rightarrow> Inl (NewErr ''entry type is not a string''))
      | _ \<Rightarrow> Inl (NewErr ''entry must be a JSON object''))"

fun decode_entries :: "(string \<times> json) list \<Rightarrow> snapshot result" where
  "decode_entries [] = Inr []"
| "decode_entries ((key, raw) # rest) =
     (case validateRequestContextKey key of
        Some e \<Rightarrow> Inl (Wrap (''request_context key '' @ go_quote key @ '': '' @ error_text e) e)
      | None \<Rightarrow>
          (case decodeRequestContextEntry raw of
             Inl e \<Rightarrow> Inl (Wrap (''request_context key '' @ go_quote key @ '': '' @ error_text e) e)
           | Inr v \<Rightarrow> map_sum id (\<lambda>vs. (key, v) # vs) (decode_entries rest)))"

text \<open>\<open>bytes.TrimSpace\<close> on the ASCII white space a raw message may carry.\<close>

definition trim_space :: "string \<Rightarrow> string" where
  "trim_space s = rev (skip_ws (rev (skip_ws s)))"

definition decodeRequestContext :: "byte list option \<Rightarrow> snapshot result" where
  "decodeRequestContext raw =
     (case raw of
        None \<Rightarrow> Inr []
      | Some bs \<Rightarrow>
          if bs = [] then Inr []
          else
            (let trimmed = trim_space (string_of_bytes bs)
             in if \<not> valid_utf8 trimmed then Inl (NewErr ''request_context is not valid UTF-8'')
                else if trimmed = [] \<or> hd trimmed \<noteq> CHR ''{'' then Inl (NewErr ''request_context must be a JSON object'')
                else
                  (case json_decode trimmed of
                     Some (JObj ms) \<Rightarrow>
                       (let wire = fields_of ms
                        in if maxRequestContextEntries < length wire
                           then Inl (NewErr (''request_context has '' @ itoa (length wire) @ '' entries, maximum is '' @
                                  itoa maxRequestContextEntries))
                           else
                             (case decode_entries wire of
                                Inl e \<Rightarrow> Inl e
                              | Inr values \<Rightarrow>
                                  (case marshalRequestContext values of
                                     Inl e \<Rightarrow> Inl (Wrap (''validate request_context: '' @ error_text e) e)
                                   | Inr _ \<Rightarrow> Inr values)))
                   | _ \<Rightarrow> Inl (Wrap (''decode request_context: '' @ error_text json_syntax_error) json_syntax_error))))"


section \<open>Encoded text is valid UTF-8\<close>

declare escape_text.simps(2) [simp del]

lemma hex_digit_ascii: "n < 16 \<Longrightarrow> (of_char (hex_digit n) :: nat) < 128"
  by (simp add: hex_digit_def)

lemma escape_char_ascii:
  assumes "(of_char c :: nat) < 128"
  shows "list_all (\<lambda>c. (of_char c :: nat) < 128) (escape_char c)"
proof -
  have "(of_char (hex_digit (of_char c div 16)) :: nat) < 128" "(of_char (hex_digit (of_char c mod 16)) :: nat) < 128"
    using assms by (intro hex_digit_ascii; simp)+
  then show ?thesis using assms by (simp add: escape_char_def)
qed

lemma escape_valid: "valid_utf8 (escape_text s)"
proof (induction s rule: escape_text.induct)
  case (2 c cs)
  consider "is_separator (c # cs)" | "\<not> is_separator (c # cs)" "(of_char c :: nat) < 128"
    | "\<not> is_separator (c # cs)" "\<not> (of_char c :: nat) < 128" "head_size (c # cs) = 0"
    | n where "\<not> is_separator (c # cs)" "\<not> (of_char c :: nat) < 128" "head_size (c # cs) = Suc n"
    by (metis nat.exhaust)
  then show ?case
  proof cases
    case 1
    have "valid_utf8 [bslash, CHR ''u'', CHR ''2'', CHR ''0'', CHR ''2'', if cs ! 1 = CHR 0xA8 then CHR ''8'' else CHR ''9'']"
      by (rule valid_ascii) simp
    from valid_utf8_append [OF this 2(1) [OF 1]] show ?thesis using 1 by (simp add: escape_text.simps(2))
  next
    case 2
    from valid_utf8_append [OF valid_ascii [OF escape_char_ascii [OF 2(2)]] "2.IH"(2) [OF 2]]
    show ?thesis using 2 by (simp add: escape_text.simps(2))
  next
    case 3
    have "valid_utf8 [bslash, CHR ''u'', CHR ''f'', CHR ''f'', CHR ''f'', CHR ''d'']" by (rule valid_ascii) simp
    from valid_utf8_append [OF this "2.IH"(3) [OF 3]] show ?thesis using 3 by (simp add: escape_text.simps(2))
  next
    case (4 n)
    have "valid_utf8 (take (Suc n) (c # cs))" using valid_head [OF 4(3)] by simp
    from valid_utf8_append [OF this "2.IH"(4) [OF 4]] show ?thesis using 4 by (simp add: escape_text.simps(2))
  qed
qed (simp add: valid_utf8_def)

lemma numchar_ascii: "is_numchar c \<Longrightarrow> (of_char c :: nat) < 128"
  by (auto simp: is_numchar_def is_digit_def)

lemma numchars_valid: "list_all is_numchar s \<Longrightarrow> valid_utf8 s"
  by (rule valid_ascii) (auto simp: list_all_iff numchar_ascii)

lemma valid_utf8_Cons: "(of_char c :: nat) < 128 \<Longrightarrow> valid_utf8 s \<Longrightarrow> valid_utf8 (c # s)"
  by (simp add: valid_utf8_def valid_iff_runes runes.intros)

lemma valid_utf8_Nil: "valid_utf8 []"
  by (simp add: valid_utf8_def)

lemma print_string_valid: "valid_utf8 (print_string s)"
  by (simp add: print_string_def valid_utf8_Cons valid_utf8_Nil valid_utf8_append escape_valid)

lemma commas_valid: "list_all valid_utf8 ss \<Longrightarrow> valid_utf8 (commas ss)"
  by (induction ss rule: commas.induct) (simp_all add: valid_utf8_Nil valid_utf8_append valid_utf8_Cons)

lemma json_print_valid: "json_ok j \<Longrightarrow> valid_utf8 (json_print j)"
proof (induction j rule: json_print.induct)
  case (6 js)
  then have "valid_utf8 (commas (map json_print js))" by (intro commas_valid) (auto simp: list_all_iff)
  then show ?case by (simp add: valid_utf8_Cons valid_utf8_Nil valid_utf8_append)
next
  case (7 ms)
  have "valid_utf8 (print_member m)" if mem: "m \<in> set ms" for m
  proof -
    obtain k j where m: "m = (k, j)" by force
    have "json_ok j" using 7(2) mem m by (auto simp: list_all_iff)
    moreover from this have "valid_utf8 (json_print j)" using 7(1) [OF mem m [symmetric]] by simp
    ultimately show ?thesis using m by (simp add: valid_utf8_append print_string_valid valid_utf8_Cons)
  qed
  then have "valid_utf8 (commas (map print_member ms))" by (intro commas_valid) (auto simp: list_all_iff)
  then show ?case by (simp add: valid_utf8_Cons valid_utf8_Nil valid_utf8_append)
qed (simp_all add: valid_utf8_Cons valid_utf8_Nil print_string_valid numchars_valid print_int_numchars)

section \<open>Round trip\<close>

text \<open>The values a Go program can hold: integers in range, finite floats as printed.\<close>

definition float_literal :: "string \<Rightarrow> bool" where
  "float_literal s \<longleftrightarrow> (\<exists>n. s = print_int n) \<or> (list_all is_numchar s \<and> real_literal s)"

definition any_ok :: "any \<Rightarrow> bool" where
  "any_ok v =
     (case v of
        AnyInt k n \<Rightarrow> in_int64 n
      | AnyUint k n \<Rightarrow> 0 \<le> n \<and> n < 2 ^ 64
      | AnyFloat32 (F_Lit s) \<Rightarrow> float_literal s
      | AnyFloat64 (F_Lit s) \<Rightarrow> float_literal s
      | _ \<Rightarrow> True)"

text \<open>The canonical ones, as a snapshot holds them.\<close>

definition canonical :: "any \<Rightarrow> bool" where
  "canonical v \<longleftrightarrow> normalizeRequestContextValue v = Inr v \<and> any_ok v"

lemma normalize_canonical:
  "normalizeRequestContextValue v = Inr c \<Longrightarrow> any_ok v \<Longrightarrow> canonical c"
  by (cases v) (auto simp: canonical_def normalizeRequestContextValue_def any_ok_def split: if_splits go_float.splits)

lemma literal_json_int: "literal_json (print_int n) = JNum n"
  using parse_number_int [of "[]" n] by (simp add: literal_json_def delim_punct)

lemma literal_json_real: "list_all is_numchar s \<Longrightarrow> real_literal s \<Longrightarrow> literal_json s = JReal s"
  using parse_number_real [of "[]" s] by (simp add: literal_json_def delim_punct)

lemma decode_wire:
  assumes "t \<noteq> []" and "t \<noteq> ''null''" and "j \<noteq> JNull"
  shows "decodeRequestContextEntry (wire_entry t (Some j)) =
    (let bad = Inl (Wrap (''decode '' @ t @ '' value'') json_type_error)
     in if t = ''bool'' then (case j of JBool b \<Rightarrow> Inr (AnyBool b) | _ \<Rightarrow> bad)
        else if t = ''string'' then (case j of JStr s \<Rightarrow> Inr (AnyString s) | _ \<Rightarrow> bad)
        else if t = ''int64'' then map_sum id (AnyInt K_64) (decode_number t in_int64 j)
        else if t = ''uint64'' then map_sum id (AnyUint K_64) (decode_number t (\<lambda>n. 0 \<le> n \<and> n < 2 ^ 64) j)
        else if t = ''float64'' then
          (case j of JNum n \<Rightarrow> Inr (AnyFloat64 (F_Lit (print_int n))) | JReal s \<Rightarrow> Inr (AnyFloat64 (F_Lit s)) | _ \<Rightarrow> bad)
        else Inl (NewErr (''unknown entry type '' @ go_quote t)))"
proof -
  have f: "gm_get (fields_of [(''type'', JStr t), (''value'', j)]) ''type'' = Some (JStr t)"
    "gm_get (fields_of [(''type'', JStr t), (''value'', j)]) ''value'' = Some j"
    by (simp_all add: fields_of_def)
  show ?thesis unfolding decodeRequestContextEntry_def wire_entry_def using assms by (simp add: f Let_def)
qed

text \<open>The encodings of the canonical values.\<close>

lemma canonical_cases:
  assumes "canonical v"
  obtains "v = AnyNil" "marshalRequestContextEntry v = Inr (wire_entry ''null'' None)"
  | b where "v = AnyBool b" "marshalRequestContextEntry v = Inr (wire_entry ''bool'' (Some (JBool b)))"
  | s where "v = AnyString s" "valid_utf8 s" "marshalRequestContextEntry v = Inr (wire_entry ''string'' (Some (JStr s)))"
  | n where "v = AnyInt K_64 n" "in_int64 n" "marshalRequestContextEntry v = Inr (wire_entry ''int64'' (Some (JNum n)))"
  | n where "v = AnyUint K_64 n" "0 \<le> n" "n < 2 ^ 64" "marshalRequestContextEntry v = Inr (wire_entry ''uint64'' (Some (JNum n)))"
  | n where "v = AnyFloat64 (F_Lit (print_int n))" "marshalRequestContextEntry v = Inr (wire_entry ''float64'' (Some (JNum n)))"
  | s where "v = AnyFloat64 (F_Lit s)" "list_all is_numchar s" "real_literal s"
      "marshalRequestContextEntry v = Inr (wire_entry ''float64'' (Some (JReal s)))"
  using assms
  by (cases v) (auto simp: canonical_def any_ok_def normalizeRequestContextValue_def marshalRequestContextEntry_def
      float_literal_def literal_json_int literal_json_real split: if_splits go_float.splits)

lemma type_names_valid: "valid_utf8 ''type''" "valid_utf8 ''value''" "valid_utf8 ''null''" "valid_utf8 ''bool''" "valid_utf8 ''string''"
  "valid_utf8 ''int64''" "valid_utf8 ''uint64''" "valid_utf8 ''float64''"
  by (rule valid_ascii, simp)+

lemma entry_roundtrip:
  assumes "canonical v"
  shows "\<exists>j. marshalRequestContextEntry v = Inr j \<and> decodeRequestContextEntry j = Inr v \<and> json_ok j \<and> json_utf8 j"
  using assms
proof (cases rule: canonical_cases)
  case 1
  have "decodeRequestContextEntry (wire_entry ''null'' None) = Inr AnyNil"
    by (simp add: decodeRequestContextEntry_def wire_entry_def fields_of_def)
  with 1 show ?thesis by (simp add: wire_entry_def type_names_valid)
qed (simp_all add: decode_wire, simp_all add: wire_entry_def type_names_valid decode_number_def Let_def)


definition entry_json :: "any \<Rightarrow> json" where "entry_json v = projr (marshalRequestContextEntry v)"

definition snapshot_ok :: "snapshot \<Rightarrow> bool" where
  "snapshot_ok values \<longleftrightarrow> gm_ok values \<and>
     (\<forall>(k, v) \<in> set values. validateRequestContextKey k = None \<and> canonical v)"

lemma entry_json: "canonical v \<Longrightarrow> marshalRequestContextEntry v = Inr (entry_json v) \<and>
    decodeRequestContextEntry (entry_json v) = Inr v \<and> json_ok (entry_json v) \<and> json_utf8 (entry_json v)"
  using entry_roundtrip [of v] by (auto simp: entry_json_def)

lemma marshal_entries_map:
  "\<forall>(k, v) \<in> set vs. validateRequestContextKey k = None \<and> canonical v \<Longrightarrow>
    marshal_entries vs = Inr (map (\<lambda>(k, v). (k, entry_json v)) vs)"
  by (induction vs) (auto simp: entry_json)

lemma decode_entries_map:
  "\<forall>(k, v) \<in> set vs. validateRequestContextKey k = None \<and> canonical v \<Longrightarrow>
    decode_entries (map (\<lambda>(k, v). (k, entry_json v)) vs) = Inr vs"
  by (induction vs) (auto simp: entry_json)

lemma fields_of_distinct: "distinct (map fst ms) \<Longrightarrow> fields_of ms = ms"
proof -
  have "foldl (\<lambda>d (k, v). gm_put k v d) d ms = d @ ms"
    if "distinct (map fst ms)" "fst ` set d \<inter> fst ` set ms = {}" for d :: "(string \<times> json) list"
    using that
  proof (induction ms arbitrary: d)
    case (Cons m ms)
    obtain k v where m: "m = (k, v)" by force
    then have "gm_put k v d = d @ [(k, v)]" using Cons.prems(2) by (intro gm_put_absent) auto
    moreover have "foldl (\<lambda>d (k, v). gm_put k v d) (d @ [(k, v)]) ms = (d @ [(k, v)]) @ ms"
      using Cons.prems m by (intro Cons.IH) (auto simp: image_iff)
    ultimately show ?case using m by simp
  qed simp
  then show "distinct (map fst ms) \<Longrightarrow> fields_of ms = ms" by (simp add: fields_of_def)
qed

lemma snapshot_sorted: "snapshot_ok values \<Longrightarrow> snapshot_ok (sort_key fst values)"
  by (auto simp: snapshot_ok_def gm_ok_def distinct_map)

lemma marshal_sorted:
  assumes "snapshot_ok values"
  shows "marshalRequestContext (sort_key fst values) = marshalRequestContext values"
proof -
  have "sort_key fst (map (\<lambda>(k, v). (k, entry_json v)) (sort_key fst values)) =
      sort_key fst (map (\<lambda>(k, v). (k, entry_json v)) values)"
    by (simp add: map_sort_key [symmetric] split_def comp_def sort_key_id_if_sorted)
  then show ?thesis
    using assms snapshot_sorted [OF assms]
    by (simp add: marshalRequestContext_def marshal_entries_map snapshot_ok_def)
qed


lemma trim_object: "trim_space (''{'' @ s @ ''}'') = ''{'' @ s @ ''}''"
  by (simp add: trim_space_def skip_ws_def is_ws_def)

text \<open>What a valid snapshot encodes to, decoded to the same entries in the order of the keys.\<close>

lemma snapshot_json:
  assumes "snapshot_ok values"
  shows "json_ok (JObj (map (\<lambda>(k, v). (k, entry_json v)) (sort_key fst values)))"
    and "json_utf8 (JObj (map (\<lambda>(k, v). (k, entry_json v)) (sort_key fst values)))"
  using assms entry_json
  by (fastforce simp: snapshot_ok_def list_all_iff validateRequestContextKey_def split: if_splits)+

lemma marshal_bytes:
  assumes "snapshot_ok values" and "marshalRequestContext values = Inr bs"
  shows "length values \<le> maxRequestContextEntries \<and>
    bs = json_bytes (JObj (map (\<lambda>(k, v). (k, entry_json v)) (sort_key fst values)))"
proof -
  have ok: "\<forall>(k, v) \<in> set values. validateRequestContextKey k = None \<and> canonical v"
    using assms(1) by (simp add: snapshot_ok_def)
  have "sort_key fst (map (\<lambda>(k, v). (k, entry_json v)) values) = map (\<lambda>(k, v). (k, entry_json v)) (sort_key fst values)"
    by (simp add: map_sort_key [symmetric] split_def)
  then show ?thesis
    using assms(2) by (auto simp: marshalRequestContext_def marshal_entries_map [OF ok] Let_def split: if_splits)
qed

lemma decode_marshal:
  assumes "snapshot_ok values" and "marshalRequestContext values = Inr bs"
  shows "decodeRequestContext (Some bs) = Inr (sort_key fst values)"
proof -
  let ?sorted = "map (\<lambda>(k, v). (k, entry_json v)) (sort_key fst values)"
  let ?j = "JObj ?sorted"
  have ok: "\<forall>(k, v) \<in> set (sort_key fst values). validateRequestContextKey k = None \<and> canonical v" "gm_ok values"
    using assms(1) by (simp_all add: snapshot_ok_def)
  note jok = snapshot_json [OF assms(1)]
  have len: "length values \<le> maxRequestContextEntries" and bs: "bs = json_bytes ?j"
    using marshal_bytes [OF assms] by simp_all
  define t where "t = json_print ?j"
  have txt_eq: "string_of_bytes bs = t" by (simp add: bs json_bytes_def t_def)
  have obj: "t = ''{'' @ tl (butlast t) @ ''}''" by (simp add: t_def)
  then have trim: "trim_space t = t" using trim_object by metis
  have head: "t \<noteq> []" "hd t = CHR ''{''" by (simp_all add: t_def)
  have "distinct (map fst ?sorted)" using ok(2) by (simp add: gm_ok_def split_def comp_def distinct_map)
  then have f: "fields_of ?sorted = ?sorted" by (rule fields_of_distinct)
  have "valid_utf8 t" "json_decode t = Some ?j"
    using json_print_valid [OF jok(1)] json_print_decode [OF jok(1)] json_coerce_id [OF jok(2)] by (simp_all only: t_def)
  moreover have "bs \<noteq> []" using jok(1) by (simp only: bs json_bytes_nonempty not_False_eq_True)
  ultimately show ?thesis
    using len decode_entries_map [OF ok(1)] marshal_sorted [OF assms(1)] assms(2)
    by (simp add: decodeRequestContext_def txt_eq trim f head Let_def)
qed

section \<open>Contexts built by the program\<close>

text \<open>Adding entries one after the other to the empty context; a refused entry changes nothing.\<close>

definition build_context :: "(string \<times> any) list \<Rightarrow> snapshot option" where
  "build_context adds = foldl (\<lambda>ctx (k, v). fst (WithRequestContext ctx k v)) (Some []) adds"

definition context_inv :: "snapshot option \<Rightarrow> bool" where
  "context_inv ctx \<longleftrightarrow> (\<exists>values bs. ctx = Some values \<and> snapshot_ok values \<and> marshalRequestContext values = Inr bs)"

lemma WithRequestContext_inv:
  assumes "context_inv ctx" and "any_ok v"
  shows "context_inv (fst (WithRequestContext ctx k v))"
proof -
  obtain vals where ctx: "ctx = Some vals" and ok: "snapshot_ok vals" using assms(1) by (auto simp: context_inv_def)
  have "snapshot_ok (gm_put k c vals)" if "validateRequestContextKey k = None" "normalizeRequestContextValue v = Inr c" for c
  proof -
    have "canonical c" using normalize_canonical that(2) assms(2) by blast
    moreover have "validateRequestContextKey k' = None \<and> canonical v'" if "gm_get (gm_put k c vals) k' = Some v'" for k' v'
      using that \<open>canonical c\<close> \<open>validateRequestContextKey k = None\<close> ok map_of_SomeD [of vals k' v']
      by (auto simp: go_map_simps snapshot_ok_def split: if_splits)
    ultimately show ?thesis using ok gm_ok_get_iff [of "gm_put k c vals"] by (auto simp: snapshot_ok_def)
  qed
  then show ?thesis
    using assms(1) ctx
    by (auto simp: WithRequestContext_def requestContextSnapshotFrom_def cloneRequestContextValues_def context_inv_def
        Let_def split: option.splits sum.splits)
qed

lemma build_context_inv: "\<forall>(k, v) \<in> set adds. any_ok v \<Longrightarrow> context_inv (build_context adds)"
proof -
  have "context_inv (foldl (\<lambda>ctx (k, v). fst (WithRequestContext ctx k v)) ctx adds)"
    if "context_inv ctx" "\<forall>(k, v) \<in> set adds. any_ok v" for ctx
    using that by (induction adds arbitrary: ctx) (auto intro: WithRequestContext_inv)
  moreover have "marshalRequestContext [] = Inr (json_bytes (JObj []))" by code_simp
  then have "context_inv (Some [])" by (simp add: context_inv_def snapshot_ok_def)
  ultimately show "\<forall>(k, v) \<in> set adds. any_ok v \<Longrightarrow> context_inv (build_context adds)" by (simp add: build_context_def)
qed

text \<open>
  C16. A Request Context arrives as it was sent: for a context built by any sequence of
  \<open>WithRequestContext\<close> calls, the payload that crosses to the owning runtime exists, is decoded without
  an error, and gives every key the canonical value it has at the sender, and no other key.
\<close>

theorem request_context_roundtrip:
  assumes "\<forall>(k, v) \<in> set adds. any_ok v" and "ctx = build_context adds"
  shows "\<exists>payload vals. requestContextPayload ctx = Inr payload \<and> decodeRequestContext payload = Inr vals \<and>
    (\<forall>key. RequestContextValue (withRequestContextSnapshot None vals) key = RequestContextValue ctx key)"
proof -
  obtain vals bs where ctx: "ctx = Some vals" "snapshot_ok vals" "marshalRequestContext vals = Inr bs"
    using build_context_inv [OF assms(1)] assms(2) by (auto simp: context_inv_def)
  have "map_of (sort_key fst vals) = map_of vals"
    by (rule map_of_inject_set [THEN iffD2]) (use ctx(2) in \<open>auto simp: snapshot_ok_def gm_ok_def distinct_map\<close>)
  then show ?thesis
    using ctx decode_marshal [OF ctx(2,3)]
    by (cases "vals = []") (auto simp: requestContextPayload_def requestContextSnapshotFrom_def decodeRequestContext_def
        RequestContextValue_def withRequestContextSnapshot_def)
qed

definition sample_adds :: "(string \<times> any) list" where
  "sample_adds = [(''tenant'', AnyString ''acme''), (''depth'', AnyInt K_8 3), (''tenant'', AnyOther ''chan int'')]"

lemma sample_adds_ok: "\<forall>(k, v) \<in> set sample_adds. any_ok v"
  by (simp add: sample_adds_def any_ok_def in_int64_def min_int64_def max_int64_def)

lemma sample_context: "build_context sample_adds = Some [(''tenant'', AnyString ''acme''), (''depth'', AnyInt K_64 3)]"
  by code_simp

theorem request_context_roundtrip_witness:
  "\<exists>payload vals. requestContextPayload (build_context sample_adds) = Inr payload \<and> decodeRequestContext payload = Inr vals \<and>
    RequestContextValue (withRequestContextSnapshot None vals) ''depth'' = Some (AnyInt K_64 3)"
proof -
  have "RequestContextValue (build_context sample_adds) ''depth'' = Some (AnyInt K_64 3)" by code_simp
  then show ?thesis using request_context_roundtrip [OF sample_adds_ok refl] by metis
qed

text \<open>
  The limits hold by construction: a context built by any calls has at most 32 entries, every key has
  1 to 128 bytes of valid UTF-8, and its encoding has at most 4096 bytes; a call that is refused returns
  the context it was given, with an error coded \<open>ErrRequestEncodeFailed\<close>, and one that succeeds makes
  the key readable and leaves all other keys alone.
\<close>

theorem request_context_limits:
  assumes "\<forall>(k, v) \<in> set adds. any_ok v" and "build_context adds = Some vals"
    and "WithRequestContext (Some vals) key value = (ctx', err)"
  shows "length vals \<le> 32 \<and>
    list_all (\<lambda>(k, v). k \<noteq> [] \<and> length k \<le> 128 \<and> valid_utf8 k) vals \<and>
    (\<exists>bs. marshalRequestContext vals = Inr bs \<and> length bs \<le> 4096) \<and>
    (case err of
       Some e \<Rightarrow> ctx' = Some vals \<and> errors_Is e (TCode ErrRequestEncodeFailed)
     | None \<Rightarrow> \<exists>c. normalizeRequestContextValue value = Inr c \<and>
         (\<forall>k. RequestContextValue ctx' k = (if k = key then Some c else gm_get vals k)))"
proof -
  obtain bs where inv: "snapshot_ok vals" "marshalRequestContext vals = Inr bs"
    using build_context_inv [OF assms(1)] assms(2) by (auto simp: context_inv_def)
  have "length vals \<le> 32" "length bs \<le> 4096"
    using inv(2) by (auto simp: marshalRequestContext_def maxRequestContextEntries_def maxRequestContextBytes_def Let_def
        split: if_splits sum.splits)
  moreover have "list_all (\<lambda>(k, v). k \<noteq> [] \<and> length k \<le> 128 \<and> valid_utf8 k) vals"
    using inv(1) by (auto simp: list_all_iff snapshot_ok_def validateRequestContextKey_def maxRequestContextKeySize_def split: if_splits)
  moreover have "errors_Is (requestContextEncodeError e) (TCode ErrRequestEncodeFailed)" for e
    by (simp add: requestContextEncodeError_def withCode_def codedError_Is_def)
  ultimately show ?thesis
    using inv(2) assms(3)
    by (auto simp: WithRequestContext_def requestContextSnapshotFrom_def cloneRequestContextValues_def Let_def
        RequestContextValue_def go_map_simps split: option.splits sum.splits)
qed

theorem request_context_limits_witness:
  "fst (WithRequestContext (build_context sample_adds) [] (AnyBool True)) = build_context sample_adds \<and>
   length (the (build_context sample_adds)) \<le> 32"
proof -
  let ?vals = "the (build_context sample_adds)"
  have b: "build_context sample_adds = Some ?vals" by (simp add: sample_context)
  have "snd (WithRequestContext (Some ?vals) [] (AnyBool True)) \<noteq> None"
    by (simp add: WithRequestContext_def validateRequestContextKey_def)
  then obtain e where e: "WithRequestContext (Some ?vals) [] (AnyBool True) =
      (fst (WithRequestContext (Some ?vals) [] (AnyBool True)), Some e)"
    by (cases "WithRequestContext (Some ?vals) [] (AnyBool True)") auto
  show ?thesis using request_context_limits [OF sample_adds_ok b e] b by simp
qed

end
