(* ===== verification/Gor_Forward.thy ===== *)
theory Gor_Forward
  imports Gor_Root Gor_Context
begin

text \<open>
  Forwarded calls, \<open>forward.go\<close> and \<open>prober.go\<close>: the request and response documents down to their bytes,
  the sending side \<open>forward\<close>, the serving side \<open>handle\<close> with its dispatch on the request kind, and the
  probe that goes over the same transport. Argument and reply structs are generated by the application's
  code generator: their JSON encoding and decoding are the parameters \<open>marshal\<close> and \<open>unmarshal\<close>. The
  transport is the parameter \<open>send\<close>, and \<open>invoke\<close> is what the serving engine does with a call. Names of
  JSON members are matched exactly, and what a failed \<open>Unmarshal\<close> leaves in its target is not looked at.
\<close>

section \<open>Requests and responses\<close>

record occupiedIdentity =
  oi_GrainType :: string
  oi_GrainKey :: string

text \<open>\<open>None\<close> is the nil \<open>RawMessage\<close>.\<close>

type_synonym raw_message = "string option"

record callRequest =
  cq_Kind :: string
  cq_GrainType :: string
  cq_GrainKey :: string
  cq_Method :: string
  cq_Args :: raw_message
  cq_Occupied :: "occupiedIdentity list"
  cq_RequestContext :: raw_message

record callResponse =
  cp_Reply :: raw_message
  cp_Error :: "errorEnvelope option"

definition requestKindInvoke :: string where "requestKindInvoke = ''invoke''"
definition requestKindProbe :: string where "requestKindProbe = ''probe''"

definition zero_request :: callRequest where
  "zero_request = \<lparr>cq_Kind = [], cq_GrainType = [], cq_GrainKey = [], cq_Method = [], cq_Args = None,
     cq_Occupied = [], cq_RequestContext = None\<rparr>"

definition zero_response :: callResponse where
  "zero_response = \<lparr>cp_Reply = None, cp_Error = None\<rparr>"

definition raw_text :: "raw_message \<Rightarrow> string" where
  "raw_text raw = (case raw of None \<Rightarrow> ''null'' | Some t \<Rightarrow> t)"

definition occupied_json :: "occupiedIdentity \<Rightarrow> json" where
  "occupied_json w = JObj [(''type'', JStr (oi_GrainType w)), (''key'', JStr (oi_GrainKey w))]"

text \<open>\<open>json.Marshal\<close> of a request; a field with \<open>omitempty\<close> is left out when it has length 0.\<close>

definition omit_raw :: "string \<Rightarrow> raw_message \<Rightarrow> (string \<times> string) list" where
  "omit_raw name raw = (case raw of None \<Rightarrow> [] | Some t \<Rightarrow> if t = [] then [] else [(name, t)])"

definition request_text :: "callRequest \<Rightarrow> string" where
  "request_text q = object_text
     ([(''kind'', json_print (JStr (cq_Kind q))), (''type'', json_print (JStr (cq_GrainType q))),
       (''key'', json_print (JStr (cq_GrainKey q))), (''method'', json_print (JStr (cq_Method q))),
       (''args'', raw_text (cq_Args q))] @
      (if cq_Occupied q = [] then [] else [(''occupied'', json_print (JArr (map occupied_json (cq_Occupied q))))]) @
      omit_raw ''request_context'' (cq_RequestContext q))"

definition envelope_json :: "errorEnvelope \<Rightarrow> json" where
  "envelope_json e = JObj ((if env_Code e = [] then [] else [(''code'', JStr (env_Code e))]) @ [(''message'', JStr (env_Message e))])"

definition response_text :: "callResponse \<Rightarrow> string" where
  "response_text p = object_text
     (omit_raw ''reply'' (cp_Reply p) @
      (case cp_Error p of None \<Rightarrow> [] | Some e \<Rightarrow> [(''error'', json_print (envelope_json e))]))"

text \<open>\<open>json.Unmarshal\<close> of a raw member, and of a document into a struct with raw members.\<close>

definition un_raw :: "(json \<Rightarrow> 'a result) \<Rightarrow> raw_message \<Rightarrow> 'a result" where
  "un_raw dec raw =
     (case raw of
        None \<Rightarrow> Inl json_syntax_error
      | Some t \<Rightarrow> (case json_decode t of None \<Rightarrow> Inl json_syntax_error | Some j \<Rightarrow> dec j))"

fun raw_fields :: "(string \<Rightarrow> string \<Rightarrow> 'a \<Rightarrow> 'a result) \<Rightarrow> (string \<times> string) list \<Rightarrow> 'a \<Rightarrow> 'a result" where
  "raw_fields field [] v = Inr v"
| "raw_fields field ((n, t) # rest) v = (case field n t v of Inl e \<Rightarrow> Inl e | Inr v' \<Rightarrow> raw_fields field rest v')"

definition un_raw_struct :: "(string \<Rightarrow> string \<Rightarrow> 'a \<Rightarrow> 'a result) \<Rightarrow> 'a \<Rightarrow> byte list \<Rightarrow> 'a result" where
  "un_raw_struct field zero bs =
     (case json_decode (string_of_bytes bs) of
        None \<Rightarrow> Inl json_syntax_error
      | Some JNull \<Rightarrow> Inr zero
      | Some (JObj _) \<Rightarrow> raw_fields field (the (raw_object (string_of_bytes bs))) zero
      | Some _ \<Rightarrow> Inl json_type_error)"

definition un_occupied :: "json \<Rightarrow> occupiedIdentity result" where
  "un_occupied = un_struct
     (\<lambda>n j w. if n = ''type'' then map_sum id (\<lambda>s. w\<lparr>oi_GrainType := s\<rparr>) (un_string (oi_GrainType w) j)
       else if n = ''key'' then map_sum id (\<lambda>s. w\<lparr>oi_GrainKey := s\<rparr>) (un_string (oi_GrainKey w) j)
       else Inr w) \<lparr>oi_GrainType = [], oi_GrainKey = []\<rparr>"

definition request_field :: "string \<Rightarrow> string \<Rightarrow> callRequest \<Rightarrow> callRequest result" where
  "request_field n t q =
     (if n = ''kind'' then map_sum id (\<lambda>s. q\<lparr>cq_Kind := s\<rparr>) (un_raw (un_string (cq_Kind q)) (Some t))
      else if n = ''type'' then map_sum id (\<lambda>s. q\<lparr>cq_GrainType := s\<rparr>) (un_raw (un_string (cq_GrainType q)) (Some t))
      else if n = ''key'' then map_sum id (\<lambda>s. q\<lparr>cq_GrainKey := s\<rparr>) (un_raw (un_string (cq_GrainKey q)) (Some t))
      else if n = ''method'' then map_sum id (\<lambda>s. q\<lparr>cq_Method := s\<rparr>) (un_raw (un_string (cq_Method q)) (Some t))
      else if n = ''args'' then Inr (q\<lparr>cq_Args := Some t\<rparr>)
      else if n = ''occupied'' then map_sum id (\<lambda>os. q\<lparr>cq_Occupied := os\<rparr>) (un_raw (un_array un_occupied) (Some t))
      else if n = ''request_context'' then Inr (q\<lparr>cq_RequestContext := Some t\<rparr>)
      else Inr q)"

definition un_envelope :: "errorEnvelope \<Rightarrow> json \<Rightarrow> errorEnvelope result" where
  "un_envelope = un_struct
     (\<lambda>n j e. if n = ''code'' then map_sum id (\<lambda>s. e\<lparr>env_Code := s\<rparr>) (un_string (env_Code e) j)
       else if n = ''message'' then map_sum id (\<lambda>s. e\<lparr>env_Message := s\<rparr>) (un_string (env_Message e) j)
       else Inr e)"

text \<open>A pointer field is set to nil by \<open>null\<close> and allocated otherwise.\<close>

definition response_field :: "string \<Rightarrow> string \<Rightarrow> callResponse \<Rightarrow> callResponse result" where
  "response_field n t p =
     (if n = ''reply'' then Inr (p\<lparr>cp_Reply := Some t\<rparr>)
      else if n = ''error'' then
        un_raw (\<lambda>j. if j = JNull then Inr (p\<lparr>cp_Error := None\<rparr>)
                    else map_sum id (\<lambda>e. p\<lparr>cp_Error := Some e\<rparr>)
                      (un_envelope (case cp_Error p of None \<Rightarrow> \<lparr>env_Code = [], env_Message = []\<rparr> | Some e \<Rightarrow> e) j))
          (Some t)
      else Inr p)"

definition decode_request :: "byte list \<Rightarrow> callRequest result" where
  "decode_request = un_raw_struct request_field zero_request"

definition decode_response :: "byte list \<Rightarrow> callResponse result" where
  "decode_response = un_raw_struct response_field zero_response"

definition encodeCallResponse :: "callResponse \<Rightarrow> byte list result" where
  "encodeCallResponse response = Inr (bytes_of_string (response_text response))"

definition errorResponse :: "go_error \<Rightarrow> byte list result" where
  "errorResponse e = encodeCallResponse \<lparr>cp_Reply = None, cp_Error = errorEnvelopeFor (publicError (Some e))\<rparr>"

definition occupiedToWire :: "chain \<Rightarrow> occupiedIdentity list" where
  "occupiedToWire chain = map (\<lambda>i. \<lparr>oi_GrainType = GrainType i, oi_GrainKey = GrainKey i\<rparr>) chain"

definition occupiedFromWire :: "occupiedIdentity list \<Rightarrow> chain" where
  "occupiedFromWire wire = map (\<lambda>w. GrainId (oi_GrainType w) (oi_GrainKey w)) wire"

section \<open>The sending side\<close>

text \<open>What the model needs of a \<open>context.Context\<close>: the Request Context and the occupied chain.\<close>

record call_ctx =
  cx_values :: "snapshot option"
  cx_occupied :: chain

definition background :: call_ctx where
  "background = \<lparr>cx_values = Some [], cx_occupied = []\<rparr>"

text \<open>\<open>json.Marshal\<close> of an \<open>any\<close> that may be nil.\<close>

definition marshal_any :: "('a \<Rightarrow> json result) \<Rightarrow> 'a option \<Rightarrow> json result" where
  "marshal_any marshal v = (case v of None \<Rightarrow> Inr JNull | Some x \<Rightarrow> marshal x)"

definition forward_request :: "grain_id \<Rightarrow> string \<Rightarrow> json \<Rightarrow> chain \<Rightarrow> byte list option \<Rightarrow> callRequest" where
  "forward_request i meth encodedArgs chain encodedContext =
     \<lparr>cq_Kind = requestKindInvoke, cq_GrainType = GrainType i, cq_GrainKey = GrainKey i, cq_Method = meth,
      cq_Args = Some (json_print encodedArgs), cq_Occupied = occupiedToWire chain,
      cq_RequestContext = map_option string_of_bytes encodedContext\<rparr>"

text \<open>\<open>ctx_err\<close> is \<open>ctx.Err()\<close> when the transport failed. The result is the error and the reply struct.\<close>

definition forward ::
    "('a \<Rightarrow> json result) \<Rightarrow> (json \<Rightarrow> 'a \<Rightarrow> 'a result) \<Rightarrow> (string \<Rightarrow> byte list \<Rightarrow> byte list result) \<Rightarrow> go_error option \<Rightarrow>
     call_ctx \<Rightarrow> string \<Rightarrow> grain_id \<Rightarrow> string \<Rightarrow> 'a option \<Rightarrow> 'a option \<Rightarrow> go_error option \<times> 'a option" where
  "forward marshal unmarshal send ctx_err ctx owner i meth args reply =
     (case marshal_any marshal args of
        Inl e \<Rightarrow> (Some (withCode ErrRequestEncodeFailed (Wrap (''encode '' @ meth @ '' arguments: '' @ error_text e) e)), reply)
      | Inr encodedArgs \<Rightarrow>
          (case requestContextPayload (cx_values ctx) of
             Inl e \<Rightarrow> (Some (withCode ErrRequestEncodeFailed (Wrap (''encode request context: '' @ error_text e) e)), reply)
           | Inr encodedContext \<Rightarrow>
               (let payload = bytes_of_string (request_text (forward_request i meth encodedArgs (cx_occupied ctx) encodedContext))
                in case send owner payload of
                     Inl e \<Rightarrow> (case ctx_err of Some c \<Rightarrow> (Some c, reply) | None \<Rightarrow> (Some (withCode ErrTransportFailed e), reply))
                   | Inr encodedResponse \<Rightarrow>
                       (case decode_response encodedResponse of
                          Inl e \<Rightarrow> (Some (withCode ErrTransportFailed (Wrap (''decode invocation response: '' @ error_text e) e)), reply)
                        | Inr response \<Rightarrow>
                            if cp_Error response \<noteq> None then (errorFromEnvelope (cp_Error response), reply)
                            else
                              (case reply of
                                 None \<Rightarrow> (None, None)
                               | Some r \<Rightarrow>
                                   (case un_raw (\<lambda>j. unmarshal j r) (cp_Reply response) of
                                      Inl e \<Rightarrow> (Some (withCode ErrTransportFailed (Wrap (''decode '' @ meth @ '' reply: '' @ error_text e) e)), reply)
                                    | Inr r' \<Rightarrow> (None, Some r')))))))"

section \<open>The serving side\<close>

text \<open>
  \<open>handleInvoke\<close> after admission. \<open>invoke\<close> is the engine's \<open>Invoke\<close>: it may let other goroutines change the
  runtime, and gives the error and the reply struct.
\<close>

type_synonym 'a invoke_fun =
  "call_ctx \<Rightarrow> grain_id \<Rightarrow> string \<Rightarrow> 'a option \<Rightarrow> 'a option \<Rightarrow> 'a root \<Rightarrow> (go_error option \<times> 'a option) \<times> 'a root"

definition handleInvoke_admitted ::
    "('a \<Rightarrow> json result) \<Rightarrow> (json \<Rightarrow> 'a \<Rightarrow> 'a result) \<Rightarrow> 'a invoke_fun \<Rightarrow> call_ctx \<Rightarrow> callRequest \<Rightarrow> 'a root \<Rightarrow>
     byte list result \<times> 'a root" where
  "handleInvoke_admitted marshal unmarshal invoke ctx request rt =
     (case decodeRequestContext (map_option bytes_of_string (cq_RequestContext request)) of
        Inl e \<Rightarrow> (errorResponse (withCode ErrInvalidRequest e), rt)
      | Inr snapshot \<Rightarrow>
          (case Root_typeRegistration rt (cq_GrainType request) of
             None \<Rightarrow> (errorResponse (Wrap (ErrTypeNotInstalled @ '': '' @ cq_GrainType request) (CodeErr ErrTypeNotInstalled)), rt)
           | Some registration \<Rightarrow>
               (case tr_newCall registration (cq_Method request) of (args, reply) \<Rightarrow>
                  if args = None \<and> reply = None
                  then (errorResponse (withCode ErrUnknownMethod (NewErr (''unknown method '' @ go_quote (cq_Method request)))), rt)
                  else
                    (case (case args of None \<Rightarrow> Inr None | Some a \<Rightarrow> map_sum id Some (un_raw (\<lambda>j. unmarshal j a) (cq_Args request))) of
                       Inl e \<Rightarrow> (errorResponse (withCode ErrInvalidRequest
                                  (Wrap (''decode '' @ cq_Method request @ '' arguments: '' @ error_text e) e)), rt)
                     | Inr args1 \<Rightarrow>
                         (let ctx1 = ctx\<lparr>cx_values := withRequestContextSnapshot (cx_values ctx) snapshot\<rparr>;
                              occupied = occupiedFromWire (cq_Occupied request);
                              ctx2 = (if occupied \<noteq> [] then ctx1\<lparr>cx_occupied := occupied\<rparr> else ctx1)
                          in case invoke ctx2 (GrainId (cq_GrainType request) (cq_GrainKey request)) (cq_Method request) args1 reply rt of
                               ((err, reply1), rt1) \<Rightarrow>
                                 (case publicError err of
                                    Some e \<Rightarrow>
                                      (errorResponse (if rt_done rt1 \<and> errors_Is e (TSentinel CtxCanceled)
                                         then stopRejection (rt_stopCode rt1) else e), rt1)
                                  | None \<Rightarrow>
                                      (case marshal_any marshal reply1 of
                                         Inl e \<Rightarrow> (errorResponse (withCode ErrReplyEncodeFailed
                                                    (Wrap (''encode '' @ cq_Method request @ '' reply: '' @ error_text e) e)), rt1)
                                       | Inr j \<Rightarrow> (encodeCallResponse \<lparr>cp_Reply = Some (json_print j), cp_Error = None\<rparr>, rt1))))))))"

definition handleInvoke ::
    "('a \<Rightarrow> json result) \<Rightarrow> (json \<Rightarrow> 'a \<Rightarrow> 'a result) \<Rightarrow> 'a invoke_fun \<Rightarrow> call_ctx \<Rightarrow> callRequest \<Rightarrow> 'a root \<Rightarrow>
     byte list result \<times> 'a root" where
  "handleInvoke marshal unmarshal invoke ctx request rt =
     (case Root_admit rt of
        (Inl e, rt1) \<Rightarrow> (errorResponse e, rt1)
      | (Inr _, rt1) \<Rightarrow>
          (case handleInvoke_admitted marshal unmarshal invoke ctx request rt1 of (res, rt2) \<Rightarrow> (res, Root_release rt2)))"

text \<open>\<open>clusterNode\<close> is the node when one is configured.\<close>

definition member_id_json :: "member_id \<Rightarrow> json" where
  "member_id_json m = JObj [(''node_addr'', JStr (id_NodeAddr m)), (''generation'', JStr (id_Generation m))]"

definition handleProbe :: "node option \<Rightarrow> 'a root \<Rightarrow> byte list result" where
  "handleProbe clusterNode rt =
     (case clusterNode of
        None \<Rightarrow> errorResponse (withCode ErrInvalidRequest (NewErr ''cluster node is not configured''))
      | Some n \<Rightarrow>
          if rt_state rt \<noteq> rootRunning then errorResponse (stopRejection (rt_stopCode rt))
          else
            (case Node_Probe n of
               None \<Rightarrow> errorResponse (Sentinel ClusterErrNodeDead)
             | Some m \<Rightarrow> encodeCallResponse \<lparr>cp_Reply = Some (json_print (member_id_json m)), cp_Error = None\<rparr>))"

definition handle ::
    "('a \<Rightarrow> json result) \<Rightarrow> (json \<Rightarrow> 'a \<Rightarrow> 'a result) \<Rightarrow> 'a invoke_fun \<Rightarrow> node option \<Rightarrow> call_ctx \<Rightarrow> byte list \<Rightarrow> 'a root \<Rightarrow>
     byte list result \<times> 'a root" where
  "handle marshal unmarshal invoke clusterNode ctx payload rt =
     (case decode_request payload of
        Inl e \<Rightarrow> (errorResponse (withCode ErrInvalidRequest (Wrap (''decode invocation request: '' @ error_text e) e)), rt)
      | Inr request \<Rightarrow>
          if cq_Kind request = requestKindInvoke then handleInvoke marshal unmarshal invoke ctx request rt
          else if cq_Kind request = requestKindProbe then (handleProbe clusterNode rt, rt)
          else (errorResponse (withCode ErrInvalidRequest (NewErr (''unknown request kind '' @ go_quote (cq_Kind request)))), rt))"

text \<open>
  The head of the engine's \<open>Invoke\<close>: the cycle check, the extension of the chain, and the registration;
  \<open>run\<close> is the rest, from \<open>activationFor\<close> on.
\<close>

definition Engine_Invoke :: "'a invoke_fun \<Rightarrow> 'a invoke_fun" where
  "Engine_Invoke run ctx i meth args reply rt =
     (case checkCycle (cx_occupied ctx) i of
        Some e \<Rightarrow> ((Some e, reply), rt)
      | None \<Rightarrow>
          (case Engine_registration (GrainType i) (rt_engine rt) of
             Inl e \<Rightarrow> ((Some e, reply), rt)
           | Inr _ \<Rightarrow> run (ctx\<lparr>cx_occupied := withOccupied (cx_occupied ctx) i\<rparr>) i meth args reply rt))"

section \<open>Probes over the transport\<close>

definition un_member_id :: "json \<Rightarrow> member_id result" where
  "un_member_id = un_struct
     (\<lambda>n j m. if n = ''node_addr'' then map_sum id (\<lambda>s. MemberID s (id_Generation m)) (un_string (id_NodeAddr m) j)
       else if n = ''generation'' then map_sum id (\<lambda>s. MemberID (id_NodeAddr m) s) (un_string (id_Generation m) j)
       else Inr m) no_member"

definition probe_request_text :: string where
  "probe_request_text = object_text [(''kind'', json_print (JStr requestKindProbe))]"

definition transportProber_Probe :: "(string \<Rightarrow> byte list \<Rightarrow> byte list result) \<Rightarrow> member_id \<Rightarrow> probe_result" where
  "transportProber_Probe send target =
     (let failed = (\<lambda>e. \<lparr>pr_ID = no_member, pr_Err = Some e\<rparr>)
      in case send (id_NodeAddr target) (bytes_of_string probe_request_text) of
           Inl e \<Rightarrow> failed (Wrap (''send probe to '' @ go_quote (id_NodeAddr target) @ '': '' @ error_text e) e)
         | Inr encodedResponse \<Rightarrow>
             (case decode_response encodedResponse of
                Inl e \<Rightarrow> failed (Wrap (''decode probe response: '' @ error_text e) e)
              | Inr response \<Rightarrow>
                  (case cp_Error response of
                     Some e \<Rightarrow> failed (NewErr (''probe response error: '' @ env_Message e))
                   | None \<Rightarrow>
                       (case un_raw un_member_id (cp_Reply response) of
                          Inl e \<Rightarrow> failed (Wrap (''decode probe reply: '' @ error_text e) e)
                        | Inr m \<Rightarrow> \<lparr>pr_ID = m, pr_Err = None\<rparr>))))"

section \<open>Documents read back\<close>

lemma valid_name: "list_all (\<lambda>c. (of_char c :: nat) < 128) n \<Longrightarrow> to_valid n = n"
  by (simp add: to_valid_id valid_ascii)

lemma un_raw_print: "json_ok j \<Longrightarrow> un_raw dec (Some (json_print j)) = dec (json_coerce j)"
  by (simp add: un_raw_def json_print_decode)

lemma un_raw_str: "un_raw (un_string old) (Some (json_print (JStr s))) = Inr (to_valid s)"
  by (simp add: un_raw_print del: json_print.simps)

lemma un_raw_struct_object:
  assumes "json_ok (JObj ms)"
  shows "un_raw_struct field zero (bytes_of_string (object_text (map (\<lambda>(k, j). (k, json_print j)) ms))) =
    raw_fields field (map (\<lambda>(k, j). (to_valid k, json_print j)) ms) zero"
proof -
  have "json_decode (json_print (JObj ms)) = Some (json_coerce (JObj ms))" using assms by (rule json_print_decode)
  then show ?thesis
    unfolding un_raw_struct_def object_text_print string_of_bytes_of_string
    using raw_object_print [OF assms] by (simp del: json_print.simps)
qed

definition coerce_identity :: "occupiedIdentity \<Rightarrow> occupiedIdentity" where
  "coerce_identity w = \<lparr>oi_GrainType = to_valid (oi_GrainType w), oi_GrainKey = to_valid (oi_GrainKey w)\<rparr>"

lemma un_occupied_list:
  "un_array un_occupied (json_coerce (JArr (map occupied_json ws))) = Inr (map coerce_identity ws)"
proof -
  have "un_occupied (json_coerce (occupied_json w)) = Inr (coerce_identity w)" for w
    by (simp add: un_occupied_def occupied_json_def coerce_identity_def valid_name)
  then show ?thesis by (simp add: un_list_map comp_def)
qed

text \<open>What a request is at the receiver: its strings with invalid bytes replaced.\<close>

definition received :: "callRequest \<Rightarrow> callRequest" where
  "received q = q\<lparr>cq_Kind := to_valid (cq_Kind q), cq_GrainType := to_valid (cq_GrainType q), cq_GrainKey := to_valid (cq_GrainKey q),
     cq_Method := to_valid (cq_Method q), cq_Occupied := map coerce_identity (cq_Occupied q)\<rparr>"

lemma occupied_json_ok: "json_ok (JArr (map occupied_json ws))"
  by (simp add: list_all_iff occupied_json_def)

lemma un_raw_occupied:
  "un_raw (un_array un_occupied) (Some (json_print (JArr (map occupied_json ws)))) = Inr (map coerce_identity ws)"
  using un_raw_print [OF occupied_json_ok, of "un_array un_occupied" ws] un_occupied_list [of ws] by (simp only:)

lemma decode_request_text:
  assumes "cq_Args q = Some (json_print a)" and "json_ok a"
    and "cq_RequestContext q = map_option json_print c" and "\<forall>j. c = Some j \<longrightarrow> json_ok j"
  shows "decode_request (bytes_of_string (request_text q)) = Inr (received q)"
proof -
  let ?occ = "if cq_Occupied q = [] then [] else [(''occupied'', JArr (map occupied_json (cq_Occupied q)))]"
  let ?ctx = "case c of None \<Rightarrow> [] | Some j \<Rightarrow> [(''request_context'', j)]"
  let ?ms = "[(''kind'', JStr (cq_Kind q)), (''type'', JStr (cq_GrainType q)), (''key'', JStr (cq_GrainKey q)),
     (''method'', JStr (cq_Method q)), (''args'', a)] @ ?occ @ ?ctx"
  have ne: "json_print j \<noteq> []" if "c = Some j" for j using print_head [of j] assms(4) that by auto
  have "request_text q = object_text (map (\<lambda>(k, j). (k, json_print j)) ?ms)"
    using assms(1,3) ne by (cases c) (simp_all add: request_text_def raw_text_def omit_raw_def)
  moreover have "json_ok (JObj ?ms)" using assms(2,4) occupied_json_ok by (cases c) simp_all
  ultimately have "decode_request (bytes_of_string (request_text q)) =
      raw_fields request_field (map (\<lambda>(k, j). (to_valid k, json_print j)) ?ms) zero_request"
    unfolding decode_request_def by (simp only: un_raw_struct_object)
  also have "\<dots> = Inr (received q)"
    using assms(1,3) un_raw_occupied
    by (cases c; cases "cq_Occupied q = []"; cases q)
      (simp_all add: request_field_def valid_name un_raw_str zero_request_def received_def del: json_print.simps)
  finally show ?thesis .
qed

lemma decode_reply_text:
  assumes "json_ok j"
  shows "decode_response (bytes_of_string (response_text \<lparr>cp_Reply = Some (json_print j), cp_Error = None\<rparr>)) =
    Inr \<lparr>cp_Reply = Some (json_print j), cp_Error = None\<rparr>"
proof -
  have "json_print j \<noteq> []" using print_head [OF assms] by auto
  then have "response_text \<lparr>cp_Reply = Some (json_print j), cp_Error = None\<rparr> = object_text (map (\<lambda>(k, j). (k, json_print j)) [(''reply'', j)])"
    by (simp add: response_text_def omit_raw_def)
  then have "decode_response (bytes_of_string (response_text \<lparr>cp_Reply = Some (json_print j), cp_Error = None\<rparr>)) =
      raw_fields response_field (map (\<lambda>(k, j). (to_valid k, json_print j)) [(''reply'', j)]) zero_response"
    unfolding decode_response_def using un_raw_struct_object [of "[(''reply'', j)]"] assms by simp
  then show ?thesis by (simp add: response_field_def valid_name zero_response_def)
qed

definition coerce_envelope :: "errorEnvelope \<Rightarrow> errorEnvelope" where
  "coerce_envelope e = \<lparr>env_Code = to_valid (env_Code e), env_Message = to_valid (env_Message e)\<rparr>"

lemma un_envelope_json:
  "un_envelope \<lparr>env_Code = [], env_Message = []\<rparr> (json_coerce (envelope_json e)) = Inr (coerce_envelope e)"
  by (simp add: un_envelope_def envelope_json_def coerce_envelope_def valid_name)

lemma decode_error_text:
  "decode_response (bytes_of_string (response_text \<lparr>cp_Reply = None, cp_Error = Some e\<rparr>)) =
    Inr \<lparr>cp_Reply = None, cp_Error = Some (coerce_envelope e)\<rparr>"
proof -
  have ok: "json_ok (envelope_json e)" by (simp add: envelope_json_def)
  have "response_text \<lparr>cp_Reply = None, cp_Error = Some e\<rparr> =
      object_text (map (\<lambda>(k, j). (k, json_print j)) [(''error'', envelope_json e)])"
    by (simp add: response_text_def omit_raw_def)
  then have "decode_response (bytes_of_string (response_text \<lparr>cp_Reply = None, cp_Error = Some e\<rparr>)) =
      raw_fields response_field (map (\<lambda>(k, j). (to_valid k, json_print j)) [(''error'', envelope_json e)]) zero_response"
    unfolding decode_response_def using un_raw_struct_object [of "[(''error'', envelope_json e)]"] ok by simp
  moreover have "json_coerce (envelope_json e) \<noteq> JNull" by (simp add: envelope_json_def)
  ultimately show ?thesis
    by (simp add: response_field_def valid_name zero_response_def un_raw_print [OF ok] un_envelope_json)
qed

text \<open>What the sender makes of an answer.\<close>

lemma forward_answer:
  assumes "marshal_any marshal args = Inr j" and "requestContextPayload (cx_values ctx) = Inr p"
    and "send owner (bytes_of_string (request_text (forward_request i meth j (cx_occupied ctx) p))) = answer"
  shows "answer = encodeCallResponse \<lparr>cp_Reply = Some (json_print jr), cp_Error = None\<rparr> \<Longrightarrow> json_ok jr \<Longrightarrow>
      unmarshal (json_coerce jr) r = Inr r' \<Longrightarrow> forward marshal unmarshal send ctx_err ctx owner i meth args (Some r) = (None, Some r')"
    and "answer = errorResponse e \<Longrightarrow> errorEnvelopeFor (publicError (Some e)) = Some env \<Longrightarrow>
      forward marshal unmarshal send ctx_err ctx owner i meth args reply = (errorFromEnvelope (Some (coerce_envelope env)), reply)"
  using assms
  by (simp_all add: forward_def encodeCallResponse_def errorResponse_def decode_reply_text decode_error_text un_raw_print Let_def)

text \<open>What the receiver makes of a request of the sender.\<close>

lemma request_arrives:
  assumes "context_inv (cx_values ctx)" and "json_ok j"
  shows "\<exists>p vals. requestContextPayload (cx_values ctx) = Inr p \<and>
    decode_request (bytes_of_string (request_text (forward_request i meth j chain p))) = Inr (received (forward_request i meth j chain p)) \<and>
    decodeRequestContext (map_option bytes_of_string (cq_RequestContext (forward_request i meth j chain p))) = Inr vals \<and>
    (\<forall>key. gm_get vals key = RequestContextValue (cx_values ctx) key)"
proof -
  obtain values_of bs where vals: "cx_values ctx = Some values_of" "snapshot_ok values_of" "marshalRequestContext values_of = Inr bs"
    using assms(1) by (auto simp: context_inv_def)
  show ?thesis
  proof (cases "values_of = []")
    case True
    have "decode_request (bytes_of_string (request_text (forward_request i meth j chain None))) = Inr (received (forward_request i meth j chain None))"
      by (rule decode_request_text [where a = j and c = None]) (simp_all add: forward_request_def assms(2))
    then show ?thesis using vals(1) True
      by (intro exI [of _ None] exI [of _ "[]"])
        (simp add: requestContextPayload_def requestContextSnapshotFrom_def forward_request_def decodeRequestContext_def RequestContextValue_def)
  next
    case False
    let ?c = "JObj (map (\<lambda>(k, v). (k, entry_json v)) (sort_key fst values_of))"
    have bs: "bs = json_bytes ?c" using marshal_bytes [OF vals(2,3)] by simp
    have c: "json_ok ?c" using snapshot_json(1) [OF vals(2)] .
    have raw: "string_of_bytes bs = json_print ?c" "bytes_of_string (string_of_bytes bs) = bs"
      by (simp_all only: bs json_bytes_def string_of_bytes_of_string)
    have "decode_request (bytes_of_string (request_text (forward_request i meth j chain (Some bs)))) =
        Inr (received (forward_request i meth j chain (Some bs)))"
      by (rule decode_request_text [where a = j and c = "Some ?c"])
        (simp_all only: forward_request_def callRequest.simps option.map raw assms(2) option.inject c simp_thms)
    moreover have "map_of (sort_key fst values_of) = map_of values_of"
      by (rule map_of_inject_set [THEN iffD2]) (use vals(2) in \<open>auto simp: snapshot_ok_def gm_ok_def distinct_map\<close>)
    ultimately show ?thesis
      using vals False decode_marshal [OF vals(2,3)] raw(2)
      by (intro exI [of _ "Some bs"] exI [of _ "sort_key fst values_of"])
        (simp add: requestContextPayload_def requestContextSnapshotFrom_def forward_request_def RequestContextValue_def)
  qed
qed

section \<open>A forwarded call, end to end\<close>

text \<open>The identity an identity becomes in a request.\<close>

definition coerce_id :: "grain_id \<Rightarrow> grain_id" where
  "coerce_id i = GrainId (to_valid (GrainType i)) (to_valid (GrainKey i))"

lemma coerce_chain: "occupiedFromWire (map coerce_identity (occupiedToWire chain)) = map coerce_id chain"
  by (simp add: occupiedFromWire_def occupiedToWire_def coerce_identity_def coerce_id_def)

definition wire_safe :: "grain_id \<Rightarrow> bool" where
  "wire_safe i \<longleftrightarrow> valid_utf8 (GrainType i) \<and> valid_utf8 (GrainKey i)"

lemma coerce_id_safe: "wire_safe i \<Longrightarrow> coerce_id i = i"
  by (cases i) (simp add: wire_safe_def coerce_id_def to_valid_id)

lemma coerce_chain_safe: "list_all wire_safe chain \<Longrightarrow> map coerce_id chain = chain"
  by (auto simp: list_all_iff coerce_id_safe intro: map_idI)

text \<open>\<open>x\<close> encoded and decoded into \<open>z\<close> gives \<open>y\<close>.\<close>

definition travels :: "('a \<Rightarrow> json result) \<Rightarrow> (json \<Rightarrow> 'a \<Rightarrow> 'a result) \<Rightarrow> 'a \<Rightarrow> 'a \<Rightarrow> 'a \<Rightarrow> bool" where
  "travels marshal unmarshal x z y \<longleftrightarrow> (\<exists>j. marshal x = Inr j \<and> json_ok j \<and> json_utf8 j \<and> unmarshal j z = Inr y)"

text \<open>The engine gives \<open>out\<close> for the call, in whatever order its context lists the entries.\<close>

definition served ::
    "'a invoke_fun \<Rightarrow> call_ctx \<Rightarrow> grain_id \<Rightarrow> string \<Rightarrow> 'a option \<Rightarrow> 'a option \<Rightarrow> 'a root \<Rightarrow>
     (go_error option \<times> 'a option) \<times> 'a root \<Rightarrow> bool" where
  "served invoke ctx i meth args reply rt out \<longleftrightarrow>
     (\<forall>vals. (\<forall>key. gm_get vals key = RequestContextValue (cx_values ctx) key) \<longrightarrow>
        invoke \<lparr>cx_values = Some vals, cx_occupied = cx_occupied ctx\<rparr> i meth args reply rt = out)"

text \<open>The serving runtime can run the method: it is running, the type is installed, and the arguments decode.\<close>

definition accepts ::
    "(json \<Rightarrow> 'a \<Rightarrow> 'a result) \<Rightarrow> 'a root \<Rightarrow> string \<Rightarrow> string \<Rightarrow> json \<Rightarrow> 'a \<Rightarrow> 'a option \<Rightarrow> bool" where
  "accepts unmarshal rt typ meth j a r0 \<longleftrightarrow> rt_state rt = rootRunning \<and>
     (\<exists>registration a0. Root_typeRegistration rt typ = Some registration \<and> tr_newCall registration meth = (Some a0, r0) \<and>
        unmarshal j a0 = Inr a)"

definition answer_of :: "('a \<Rightarrow> json result) \<Rightarrow> string \<Rightarrow> go_error option \<Rightarrow> 'a option \<Rightarrow> 'a root \<Rightarrow> byte list result" where
  "answer_of marshal meth err reply rt =
     (case publicError err of
        Some e \<Rightarrow> errorResponse (if rt_done rt \<and> errors_Is e (TSentinel CtxCanceled) then stopRejection (rt_stopCode rt) else e)
      | None \<Rightarrow>
          (case marshal_any marshal reply of
             Inl e \<Rightarrow> errorResponse (withCode ErrReplyEncodeFailed (Wrap (''encode '' @ meth @ '' reply: '' @ error_text e) e))
           | Inr j \<Rightarrow> encodeCallResponse \<lparr>cp_Reply = Some (json_print j), cp_Error = None\<rparr>))"

lemma handle_forwarded:
  assumes "context_inv (cx_values ctx)" and "json_ok j"
    and "accepts unmarshal rt (to_valid (GrainType i)) (to_valid meth) (json_coerce j) a r0"
    and "served invoke (ctx\<lparr>cx_occupied := map coerce_id (cx_occupied ctx)\<rparr>) (coerce_id i) (to_valid meth) (Some a) r0
      (snd (Root_admit rt)) ((err, reply1), rt1)"
  shows "\<exists>p. requestContextPayload (cx_values ctx) = Inr p \<and>
    handle marshal unmarshal invoke node background
      (bytes_of_string (request_text (forward_request i meth j (cx_occupied ctx) p))) rt =
    (answer_of marshal (to_valid meth) err reply1 rt1, Root_release rt1)"
proof -
  obtain p vals where p: "requestContextPayload (cx_values ctx) = Inr p"
    and dec: "decode_request (bytes_of_string (request_text (forward_request i meth j (cx_occupied ctx) p))) =
      Inr (received (forward_request i meth j (cx_occupied ctx) p))"
    and cx: "decodeRequestContext (map_option bytes_of_string (cq_RequestContext (forward_request i meth j (cx_occupied ctx) p))) = Inr vals"
    and vals: "\<forall>key. gm_get vals key = RequestContextValue (cx_values ctx) key"
    using request_arrives [OF assms(1,2), of i meth "cx_occupied ctx"] by blast
  obtain registration a0 where run: "rt_state rt = rootRunning"
    and reg: "Root_typeRegistration rt (to_valid (GrainType i)) = Some registration"
    and call: "tr_newCall registration (to_valid meth) = (Some a0, r0)" and un: "unmarshal (json_coerce j) a0 = Inr a"
    using assms(3) by (auto simp: accepts_def)
  let ?q = "received (forward_request i meth j (cx_occupied ctx) p)"
  have q: "cq_Kind ?q = requestKindInvoke" "cq_GrainType ?q = to_valid (GrainType i)" "cq_GrainKey ?q = to_valid (GrainKey i)"
    "cq_Method ?q = to_valid meth" "un_raw dec (cq_Args ?q) = dec (json_coerce j)"
    "occupiedFromWire (cq_Occupied ?q) = map coerce_id (cx_occupied ctx)"
    "cq_RequestContext ?q = cq_RequestContext (forward_request i meth j (cx_occupied ctx) p)" for dec :: "json \<Rightarrow> 'a result"
    by (simp_all add: received_def forward_request_def requestKindInvoke_def valid_name un_raw_print [OF assms(2)] coerce_chain)
  have inv: "invoke \<lparr>cx_values = Some vals, cx_occupied = map coerce_id (cx_occupied ctx)\<rparr> (coerce_id i) (to_valid meth) (Some a) r0
      (snd (Root_admit rt)) = ((err, reply1), rt1)"
    using assms(4) vals by (simp add: served_def)
  have adm: "Root_admit rt = (Inr (), snd (Root_admit rt))" using run by (simp add: Root_admit_def)
  have reg': "Root_typeRegistration (snd (Root_admit rt)) (to_valid (GrainType i)) = Some registration"
    using reg by (simp add: Root_admit_def Root_typeRegistration_def)
  have "handleInvoke_admitted marshal unmarshal invoke background ?q (snd (Root_admit rt)) =
      (answer_of marshal (to_valid meth) err reply1 rt1, rt1)"
    unfolding handleInvoke_admitted_def q cx withRequestContextSnapshot_def Let_def using inv
    by (cases "cx_occupied ctx = []")
      (simp_all add: reg' call un background_def coerce_id_def answer_of_def q(5) split: option.split sum.split)
  then have "handleInvoke marshal unmarshal invoke background ?q rt =
      (answer_of marshal (to_valid meth) err reply1 rt1, Root_release rt1)"
    unfolding handleInvoke_def by (subst adm) simp
  then show ?thesis using p dec q(1) by (simp add: handle_def)
qed

lemma build_context_values: "\<forall>(k, v) \<in> set adds. any_ok v \<Longrightarrow> cx_values ctx = build_context adds \<Longrightarrow> context_inv (cx_values ctx)"
  by (simp add: build_context_inv)

lemma errors_Is_publicError:
  "publicError (Some e) = Some e1 \<Longrightarrow> errors_Is e1 (TSentinel s) = errors_Is e (TSentinel s)"
  using publicError_shape [of e] by auto

text \<open>The envelope of an error, with the code of its classification.\<close>

lemma errorResponse_envelope:
  assumes "publicError (Some e) = Some e1" and "\<forall>c. CodeOf e1 = Some c \<longrightarrow> c \<noteq> [] \<and> valid_utf8 c"
  shows "\<exists>env e'. errorEnvelopeFor (publicError (Some e1)) = Some env \<and> errorFromEnvelope (Some (coerce_envelope env)) = Some e' \<and>
    CodeOf e' = CodeOf e1 \<and> error_text e' = to_valid (error_text e)"
proof -
  obtain e2 where e2: "publicError (Some e1) = Some e2" "CodeOf e2 = CodeOf e1" "error_text e2 = error_text e"
    using publicError_twice [OF assms(1)] by blast
  show ?thesis
  proof (cases "CodeOf e1")
    case None
    then show ?thesis
      using e2 by (simp add: errorEnvelopeFor_def errorFromEnvelope_def coerce_envelope_def CodeOf_def)
  next
    case (Some c)
    then show ?thesis
      using e2 assms(2) by (simp add: errorEnvelopeFor_def errorFromEnvelope_def coerce_envelope_def to_valid_id CodeOf_def)
  qed
qed

lemma forward_error_answer:
  assumes "marshal args = Inr j" and "requestContextPayload (cx_values ctx) = Inr p"
    and "send owner (bytes_of_string (request_text (forward_request i meth j (cx_occupied ctx) p))) = errorResponse e1"
    and "publicError (Some e) = Some e1" and "\<forall>c. CodeOf e1 = Some c \<longrightarrow> c \<noteq> [] \<and> valid_utf8 c"
  shows "\<exists>e'. forward marshal unmarshal send ctx_err ctx owner i meth (Some args) reply = (Some e', reply) \<and>
    CodeOf e' = CodeOf e1 \<and> error_text e' = to_valid (error_text e)"
proof -
  obtain env e' where env: "errorEnvelopeFor (publicError (Some e1)) = Some env" "errorFromEnvelope (Some (coerce_envelope env)) = Some e'"
    "CodeOf e' = CodeOf e1" "error_text e' = to_valid (error_text e)"
    using errorResponse_envelope [OF assms(4,5)] by blast
  have "forward marshal unmarshal send ctx_err ctx owner i meth (Some args) reply = (errorFromEnvelope (Some (coerce_envelope env)), reply)"
    using assms(3) env(1) by (intro forward_answer(2) [where j = j and e = e1, OF _ assms(2)]) (simp_all add: marshal_any_def assms(1))
  then show ?thesis using env by simp
qed

lemma stopRejection_code:
  "CodeOf (stopRejection code) = Some (if code = ErrNodeDead then ErrNodeDead else ErrRuntimeClosed)"
  "publicError (Some (stopRejection code)) = Some (stopRejection code)"
  by (simp_all add: stopRejection_def CodeOf_withCode publicError_def)

text \<open>A call that succeeds, with the replacement of invalid bytes made explicit.\<close>

lemma forward_served:
  assumes "context_inv (cx_values ctx)" and "marshal args = Inr j" and "json_ok j"
    and "accepts unmarshal rt (to_valid (GrainType i)) (to_valid meth) (json_coerce j) a (Some r0)"
    and "served invoke (ctx\<lparr>cx_occupied := map coerce_id (cx_occupied ctx)\<rparr>) (coerce_id i) (to_valid meth) (Some a) (Some r0)
      (snd (Root_admit rt)) ((None, Some r), rt1)"
    and "travels marshal unmarshal r reply r'"
  shows "forward marshal unmarshal (\<lambda>owner payload. fst (handle marshal unmarshal invoke node background payload rt))
    ctx_err ctx owner i meth (Some args) (Some reply) = (None, Some r')"
proof -
  obtain p where p: "requestContextPayload (cx_values ctx) = Inr p"
    and h: "handle marshal unmarshal invoke node background
      (bytes_of_string (request_text (forward_request i meth j (cx_occupied ctx) p))) rt =
      (answer_of marshal (to_valid meth) None (Some r) rt1, Root_release rt1)"
    using handle_forwarded [OF assms(1,3-5)] by blast
  obtain jr where jr: "marshal r = Inr jr" "json_ok jr" "unmarshal (json_coerce jr) reply = Inr r'"
    using assms(6) by (auto simp: travels_def json_coerce_id)
  have "answer_of marshal (to_valid meth) None (Some r) rt1 = encodeCallResponse \<lparr>cp_Reply = Some (json_print jr), cp_Error = None\<rparr>"
    using jr(1) by (simp add: answer_of_def marshal_any_def)
  with h jr assms(2) show ?thesis
    by (intro forward_answer(1) [where jr = jr and j = j, OF _ p]) (simp_all add: marshal_any_def)
qed


text \<open>
  C8. Errors keep their meaning across nodes: the caller of a forwarded call that fails at the owner gets
  an error with the text of the owner's error and the code its classification gives it; a cancellation
  at a runtime that is stopping arrives as that runtime's stop code instead.
\<close>

theorem forwarded_error:
  assumes "list_all wire_safe (i # cx_occupied ctx)" and "valid_utf8 meth"
    and "\<forall>(k, v) \<in> set adds. any_ok v" and "cx_values ctx = build_context adds"
    and "marshal args = Inr j" and "json_ok j" and "json_utf8 j" and "accepts unmarshal rt (GrainType i) meth j a r0"
    and "served invoke ctx i meth (Some a) r0 (snd (Root_admit rt)) ((Some e, r1), rt1)"
    and "publicError (Some e) = Some e1" and "\<forall>c. CodeOf e1 = Some c \<longrightarrow> c \<noteq> [] \<and> valid_utf8 c"
  shows "\<exists>e'. forward marshal unmarshal (\<lambda>owner payload. fst (handle marshal unmarshal invoke node background payload rt))
      ctx_err ctx owner i meth (Some args) reply = (Some e', reply) \<and>
    (if rt_done rt1 \<and> errors_Is e (TSentinel CtxCanceled)
     then CodeOf e' = Some (if rt_stopCode rt1 = ErrNodeDead then ErrNodeDead else ErrRuntimeClosed)
     else CodeOf e' = CodeOf e1 \<and> error_text e' = to_valid (error_text e))"
proof -
  have safe: "coerce_id i = i" "map coerce_id (cx_occupied ctx) = cx_occupied ctx" "to_valid (GrainType i) = GrainType i"
    "to_valid meth = meth" "json_coerce j = j"
    using assms(1,2,7) by (simp_all add: coerce_id_safe coerce_chain_safe wire_safe_def to_valid_id json_coerce_id)
  obtain p where p: "requestContextPayload (cx_values ctx) = Inr p"
    and h: "handle marshal unmarshal invoke node background
      (bytes_of_string (request_text (forward_request i meth j (cx_occupied ctx) p))) rt =
      (answer_of marshal meth (Some e) r1 rt1, Root_release rt1)"
    using handle_forwarded [OF build_context_values [OF assms(3,4)] assms(6), of unmarshal rt i meth a r0 invoke "Some e" r1 rt1]
      assms(8,9) safe by auto
  let ?stop = "rt_done rt1 \<and> errors_Is e (TSentinel CtxCanceled)"
  let ?sent = "if ?stop then stopRejection (rt_stopCode rt1) else e1"
  have ans: "answer_of marshal meth (Some e) r1 rt1 = errorResponse ?sent"
    using assms(10) errors_Is_publicError [OF assms(10)] by (simp add: answer_of_def)
  show ?thesis
  proof (cases ?stop)
    case False
    have "\<exists>e'. forward marshal unmarshal (\<lambda>owner payload. fst (handle marshal unmarshal invoke node background payload rt))
        ctx_err ctx owner i meth (Some args) reply = (Some e', reply) \<and> CodeOf e' = CodeOf e1 \<and> error_text e' = to_valid (error_text e)"
      using False ans h by (intro forward_error_answer [where p = p and marshal = marshal and args = args, OF assms(5) _ _ assms(10,11)] p) auto
    then show ?thesis using False by auto
  next
    case True
    have "\<exists>e'. forward marshal unmarshal (\<lambda>owner payload. fst (handle marshal unmarshal invoke node background payload rt))
        ctx_err ctx owner i meth (Some args) reply = (Some e', reply) \<and> CodeOf e' = CodeOf (stopRejection (rt_stopCode rt1)) \<and>
        error_text e' = to_valid (error_text (stopRejection (rt_stopCode rt1)))"
      using True ans h
      by (intro forward_error_answer [where p = p and marshal = marshal and args = args, OF assms(5) _ _ stopRejection_code(2)] p)
        (simp_all add: stopRejection_code(1) code_defs valid_ascii)
    then show ?thesis using True stopRejection_code(1) by auto
  qed
qed

text \<open>
  C14. A cycle that spans nodes is found: when the owner's engine gets a forwarded call for an identity that
  the calling chain occupies already, the caller gets an error coded \<open>ErrCallCycle\<close>, whatever the method
  would do.
\<close>

theorem forwarded_cycle:
  assumes "list_all wire_safe (i # cx_occupied ctx)" and "valid_utf8 meth"
    and "\<forall>(k, v) \<in> set adds. any_ok v" and "cx_values ctx = build_context adds"
    and "marshal args = Inr j" and "json_ok j" and "json_utf8 j" and "accepts unmarshal rt (GrainType i) meth j a r0"
    and "i \<in> set (cx_occupied ctx)"
  shows "\<exists>e'. forward marshal unmarshal (\<lambda>owner payload. fst (handle marshal unmarshal (Engine_Invoke run) node background payload rt))
      ctx_err ctx owner i meth (Some args) reply = (Some e', reply) \<and> CodeOf e' = Some ErrCallCycle"
proof -
  have safe: "coerce_id i = i" "map coerce_id (cx_occupied ctx) = cx_occupied ctx" "to_valid (GrainType i) = GrainType i"
    "to_valid meth = meth" "json_coerce j = j"
    using assms(1,2,7) by (simp_all add: coerce_id_safe coerce_chain_safe wire_safe_def to_valid_id json_coerce_id)
  obtain m where cyc: "checkCycle (cx_occupied ctx) i = Some (Wrap m (Sentinel RtErrCallCycle))"
    using assms(9) first_index_None [of i 0 "cx_occupied ctx"] by (auto simp: checkCycle_def Let_def split: option.splits)
  have srv: "served (Engine_Invoke run) ctx i meth (Some a) r0 (snd (Root_admit rt))
      ((Some (Wrap m (Sentinel RtErrCallCycle)), r0), snd (Root_admit rt))"
    by (simp add: served_def Engine_Invoke_def cyc)
  obtain p where p: "requestContextPayload (cx_values ctx) = Inr p"
    and h: "handle marshal unmarshal (Engine_Invoke run) node background
      (bytes_of_string (request_text (forward_request i meth j (cx_occupied ctx) p))) rt =
      (answer_of marshal meth (Some (Wrap m (Sentinel RtErrCallCycle))) r0 (snd (Root_admit rt)), Root_release (snd (Root_admit rt)))"
    using handle_forwarded [OF build_context_values [OF assms(3,4)] assms(6), of unmarshal rt i meth a r0 "Engine_Invoke run"
      "Some (Wrap m (Sentinel RtErrCallCycle))" r0 "snd (Root_admit rt)" marshal node]
      assms(8) srv safe by auto
  let ?e1 = "withCode ErrCallCycle (Wrap m (Sentinel RtErrCallCycle))"
  have e1: "publicError (Some (Wrap m (Sentinel RtErrCallCycle))) = Some ?e1"
    by (simp add: publicError_def CodeOf_def publicErrorCode_def)
  have code: "CodeOf ?e1 = Some ErrCallCycle" by (simp add: CodeOf_withCode)
  have "\<exists>e'. forward marshal unmarshal (\<lambda>owner payload. fst (handle marshal unmarshal (Engine_Invoke run) node background payload rt))
      ctx_err ctx owner i meth (Some args) reply = (Some e', reply) \<and> CodeOf e' = CodeOf ?e1 \<and>
      error_text e' = to_valid (error_text (Wrap m (Sentinel RtErrCallCycle)))"
    using h e1 code
    by (intro forward_error_answer [where p = p and marshal = marshal and args = args, OF assms(5) _ _ e1] p) (simp_all add: answer_of_def code_defs valid_ascii)
  then show ?thesis using code by auto
qed

text \<open>
  A forwarded call reaches the identity whose type and key have every byte that is not valid UTF-8
  replaced by U+FFFD, whatever identity was called: the owner's engine is invoked for that identity, and
  the caller of the other one gets its reply. The owner was chosen for the original identity.
\<close>

theorem forwarded_identity_replaced:
  assumes "wire_safe (GrainId (GrainType i) meth)" and "cx_occupied ctx = []"
    and "\<forall>(k, v) \<in> set adds. any_ok v" and "cx_values ctx = build_context adds"
    and "marshal args = Inr j" and "json_ok j" and "json_utf8 j" and "accepts unmarshal rt (GrainType i) meth j a (Some r0)"
    and "served invoke ctx (GrainId (GrainType i) (to_valid (GrainKey i))) meth (Some a) (Some r0) (snd (Root_admit rt)) ((None, Some r), rt1)"
    and "travels marshal unmarshal r reply r'"
  shows "forward marshal unmarshal (\<lambda>owner payload. fst (handle marshal unmarshal invoke node background payload rt))
    ctx_err ctx owner i meth (Some args) (Some reply) = (None, Some r')"
proof -
  have safe: "coerce_id i = GrainId (GrainType i) (to_valid (GrainKey i))" "to_valid (GrainType i) = GrainType i"
    "to_valid meth = meth" "json_coerce j = j" "ctx\<lparr>cx_occupied := map coerce_id (cx_occupied ctx)\<rparr> = ctx"
    using assms(1,2,7) by (simp_all add: coerce_id_def wire_safe_def to_valid_id json_coerce_id)
  show ?thesis
    by (rule forward_served [where marshal = marshal and args = args, OF build_context_values [OF assms(3,4)] assms(5,6) _ _ assms(10)])
      (use assms(8,9) safe in simp_all)
qed

section \<open>Every request is answered\<close>

definition is_answer :: "byte list result \<Rightarrow> bool" where
  "is_answer res \<longleftrightarrow> (\<exists>bs response. res = Inr bs \<and> decode_response bs = Inr response \<and>
     (cp_Reply response \<noteq> None) \<noteq> (cp_Error response \<noteq> None))"

lemma errorResponse_answer: "is_answer (errorResponse e)"
proof -
  obtain e1 where "publicError (Some e) = Some e1" using publicError_shape [of e] by auto
  then obtain env where "errorEnvelopeFor (publicError (Some e)) = Some env" by (simp add: errorEnvelopeFor_def)
  then show ?thesis by (simp add: is_answer_def errorResponse_def encodeCallResponse_def decode_error_text)
qed

lemma reply_answer: "json_ok j \<Longrightarrow> is_answer (encodeCallResponse \<lparr>cp_Reply = Some (json_print j), cp_Error = None\<rparr>)"
  by (simp add: is_answer_def encodeCallResponse_def decode_reply_text)

lemma member_id_json_ok: "json_ok (member_id_json m)"
  by (simp add: member_id_json_def)

lemma handleProbe_answer: "is_answer (handleProbe clusterNode rt)"
  by (simp add: handleProbe_def errorResponse_answer reply_answer member_id_json_ok split: option.split)

text \<open>What an admitted request does to the runtime: nothing, or what the engine does.\<close>

lemma handleInvoke_admitted_cases:
  obtains e where "handleInvoke_admitted marshal unmarshal invoke ctx q rt = (errorResponse e, rt)"
  | ctx' i args reply err reply1 rt1 where "invoke ctx' i (cq_Method q) args reply rt = ((err, reply1), rt1)"
    "handleInvoke_admitted marshal unmarshal invoke ctx q rt = (answer_of marshal (cq_Method q) err reply1 rt1, rt1)"
proof -
  note def = handleInvoke_admitted_def [of marshal unmarshal invoke ctx q rt]
  show thesis
  proof (cases "decodeRequestContext (map_option bytes_of_string (cq_RequestContext q))")
    case (Inl e)
    then show thesis using def that(1) by simp
  next
    case (Inr snapshot)
    note cx = Inr
    show thesis
    proof (cases "Root_typeRegistration rt (cq_GrainType q)")
      case None
      then show thesis using def cx that(1) by simp
    next
      case (Some registration)
      obtain args reply where call: "tr_newCall registration (cq_Method q) = (args, reply)" by force
      let ?dec = "case args of None \<Rightarrow> Inr None | Some a \<Rightarrow> map_sum id Some (un_raw (\<lambda>j. unmarshal j a) (cq_Args q))"
      consider "args = None \<and> reply = None" | e where "\<not> (args = None \<and> reply = None)" "?dec = Inl e"
        | args1 where "\<not> (args = None \<and> reply = None)" "?dec = Inr args1"
        by (metis obj_sumE)
      then show thesis
      proof cases
        case 1
        then show thesis using def cx Some call that(1) by simp
      next
        case (2 e)
        then show thesis using def cx Some call that(1) by (simp del: de_Morgan_conj)
      next
        case (3 args1)
        let ?ctx1 = "ctx\<lparr>cx_values := withRequestContextSnapshot (cx_values ctx) snapshot\<rparr>"
        let ?occ = "occupiedFromWire (cq_Occupied q)"
        let ?ctx2 = "if ?occ \<noteq> [] then ?ctx1\<lparr>cx_occupied := ?occ\<rparr> else ?ctx1"
        obtain err reply1 rt1 where inv: "invoke ?ctx2 (GrainId (cq_GrainType q) (cq_GrainKey q)) (cq_Method q) args1 reply rt = ((err, reply1), rt1)"
          by (metis surj_pair)
        have "handleInvoke_admitted marshal unmarshal invoke ctx q rt = (answer_of marshal (cq_Method q) err reply1 rt1, rt1)"
          unfolding def cx Some option.case sum.case call prod.case 3(2) if_not_P [OF 3(1)] Let_def inv answer_of_def
          by (simp split: option.split sum.split)
        with inv show thesis by (rule that(2))
      qed
    qed
  qed
qed

lemma answer_of_answer: "(\<And>x j. marshal x = Inr j \<Longrightarrow> json_ok j) \<Longrightarrow> is_answer (answer_of marshal meth err reply rt)"
  using reply_answer [of JNull]
  by (auto simp: answer_of_def marshal_any_def errorResponse_answer intro: reply_answer split: option.split sum.split)

text \<open>
  Every request is answered: for any bytes as payload, \<open>handle\<close> returns a response document that the
  sender can decode, with either a reply or an error and never both, and the admission count is what it
  was when the engine keeps it; a runtime that has left running answers an invocation with its stop code
  and does not change.
\<close>

theorem handle_answers:
  assumes "\<And>x j. marshal x = Inr j \<Longrightarrow> json_ok j"
    and "\<And>ctx i meth args reply rt. rt_inflight (snd (invoke ctx i meth args reply rt)) = rt_inflight rt"
    and "handle marshal unmarshal invoke node ctx payload rt = (res, rt')"
  shows "is_answer res \<and> rt_inflight rt' = rt_inflight rt \<and>
    (rt_state rt \<noteq> rootRunning \<longrightarrow> rt' = rt \<and>
      ((\<exists>q. decode_request payload = Inr q \<and> cq_Kind q = requestKindInvoke) \<longrightarrow> res = errorResponse (stopRejection (rt_stopCode rt))))"
proof -
  have invoke_case: "is_answer res \<and> rt_inflight rt' = rt_inflight rt \<and>
      (rt_state rt \<noteq> rootRunning \<longrightarrow> rt' = rt \<and> res = errorResponse (stopRejection (rt_stopCode rt)))"
    if h: "handleInvoke marshal unmarshal invoke ctx q rt = (res, rt')" for q
  proof (cases "rt_state rt = rootRunning")
    case False
    then show ?thesis using h errorResponse_answer by (auto simp: handleInvoke_def Root_admit_def)
  next
    case True
    let ?rt1 = "rt\<lparr>rt_inflight := rt_inflight rt + 1\<rparr>"
    obtain rt2 where b: "handleInvoke_admitted marshal unmarshal invoke ctx q ?rt1 = (res, rt2)" "rt' = Root_release rt2"
      using h True by (auto simp: handleInvoke_def Root_admit_def split: prod.splits)
    have "is_answer res \<and> rt_inflight rt2 = rt_inflight ?rt1"
    proof (cases rule: handleInvoke_admitted_cases [of marshal unmarshal invoke ctx q ?rt1])
      case (1 e)
      then show ?thesis using b(1) errorResponse_answer by simp
    next
      case (2 ctx' i args reply err reply1 rt1)
      then show ?thesis
        using b(1) answer_of_answer [of marshal, OF assms(1)] assms(2) [of ctx' i "cq_Method q" args reply ?rt1] by simp
    qed
    then show ?thesis using b(2) True by (simp add: Root_release_def Let_def)
  qed
  show ?thesis
  proof (cases "decode_request payload")
    case (Inl e)
    then show ?thesis using assms(3) errorResponse_answer by (auto simp: handle_def)
  next
    case (Inr q)
    then show ?thesis
      using assms(3) invoke_case [of q] errorResponse_answer handleProbe_answer
      by (auto simp: handle_def split: if_splits)
  qed
qed

section \<open>Probes\<close>

lemma decode_probe_request:
  "decode_request (bytes_of_string probe_request_text) = Inr (zero_request\<lparr>cq_Kind := requestKindProbe\<rparr>)"
proof -
  have "decode_request (bytes_of_string probe_request_text) =
      raw_fields request_field (map (\<lambda>(k, j). (to_valid k, json_print j)) [(''kind'', JStr requestKindProbe)]) zero_request"
    unfolding decode_request_def probe_request_text_def
    using un_raw_struct_object [of "[(''kind'', JStr requestKindProbe)]"] by (simp del: json_print.simps)
  then show ?thesis
    by (simp add: request_field_def valid_name un_raw_str requestKindProbe_def del: json_print.simps)
qed

lemma un_member_id_json:
  "un_member_id (json_coerce (member_id_json m)) = Inr (MemberID (to_valid (id_NodeAddr m)) (to_valid (id_Generation m)))"
  by (simp add: un_member_id_def member_id_json_def valid_name)

text \<open>
  A probe over the transport tells the truth about the target: it gives the identity of the node that
  serves the address exactly when that node's runtime is running and the node is active and not done, and an
  error otherwise, also when no node is configured there.
\<close>

theorem probe_over_transport:
  assumes "\<And>n m. clusterNode = Some n \<Longrightarrow> Node_Probe n = Some m \<Longrightarrow> valid_utf8 (id_NodeAddr m) \<and> valid_utf8 (id_Generation m)"
    and "result = transportProber_Probe (\<lambda>addr payload. fst (handle marshal unmarshal invoke clusterNode background payload rt)) target"
  shows "case (if rt_state rt = rootRunning then Option.bind clusterNode Node_Probe else None) of
      Some m \<Rightarrow> result = \<lparr>pr_ID = m, pr_Err = None\<rparr>
    | None \<Rightarrow> pr_Err result \<noteq> None"
proof -
  have h: "handle marshal unmarshal invoke clusterNode background (bytes_of_string probe_request_text) rt = (handleProbe clusterNode rt, rt)"
    by (simp add: handle_def decode_probe_request requestKindProbe_def requestKindInvoke_def)
  have err: "pr_Err result \<noteq> None" if "handleProbe clusterNode rt = errorResponse e" for e
  proof -
    obtain e1 where "publicError (Some e) = Some e1" using publicError_shape [of e] by auto
    then obtain env where "errorEnvelopeFor (publicError (Some e)) = Some env" by (simp add: errorEnvelopeFor_def)
    then show ?thesis
      using that h assms(2) by (simp add: transportProber_Probe_def errorResponse_def encodeCallResponse_def decode_error_text Let_def)
  qed
  show ?thesis
  proof (cases "if rt_state rt = rootRunning then Option.bind clusterNode Node_Probe else None")
    case None
    then have "\<exists>e. handleProbe clusterNode rt = errorResponse e"
      by (auto simp: handleProbe_def Option.bind_eq_None_conv split: option.splits if_splits)
    then show ?thesis using None err by auto
  next
    case (Some m)
    then obtain n where n: "rt_state rt = rootRunning" "clusterNode = Some n" "Node_Probe n = Some m"
      by (cases clusterNode) (auto split: if_splits)
    have "handleProbe clusterNode rt = encodeCallResponse \<lparr>cp_Reply = Some (json_print (member_id_json m)), cp_Error = None\<rparr>"
      using n by (simp add: handleProbe_def)
    then have "result = \<lparr>pr_ID = m, pr_Err = None\<rparr>"
      using h assms(2) assms(1) [OF n(2,3)] member_id_json_ok [of m] un_member_id_json [of m]
      by (cases m) (simp add: transportProber_Probe_def encodeCallResponse_def decode_reply_text un_raw_print to_valid_id Let_def)
    then show ?thesis using Some by simp
  qed
qed

section \<open>Examples\<close>

text \<open>A counter whose arguments and replies are integers.\<close>

definition int_marshal :: "int \<Rightarrow> json result" where
  "int_marshal n = (if in_int64 n then Inr (JNum n) else Inl json_type_error)"

definition int_unmarshal :: "json \<Rightarrow> int \<Rightarrow> int result" where
  "int_unmarshal j old = un_int64 old j"

definition counter_type :: "int type_registration" where
  "counter_type = \<lparr>tr_newCall = (\<lambda>m. if m = ''Add'' then (Some 0, Some 0) else (None, None)), tr_newReminderCall = None\<rparr>"

definition counter_root :: "int root" where
  "counter_root = \<lparr>rt_engine = Engine_New 5 1, rt_reminderStore = None, rt_onError = True, rt_onCall = False,
     rt_poller = False, rt_transport = True, rt_transportClosing = False, rt_transportCalls = [],
     rt_view = None, rt_done = False, rt_state = rootRunning, rt_stopCode = [], rt_inflight = 0,
     rt_drained = None, rt_nodeAddr = ''n1'', rt_types = [(''counter'', counter_type)], rt_panicked = False\<rparr>"

definition counter_ctx :: "chain \<Rightarrow> call_ctx" where
  "counter_ctx chain = \<lparr>cx_values = build_context sample_adds, cx_occupied = chain\<rparr>"

text \<open>The engine adds the argument to the depth it reads from the Request Context.\<close>

definition counter_invoke :: "int invoke_fun" where
  "counter_invoke ctx i meth args reply rt =
     (case (args, RequestContextValue (cx_values ctx) ''depth'') of
        (Some n, Some (AnyInt _ d)) \<Rightarrow> ((None, Some (n + d)), rt)
      | _ \<Rightarrow> ((Some (Sentinel MailErrOverloaded), reply), rt))"

lemma small_int64: "- 1000 \<le> n \<Longrightarrow> n \<le> 1000 \<Longrightarrow> in_int64 n"
  by (simp add: in_int64_def min_int64_def max_int64_def)

lemma counter_safe: "list_all wire_safe [GrainId ''counter'' ''c'', GrainId ''counter'' ''d'']" "valid_utf8 ''Add''"
  by (simp_all add: wire_safe_def valid_ascii)

lemma counter_accepts: "accepts int_unmarshal counter_root ''counter'' ''Add'' (JNum 4) 4 (Some 0)"
  by (simp add: accepts_def counter_root_def Root_typeRegistration_def counter_type_def int_unmarshal_def small_int64)

lemma counter_marshal: "int_marshal 4 = Inr (JNum 4)"
  by (simp add: int_marshal_def small_int64)

lemma counter_values: "cx_values (counter_ctx chain) = build_context sample_adds"
  by (simp add: counter_ctx_def)

lemma counter_depth: "RequestContextValue (build_context sample_adds) ''depth'' = Some (AnyInt K_64 3)"
  "RequestContextValue (build_context sample_adds) ''width'' = None"
  by (simp_all add: sample_context RequestContextValue_def requestContextSnapshotFrom_def)

lemma counter_served:
  "served counter_invoke (counter_ctx chain) i meth (Some 4) (Some 0) rt ((None, Some 7), rt)"
proof -
  have "counter_invoke \<lparr>cx_values = Some vals, cx_occupied = chain\<rparr> i meth (Some 4) (Some 0) rt = ((None, Some 7), rt)"
    if "gm_get vals ''depth'' = Some (AnyInt K_64 3)" for vals
    using that by (simp add: counter_invoke_def RequestContextValue_def requestContextSnapshotFrom_def)
  then show ?thesis using counter_depth by (simp add: served_def counter_ctx_def)
qed

lemma seven_travels: "travels int_marshal int_unmarshal 7 0 7"
  by (simp add: travels_def int_marshal_def int_unmarshal_def small_int64)

abbreviation counter_send :: "int invoke_fun \<Rightarrow> string \<Rightarrow> byte list \<Rightarrow> byte list result" where
  "counter_send invoke \<equiv> (\<lambda>owner payload. fst (handle int_marshal int_unmarshal invoke None background payload counter_root))"


definition failing_invoke :: "int invoke_fun" where
  "failing_invoke ctx i meth args reply rt = ((Some (Wrap ''no room'' (Sentinel MailErrOverloaded)), reply), rt)"

lemma overloaded_public:
  "publicError (Some (Wrap ''no room'' (Sentinel MailErrOverloaded))) = Some (withCode ErrOverloaded (Wrap ''no room'' (Sentinel MailErrOverloaded)))"
  "CodeOf (withCode ErrOverloaded (Wrap ''no room'' (Sentinel MailErrOverloaded))) = Some ErrOverloaded"
  by (simp_all add: publicError_def CodeOf_def publicErrorCode_def CodeOf_withCode withCode_def)

theorem forwarded_error_witness:
  "\<exists>e'. forward int_marshal int_unmarshal (counter_send failing_invoke) None (counter_ctx [GrainId ''counter'' ''d'']) ''n1''
      (GrainId ''counter'' ''c'') ''Add'' (Some 4) (Some 0) = (Some e', Some 0) \<and>
    CodeOf e' = Some ErrOverloaded \<and> error_text e' = ''no room''"
proof -
  let ?ctx = "counter_ctx [GrainId ''counter'' ''d'']"
  have srv: "served failing_invoke ?ctx (GrainId ''counter'' ''c'') ''Add'' (Some 4) (Some 0) (snd (Root_admit counter_root))
      ((Some (Wrap ''no room'' (Sentinel MailErrOverloaded)), Some 0), snd (Root_admit counter_root))"
    by (simp add: served_def failing_invoke_def)
  have "\<not> errors_Is (Wrap ''no room'' (Sentinel MailErrOverloaded)) (TSentinel CtxCanceled)" by simp
  then show ?thesis
    using forwarded_error [where marshal = int_marshal and args = 4 and unmarshal = int_unmarshal and node = None and ctx_err = None
        and owner = "''n1''" and reply = "Some 0", OF _ _ sample_adds_ok counter_values counter_marshal _ _ _ srv overloaded_public(1)]
      counter_safe counter_accepts overloaded_public(2)
    by (simp add: counter_ctx_def code_defs valid_ascii valid_name)
qed

theorem forwarded_cycle_witness:
  "\<exists>e'. forward int_marshal int_unmarshal (counter_send (Engine_Invoke counter_invoke)) None
      (counter_ctx [GrainId ''counter'' ''c'', GrainId ''counter'' ''d'']) ''n1'' (GrainId ''counter'' ''c'') ''Add'' (Some 4) (Some 0) =
    (Some e', Some 0) \<and> CodeOf e' = Some ErrCallCycle"
  using counter_safe counter_accepts
  by (intro forwarded_cycle [where marshal = int_marshal and args = 4, OF _ _ sample_adds_ok counter_values counter_marshal])
    (simp_all add: counter_ctx_def)

text \<open>The key of one byte 255 reaches the entity whose key is the three bytes of U+FFFD.\<close>

definition key_invoke :: "int invoke_fun" where
  "key_invoke ctx i meth args reply rt = ((None, Some (int (length (GrainKey i)))), rt)"

theorem forwarded_identity_replaced_witness:
  "fst (key_invoke (counter_ctx []) (GrainId ''counter'' [CHR 0xFF]) ''Add'' (Some 4) (Some 0) counter_root) = (None, Some 1) \<and>
   forward int_marshal int_unmarshal (counter_send key_invoke) None (counter_ctx []) ''n1''
    (GrainId ''counter'' [CHR 0xFF]) ''Add'' (Some 4) (Some 0) = (None, Some 3)"
proof
  show "fst (key_invoke (counter_ctx []) (GrainId ''counter'' [CHR 0xFF]) ''Add'' (Some 4) (Some 0) counter_root) = (None, Some 1)"
    by (simp add: key_invoke_def)
  let ?i = "GrainId ''counter'' [CHR 0xFF]"
  have key: "to_valid [CHR 0xFF] = replacement" by code_simp
  have srv: "served key_invoke (counter_ctx []) (GrainId (GrainType ?i) (to_valid (GrainKey ?i))) ''Add'' (Some 4) (Some 0)
      (snd (Root_admit counter_root)) ((None, Some 3), snd (Root_admit counter_root))"
    by (simp add: served_def key_invoke_def key replacement_def)
  have three: "travels int_marshal int_unmarshal 3 0 3"
    by (simp add: travels_def int_marshal_def int_unmarshal_def small_int64)
  show "forward int_marshal int_unmarshal (counter_send key_invoke) None (counter_ctx []) ''n1'' ?i ''Add'' (Some 4) (Some 0) = (None, Some 3)"
    using counter_safe counter_accepts
    by (intro forwarded_identity_replaced [OF _ _ sample_adds_ok counter_values counter_marshal _ _ _ srv three])
      (simp_all add: counter_ctx_def wire_safe_def)
qed

theorem handle_answers_witness:
  "is_answer (fst (handle int_marshal int_unmarshal counter_invoke None background [123] counter_root)) \<and>
   is_answer (fst (handle int_marshal int_unmarshal counter_invoke None background (bytes_of_string probe_request_text) counter_root))"
proof -
  have "is_answer (fst (handle int_marshal int_unmarshal counter_invoke None background payload counter_root))" for payload
  proof -
    obtain res rt' where h: "handle int_marshal int_unmarshal counter_invoke None background payload counter_root = (res, rt')" by force
    have m: "json_ok j" if "int_marshal x = Inr j" for x j using that by (auto simp: int_marshal_def split: if_splits)
    have k: "rt_inflight (snd (counter_invoke ctx i meth args reply rt)) = rt_inflight rt" for ctx i meth args reply rt
      by (simp add: counter_invoke_def split: prod.split option.split any.split)
    from handle_answers [of int_marshal counter_invoke, OF m k h] show ?thesis using h by simp
  qed
  then show ?thesis by simp
qed

definition probed_node :: node where
  "probed_node = (new_node \<lparr>cf_hasProber = True, cf_NodeAddr = ''n1'', cf_Generation = ''g1'', cf_HeartbeatInterval = 1,
     cf_ViewInterval = 1, cf_ProbeInterval = 1, cf_ProbeTimeout = 1, cf_ProbeFailures = 1, cf_VoteTTL = 1, cf_MaxTickGap = 1,
     cf_MaxTableLatency = 1\<rparr>)\<lparr>nd_state := StateActive\<rparr>"

theorem probe_over_transport_witness:
  "transportProber_Probe (\<lambda>addr payload. fst (handle int_marshal int_unmarshal counter_invoke (Some probed_node) background payload counter_root))
    (MemberID ''n1'' ''g0'') = \<lparr>pr_ID = MemberID ''n1'' ''g1'', pr_Err = None\<rparr>"
proof -
  have probe: "Node_Probe probed_node = Some (MemberID ''n1'' ''g1'')"
    by (simp add: Node_Probe_def probed_node_def new_node_def)
  have "valid_utf8 (id_NodeAddr m) \<and> valid_utf8 (id_Generation m)" if "Some probed_node = Some n" "Node_Probe n = Some m" for n m
    using that probe by (auto simp: valid_ascii)
  from probe_over_transport [where clusterNode = "Some probed_node" and marshal = int_marshal and unmarshal = int_unmarshal
      and invoke = counter_invoke and rt = counter_root and target = "MemberID ''n1'' ''g0''", OF this refl]
  show ?thesis using probe by (simp add: counter_root_def)
qed

end
