(* ===== verification/Gor_Connection.thy ===== *)
theory Gor_Connection
  imports Gor_Frame
begin

text \<open>
  One multiplexed connection, \<open>transport/connection.go\<close>: the owner goroutine with its table of pending
  requests, its queue of frames and its count of running handlers, together with the reader, the writer,
  the handler goroutines and the callers of \<open>Send\<close>. Every case of the owner's select is an operation on the
  state; what the other goroutines do between two rendezvous is an operation too, and a run is any sequence
  of enabled operations, so all interleavings are covered. Requests live in a heap and are named by their
  position; \<open>cn_blocked\<close> is set when the owner would block on a full result channel. The lists \<open>cn_accepted\<close>,
  \<open>cn_handed\<close> and \<open>cn_sent\<close> record the requests that were given a handler, the frames handed to the writer and
  the frames written.
\<close>

section \<open>State\<close>

datatype send_result = SendPayload "byte list" | SendErr go_error

record send_request =
  sr_payload :: "byte list"
  sr_id :: "64 word"
  sr_result :: "send_result option"

datatype writer_state = WriterIdle | Writing frame | WriterDone

text \<open>
  Where the owner is: in its loop, in the select of \<open>finishGraceful\<close>, waiting for the loops after the socket
  was closed, or behind \<open>close(c.done)\<close>.
\<close>

datatype owner_phase = OwnerLoop | Flushing | Joining | OwnerDone

record connection =
  cn_handler :: bool
  cn_requests :: "send_request list"
  cn_pending :: "(64 word, nat) gomap"
  cn_queue :: "frame list"
  cn_nextID :: "64 word"
  cn_inflight :: int
  cn_closing :: bool
  cn_handlers :: "frame list"
  cn_handlerCancelled :: bool
  cn_writer :: writer_state
  cn_readerDone :: bool
  cn_dead :: "go_error option"
  cn_phase :: owner_phase
  cn_err :: "go_error option"
  cn_blocked :: bool
  cn_accepted :: "frame list"
  cn_handed :: "frame list"
  cn_sent :: "frame list"

definition newConnectionState :: "bool \<Rightarrow> connection" where
  "newConnectionState handler = \<lparr>cn_handler = handler, cn_requests = [], cn_pending = [], cn_queue = [], cn_nextID = 1,
     cn_inflight = 0, cn_closing = False, cn_handlers = [], cn_handlerCancelled = False, cn_writer = WriterIdle,
     cn_readerDone = False, cn_dead = None, cn_phase = OwnerLoop, cn_err = None, cn_blocked = False, cn_accepted = [],
     cn_handed = [], cn_sent = []\<rparr>"

definition errTransportClosed :: go_error where
  "errTransportClosed = Sentinel TransportErrClosed"

section \<open>Operations of the owner\<close>

text \<open>Delivering a result: the channel has room for one.\<close>

definition deliver :: "nat \<Rightarrow> send_result \<Rightarrow> connection \<Rightarrow> connection" where
  "deliver a res c =
     (if sr_result (cn_requests c ! a) \<noteq> None then c\<lparr>cn_blocked := True\<rparr>
      else c\<lparr>cn_requests := (cn_requests c)[a := (cn_requests c ! a)\<lparr>sr_result := Some res\<rparr>]\<rparr>)"

definition frame_result :: "frame \<Rightarrow> send_result" where
  "frame_result f =
     (if fr_Type f = FrameError then SendErr (NewErr (string_of_bytes (fr_Payload f)))
      else SendPayload (fr_Payload f))"

definition complete :: "frame \<Rightarrow> connection \<Rightarrow> connection" where
  "complete f c =
     (case gm_get (cn_pending c) (fr_ID f) of
        None \<Rightarrow> c
      | Some a \<Rightarrow> deliver a (frame_result f) (c\<lparr>cn_pending := gm_del (fr_ID f) (cn_pending c)\<rparr>))"

definition startHandler :: "frame \<Rightarrow> connection \<Rightarrow> connection" where
  "startHandler f c = c\<lparr>cn_handlers := cn_handlers c @ [f], cn_accepted := cn_accepted c @ [f]\<rparr>"

text \<open>The frame a handler goroutine answers with.\<close>

definition reply_frame :: "frame \<Rightarrow> byte list result \<Rightarrow> frame" where
  "reply_frame f out =
     (case out of
        Inr payload \<Rightarrow> \<lparr>fr_ID = fr_ID f, fr_Type = FrameResponse, fr_Payload = payload\<rparr>
      | Inl e \<Rightarrow> \<lparr>fr_ID = fr_ID f, fr_Type = FrameError, fr_Payload = bytes_of_string (error_text e)\<rparr>)"

definition stopWith :: "go_error \<Rightarrow> connection \<Rightarrow> connection" where
  "stopWith e c = c\<lparr>cn_err := Some e, cn_handlerCancelled := True, cn_phase := Joining\<rparr>"

definition finishGraceful :: "connection \<Rightarrow> connection" where
  "finishGraceful c = c\<lparr>cn_err := Some errTransportClosed, cn_phase := Flushing\<rparr>"

text \<open>The test at the end of the loop body.\<close>

definition loop_end :: "connection \<Rightarrow> connection" where
  "loop_end c = (if cn_closing c \<and> cn_inflight c = 0 \<and> cn_queue c = [] then finishGraceful c else c)"

definition owner_request :: "byte list \<Rightarrow> connection \<Rightarrow> connection" where
  "owner_request payload c =
     (let i = cn_nextID c
      in loop_end (c\<lparr>cn_nextID := i + 1, cn_requests := cn_requests c @ [\<lparr>sr_payload = payload, sr_id = i, sr_result = None\<rparr>],
           cn_pending := gm_put i (length (cn_requests c)) (cn_pending c),
           cn_queue := cn_queue c @ [\<lparr>fr_ID = i, fr_Type = FrameRequest, fr_Payload = payload\<rparr>]\<rparr>))"

definition owner_write :: "connection \<Rightarrow> connection" where
  "owner_write c = loop_end (c\<lparr>cn_queue := tl (cn_queue c), cn_writer := Writing (hd (cn_queue c)),
     cn_handed := cn_handed c @ [hd (cn_queue c)]\<rparr>)"

definition owner_frame :: "frame \<Rightarrow> connection \<Rightarrow> connection" where
  "owner_frame f c = loop_end
     (if fr_Type f = FrameRequest then
        (if cn_handler c \<and> \<not> cn_closing c then startHandler f (c\<lparr>cn_inflight := cn_inflight c + 1\<rparr>) else c)
      else if fr_Type f = FrameResponse \<or> fr_Type f = FrameError then complete f c
      else c)"

definition owner_reply :: "frame \<Rightarrow> byte list result \<Rightarrow> connection \<Rightarrow> connection" where
  "owner_reply f out c = loop_end (c\<lparr>cn_handlers := remove1 f (cn_handlers c), cn_inflight := cn_inflight c - 1,
     cn_queue := cn_queue c @ [reply_frame f out]\<rparr>)"

definition owner_cancel :: "nat \<Rightarrow> connection \<Rightarrow> connection" where
  "owner_cancel a c = loop_end (c\<lparr>cn_pending := gm_del (sr_id (cn_requests c ! a)) (cn_pending c)\<rparr>)"

definition owner_close :: "connection \<Rightarrow> connection" where
  "owner_close c = loop_end (c\<lparr>cn_closing := True\<rparr>)"

text \<open>A kill stops the loop, or ends the wait for the writer.\<close>

definition owner_kill :: "connection \<Rightarrow> connection" where
  "owner_kill c = (if cn_phase c = OwnerLoop then stopWith errTransportClosed c else c\<lparr>cn_phase := Joining\<rparr>)"

section \<open>The other goroutines\<close>

definition reportDead :: "go_error \<Rightarrow> connection \<Rightarrow> connection" where
  "reportDead e c = (if cn_dead c = None then c\<lparr>cn_dead := Some e\<rparr> else c)"

text \<open>\<open>Send\<close> after it handed over its request, when its context does not end.\<close>

definition Send_result :: "nat \<Rightarrow> connection \<Rightarrow> send_result option" where
  "Send_result a c =
     (case sr_result (cn_requests c ! a) of
        Some res \<Rightarrow> Some res
      | None \<Rightarrow> if cn_phase c = OwnerDone then map_option SendErr (cn_err c) else None)"

text \<open>
  The operations, each with the condition under which its channel or its goroutine is ready; \<open>None\<close> is an
  operation that is not enabled. The loops of the reader and the writer see \<open>c.stop\<close> once the owner left
  its loop.
\<close>

datatype conn_op =
    OpRequest "byte list" | OpWrite | OpFrame frame | OpReply frame "byte list result" | OpCancel nat | OpClose | OpKill | OpDead
  | OpWrote | OpWriteFailed go_error | OpWriterStop | OpReadFailed go_error | OpReaderStop
  | OpFlushed | OpJoined

fun conn_exec :: "conn_op \<Rightarrow> connection \<Rightarrow> connection option" where
  "conn_exec (OpRequest payload) c = (if cn_phase c = OwnerLoop \<and> \<not> cn_closing c then Some (owner_request payload c) else None)"
| "conn_exec OpWrite c =
     (if cn_phase c = OwnerLoop \<and> cn_queue c \<noteq> [] \<and> cn_writer c = WriterIdle then Some (owner_write c) else None)"
| "conn_exec (OpFrame f) c = (if cn_phase c = OwnerLoop \<and> \<not> cn_readerDone c then Some (owner_frame f c) else None)"
| "conn_exec (OpReply f out) c =
     (if cn_phase c = OwnerLoop \<and> f \<in> set (cn_handlers c) then Some (owner_reply f out c) else None)"
| "conn_exec (OpCancel a) c = (if cn_phase c = OwnerLoop \<and> a < length (cn_requests c) then Some (owner_cancel a c) else None)"
| "conn_exec OpClose c = (if cn_phase c = OwnerLoop then Some (owner_close c) else None)"
| "conn_exec OpKill c = (if cn_phase c = OwnerLoop \<or> cn_phase c = Flushing then Some (owner_kill c) else None)"
| "conn_exec OpDead c =
     (case cn_dead c of
        None \<Rightarrow> None
      | Some e \<Rightarrow> if cn_phase c = OwnerLoop then Some (stopWith e (c\<lparr>cn_dead := None\<rparr>)) else None)"
| "conn_exec OpWrote c =
     (case cn_writer c of
        Writing f \<Rightarrow> if frame_ok f then Some (c\<lparr>cn_writer := WriterIdle, cn_sent := cn_sent c @ [f]\<rparr>) else None
      | _ \<Rightarrow> None)"
| "conn_exec (OpWriteFailed e) c =
     (case cn_writer c of Writing f \<Rightarrow> Some (reportDead e (c\<lparr>cn_writer := WriterDone\<rparr>)) | _ \<Rightarrow> None)"
| "conn_exec OpWriterStop c =
     (if cn_phase c \<noteq> OwnerLoop \<and> cn_writer c = WriterIdle then Some (c\<lparr>cn_writer := WriterDone\<rparr>) else None)"
| "conn_exec (OpReadFailed e) c =
     (if \<not> cn_readerDone c then Some (reportDead e (c\<lparr>cn_readerDone := True\<rparr>)) else None)"
| "conn_exec OpReaderStop c =
     (if cn_phase c \<noteq> OwnerLoop \<and> \<not> cn_readerDone c then Some (c\<lparr>cn_readerDone := True\<rparr>) else None)"
| "conn_exec OpFlushed c =
     (if cn_phase c = Flushing \<and> cn_writer c = WriterDone then Some (c\<lparr>cn_phase := Joining\<rparr>) else None)"
| "conn_exec OpJoined c =
     (if cn_phase c = Joining \<and> cn_writer c = WriterDone \<and> cn_readerDone c then Some (c\<lparr>cn_phase := OwnerDone\<rparr>) else None)"

fun conn_run :: "conn_op list \<Rightarrow> connection \<Rightarrow> connection option" where
  "conn_run [] c = Some c"
| "conn_run (x # xs) c = (case conn_exec x c of None \<Rightarrow> None | Some c' \<Rightarrow> conn_run xs c')"

inductive conn_reach :: "bool \<Rightarrow> connection \<Rightarrow> bool" for handler where
  start: "conn_reach handler (newConnectionState handler)"
| step: "conn_reach handler c \<Longrightarrow> conn_exec x c = Some c' \<Longrightarrow> conn_reach handler c'"

section \<open>The invariant\<close>

lemma loop_end_fields [simp]:
  "cn_handler (loop_end c) = cn_handler c" "cn_requests (loop_end c) = cn_requests c" "cn_pending (loop_end c) = cn_pending c"
  "cn_queue (loop_end c) = cn_queue c" "cn_nextID (loop_end c) = cn_nextID c" "cn_inflight (loop_end c) = cn_inflight c"
  "cn_closing (loop_end c) = cn_closing c" "cn_handlers (loop_end c) = cn_handlers c" "cn_writer (loop_end c) = cn_writer c"
  "cn_blocked (loop_end c) = cn_blocked c" "cn_accepted (loop_end c) = cn_accepted c" "cn_handed (loop_end c) = cn_handed c"
  "cn_sent (loop_end c) = cn_sent c" "cn_readerDone (loop_end c) = cn_readerDone c" "cn_dead (loop_end c) = cn_dead c"
  by (simp_all add: loop_end_def finishGraceful_def)

lemma loop_end_phase:
  "cn_phase (loop_end c) = (if cn_closing c \<and> cn_inflight c = 0 \<and> cn_queue c = [] then Flushing else cn_phase c)"
  by (simp add: loop_end_def finishGraceful_def)

lemmas owner_defs = owner_request_def owner_write_def owner_frame_def owner_reply_def owner_cancel_def owner_close_def
  owner_kill_def stopWith_def reportDead_def startHandler_def Let_def

lemmas exec_splits = if_splits option.splits writer_state.splits

text \<open>
  The table: as long as the identifiers do not wrap around, they are 1, 2, 3 and so on, a pending entry
  points to the request of its identifier, and that request has no result yet.
\<close>

definition table_inv :: "connection \<Rightarrow> bool" where
  "table_inv c \<longleftrightarrow> (length (cn_requests c) < 2 ^ 64 \<longrightarrow>
     cn_nextID c = word_of_nat (Suc (length (cn_requests c))) \<and>
     (\<forall>a < length (cn_requests c). sr_id (cn_requests c ! a) = word_of_nat (Suc a)) \<and>
     (\<forall>i a. gm_get (cn_pending c) i = Some a \<longrightarrow>
        a < length (cn_requests c) \<and> i = word_of_nat (Suc a) \<and> sr_result (cn_requests c ! a) = None) \<and>
     \<not> cn_blocked c)"

lemma word_id_inj: "Suc a < 2 ^ 64 \<Longrightarrow> Suc b < 2 ^ 64 \<Longrightarrow> (word_of_nat (Suc a) :: 64 word) = word_of_nat (Suc b) \<Longrightarrow> a = b"
proof -
  assume less: "Suc a < 2 ^ 64" "Suc b < 2 ^ 64" and eq: "(word_of_nat (Suc a) :: 64 word) = word_of_nat (Suc b)"
  have "unat (word_of_nat (Suc n) :: 64 word) = Suc n" if "Suc n < 2 ^ 64" for n
    using that by (simp add: unat_of_nat take_bit_nat_eq_self del: of_nat_Suc)
  from this [OF less(1)] this [OF less(2)] eq show "a = b" by (metis nat.inject)
qed

lemma table_same:
  "table_inv c \<Longrightarrow> cn_requests c' = cn_requests c \<Longrightarrow> cn_pending c' = cn_pending c \<Longrightarrow> cn_nextID c' = cn_nextID c \<Longrightarrow>
    cn_blocked c' = cn_blocked c \<Longrightarrow> table_inv c'"
  by (simp add: table_inv_def)

lemma table_request: "table_inv c \<Longrightarrow> table_inv (owner_request payload c)"
  by (auto simp: table_inv_def owner_request_def Let_def go_map_simps nth_append less_Suc_eq split: if_splits)

lemma table_cancel: "table_inv c \<Longrightarrow> table_inv (owner_cancel a c)"
  by (auto simp: table_inv_def owner_cancel_def go_map_simps split: if_splits)

lemma table_complete:
  assumes "table_inv c"
  shows "table_inv (complete f c)"
proof (cases "length (cn_requests c) < 2 ^ 64")
  case True
  show ?thesis
  proof (cases "gm_get (cn_pending c) (fr_ID f)")
    case None
    then show ?thesis using assms by (simp add: complete_def)
  next
    case (Some a)
    then have a: "a < length (cn_requests c)" "fr_ID f = word_of_nat (Suc a)" "sr_result (cn_requests c ! a) = None"
      using assms True by (auto simp: table_inv_def)
    have other: "b \<noteq> a" if "gm_get (gm_del (fr_ID f) (cn_pending c)) i = Some b" for i b
    proof
      assume "b = a"
      have "i \<noteq> fr_ID f" "gm_get (cn_pending c) i = Some b" using that by (auto simp: go_map_simps split: if_splits)
      then have "i = word_of_nat (Suc b)" using assms True by (auto simp: table_inv_def)
      then show False using a(2) \<open>i \<noteq> fr_ID f\<close> \<open>b = a\<close> by simp
    qed
    have "complete f c = c\<lparr>cn_pending := gm_del (fr_ID f) (cn_pending c),
        cn_requests := (cn_requests c)[a := (cn_requests c ! a)\<lparr>sr_result := Some (frame_result f)\<rparr>]\<rparr>"
      using Some a(3) by (simp add: complete_def deliver_def)
    then show ?thesis
      using assms True a other by (auto simp: table_inv_def go_map_simps nth_list_update split: if_splits)
  qed
next
  case False
  then show ?thesis by (simp add: table_inv_def complete_def deliver_def split: option.split)
qed

lemma table_frame: "table_inv c \<Longrightarrow> table_inv (owner_frame f c)"
  using table_complete [of c f]
  by (auto simp: owner_frame_def startHandler_def loop_end_def finishGraceful_def intro: table_same)

lemma table_exec:
  assumes "conn_exec x c = Some c'" and "table_inv c"
  shows "table_inv c'"
proof (cases x)
  case (OpRequest payload)
  then show ?thesis using assms table_request by (auto split: exec_splits)
next
  case (OpFrame f)
  then show ?thesis using assms table_frame by (auto split: exec_splits)
next
  case (OpCancel a)
  then show ?thesis using assms table_cancel by (auto split: exec_splits)
qed (use assms in \<open>auto simp: owner_write_def owner_reply_def owner_close_def owner_kill_def stopWith_def reportDead_def
    intro!: table_same [OF assms(2)] split: exec_splits\<close>)

text \<open>
  The replies: every request that was given a handler has its handler running or one reply frame in the
  queue or behind it, the count is the number of running handlers, and the owner only leaves its loop
  gracefully when nothing is owed.
\<close>

definition is_reply :: "frame \<Rightarrow> bool" where
  "is_reply f \<longleftrightarrow> fr_Type f \<noteq> FrameRequest"

definition reply_inv :: "connection \<Rightarrow> bool" where
  "reply_inv c \<longleftrightarrow> cn_inflight c = int (length (cn_handlers c)) \<and>
     mset (map fr_ID (cn_accepted c)) =
       mset (map fr_ID (cn_handlers c)) + mset (map fr_ID (filter is_reply (cn_handed c @ cn_queue c))) \<and>
     (cn_phase c = Flushing \<longrightarrow> cn_closing c \<and> cn_handlers c = [] \<and> cn_queue c = [])"

lemma reply_frame_facts: "is_reply (reply_frame f out)" "fr_ID (reply_frame f out) = fr_ID f"
  by (auto simp: reply_frame_def is_reply_def FrameRequest_def FrameResponse_def FrameError_def split: sum.split)

lemma reply_same:
  "reply_inv c \<Longrightarrow> cn_inflight c' = cn_inflight c \<Longrightarrow> cn_handlers c' = cn_handlers c \<Longrightarrow> cn_accepted c' = cn_accepted c \<Longrightarrow>
    cn_handed c' = cn_handed c \<Longrightarrow> cn_queue c' = cn_queue c \<Longrightarrow> cn_closing c' = cn_closing c \<Longrightarrow>
    cn_phase c' = cn_phase c \<or> cn_phase c' \<noteq> Flushing \<Longrightarrow> reply_inv c'"
  by (auto simp: reply_inv_def)

lemma reply_loop_end: "reply_inv c \<Longrightarrow> reply_inv (loop_end c)"
  by (auto simp: reply_inv_def loop_end_phase)

lemma deliver_fields [simp]:
  "cn_inflight (deliver a r c) = cn_inflight c" "cn_handlers (deliver a r c) = cn_handlers c" "cn_accepted (deliver a r c) = cn_accepted c"
  "cn_handed (deliver a r c) = cn_handed c" "cn_queue (deliver a r c) = cn_queue c" "cn_closing (deliver a r c) = cn_closing c"
  "cn_phase (deliver a r c) = cn_phase c" "cn_writer (deliver a r c) = cn_writer c" "cn_sent (deliver a r c) = cn_sent c"
  "cn_handler (deliver a r c) = cn_handler c" "cn_nextID (deliver a r c) = cn_nextID c" "cn_pending (deliver a r c) = cn_pending c"
  by (simp_all add: deliver_def)

lemma complete_fields [simp]:
  "cn_inflight (complete f c) = cn_inflight c" "cn_handlers (complete f c) = cn_handlers c" "cn_accepted (complete f c) = cn_accepted c"
  "cn_handed (complete f c) = cn_handed c" "cn_queue (complete f c) = cn_queue c" "cn_closing (complete f c) = cn_closing c"
  "cn_phase (complete f c) = cn_phase c" "cn_writer (complete f c) = cn_writer c" "cn_sent (complete f c) = cn_sent c"
  "cn_handler (complete f c) = cn_handler c" "cn_nextID (complete f c) = cn_nextID c"
  by (simp_all add: complete_def split: option.split)

lemma reply_exec:
  assumes "conn_exec x c = Some c'" and "reply_inv c"
  shows "reply_inv c'"
proof (cases x)
  case (OpRequest payload)
  then have c': "c' = owner_request payload c" and loop: "cn_phase c = OwnerLoop" using assms(1) by (auto split: exec_splits)
  show ?thesis using assms(2) loop unfolding c' owner_request_def Let_def by (intro reply_loop_end) (simp add: reply_inv_def is_reply_def)
next
  case OpWrite
  then have q: "cn_queue c \<noteq> []" and c': "c' = owner_write c" and loop: "cn_phase c = OwnerLoop" using assms(1) by (auto split: exec_splits)
  have "filter is_reply ((cn_handed c @ [hd (cn_queue c)]) @ tl (cn_queue c)) = filter is_reply (cn_handed c @ cn_queue c)"
    using q by simp
  then show ?thesis using assms(2) loop
    unfolding c' owner_write_def by (intro reply_loop_end) (simp add: reply_inv_def)
next
  case (OpFrame f)
  then have c': "c' = owner_frame f c" and loop: "cn_phase c = OwnerLoop" using assms(1) by (auto split: exec_splits)
  show ?thesis using assms(2) loop unfolding c' owner_frame_def startHandler_def by (intro reply_loop_end) (simp add: reply_inv_def)
next
  case (OpReply f out)
  then have f: "f \<in> set (cn_handlers c)" and c': "c' = owner_reply f out c" and loop: "cn_phase c = OwnerLoop"
    using assms(1) by (auto split: exec_splits)
  have "mset (map fr_ID (cn_handlers c)) = add_mset (fr_ID f) (mset (map fr_ID (remove1 f (cn_handlers c))))"
    using f by (metis image_mset_add_mset mset_map mset_remove1 insert_DiffM set_mset_mset)
  moreover have "int (length (remove1 f (cn_handlers c))) = int (length (cn_handlers c)) - 1"
    using f length_pos_if_in_set [OF f] by (simp add: length_remove1 of_nat_diff Suc_le_eq del: length_greater_0_conv)
  ultimately show ?thesis
    using assms(2) loop unfolding c' owner_reply_def by (intro reply_loop_end) (simp add: reply_inv_def reply_frame_facts)
next
  case (OpCancel a)
  then have c': "c' = owner_cancel a c" using assms(1) by (auto split: exec_splits)
  show ?thesis using assms(2) unfolding c' owner_cancel_def by (intro reply_loop_end) (simp add: reply_inv_def)
next
  case OpClose
  then have c': "c' = owner_close c" and loop: "cn_phase c = OwnerLoop" using assms(1) by (auto split: exec_splits)
  show ?thesis using assms(2) loop unfolding c' owner_close_def by (intro reply_loop_end) (simp add: reply_inv_def)
qed (use assms in \<open>auto simp: owner_kill_def stopWith_def reportDead_def intro!: reply_same [OF assms(2)] split: exec_splits\<close>)

text \<open>The writer: what was handed to it was written, but for the frame it holds or failed with.\<close>

definition writer_inv :: "connection \<Rightarrow> bool" where
  "writer_inv c \<longleftrightarrow>
     (case cn_writer c of
        WriterIdle \<Rightarrow> cn_handed c = cn_sent c
      | Writing f \<Rightarrow> cn_handed c = cn_sent c @ [f]
      | WriterDone \<Rightarrow> cn_handed c = cn_sent c \<or> (\<exists>f. cn_handed c = cn_sent c @ [f])) \<and>
     list_all frame_ok (cn_sent c)"

lemma writer_exec: "conn_exec x c = Some c' \<Longrightarrow> writer_inv c \<Longrightarrow> writer_inv c'"
  by (cases x) (auto simp: owner_defs writer_inv_def split: exec_splits)

definition conn_inv :: "connection \<Rightarrow> bool" where
  "conn_inv c \<longleftrightarrow> table_inv c \<and> reply_inv c \<and> writer_inv c"

lemma conn_reach_inv: "conn_reach handler c \<Longrightarrow> conn_inv c"
proof (induction rule: conn_reach.induct)
  case start
  show ?case by (simp add: conn_inv_def table_inv_def reply_inv_def writer_inv_def newConnectionState_def)
next
  case (step c x c')
  then show ?case using table_exec reply_exec writer_exec unfolding conn_inv_def by blast
qed

lemma flushing_err: "conn_reach handler c \<Longrightarrow> cn_phase c = Flushing \<longrightarrow> cn_err c = Some errTransportClosed"
proof (induction rule: conn_reach.induct)
  case (step c x c')
  then show ?case by (cases x) (auto simp: owner_defs loop_end_def finishGraceful_def complete_def deliver_def split: exec_splits)
qed (simp add: newConnectionState_def)

lemma open_loop: "conn_reach handler c \<Longrightarrow> cn_phase c = OwnerLoop \<and> cn_closing c \<longrightarrow> cn_handlers c \<noteq> [] \<or> cn_queue c \<noteq> []"
proof (induction rule: conn_reach.induct)
  case (step c x c')
  have "cn_inflight c' = int (length (cn_handlers c'))"
    using conn_reach_inv [OF conn_reach.step [OF step.hyps]] by (simp add: conn_inv_def reply_inv_def)
  then show ?case using step
    by (cases x) (auto simp: owner_defs loop_end_phase complete_def deliver_def split: exec_splits)
qed (simp add: newConnectionState_def)

lemma conn_run_reach: "conn_run xs c = Some c' \<Longrightarrow> conn_reach handler c \<Longrightarrow> conn_reach handler c'"
  by (induction xs arbitrary: c) (auto intro: conn_reach.step split: option.splits)

section \<open>Two connections and their wires\<close>

text \<open>
  A dialled connection, which has no handler, and the accepted connection of the peer, whose handler
  computes the function \<open>h\<close> and on which nobody calls \<open>Send\<close>. Each side reads what the other one has
  written, in order; \<open>lk_toServer\<close> and \<open>lk_toClient\<close> count the frames that have been read.
\<close>

record link =
  lk_client :: connection
  lk_server :: connection
  lk_toServer :: nat
  lk_toClient :: nat

datatype link_op = ClientOp conn_op | ServerOp conn_op | ToServer | ToClient

fun is_frame_op :: "conn_op \<Rightarrow> bool" where
  "is_frame_op (OpFrame f) = True"
| "is_frame_op _ = False"

fun server_may :: "(byte list \<Rightarrow> byte list result) \<Rightarrow> conn_op \<Rightarrow> bool" where
  "server_may h (OpFrame f) = False"
| "server_may h (OpRequest payload) = False"
| "server_may h (OpReply f out) = (out = h (fr_Payload f))"
| "server_may h _ = True"

fun link_exec :: "(byte list \<Rightarrow> byte list result) \<Rightarrow> link_op \<Rightarrow> link \<Rightarrow> link option" where
  "link_exec h (ClientOp x) l =
     (if is_frame_op x then None else map_option (\<lambda>c. l\<lparr>lk_client := c\<rparr>) (conn_exec x (lk_client l)))"
| "link_exec h (ServerOp x) l =
     (if server_may h x then map_option (\<lambda>c. l\<lparr>lk_server := c\<rparr>) (conn_exec x (lk_server l)) else None)"
| "link_exec h ToServer l =
     (if lk_toServer l < length (cn_sent (lk_client l))
      then map_option (\<lambda>c. l\<lparr>lk_server := c, lk_toServer := Suc (lk_toServer l)\<rparr>)
             (conn_exec (OpFrame (cn_sent (lk_client l) ! lk_toServer l)) (lk_server l))
      else None)"
| "link_exec h ToClient l =
     (if lk_toClient l < length (cn_sent (lk_server l))
      then map_option (\<lambda>c. l\<lparr>lk_client := c, lk_toClient := Suc (lk_toClient l)\<rparr>)
             (conn_exec (OpFrame (cn_sent (lk_server l) ! lk_toClient l)) (lk_client l))
      else None)"

definition new_link :: link where
  "new_link = \<lparr>lk_client = newConnectionState False, lk_server = newConnectionState True, lk_toServer = 0, lk_toClient = 0\<rparr>"

inductive link_reach :: "(byte list \<Rightarrow> byte list result) \<Rightarrow> link \<Rightarrow> bool" for h where
  start: "link_reach h new_link"
| step: "link_reach h l \<Longrightarrow> link_exec h x l = Some l' \<Longrightarrow> link_reach h l'"

fun link_run :: "(byte list \<Rightarrow> byte list result) \<Rightarrow> link_op list \<Rightarrow> link \<Rightarrow> link option" where
  "link_run h [] l = Some l"
| "link_run h (x # xs) l = (case link_exec h x l of None \<Rightarrow> None | Some l' \<Rightarrow> link_run h xs l')"

lemma link_run_reach: "link_run h xs l = Some l' \<Longrightarrow> link_reach h l \<Longrightarrow> link_reach h l'"
  by (induction xs arbitrary: l) (auto intro: link_reach.step split: option.splits)

text \<open>What an operation adds to the frames on their way out, to the handlers and to the requests.\<close>

fun new_frames :: "conn_op \<Rightarrow> connection \<Rightarrow> frame set" where
  "new_frames (OpRequest payload) c = {\<lparr>fr_ID = cn_nextID c, fr_Type = FrameRequest, fr_Payload = payload\<rparr>}"
| "new_frames (OpReply f out) c = {reply_frame f out}"
| "new_frames _ c = {}"

abbreviation outgoing :: "connection \<Rightarrow> frame set" where
  "outgoing c \<equiv> set (cn_queue c) \<union> set (cn_handed c)"

lemma exec_outgoing: "conn_exec x c = Some c' \<Longrightarrow> outgoing c' \<subseteq> outgoing c \<union> new_frames x c"
proof (cases x)
  case OpWrite
  assume "conn_exec x c = Some c'"
  then show ?thesis using OpWrite by (cases "cn_queue c") (auto simp: owner_write_def split: exec_splits)
qed (auto simp: owner_defs split: exec_splits)

lemma exec_handlers: "conn_exec x c = Some c' \<Longrightarrow> set (cn_handlers c') \<subseteq> set (cn_handlers c) \<union>
    (case x of OpFrame f \<Rightarrow> if cn_handler c \<and> fr_Type f = FrameRequest then {f} else {} | _ \<Rightarrow> {})"
proof (cases x)
  case (OpReply f out)
  assume "conn_exec x c = Some c'"
  then have "c' = owner_reply f out c" using OpReply by (simp split: if_splits)
  then show ?thesis using OpReply set_remove1_subset [of f "cn_handlers c"] by (simp add: owner_reply_def)
qed (auto simp: owner_defs split: exec_splits)

lemma exec_handler: "conn_exec x c = Some c' \<Longrightarrow> cn_handler c' = cn_handler c"
  by (cases x) (auto simp: owner_defs split: exec_splits)

definition same_request :: "send_request \<Rightarrow> send_request \<Rightarrow> bool" where
  "same_request r r' \<longleftrightarrow> sr_payload r' = sr_payload r \<and> sr_id r' = sr_id r"

lemma nth_update: "xs[i := v] ! j = (if i = j \<and> j < length xs then v else xs ! j)"
  by (cases "i = j") (auto simp: nth_list_update list_update_beyond)

lemma complete_requests:
  "length (cn_requests (complete f c)) = length (cn_requests c) \<and>
    (\<forall>a < length (cn_requests c). same_request (cn_requests c ! a) (cn_requests (complete f c) ! a))"
  by (auto simp: complete_def deliver_def same_request_def nth_update split: option.split)

lemma exec_requests:
  assumes "conn_exec x c = Some c'"
  shows "length (cn_requests c) \<le> length (cn_requests c') \<and>
    (\<forall>a < length (cn_requests c). same_request (cn_requests c ! a) (cn_requests c' ! a))"
proof (cases x)
  case (OpFrame f)
  then show ?thesis using assms complete_requests [of f c]
    by (auto simp: owner_defs same_request_def split: exec_splits)
qed (use assms in \<open>auto simp: owner_defs same_request_def nth_append split: exec_splits\<close>)

text \<open>A result is only ever set by the frame with the identifier of its pending request, and then kept.\<close>

lemma exec_results:
  assumes "conn_exec x c = Some c'" and "a < length (cn_requests c')" and "sr_result (cn_requests c' ! a) = Some r"
  shows "(a < length (cn_requests c) \<and> sr_result (cn_requests c ! a) = Some r) \<or>
    (\<exists>f. x = OpFrame f \<and> gm_get (cn_pending c) (fr_ID f) = Some a \<and> is_reply f \<and> r = frame_result f)"
proof (cases x)
  case (OpFrame f)
  then show ?thesis using assms
    by (auto simp: owner_defs complete_def deliver_def is_reply_def nth_update FrameRequest_def FrameResponse_def FrameError_def split: exec_splits)
qed (use assms in \<open>auto simp: owner_defs nth_append less_Suc_eq split: exec_splits\<close>)

text \<open>
  Every request frame on its way belongs to a request of the client, every reply on its way back is the
  answer to such a frame, and every result is the answer to its own request.
\<close>

definition request_frame :: "connection \<Rightarrow> frame \<Rightarrow> bool" where
  "request_frame c f \<longleftrightarrow> fr_Type f = FrameRequest \<and>
     (\<exists>a < length (cn_requests c). fr_ID f = word_of_nat (Suc a) \<and> fr_Payload f = sr_payload (cn_requests c ! a))"

definition answer_frame :: "(byte list \<Rightarrow> byte list result) \<Rightarrow> connection \<Rightarrow> frame \<Rightarrow> bool" where
  "answer_frame h c f \<longleftrightarrow> (\<exists>q. request_frame c q \<and> f = reply_frame q (h (fr_Payload q)))"

definition result_of :: "byte list result \<Rightarrow> send_result" where
  "result_of out = (case out of Inr payload \<Rightarrow> SendPayload payload | Inl e \<Rightarrow> SendErr (NewErr (error_text e)))"

lemma frame_result_reply: "frame_result (reply_frame f out) = result_of out"
  by (simp add: frame_result_def reply_frame_def result_of_def FrameResponse_def FrameError_def split: sum.split)

definition link_inv :: "(byte list \<Rightarrow> byte list result) \<Rightarrow> link \<Rightarrow> bool" where
  "link_inv h l \<longleftrightarrow>
     (let c = lk_client l; s = lk_server l
      in conn_inv c \<and> conn_inv s \<and> \<not> cn_handler c \<and> cn_handlers c = [] \<and>
         (length (cn_requests c) < 2 ^ 64 \<longrightarrow>
            (\<forall>f \<in> outgoing c. request_frame c f) \<and> (\<forall>f \<in> set (cn_handlers s). request_frame c f) \<and>
            (\<forall>f \<in> outgoing s. answer_frame h c f) \<and>
            (\<forall>a < length (cn_requests c). \<forall>r. sr_result (cn_requests c ! a) = Some r \<longrightarrow> r = result_of (h (sr_payload (cn_requests c ! a))))))"

lemma request_frame_mono:
  assumes "conn_exec x c = Some c'" and "request_frame c f"
  shows "request_frame c' f"
proof -
  obtain a where "fr_Type f = FrameRequest" "a < length (cn_requests c)" "fr_ID f = word_of_nat (Suc a)"
    "fr_Payload f = sr_payload (cn_requests c ! a)"
    using assms(2) by (auto simp: request_frame_def)
  then show ?thesis using exec_requests [OF assms(1)]
    unfolding request_frame_def by (intro conjI exI [of _ a]) (auto simp: same_request_def)
qed

lemma answer_frame_mono: "conn_exec x c = Some c' \<Longrightarrow> answer_frame h c f \<Longrightarrow> answer_frame h c' f"
  using request_frame_mono unfolding answer_frame_def by blast

lemma conn_inv_exec: "conn_exec x c = Some c' \<Longrightarrow> conn_inv c \<Longrightarrow> conn_inv c'"
  using table_exec reply_exec writer_exec unfolding conn_inv_def by blast

lemma sent_outgoing: "conn_inv c \<Longrightarrow> k < length (cn_sent c) \<Longrightarrow> cn_sent c ! k \<in> outgoing c"
  by (auto simp: conn_inv_def writer_inv_def split: writer_state.splits)

lemma new_request_frame:
  assumes "conn_exec (OpRequest payload) c = Some c'" and "conn_inv c" and "length (cn_requests c) < 2 ^ 64"
  shows "request_frame c' \<lparr>fr_ID = cn_nextID c, fr_Type = FrameRequest, fr_Payload = payload\<rparr>"
proof -
  have "c' = owner_request payload c" using assms(1) by (simp split: if_splits)
  moreover have "cn_nextID c = word_of_nat (Suc (length (cn_requests c)))"
    using assms(2,3) by (simp add: conn_inv_def table_inv_def)
  ultimately show ?thesis
    unfolding request_frame_def by (intro conjI exI [of _ "length (cn_requests c)"]) (simp_all add: owner_request_def Let_def)
qed

text \<open>A step of the client: what it has out stays requests of its own.\<close>

lemma client_outgoing:
  assumes "conn_exec x c = Some c'" and "conn_inv c" and "cn_handlers c = []" and "length (cn_requests c') < 2 ^ 64"
    and "\<forall>f \<in> outgoing c. request_frame c f"
  shows "\<forall>f \<in> outgoing c'. request_frame c' f"
proof
  fix f
  assume "f \<in> outgoing c'"
  then consider "f \<in> outgoing c" | "f \<in> new_frames x c" using exec_outgoing [OF assms(1)] by blast
  then show "request_frame c' f"
  proof cases
    case 1
    then show ?thesis using assms(5) request_frame_mono [OF assms(1)] by blast
  next
    case 2
    have "length (cn_requests c) < 2 ^ 64" using exec_requests [OF assms(1)] assms(4) by simp
    then show ?thesis using 2 new_request_frame assms(1-3) by (cases x) auto
  qed
qed

lemma client_results_kept:
  assumes "conn_exec x c = Some c'" and "\<not> is_frame_op x"
    and "\<forall>a < length (cn_requests c). \<forall>r. sr_result (cn_requests c ! a) = Some r \<longrightarrow> r = result_of (h (sr_payload (cn_requests c ! a)))"
  shows "\<forall>a < length (cn_requests c'). \<forall>r. sr_result (cn_requests c' ! a) = Some r \<longrightarrow> r = result_of (h (sr_payload (cn_requests c' ! a)))"
proof (intro allI impI)
  fix a r
  assume a: "a < length (cn_requests c')" and r: "sr_result (cn_requests c' ! a) = Some r"
  have "a < length (cn_requests c) \<and> sr_result (cn_requests c ! a) = Some r" using exec_results [OF assms(1) a r] assms(2) by auto
  then show "r = result_of (h (sr_payload (cn_requests c' ! a)))"
    using assms(3) exec_requests [OF assms(1)] by (simp add: same_request_def)
qed

text \<open>A reply that reaches the client: the identifier leads to the request the answer was computed for.\<close>

lemma client_results_frame:
  assumes "conn_exec (OpFrame f) c = Some c'" and "conn_inv c" and "length (cn_requests c) < 2 ^ 64" and "answer_frame h c f"
    and "\<forall>a < length (cn_requests c). \<forall>r. sr_result (cn_requests c ! a) = Some r \<longrightarrow> r = result_of (h (sr_payload (cn_requests c ! a)))"
  shows "\<forall>a < length (cn_requests c'). \<forall>r. sr_result (cn_requests c' ! a) = Some r \<longrightarrow> r = result_of (h (sr_payload (cn_requests c' ! a)))"
proof (intro allI impI)
  fix a r
  assume a: "a < length (cn_requests c')" and r: "sr_result (cn_requests c' ! a) = Some r"
  note same = exec_requests [OF assms(1)]
  from exec_results [OF assms(1) a r] show "r = result_of (h (sr_payload (cn_requests c' ! a)))"
  proof
    assume "a < length (cn_requests c) \<and> sr_result (cn_requests c ! a) = Some r"
    then show ?thesis using assms(5) same by (simp add: same_request_def)
  next
    assume "\<exists>f'. OpFrame f = OpFrame f' \<and> gm_get (cn_pending c) (fr_ID f') = Some a \<and> is_reply f' \<and> r = frame_result f'"
    then have pend: "gm_get (cn_pending c) (fr_ID f) = Some a" and rf: "r = frame_result f" by auto
    obtain q b where q: "f = reply_frame q (h (fr_Payload q))" "b < length (cn_requests c)" "fr_ID q = word_of_nat (Suc b)"
      "fr_Payload q = sr_payload (cn_requests c ! b)"
      using assms(4) by (auto simp: answer_frame_def request_frame_def)
    have tab: "a < length (cn_requests c)" "fr_ID f = word_of_nat (Suc a)"
      using pend assms(2,3) by (auto simp: conn_inv_def table_inv_def)
    have "(word_of_nat (Suc a) :: 64 word) = word_of_nat (Suc b)" using tab(2) q(1,3) reply_frame_facts(2) by metis
    then have "a = b" using word_id_inj [of a b] tab(1) q(2) assms(3) by linarith
    then show ?thesis using rf q frame_result_reply tab(1) same by (simp add: same_request_def)
  qed
qed

lemma server_step:
  assumes "conn_exec x s = Some s'" and "x = OpFrame f \<and> request_frame c f \<or> server_may h x"
    and "\<forall>f \<in> set (cn_handlers s). request_frame c f" and "\<forall>f \<in> outgoing s. answer_frame h c f"
  shows "(\<forall>f \<in> set (cn_handlers s'). request_frame c f) \<and> (\<forall>f \<in> outgoing s'. answer_frame h c f)"
proof
  show "\<forall>g \<in> set (cn_handlers s'). request_frame c g"
    using exec_handlers [OF assms(1)] assms(2,3) by (cases x) (auto split: if_splits)
  show "\<forall>g \<in> outgoing s'. answer_frame h c g"
  proof
    fix g
    assume "g \<in> outgoing s'"
    then consider "g \<in> outgoing s" | "g \<in> new_frames x s" using exec_outgoing [OF assms(1)] by blast
    then show "answer_frame h c g"
    proof cases
      case 1
      then show ?thesis using assms(4) by blast
    next
      case 2
      then obtain q where "x = OpReply q (h (fr_Payload q))" "g = reply_frame q (h (fr_Payload q))" using assms(2) by (cases x) auto
      then show ?thesis using assms(1,3) by (auto simp: answer_frame_def split: if_splits)
    qed
  qed
qed

lemma link_client_step:
  assumes "link_inv h l" and "conn_exec x (lk_client l) = Some c'" and "\<not> is_frame_op x \<or> (\<exists>f \<in> outgoing (lk_server l). x = OpFrame f)"
    and "l' = l\<lparr>lk_client := c', lk_toClient := k\<rparr>"
  shows "link_inv h l'"
proof -
  let ?c = "lk_client l" and ?s = "lk_server l"
  have inv: "conn_inv ?c" "conn_inv ?s" "\<not> cn_handler ?c" "cn_handlers ?c = []" using assms(1) by (simp_all add: link_inv_def Let_def)
  have c': "conn_inv c'" "\<not> cn_handler c'" "cn_handlers c' = []"
    using conn_inv_exec [OF assms(2) inv(1)] exec_handler [OF assms(2)] exec_handlers [OF assms(2)] inv by (cases x; simp)+
  have rest: "(\<forall>f \<in> outgoing c'. request_frame c' f) \<and> (\<forall>f \<in> set (cn_handlers ?s). request_frame c' f) \<and>
      (\<forall>f \<in> outgoing ?s. answer_frame h c' f) \<and>
      (\<forall>a < length (cn_requests c'). \<forall>r. sr_result (cn_requests c' ! a) = Some r \<longrightarrow> r = result_of (h (sr_payload (cn_requests c' ! a))))"
    if len: "length (cn_requests c') < 2 ^ 64"
  proof -
    have less: "length (cn_requests ?c) < 2 ^ 64" using exec_requests [OF assms(2)] len by simp
    then have old: "\<forall>f \<in> outgoing ?c. request_frame ?c f" "\<forall>f \<in> set (cn_handlers ?s). request_frame ?c f"
      "\<forall>f \<in> outgoing ?s. answer_frame h ?c f"
      "\<forall>a < length (cn_requests ?c). \<forall>r. sr_result (cn_requests ?c ! a) = Some r \<longrightarrow> r = result_of (h (sr_payload (cn_requests ?c ! a)))"
      using assms(1) by (simp_all add: link_inv_def Let_def)
    have "\<forall>a < length (cn_requests c'). \<forall>r. sr_result (cn_requests c' ! a) = Some r \<longrightarrow> r = result_of (h (sr_payload (cn_requests c' ! a)))"
    proof (cases "is_frame_op x")
      case True
      then obtain f where "f \<in> outgoing ?s" "x = OpFrame f" using assms(3) by auto
      then show ?thesis using client_results_frame [OF _ inv(1) less _ old(4), of f c'] assms(2) old(3) by blast
    next
      case False
      then show ?thesis using client_results_kept [OF assms(2) _ old(4)] by blast
    qed
    moreover have "\<forall>f \<in> outgoing c'. request_frame c' f" by (rule client_outgoing [OF assms(2) inv(1,4) len old(1)])
    moreover have "\<forall>f \<in> set (cn_handlers ?s). request_frame c' f" using old(2) request_frame_mono [OF assms(2)] by blast
    moreover have "\<forall>f \<in> outgoing ?s. answer_frame h c' f" using old(3) answer_frame_mono [OF assms(2)] by blast
    ultimately show ?thesis by blast
  qed
  show ?thesis unfolding assms(4) link_inv_def Let_def using inv(2) c' rest by simp
qed

lemma link_server_step:
  assumes "link_inv h l" and "conn_exec x (lk_server l) = Some s'" and "server_may h x \<or> (\<exists>f \<in> outgoing (lk_client l). x = OpFrame f)"
    and "l' = l\<lparr>lk_server := s', lk_toServer := k\<rparr>"
  shows "link_inv h l'"
proof -
  let ?c = "lk_client l" and ?s = "lk_server l"
  have "conn_inv s'" using assms(1) conn_inv_exec [OF assms(2)] by (simp add: link_inv_def Let_def)
  moreover have "(\<forall>f \<in> set (cn_handlers s'). request_frame ?c f) \<and> (\<forall>f \<in> outgoing s'. answer_frame h ?c f)"
    if "length (cn_requests ?c) < 2 ^ 64"
  proof -
    have old: "\<forall>f \<in> outgoing ?c. request_frame ?c f" "\<forall>f \<in> set (cn_handlers ?s). request_frame ?c f" "\<forall>f \<in> outgoing ?s. answer_frame h ?c f"
      using assms(1) that by (simp_all add: link_inv_def Let_def)
    obtain f where "x = OpFrame f \<and> request_frame ?c f \<or> server_may h x" using assms(3) old(1) by blast
    from server_step [OF assms(2) this old(2,3)] show ?thesis .
  qed
  ultimately show ?thesis using assms(1) unfolding assms(4) by (simp add: link_inv_def Let_def)
qed

lemma link_reach_inv: "link_reach h l \<Longrightarrow> link_inv h l"
proof (induction rule: link_reach.induct)
  case start
  show ?case by (simp add: link_inv_def new_link_def conn_inv_def table_inv_def reply_inv_def writer_inv_def newConnectionState_def)
next
  case (step l x l')
  have inv: "conn_inv (lk_client l)" "conn_inv (lk_server l)" using step.IH by (simp_all add: link_inv_def Let_def)
  show ?case
  proof (cases x)
    case (ClientOp y)
    then obtain c' where "conn_exec y (lk_client l) = Some c'" "\<not> is_frame_op y" "l' = l\<lparr>lk_client := c', lk_toClient := lk_toClient l\<rparr>"
      using step.hyps(2) by (auto split: if_splits)
    then show ?thesis using link_client_step [OF step.IH] by blast
  next
    case (ServerOp y)
    then obtain s' where "conn_exec y (lk_server l) = Some s'" "server_may h y" "l' = l\<lparr>lk_server := s', lk_toServer := lk_toServer l\<rparr>"
      using step.hyps(2) by (auto split: if_splits)
    then show ?thesis using link_server_step [OF step.IH] by blast
  next
    case ToServer
    then obtain s' where k: "lk_toServer l < length (cn_sent (lk_client l))" and
      "conn_exec (OpFrame (cn_sent (lk_client l) ! lk_toServer l)) (lk_server l) = Some s'"
      "l' = l\<lparr>lk_server := s', lk_toServer := Suc (lk_toServer l)\<rparr>"
      using step.hyps(2) by (auto split: if_splits)
    then show ?thesis using link_server_step [OF step.IH] sent_outgoing [OF inv(1) k] by blast
  next
    case ToClient
    then obtain c' where k: "lk_toClient l < length (cn_sent (lk_server l))" and
      "conn_exec (OpFrame (cn_sent (lk_server l) ! lk_toClient l)) (lk_client l) = Some c'"
      "l' = l\<lparr>lk_client := c', lk_toClient := Suc (lk_toClient l)\<rparr>"
      using step.hyps(2) by (auto split: if_splits)
    then show ?thesis using link_client_step [OF step.IH] sent_outgoing [OF inv(2) k] by blast
  qed
qed

section \<open>Properties\<close>

text \<open>
  C6. Concurrent requests do not mix: on one connection, for any number of requests below the wrap-around
  of the identifiers, with handlers that finish in any order, cancelled requests, late replies, failing wires
  and stops, whatever result a \<open>Send\<close> receives is the handler's answer to the payload of that very \<open>Send\<close>.
\<close>

theorem multiplexing_correct:
  assumes "link_reach h l" and "length (cn_requests (lk_client l)) < 2 ^ 64"
    and "a < length (cn_requests (lk_client l))" and "sr_result (cn_requests (lk_client l) ! a) = Some r"
  shows "r = result_of (h (sr_payload (cn_requests (lk_client l) ! a)))"
  using link_reach_inv [OF assms(1)] assms(2-4) by (simp add: link_inv_def Let_def)

text \<open>
  The owner never blocks on a caller: a request gets at most one result, so the result channel of capacity
  one always has room; every pending entry belongs to a request that still waits, and no two requests share
  an identifier.
\<close>

theorem owner_never_blocks:
  assumes "conn_reach handler c" and "length (cn_requests c) < 2 ^ 64"
  shows "\<not> cn_blocked c \<and>
    (\<forall>i a. gm_get (cn_pending c) i = Some a \<longrightarrow> a < length (cn_requests c) \<and> sr_id (cn_requests c ! a) = i \<and> sr_result (cn_requests c ! a) = None) \<and>
    distinct (map sr_id (cn_requests c))"
proof -
  have inv: "table_inv c" using conn_reach_inv [OF assms(1)] by (simp add: conn_inv_def)
  then have ids: "sr_id (cn_requests c ! a) = word_of_nat (Suc a)" if "a < length (cn_requests c)" for a
    using assms(2) that by (simp add: table_inv_def)
  have "distinct (map sr_id (cn_requests c))"
    unfolding distinct_conv_nth
  proof (intro allI impI)
    fix a b
    assume ab: "a < length (map sr_id (cn_requests c))" "b < length (map sr_id (cn_requests c))" "a \<noteq> b"
    have "a = b" if "(word_of_nat (Suc a) :: 64 word) = word_of_nat (Suc b)"
      using word_id_inj [OF _ _ that] ab(1,2) assms(2) by simp
    then show "map sr_id (cn_requests c) ! a \<noteq> map sr_id (cn_requests c) ! b" using ab ids by auto
  qed
  then show ?thesis using inv assms(2) ids by (auto simp: table_inv_def)
qed

text \<open>
  A graceful close owes nothing: when the owner leaves its loop gracefully, no handler runs, every request
  that was ever given a handler has exactly one reply among the frames handed to the writer, in the order
  the owner queued them, and all of these but at most the last one are written.
\<close>

theorem graceful_close_flushes:
  assumes "conn_reach handler c" and "cn_phase c = Flushing"
  shows "cn_handlers c = [] \<and> cn_queue c = [] \<and>
    mset (map fr_ID (cn_accepted c)) = mset (map fr_ID (filter is_reply (cn_handed c))) \<and>
    (cn_handed c = cn_sent c \<or> (\<exists>f. cn_handed c = cn_sent c @ [f]))"
  using conn_reach_inv [OF assms(1)] assms(2)
  by (auto simp: conn_inv_def reply_inv_def writer_inv_def split: writer_state.splits)

section \<open>Stopping\<close>

lemma conn_run_append: "conn_run (xs @ ys) c = (case conn_run xs c of None \<Rightarrow> None | Some c' \<Rightarrow> conn_run ys c')"
  by (induction xs arbitrary: c) (auto split: option.split)

fun is_reply_op :: "conn_op \<Rightarrow> bool" where
  "is_reply_op (OpReply f out) = True"
| "is_reply_op _ = False"

text \<open>Once the socket is closed, the reader and the writer end and the owner is done.\<close>

lemma joining_completes:
  assumes "cn_phase c = Joining"
  shows "\<exists>xs c'. conn_run xs c = Some c' \<and> cn_phase c' = OwnerDone \<and> cn_err c' = cn_err c \<and> cn_requests c' = cn_requests c \<and>
    cn_sent c' = cn_sent c \<and> cn_accepted c' = cn_accepted c \<and> list_all (\<lambda>x. \<not> is_reply_op x) xs"
proof -
  let ?w = "case cn_writer c of WriterIdle \<Rightarrow> [OpWriterStop] | Writing f \<Rightarrow> [OpWriteFailed errTransportClosed] | WriterDone \<Rightarrow> []"
  let ?r = "if cn_readerDone c then [] else [OpReaderStop]"
  show ?thesis
    by (intro exI [of _ "?w @ ?r @ [OpJoined]"])
      (use assms in \<open>cases "cn_writer c"; cases "cn_readerDone c"; simp add: reportDead_def\<close>)
qed


text \<open>A writer that works: it has not ended, and what it holds and what is queued fits in a frame.\<close>

definition can_write :: "connection \<Rightarrow> bool" where
  "can_write c \<longleftrightarrow> list_all frame_ok (cn_queue c) \<and>
     (case cn_writer c of WriterIdle \<Rightarrow> True | Writing f \<Rightarrow> frame_ok f | WriterDone \<Rightarrow> False)"

definition owed :: "connection \<Rightarrow> nat" where
  "owed c = 3 * length (cn_handlers c) + 2 * length (cn_queue c) + (if cn_writer c = WriterIdle then 0 else 1)"

lemma can_write_loop_end [simp]: "can_write (loop_end c) = can_write c" "owed (loop_end c) = owed c"
  by (simp_all add: can_write_def owed_def)

text \<open>One step towards the end of a graceful close.\<close>

lemma closing_step:
  assumes "cn_phase c = OwnerLoop" and "cn_closing c" and "can_write c" and "cn_handlers c \<noteq> [] \<or> cn_queue c \<noteq> []"
  shows "\<exists>x c'. conn_exec x c = Some c' \<and> cn_closing c' \<and> can_write c' \<and> owed c' < owed c \<and>
    (cn_phase c' = Flushing \<or> cn_phase c' = OwnerLoop)"
proof (cases "cn_writer c")
  case (Writing f)
  then show ?thesis using assms by (intro exI [of _ OpWrote]) (auto simp: can_write_def owed_def)
next
  case WriterDone
  then show ?thesis using assms by (simp add: can_write_def)
next
  case WriterIdle
  show ?thesis
  proof (cases "cn_queue c")
    case (Cons f fs)
    then show ?thesis using assms WriterIdle
      by (intro exI [of _ OpWrite]) (auto simp: owner_write_def loop_end_phase can_write_def owed_def)
  next
    case Nil
    then obtain f where f: "f \<in> set (cn_handlers c)" using assms(4) by (cases "cn_handlers c") auto
    have "3 * (length (cn_handlers c) - Suc 0) + 2 < 3 * length (cn_handlers c)" using length_pos_if_in_set [OF f] by linarith
    moreover have "frame_ok (reply_frame f (Inr []))"
      by (simp add: frame_ok_def reply_frame_def FrameType_valid_def FrameResponse_def FrameRequest_def FrameError_def)
    ultimately show ?thesis using assms WriterIdle Nil f
      by (intro exI [of _ "OpReply f (Inr [])"]) (auto simp: owner_reply_def loop_end_phase can_write_def owed_def length_remove1)
  qed
qed

lemma closing_flushes:
  assumes "conn_reach handler c" and "cn_phase c = OwnerLoop \<and> (cn_handlers c \<noteq> [] \<or> cn_queue c \<noteq> []) \<or> cn_phase c = Flushing"
    and "cn_closing c" and "can_write c"
  shows "\<exists>xs c'. conn_run xs c = Some c' \<and> cn_phase c' = Flushing \<and> can_write c'"
  using assms
proof (induction "owed c" arbitrary: c rule: less_induct)
  case less
  show ?case
  proof (cases "cn_phase c = Flushing")
    case True
    then show ?thesis using less.prems by (intro exI [of _ "[]"]) auto
  next
    case False
    obtain x c1 where x: "conn_exec x c = Some c1" "cn_closing c1" "can_write c1" "owed c1 < owed c"
      "cn_phase c1 = Flushing \<or> cn_phase c1 = OwnerLoop"
      using closing_step [of c] less.prems False by blast
    have r1: "conn_reach handler c1" using less.prems(1) x(1) by (rule conn_reach.step)
    have "cn_phase c1 = OwnerLoop \<and> (cn_handlers c1 \<noteq> [] \<or> cn_queue c1 \<noteq> []) \<or> cn_phase c1 = Flushing"
      using x(2,5) open_loop [OF r1] by auto
    then obtain xs c' where "conn_run xs c1 = Some c'" "cn_phase c' = Flushing" "can_write c'"
      using less.hyps [OF x(4) r1 _ x(2,3)] by blast
    then show ?thesis using x(1) by (intro exI [of _ "x # xs"]) auto
  qed
qed


section \<open>Examples\<close>

text \<open>Two requests whose handlers finish in the opposite order.\<close>

definition demo_h :: "byte list \<Rightarrow> byte list result" where
  "demo_h payload = Inr (payload @ payload)"

definition demo_request :: "64 word \<Rightarrow> byte \<Rightarrow> frame" where
  "demo_request i b = \<lparr>fr_ID = i, fr_Type = FrameRequest, fr_Payload = [b]\<rparr>"

definition demo_ops :: "link_op list" where
  "demo_ops = [ClientOp (OpRequest [7]), ClientOp (OpRequest [9]), ClientOp OpWrite, ClientOp OpWrote, ClientOp OpWrite, ClientOp OpWrote,
     ToServer, ToServer, ServerOp (OpReply (demo_request 2 9) (Inr [9, 9])), ServerOp (OpReply (demo_request 1 7) (Inr [7, 7])),
     ServerOp OpWrite, ServerOp OpWrote, ServerOp OpWrite, ServerOp OpWrote, ToClient, ToClient]"

lemma small_frame_ok: "length (fr_Payload f) \<le> 2 \<Longrightarrow> FrameType_valid (fr_Type f) \<Longrightarrow> frame_ok f"
  by (simp add: frame_ok_def MaxPayloadSize_def)

lemma demo_types: "FrameType_valid FrameRequest" "FrameType_valid FrameResponse" "FrameType_valid FrameError"
  "FrameRequest \<noteq> FrameResponse" "FrameRequest \<noteq> FrameError" "FrameResponse \<noteq> FrameError"
  by (simp_all add: FrameType_valid_def FrameRequest_def FrameResponse_def FrameError_def)

lemmas demo_simps = owner_defs loop_end_def finishGraceful_def complete_def deliver_def newConnectionState_def reply_frame_def
  frame_result_def demo_types demo_types(4-6) [symmetric] demo_request_def

lemma demo_link_run:
  "\<exists>l. link_run demo_h demo_ops new_link = Some l \<and> map sr_payload (cn_requests (lk_client l)) = [[7], [9]] \<and>
    map sr_result (cn_requests (lk_client l)) = [Some (SendPayload [7, 7]), Some (SendPayload [9, 9])]"
  by (simp add: demo_ops_def new_link_def demo_h_def demo_simps small_frame_ok)

theorem multiplexing_correct_witness:
  "\<exists>l. link_run demo_h demo_ops new_link = Some l \<and>
    sr_result (cn_requests (lk_client l) ! 1) = Some (result_of (demo_h [9]))"
proof -
  obtain l where l: "link_run demo_h demo_ops new_link = Some l" "map sr_payload (cn_requests (lk_client l)) = [[7], [9]]"
    "map sr_result (cn_requests (lk_client l)) = [Some (SendPayload [7, 7]), Some (SendPayload [9, 9])]"
    by (rule exE [OF demo_link_run]) (elim conjE, rule that)
  have "length (map sr_payload (cn_requests (lk_client l))) = 2" unfolding l(2) by simp
  then have len: "length (cn_requests (lk_client l)) = 2" by simp
  have "map sr_result (cn_requests (lk_client l)) ! 1 = Some (SendPayload [9, 9])"
    "map sr_payload (cn_requests (lk_client l)) ! 1 = [9]" using l(2,3) by simp_all
  then have r: "sr_result (cn_requests (lk_client l) ! 1) = Some (SendPayload [9, 9])" "sr_payload (cn_requests (lk_client l) ! 1) = [9]"
    using len by simp_all
  have "SendPayload [9, 9] = result_of (demo_h (sr_payload (cn_requests (lk_client l) ! 1)))"
    by (rule multiplexing_correct [OF link_run_reach [OF l(1) link_reach.start] _ _ r(1)]) (simp_all add: len)
  then show ?thesis using l(1) r by auto
qed

text \<open>A connection that serves one request.\<close>

definition serving :: "conn_op list \<Rightarrow> connection" where
  "serving ops = the (conn_run (OpFrame (demo_request 1 7) # ops) (newConnectionState True))"

lemma serving_reach: "conn_run (OpFrame (demo_request 1 7) # ops) (newConnectionState True) \<noteq> None \<Longrightarrow> conn_reach True (serving ops)"
  by (auto simp: serving_def simp del: conn_run.simps intro: conn_run_reach conn_reach.start)

theorem owner_never_blocks_witness: "\<not> cn_blocked (serving [OpRequest [9]])"
proof -
  have run: "conn_run (OpFrame (demo_request 1 7) # [OpRequest [9]]) (newConnectionState True) \<noteq> None"
    by (simp add: demo_simps)
  moreover have "length (cn_requests (serving [OpRequest [9]])) < 2 ^ 64" by (simp add: serving_def demo_simps)
  ultimately show ?thesis using owner_never_blocks [OF serving_reach [OF run]] by blast
qed

theorem graceful_close_flushes_witness:
  "cn_handlers (serving [OpClose, OpReply (demo_request 1 7) (Inr []), OpWrite]) = [] \<and>
   mset (map fr_ID (filter is_reply (cn_handed (serving [OpClose, OpReply (demo_request 1 7) (Inr []), OpWrite])))) = {#1#}"
proof -
  let ?ops = "[OpClose, OpReply (demo_request 1 7) (Inr []), OpWrite]"
  have run: "conn_run (OpFrame (demo_request 1 7) # ?ops) (newConnectionState True) \<noteq> None" by (simp add: demo_simps)
  have "cn_phase (serving ?ops) = Flushing" "cn_accepted (serving ?ops) = [demo_request 1 7]" by (simp_all add: serving_def demo_simps)
  then show ?thesis using graceful_close_flushes [OF serving_reach [OF run]] by (simp add: demo_request_def)
qed



end
