(* ===== verification/Gor_Transport.thy ===== *)
theory Gor_Transport
  imports Gor_Connection
begin

text \<open>
  The TCP transport of \<open>transport/transport.go\<close>: the table of outgoing connections with lazy dialling, the set
  of all connections, serving, and the graceful and abrupt stops. Sockets are numbered in the order they are
  opened, and a connection has the number of its socket. Each critical section under the mutex is one
  operation; dialling, accepting, a connection becoming done and its \<open>onDone\<close> call are operations of their own,
  so that every interleaving is covered. \<open>tc_raw\<close> holds the sockets that were dialled or accepted and not yet
  handed over, \<open>tc_rawClosed\<close> those that were closed instead; \<open>tc_started\<close> and \<open>tc_dialled\<close> record every
  connection that was started and the address it was dialled for.
\<close>

section \<open>State\<close>

type_synonym sock = nat

record tcp =
  tc_closed :: bool
  tc_closeDone :: bool
  tc_serveStarted :: bool
  tc_serveDone :: bool
  tc_listenerClosed :: bool
  tc_outgoing :: "(string, sock) gomap"
  tc_connections :: "sock list"
  tc_closing :: "sock list option"
  tc_next :: sock
  tc_raw :: "sock list"
  tc_rawClosed :: "sock list"
  tc_started :: "sock list"
  tc_dialled :: "(sock \<times> string) list"
  tc_done :: "sock list"

definition newTCP :: tcp where
  "newTCP = \<lparr>tc_closed = False, tc_closeDone = False, tc_serveStarted = False, tc_serveDone = True, tc_listenerClosed = False,
     tc_outgoing = [], tc_connections = [], tc_closing = None, tc_next = 0, tc_raw = [], tc_rawClosed = [], tc_started = [],
     tc_dialled = [], tc_done = []\<rparr>"

section \<open>Connections\<close>

text \<open>A socket opens: a dial succeeded or the listener accepted.\<close>

definition open_socket :: "tcp \<Rightarrow> sock \<times> tcp" where
  "open_socket t = (tc_next t, t\<lparr>tc_next := Suc (tc_next t), tc_raw := tc_next t # tc_raw t\<rparr>)"

definition close_raw :: "sock \<Rightarrow> tcp \<Rightarrow> tcp" where
  "close_raw c t = t\<lparr>tc_raw := remove1 c (tc_raw t), tc_rawClosed := c # tc_rawClosed t\<rparr>"

definition start_conn :: "sock \<Rightarrow> tcp \<Rightarrow> tcp" where
  "start_conn c t = t\<lparr>tc_raw := remove1 c (tc_raw t), tc_connections := c # tc_connections t, tc_started := c # tc_started t\<rparr>"

datatype conn_for = ForErr go_error | Reuse sock | MustDial

text \<open>The first critical section of \<open>connectionFor\<close>: a usable connection, or the need to dial.\<close>

definition connectionFor_lookup :: "string \<Rightarrow> tcp \<Rightarrow> conn_for \<times> tcp" where
  "connectionFor_lookup addr t =
     (if tc_closed t then (ForErr errTransportClosed, t)
      else
        (case gm_get (tc_outgoing t) addr of
           Some c \<Rightarrow>
             if c \<in> set (tc_done t) then (MustDial, t\<lparr>tc_outgoing := gm_del addr (tc_outgoing t)\<rparr>) else (Reuse c, t)
         | None \<Rightarrow> (MustDial, t)))"

text \<open>The second one, after the socket \<open>raw\<close> was dialled.\<close>

definition connectionFor_install :: "string \<Rightarrow> sock \<Rightarrow> tcp \<Rightarrow> sock result \<times> tcp" where
  "connectionFor_install addr raw t =
     (if tc_closed t then (Inl errTransportClosed, close_raw raw t)
      else
        (case gm_get (tc_outgoing t) addr of
           Some c \<Rightarrow>
             if c \<in> set (tc_done t)
             then (Inr raw, (start_conn raw t)\<lparr>tc_outgoing := gm_put addr raw (gm_del addr (tc_outgoing t)),
                              tc_dialled := (raw, addr) # tc_dialled t\<rparr>)
             else (Inr c, close_raw raw t)
         | None \<Rightarrow> (Inr raw, (start_conn raw t)\<lparr>tc_outgoing := gm_put addr raw (tc_outgoing t),
                               tc_dialled := (raw, addr) # tc_dialled t\<rparr>)))"

definition addAccepted :: "sock \<Rightarrow> tcp \<Rightarrow> tcp" where
  "addAccepted raw t = (if tc_closed t then close_raw raw t else start_conn raw t)"

definition removeConnection :: "sock \<Rightarrow> tcp \<Rightarrow> tcp" where
  "removeConnection c t = t\<lparr>tc_connections := filter (\<lambda>x. x \<noteq> c) (tc_connections t),
     tc_outgoing := filter (\<lambda>(addr, current). current \<noteq> c) (tc_outgoing t)\<rparr>"

text \<open>The connection's owner closes \<open>done\<close>; its call of \<open>removeConnection\<close> comes after.\<close>

definition connection_done :: "sock \<Rightarrow> tcp \<Rightarrow> tcp" where
  "connection_done c t = t\<lparr>tc_done := c # tc_done t\<rparr>"

section \<open>Serving and stopping\<close>

definition Serve_begin :: "tcp \<Rightarrow> go_error option \<times> tcp" where
  "Serve_begin t =
     (if tc_closed t then (Some errTransportClosed, t)
      else if tc_serveStarted t then (Some (Sentinel TransportErrServeAlreadyRunning), t)
      else (None, t\<lparr>tc_serveStarted := True, tc_serveDone := False\<rparr>))"

text \<open>What \<open>Serve\<close> returns when \<open>Accept\<close> failed with \<open>e\<close>; \<open>ctx_err\<close> is \<open>ctx.Err()\<close>.\<close>

definition Serve_end :: "go_error option \<Rightarrow> go_error \<Rightarrow> tcp \<Rightarrow> go_error option \<times> tcp" where
  "Serve_end ctx_err e t =
     ((case ctx_err of Some c \<Rightarrow> Some c | None \<Rightarrow> if tc_closed t then None else Some e), t\<lparr>tc_serveDone := True\<rparr>)"

text \<open>
  \<open>stop\<close>: the first caller marks the transport closed and closes the listener; a later one waits for
  \<open>closeDone\<close>, and when it is abrupt it kills the connections of its snapshot first.
\<close>

datatype stop_role = FirstStop | LaterStop "sock list"

definition stop_begin :: "bool \<Rightarrow> tcp \<Rightarrow> stop_role \<times> tcp" where
  "stop_begin abrupt t =
     (if tc_closed t then (LaterStop (if abrupt then tc_connections t else []), t)
      else (FirstStop, t\<lparr>tc_closed := True, tc_listenerClosed := True\<rparr>))"

text \<open>The snapshot of \<open>closeConnections\<close>, whose connections are closed or killed one after the other.\<close>

definition closeConnections :: "tcp \<Rightarrow> tcp" where
  "closeConnections t = t\<lparr>tc_closing := Some (tc_connections t)\<rparr>"

text \<open>The first caller goes on once every connection of the snapshot is done and serving has ended.\<close>

definition stop_finished :: "tcp \<Rightarrow> bool" where
  "stop_finished t \<longleftrightarrow>
     (case tc_closing t of None \<Rightarrow> False | Some cs \<Rightarrow> list_all (\<lambda>c. c \<in> set (tc_done t)) cs) \<and> (tc_serveStarted t \<longrightarrow> tc_serveDone t)"

definition stop_end :: "tcp \<Rightarrow> tcp" where
  "stop_end t = t\<lparr>tc_closeDone := True\<rparr>"

inductive tcp_step :: "tcp \<Rightarrow> tcp \<Rightarrow> bool" where
  look_up: "tcp_step t (snd (connectionFor_lookup addr t))"
| opened: "tcp_step t (snd (open_socket t))"
| install: "raw \<in> set (tc_raw t) \<Longrightarrow> tcp_step t (snd (connectionFor_install addr raw t))"
| accepted: "raw \<in> set (tc_raw t) \<Longrightarrow> tcp_step t (addAccepted raw t)"
| conn_done: "c \<in> set (tc_started t) \<Longrightarrow> tcp_step t (connection_done c t)"
| removed: "c \<in> set (tc_done t) \<Longrightarrow> tcp_step t (removeConnection c t)"
| serve: "tcp_step t (snd (Serve_begin t))"
| served: "tcp_step t (snd (Serve_end ctx_err e t))"
| stop: "tcp_step t (snd (stop_begin abrupt t))"
| close_all: "tc_closed t \<Longrightarrow> tc_closing t = None \<Longrightarrow> tcp_step t (closeConnections t)"
| stopped: "stop_finished t \<Longrightarrow> tcp_step t (stop_end t)"

inductive tcp_reach :: "tcp \<Rightarrow> bool" where
  start: "tcp_reach newTCP"
| step: "tcp_reach t \<Longrightarrow> tcp_step t t' \<Longrightarrow> tcp_reach t'"

inductive_cases tcp_stepE: "tcp_step t t'"

section \<open>The invariant\<close>

definition tcp_inv :: "tcp \<Rightarrow> bool" where
  "tcp_inv t \<longleftrightarrow>
     set (tc_started t) \<subseteq> set (tc_done t) \<union> set (tc_connections t) \<and>
     (\<forall>cs. tc_closing t = Some cs \<longrightarrow> tc_closed t \<and> set (tc_started t) \<subseteq> set (tc_done t) \<union> set cs) \<and>
     (tc_closeDone t \<longrightarrow> tc_closed t \<and> set (tc_started t) \<subseteq> set (tc_done t)) \<and>
     (\<forall>(c, addr) \<in> set (tc_dialled t). c \<in> set (tc_done t) \<or> gm_get (tc_outgoing t) addr = Some c) \<and>
     (\<forall>addr c. gm_get (tc_outgoing t) addr = Some c \<longrightarrow> (c, addr) \<in> set (tc_dialled t)) \<and>
     set (tc_raw t) \<union> set (tc_rawClosed t) \<union> set (tc_started t) = {..<tc_next t} \<and> gm_ok (tc_outgoing t) \<and>
     fst ` set (tc_dialled t) \<subseteq> set (tc_started t) \<and> distinct (tc_raw t) \<and>
     set (tc_raw t) \<inter> (set (tc_rawClosed t) \<union> set (tc_started t)) = {} \<and> set (tc_rawClosed t) \<inter> set (tc_started t) = {}"

lemma tcp_init: "tcp_inv newTCP"
  by (simp add: tcp_inv_def newTCP_def gm_ok_def)

lemma inv_lookup: "tcp_inv t \<Longrightarrow> tcp_inv (snd (connectionFor_lookup addr t))"
  by (auto simp: tcp_inv_def connectionFor_lookup_def go_map_simps split: option.split if_splits)

lemma inv_open: "tcp_inv t \<Longrightarrow> tcp_inv (snd (open_socket t))"
  by (auto simp: tcp_inv_def open_socket_def lessThan_Suc)

lemma inv_close_raw: "tcp_inv t \<Longrightarrow> raw \<in> set (tc_raw t) \<Longrightarrow> tcp_inv (close_raw raw t)"
  by (auto simp: tcp_inv_def close_raw_def)

lemma inv_start_conn: "tcp_inv t \<Longrightarrow> raw \<in> set (tc_raw t) \<Longrightarrow> \<not> tc_closed t \<Longrightarrow> tcp_inv (start_conn raw t)"
  by (auto simp: tcp_inv_def start_conn_def)

lemma inv_dialled:
  assumes "tcp_inv t" and "raw \<in> set (tc_raw t)" and "\<not> tc_closed t"
    and "\<forall>c. gm_get (tc_outgoing t) addr = Some c \<longrightarrow> c \<in> set (tc_done t)" and "gm_ok out"
    and "\<forall>a. gm_get out a = (if a = addr then Some raw else gm_get (tc_outgoing t) a)"
  shows "tcp_inv ((start_conn raw t)\<lparr>tc_outgoing := out, tc_dialled := (raw, addr) # tc_dialled t\<rparr>)"
proof -
  have inv: "tcp_inv (start_conn raw t)" by (rule inv_start_conn [OF assms(1-3)])
  have "c \<in> set (tc_done t) \<or> gm_get out a = Some c" if "(c, a) \<in> set ((raw, addr) # tc_dialled t)" for c a
    using that assms(1,4,6) by (fastforce simp: tcp_inv_def split: if_splits)
  moreover have "(c, a) \<in> set ((raw, addr) # tc_dialled t)" if "gm_get out a = Some c" for a c
    using that assms(1,6) by (fastforce simp: tcp_inv_def split: if_splits)
  ultimately show ?thesis using inv assms(5) by (auto simp: tcp_inv_def start_conn_def)
qed

lemma inv_install:
  assumes "tcp_inv t" and "raw \<in> set (tc_raw t)"
  shows "tcp_inv (snd (connectionFor_install addr raw t))"
proof -
  have ok: "gm_ok (tc_outgoing t)" using assms(1) by (simp add: tcp_inv_def)
  consider "tc_closed t \<or> (\<exists>c. gm_get (tc_outgoing t) addr = Some c \<and> c \<notin> set (tc_done t))"
    | c where "\<not> tc_closed t" "gm_get (tc_outgoing t) addr = Some c" "c \<in> set (tc_done t)"
    | "\<not> tc_closed t" "gm_get (tc_outgoing t) addr = None"
    by (cases "gm_get (tc_outgoing t) addr") auto
  then show ?thesis
  proof cases
    case 1
    then show ?thesis using inv_close_raw [OF assms] by (auto simp: connectionFor_install_def)
  next
    case (2 c)
    have "tcp_inv ((start_conn raw t)\<lparr>tc_outgoing := gm_put addr raw (gm_del addr (tc_outgoing t)), tc_dialled := (raw, addr) # tc_dialled t\<rparr>)"
      by (rule inv_dialled [OF assms 2(1)]) (use 2 ok in \<open>simp_all add: go_map_simps\<close>)
    then show ?thesis using 2 by (simp add: connectionFor_install_def)
  next
    case 3
    have "tcp_inv ((start_conn raw t)\<lparr>tc_outgoing := gm_put addr raw (tc_outgoing t), tc_dialled := (raw, addr) # tc_dialled t\<rparr>)"
      by (rule inv_dialled [OF assms 3(1)]) (use 3 ok in \<open>simp_all add: go_map_simps\<close>)
    then show ?thesis using 3 by (simp add: connectionFor_install_def)
  qed
qed

lemma inv_removed:
  assumes "tcp_inv t" and "c \<in> set (tc_done t)"
  shows "tcp_inv (removeConnection c t)"
proof -
  have "gm_get (filter (\<lambda>(addr, current). current \<noteq> c) (tc_outgoing t)) a =
      (case gm_get (tc_outgoing t) a of Some v \<Rightarrow> if v \<noteq> c then Some v else None | None \<Rightarrow> None)" for a
    using assms(1) gm_ok_filter_get [of "tc_outgoing t" "\<lambda>_ v. v \<noteq> c" a] by (simp add: tcp_inv_def split: option.split)
  then show ?thesis using assms by (auto simp: tcp_inv_def removeConnection_def split: option.splits if_splits)
qed

lemma tcp_step_inv:
  assumes "tcp_step t t'" and "tcp_inv t"
  shows "tcp_inv t'"
  using assms(1)
proof (cases rule: tcp_step.cases)
  case (accepted raw)
  then show ?thesis using assms(2) inv_close_raw inv_start_conn by (simp add: addAccepted_def)
next
  case (stopped)
  then show ?thesis using assms(2) by (auto simp: tcp_inv_def stop_end_def stop_finished_def list_all_iff split: option.splits)
next
  case (conn_done c)
  then show ?thesis using assms(2) by (auto simp: tcp_inv_def connection_done_def)
next
  case (close_all)
  then show ?thesis using assms(2) by (auto simp: tcp_inv_def closeConnections_def)
next
  case (serve)
  then show ?thesis using assms(2) by (auto simp: tcp_inv_def Serve_begin_def)
next
  case (served ctx_err e)
  then show ?thesis using assms(2) by (simp add: tcp_inv_def Serve_end_def)
next
  case (stop abrupt)
  then show ?thesis using assms(2) by (auto simp: tcp_inv_def stop_begin_def)
qed (use assms(2) inv_lookup inv_open inv_install inv_removed in auto)

lemma tcp_inv_dialled:
  assumes "tcp_inv t"
  shows "(c, addr) \<in> set (tc_dialled t) \<Longrightarrow> c \<notin> set (tc_done t) \<Longrightarrow> gm_get (tc_outgoing t) addr = Some c"
    and "(c, addr) \<in> set (tc_dialled t) \<Longrightarrow> c \<in> set (tc_started t)"
    and "c \<in> set (tc_started t) \<Longrightarrow> c \<notin> set (tc_raw t)"
proof -
  have d: "\<forall>(c, addr) \<in> set (tc_dialled t). c \<in> set (tc_done t) \<or> gm_get (tc_outgoing t) addr = Some c"
    and s: "fst ` set (tc_dialled t) \<subseteq> set (tc_started t)" and r: "set (tc_raw t) \<inter> (set (tc_rawClosed t) \<union> set (tc_started t)) = {}"
    using assms unfolding tcp_inv_def by simp_all
  show "(c, addr) \<in> set (tc_dialled t) \<Longrightarrow> c \<notin> set (tc_done t) \<Longrightarrow> gm_get (tc_outgoing t) addr = Some c" using d by auto
  show "(c, addr) \<in> set (tc_dialled t) \<Longrightarrow> c \<in> set (tc_started t)" using s by force
  show "c \<in> set (tc_started t) \<Longrightarrow> c \<notin> set (tc_raw t)" using r by blast
qed

lemma tcp_reach_inv: "tcp_reach t \<Longrightarrow> tcp_inv t"
  by (induction rule: tcp_reach.induct) (auto intro: tcp_init tcp_step_inv)

section \<open>Properties\<close>

text \<open>
  C15. A stop is complete: when \<open>Close\<close> or \<open>Kill\<close> returns, every connection that was ever started is done, also
  one that was dialled or accepted while the stop ran, and every other socket was closed or is still in the
  hands of a caller that will close it; none can be started any more.
\<close>

theorem transport_stop_complete:
  assumes "tcp_reach t" and "tc_closeDone t"
  shows "set (tc_started t) \<subseteq> set (tc_done t) \<and> {..<tc_next t} = set (tc_raw t) \<union> set (tc_rawClosed t) \<union> set (tc_started t) \<and>
    tc_started (snd (connectionFor_install addr raw t)) = tc_started t \<and> tc_started (addAccepted raw t) = tc_started t \<and>
    fst (connectionFor_lookup addr t) = ForErr errTransportClosed"
  using tcp_reach_inv [OF assms(1)] assms(2)
  by (auto simp: tcp_inv_def connectionFor_install_def addAccepted_def close_raw_def connectionFor_lookup_def)

text \<open>
  One connection per destination: two connections dialled for the same address are never both alive, a
  lookup only reuses a live connection that was dialled for that address, and the loser of a race between
  two dials gets the winner's connection and closes its own socket.
\<close>

theorem one_connection_per_address:
  assumes "tcp_reach t" and "(c1, addr) \<in> set (tc_dialled t)" and "(c2, addr) \<in> set (tc_dialled t)"
    and "c1 \<notin> set (tc_done t)" and "c2 \<notin> set (tc_done t)" and "raw \<in> set (tc_raw t)" and "\<not> tc_closed t"
  shows "c1 = c2 \<and> fst (connectionFor_lookup addr t) = Reuse c1 \<and>
    connectionFor_install addr raw t = (Inr c1, close_raw raw t) \<and> raw \<noteq> c1"
proof -
  have inv: "tcp_inv t" by (rule tcp_reach_inv [OF assms(1)])
  then have "gm_get (tc_outgoing t) addr = Some c1" "gm_get (tc_outgoing t) addr = Some c2"
    using assms(2-5) tcp_inv_dialled by blast+
  moreover have "raw \<noteq> c1" using tcp_inv_dialled(2,3) [OF inv] assms(2,6) by blast
  ultimately show ?thesis using assms(4,7) by (simp add: connectionFor_lookup_def connectionFor_install_def)
qed

section \<open>Examples\<close>

definition dialled_twice :: tcp where
  "dialled_twice = snd (connectionFor_install ''b:1'' 0 (snd (open_socket (snd (open_socket newTCP)))))"

lemma dialled_twice_reach: "tcp_reach dialled_twice"
proof -
  let ?t1 = "snd (open_socket newTCP)" and ?t2 = "snd (open_socket (snd (open_socket newTCP)))"
  have "tcp_reach ?t2" using tcp_reach.start tcp_reach.step tcp_step.opened by meson
  moreover have "0 \<in> set (tc_raw ?t2)" by (simp add: open_socket_def newTCP_def)
  ultimately show ?thesis unfolding dialled_twice_def using tcp_reach.step tcp_step.install by meson
qed

lemma dialled_twice_eq: "tc_dialled dialled_twice = [(0, ''b:1'')]" "tc_done dialled_twice = []" "tc_raw dialled_twice = [1]"
  "\<not> tc_closed dialled_twice" "tc_connections dialled_twice = [0]" "tc_started dialled_twice = [0]" "\<not> tc_serveStarted dialled_twice"
  "tc_closing dialled_twice = None"
  by (simp_all add: dialled_twice_def connectionFor_install_def open_socket_def newTCP_def start_conn_def)

theorem one_connection_per_address_witness:
  "connectionFor_install ''b:1'' 1 dialled_twice = (Inr 0, close_raw 1 dialled_twice)"
  using one_connection_per_address [OF dialled_twice_reach, of 0 "''b:1''" 0 1] by (simp add: dialled_twice_eq)

definition after_stop :: tcp where
  "after_stop = stop_end (connection_done 0 (closeConnections (snd (stop_begin False dialled_twice))))"

lemma after_stop_reach: "tcp_reach after_stop"
proof -
  let ?t1 = "snd (stop_begin False dialled_twice)"
  let ?t2 = "closeConnections ?t1"
  let ?t3 = "connection_done 0 ?t2"
  have "tcp_reach ?t1" using dialled_twice_reach tcp_reach.step tcp_step.stop by meson
  moreover have "tc_closed ?t1" "tc_closing ?t1 = None" by (simp_all add: stop_begin_def dialled_twice_eq)
  ultimately have "tcp_reach ?t2" using tcp_reach.step tcp_step.close_all by meson
  moreover have "0 \<in> set (tc_started ?t2)" by (simp add: closeConnections_def stop_begin_def dialled_twice_eq)
  ultimately have "tcp_reach ?t3" using tcp_reach.step tcp_step.conn_done by meson
  moreover have "stop_finished ?t3"
    by (simp add: stop_finished_def connection_done_def closeConnections_def stop_begin_def dialled_twice_eq)
  ultimately show ?thesis unfolding after_stop_def using tcp_reach.step tcp_step.stopped by meson
qed

theorem transport_stop_complete_witness:
  "set (tc_started after_stop) \<subseteq> set (tc_done after_stop) \<and> tc_started (addAccepted 1 after_stop) = tc_started after_stop"
  using transport_stop_complete [OF after_stop_reach, of _ 1] by (simp add: after_stop_def stop_end_def)

end
