(* ===== verification/Gor_Sim_Gate.thy ===== *)
theory Gor_Sim_Gate
  imports Main
begin

text \<open>
  The quiescence discipline the simulated store and the simulated network share: operations in flight are
  counted, the first one makes a channel, the last one closes it, and the driver waits on that channel.
  The locale states what one pair of begin and end operations does and shows that no channel is closed
  twice and that the wait returns exactly when nothing is in flight.
\<close>

definition drop_nth :: "nat \<Rightarrow> 'a list \<Rightarrow> 'a list" where
  "drop_nth i xs = take i xs @ drop (Suc i) xs"

lemma length_drop_nth [simp]: "i < length xs \<Longrightarrow> Suc (length (drop_nth i xs)) = length xs"
  by (simp add: drop_nth_def)

lemma set_drop_nth: "set (drop_nth i xs) \<subseteq> set xs"
  by (auto simp: drop_nth_def dest: in_set_takeD in_set_dropD)

lemma map_drop_nth: "map f (drop_nth i xs) = drop_nth i (map f xs)"
  by (simp add: drop_nth_def take_map drop_map)

locale idle_gate =
  fixes active :: "'s \<Rightarrow> int" and idle :: "'s \<Rightarrow> nat" and made :: "'s \<Rightarrow> nat" and closed :: "'s \<Rightarrow> nat list"
    and enter :: "'s \<Rightarrow> nat \<times> 's" and leave :: "nat \<Rightarrow> 's \<Rightarrow> 's option"
  assumes enter_first: "active s = 0 \<Longrightarrow> enter s = (c, s') \<Longrightarrow>
      c = made s \<and> active s' = 1 \<and> idle s' = made s \<and> made s' = Suc (made s) \<and> closed s' = closed s"
    and enter_more: "active s \<noteq> 0 \<Longrightarrow> enter s = (c, s') \<Longrightarrow>
      c = idle s \<and> active s' = active s + 1 \<and> idle s' = idle s \<and> made s' = made s \<and> closed s' = closed s"
    and leave_more: "active s \<noteq> 1 \<Longrightarrow> \<exists>s'. leave c s = Some s' \<and>
      active s' = active s - 1 \<and> idle s' = idle s \<and> made s' = made s \<and> closed s' = closed s"
    and leave_last: "active s = 1 \<Longrightarrow> c \<notin> set (closed s) \<Longrightarrow> \<exists>s'. leave c s = Some s' \<and>
      active s' = 0 \<and> idle s' = idle s \<and> made s' = made s \<and> closed s' = c # closed s"
begin

text \<open>\<open>tokens\<close> are the channels held by the operations in flight.\<close>

definition gate_ok :: "'s \<Rightarrow> nat list \<Rightarrow> bool" where
  "gate_ok s tokens \<longleftrightarrow> active s = int (length tokens) \<and> (\<forall>c \<in> set tokens. c = idle s) \<and>
     (idle s \<in> set (closed s) \<longleftrightarrow> tokens = []) \<and> idle s < made s \<and>
     (\<forall>c \<in> set (closed s). c < made s) \<and> distinct (closed s)"

lemma gate_frame:
  "active s' = active s \<Longrightarrow> idle s' = idle s \<Longrightarrow> made s' = made s \<Longrightarrow> closed s' = closed s \<Longrightarrow>
    gate_ok s' tokens = gate_ok s tokens"
  by (simp add: gate_ok_def)

lemma gate_enter:
  assumes "gate_ok s tokens" and "enter s = (c, s')"
  shows "gate_ok s' (tokens @ [c])"
proof (cases "tokens = []")
  case True
  with assms(1) have "active s = 0" by (simp add: gate_ok_def)
  from enter_first [OF this assms(2)] assms(1) True show ?thesis
    by (fastforce simp: gate_ok_def)
next
  case False
  with assms(1) have "active s \<noteq> 0" by (simp add: gate_ok_def)
  from enter_more [OF this assms(2)] assms(1) False show ?thesis
    by (simp add: gate_ok_def)
qed

text \<open>An operation in flight can always end, and never closes a closed channel.\<close>

lemma gate_leave:
  assumes "gate_ok s tokens" and "i < length tokens"
  shows "\<exists>s'. leave (tokens ! i) s = Some s' \<and> gate_ok s' (drop_nth i tokens)"
proof -
  have tok: "tokens ! i = idle s" and ne: "tokens \<noteq> []"
    using assms nth_mem [OF assms(2)] by (auto simp: gate_ok_def)
  have len: "active s - 1 = int (length (drop_nth i tokens))"
    using assms(1) arg_cong [OF length_drop_nth [OF assms(2)], of int] by (simp add: gate_ok_def del: length_drop_nth)
  show ?thesis
  proof (cases "active s = 1")
    case True
    with len have nil: "drop_nth i tokens = []" by simp
    have open_: "idle s \<notin> set (closed s)" using assms(1) ne by (simp add: gate_ok_def)
    from leave_last [OF True this] obtain s' where s': "leave (idle s) s = Some s'" "active s' = 0" "idle s' = idle s"
      "made s' = made s" "closed s' = idle s # closed s" by blast
    have "idle s < made s" using assms(1) by (simp add: gate_ok_def)
    with s' open_ assms(1) nil tok show ?thesis by (auto simp: gate_ok_def)
  next
    case False
    from leave_more [OF False, of "tokens ! i"] obtain s' where s': "leave (tokens ! i) s = Some s'"
      "active s' = active s - 1" "idle s' = idle s" "made s' = made s" "closed s' = closed s" by blast
    have "drop_nth i tokens \<noteq> []" using len False by auto
    with s' assms(1) ne len set_drop_nth [of i tokens] show ?thesis by (auto simp: gate_ok_def)
  qed
qed

text \<open>Only the number of the operations in flight and their channels matter.\<close>

lemma gate_resize: "gate_ok s ts \<Longrightarrow> length ts' = length ts \<Longrightarrow> set ts' \<subseteq> set ts \<Longrightarrow> gate_ok s ts'"
  by (auto simp: gate_ok_def)

lemma gate_enter_any:
  assumes "gate_ok s ts" and "enter s = (c, s')" and "length ts' = Suc (length ts)" and "set ts' \<subseteq> insert c (set ts)"
  shows "gate_ok s' ts'"
  using gate_enter [OF assms(1,2)] by (rule gate_resize) (use assms in auto)

lemma gate_leave_any:
  assumes "gate_ok s ts" and "c \<in> set ts" and "Suc (length ts') = length ts" and "set ts' \<subseteq> set ts"
  shows "\<exists>s'. leave c s = Some s' \<and> gate_ok s' ts'"
proof -
  obtain i where i: "i < length ts" "ts ! i = c" using assms(2) by (auto simp: in_set_conv_nth)
  from gate_leave [OF assms(1) i(1)] obtain s' where s': "leave c s = Some s'" "gate_ok s' (drop_nth i ts)" using i(2) by auto
  have len: "length ts' = length (drop_nth i ts)" using length_drop_nth [OF i(1)] assms(3) by simp
  have "\<forall>x \<in> set ts. x = idle s" using assms(1) by (simp add: gate_ok_def)
  with assms(2) have same: "\<forall>x \<in> set ts. x = c" by metis
  have "set ts' \<subseteq> set (drop_nth i ts)"
  proof (cases "drop_nth i ts")
    case Nil
    then show ?thesis using len by simp
  next
    case (Cons x xs)
    then have "x = c" using same set_drop_nth [of i ts] by auto
    then show ?thesis using Cons same assms(4) by auto
  qed
  then show ?thesis using s' gate_resize [OF s'(2) len] by blast
qed

lemma gate_idle: "gate_ok s tokens \<Longrightarrow> idle s \<in> set (closed s) \<longleftrightarrow> tokens = []"
  by (simp add: gate_ok_def)

end

end
