(* ===== verification/Gor_Sim_Store.thy ===== *)
theory Gor_Sim_Store
  imports Gor_Store Gor_Json_Text Gor_Sim_Gate
begin

text \<open>
  The store of the simulation, \<open>sim/store.go\<close>, and its tracker of Reminder deliveries, \<open>sim/timer.go\<close>:
  the tables of the in-memory store with faults the driver arms, calls that sleep or wait on a barrier, the
  count of calls in flight with the channel the driver waits on, and the log of committed writes. A call
  is cut where it sleeps or waits: \<open>fakeStore_start\<close> runs it to the first such point, \<open>fakeStore_resume\<close>
  from there on, and a call that has its answer is in flight until its deferred \<open>endOperation\<close>.
  Channels are numbered in the order they are made.
\<close>

section \<open>The tracker of deliveries\<close>

record timerTracker =
  tt_outstanding :: "(grain_id, int) gomap"
  tt_failure :: "go_error option"
  tt_deliveries :: nat

definition newTimerTracker :: timerTracker where
  "newTimerTracker = \<lparr>tt_outstanding = [], tt_failure = None, tt_deliveries = 0\<rparr>"

definition timerTracker_claim :: "grain_id \<Rightarrow> bool \<Rightarrow> timerTracker \<Rightarrow> timerTracker" where
  "timerTracker_claim gid willDeliver t =
     (if \<not> willDeliver then t
      else t\<lparr>tt_outstanding := gm_put gid (gm_get_or 0 (tt_outstanding t) gid + 1) (tt_outstanding t)\<rparr>)"

definition timerTracker_deliver :: "grain_id \<Rightarrow> timerTracker \<Rightarrow> timerTracker" where
  "timerTracker_deliver gid t =
     (if gm_get_or 0 (tt_outstanding t) gid = 0
      then t\<lparr>tt_failure := Some (NewErr (''delivery without an active claim for '' @ GrainType gid @ ''/'' @ GrainKey gid))\<rparr>
      else t\<lparr>tt_outstanding := gm_put gid (gm_get_or 0 (tt_outstanding t) gid - 1) (tt_outstanding t),
             tt_deliveries := tt_deliveries t + 1\<rparr>)"

definition timerTracker_check :: "timerTracker \<Rightarrow> go_error option" where
  "timerTracker_check t = tt_failure t"

definition timerTracker_deliveryCount :: "timerTracker \<Rightarrow> nat" where
  "timerTracker_deliveryCount t = tt_deliveries t"

section \<open>Faults\<close>

datatype faultKind = faultNone | faultReadError | faultWriteError | faultWriteAppliedError | faultDelay

record faultSpec =
  fa_kind :: faultKind
  fa_delay :: duration

datatype memberFaultKind = memberFaultNone | memberListError | memberCASFailure | memberCASAppliedError | memberDelay

record memberFaultTarget =
  ft_addr :: string
  ft_row :: member_id

text \<open>\<open>started\<close> is nil or the channel a delayed write closes when it begins to sleep.\<close>

record memberFaultSpec =
  mf_kind :: memberFaultKind
  mf_target :: memberFaultTarget
  mf_delay :: duration
  mf_started :: "nat option"

record faultPlan =
  fp_read :: faultSpec
  fp_write :: faultSpec
  fp_member :: memberFaultSpec

datatype scheduleFaultKind =
  scheduleFaultNone | scheduleListError | scheduleListDelay | scheduleClaimError | scheduleClaimAppliedError

record scheduleFaultSpec =
  sf_kind :: scheduleFaultKind
  sf_targetNode :: int

definition no_fault :: faultSpec where
  "no_fault = \<lparr>fa_kind = faultNone, fa_delay = 0\<rparr>"

definition no_member_fault :: memberFaultSpec where
  "no_member_fault = \<lparr>mf_kind = memberFaultNone, mf_target = \<lparr>ft_addr = [], ft_row = MemberID [] []\<rparr>, mf_delay = 0,
     mf_started = None\<rparr>"

definition no_plan :: faultPlan where
  "no_plan = \<lparr>fp_read = no_fault, fp_write = no_fault, fp_member = no_member_fault\<rparr>"

definition no_schedule_fault :: scheduleFaultSpec where
  "no_schedule_fault = \<lparr>sf_kind = scheduleFaultNone, sf_targetNode = 0\<rparr>"

text \<open>The two channels of a barrier, nil or present.\<close>

record readBarrier =
  rb_started :: "nat option"
  rb_release :: "nat option"

definition no_barrier :: readBarrier where
  "no_barrier = \<lparr>rb_started = None, rb_release = None\<rparr>"

record scheduleStats =
  ss_listCalls :: nat
  ss_claimWon :: nat
  ss_claimLost :: nat
  ss_listErrors :: nat
  ss_listDelays :: nat
  ss_claimErrors :: nat
  ss_claimAppliedErrors :: nat

record memberStats =
  mt_listCalls :: nat
  mt_writeCalls :: nat
  mt_listErrors :: nat
  mt_casConflicts :: nat
  mt_casAppliedErrors :: nat
  mt_delays :: nat
  mt_deadWrites :: nat
  mt_delayedDeadCAS :: nat

definition no_schedule_stats :: scheduleStats where
  "no_schedule_stats = \<lparr>ss_listCalls = 0, ss_claimWon = 0, ss_claimLost = 0, ss_listErrors = 0, ss_listDelays = 0,
     ss_claimErrors = 0, ss_claimAppliedErrors = 0\<rparr>"

definition no_member_stats :: memberStats where
  "no_member_stats = \<lparr>mt_listCalls = 0, mt_writeCalls = 0, mt_listErrors = 0, mt_casConflicts = 0, mt_casAppliedErrors = 0,
     mt_delays = 0, mt_deadWrites = 0, mt_delayedDeadCAS = 0\<rparr>"

section \<open>The store\<close>

datatype writeEvent = WriteEvent (we_id: grain_id) (we_data: "byte list")

datatype memberWriteEvent = MemberWriteEvent (mw_key: member_id) (mw_status: MemberStatus)

datatype memberClock = RealClock | FakeClock

text \<open>
  \<open>fs_chans\<close> counts the channels \<open>beginOperation\<close> made and \<open>fs_closed\<close> lists those that are closed;
  \<open>fs_started\<close> lists the channels of delayed writes that are closed.
\<close>

record fakeStore =
  fs_records :: "(grain_id, store_record) gomap"
  fs_plans :: "(grain_id, faultPlan) gomap"
  fs_readBarriers :: "(grain_id, readBarrier) gomap"
  fs_members :: "(member_id, member) gomap"
  fs_memberFault :: memberFaultSpec
  fs_reminders :: "(reminder_key, reminder) gomap"
  fs_scheduleListFault :: scheduleFaultSpec
  fs_scheduleClaimFaults :: "(grain_id, scheduleFaultKind) gomap"
  fs_timerTracker :: timerTracker
  fs_memberClock :: memberClock
  fs_stats :: scheduleStats
  fs_memberStats :: memberStats
  fs_writes :: "writeEvent list"
  fs_memberWrites :: "memberWriteEvent list"
  fs_delays :: nat
  fs_active :: int
  fs_idle :: nat
  fs_chans :: nat
  fs_closed :: "nat list"
  fs_started :: "nat list"

definition newFakeStore :: "timerTracker \<Rightarrow> fakeStore" where
  "newFakeStore tracker =
     \<lparr>fs_records = [], fs_plans = [], fs_readBarriers = [], fs_members = [], fs_memberFault = no_member_fault,
      fs_reminders = [], fs_scheduleListFault = no_schedule_fault, fs_scheduleClaimFaults = [],
      fs_timerTracker = tracker, fs_memberClock = RealClock, fs_stats = no_schedule_stats,
      fs_memberStats = no_member_stats, fs_writes = [], fs_memberWrites = [], fs_delays = 0,
      fs_active = 0, fs_idle = 0, fs_chans = 1, fs_closed = [0], fs_started = []\<rparr>"

definition setMemberClock :: "memberClock \<Rightarrow> fakeStore \<Rightarrow> fakeStore" where
  "setMemberClock c s = s\<lparr>fs_memberClock := c\<rparr>"

text \<open>\<open>reading\<close> gives the current reading of each clock.\<close>

definition memberTableNow :: "(memberClock \<Rightarrow> gtime) \<Rightarrow> fakeStore \<Rightarrow> gtime" where
  "memberTableNow reading s = reading (fs_memberClock s)"

definition setFaultPlans :: "(grain_id, faultPlan) gomap \<Rightarrow> fakeStore \<Rightarrow> fakeStore" where
  "setFaultPlans plans s = s\<lparr>fs_plans := fold (\<lambda>(i, plan) m. gm_put i plan m) plans []\<rparr>"

definition setMemberFault :: "memberFaultSpec \<Rightarrow> fakeStore \<Rightarrow> fakeStore" where
  "setMemberFault fault s = s\<lparr>fs_memberFault := fault\<rparr>"

definition setScheduleFault :: "grain_id \<Rightarrow> scheduleFaultSpec \<Rightarrow> fakeStore \<Rightarrow> fakeStore" where
  "setScheduleFault gid fault s =
     (let s1 = s\<lparr>fs_scheduleListFault := no_schedule_fault,
                 fs_scheduleClaimFaults := gm_del gid (fs_scheduleClaimFaults s)\<rparr>
      in if sf_kind fault = scheduleListError \<or> sf_kind fault = scheduleListDelay
         then s1\<lparr>fs_scheduleListFault := fault\<rparr>
         else if sf_kind fault = scheduleClaimError \<or> sf_kind fault = scheduleClaimAppliedError
         then s1\<lparr>fs_scheduleClaimFaults := gm_put gid (sf_kind fault) (fs_scheduleClaimFaults s1)\<rparr>
         else s1)"

definition setScheduleListFault :: "scheduleFaultSpec \<Rightarrow> fakeStore \<Rightarrow> fakeStore" where
  "setScheduleListFault fault s = s\<lparr>fs_scheduleListFault := fault\<rparr>"

definition nodeAddress :: "int \<Rightarrow> string" where
  "nodeAddress node = ''node-'' @ print_int node"

definition fakeStore_faultPlan :: "fakeStore \<Rightarrow> grain_id \<Rightarrow> faultPlan" where
  "fakeStore_faultPlan s gid = gm_get_or no_plan (fs_plans s) gid"

definition setReadBarrier :: "grain_id \<Rightarrow> readBarrier \<Rightarrow> fakeStore \<Rightarrow> fakeStore" where
  "setReadBarrier gid barrier s =
     (if rb_release barrier = None then s\<lparr>fs_readBarriers := gm_del gid (fs_readBarriers s)\<rparr>
      else s\<lparr>fs_readBarriers := gm_put gid barrier (fs_readBarriers s)\<rparr>)"

definition fakeStore_readBarrier :: "fakeStore \<Rightarrow> grain_id \<Rightarrow> readBarrier" where
  "fakeStore_readBarrier s gid = gm_get_or no_barrier (fs_readBarriers s) gid"

definition recordDelay :: "fakeStore \<Rightarrow> fakeStore" where
  "recordDelay s = s\<lparr>fs_delays := fs_delays s + 1\<rparr>"

definition delayCount :: "fakeStore \<Rightarrow> nat" where
  "delayCount s = fs_delays s"

definition beginOperation :: "fakeStore \<Rightarrow> nat \<times> fakeStore" where
  "beginOperation s =
     (let s1 = (if fs_active s = 0 then s\<lparr>fs_idle := fs_chans s, fs_chans := Suc (fs_chans s)\<rparr> else s);
          s2 = s1\<lparr>fs_active := fs_active s1 + 1\<rparr>
      in (fs_idle s2, s2))"

text \<open>Closing a closed channel panics.\<close>

definition endOperation :: "nat \<Rightarrow> fakeStore \<Rightarrow> fakeStore option" where
  "endOperation idle s =
     (let s1 = s\<lparr>fs_active := fs_active s - 1\<rparr>
      in if fs_active s1 \<noteq> 0 then Some s1
         else if idle \<in> set (fs_closed s1) then None
         else Some (s1\<lparr>fs_closed := idle # fs_closed s1\<rparr>))"

text \<open>Whether \<open>waitForIdle\<close> returns: its receive does when the channel it read is closed.\<close>

definition waitForIdle_returns :: "fakeStore \<Rightarrow> bool" where
  "waitForIdle_returns s \<longleftrightarrow> fs_idle s \<in> set (fs_closed s)"

section \<open>Its calls\<close>

definition fakeStore_Read_begin :: "grain_id \<Rightarrow> fakeStore \<Rightarrow> faultSpec \<times> fakeStore" where
  "fakeStore_Read_begin gid s =
     (let plan = fp_read (fakeStore_faultPlan s gid)
      in (plan, if fa_kind plan = faultDelay then recordDelay s else s))"

definition fakeStore_Read_record :: "faultSpec \<Rightarrow> grain_id \<Rightarrow> fakeStore \<Rightarrow> store_record result" where
  "fakeStore_Read_record plan gid s =
     (if fa_kind plan = faultReadError then Inl (Sentinel SimReadFailure)
      else (let r = gm_get_or zero_record (fs_records s) gid in Inr (r\<lparr>rec_Data := clone_bytes (rec_Data r)\<rparr>)))"

definition fakeStore_Write_begin :: "grain_id \<Rightarrow> fakeStore \<Rightarrow> faultSpec \<times> fakeStore" where
  "fakeStore_Write_begin gid s =
     (let plan = fp_write (fakeStore_faultPlan s gid)
      in (plan, if fa_kind plan = faultDelay then recordDelay s else s))"

text \<open>The method returns the tag and an error side by side.\<close>

definition fakeStore_Write_commit ::
    "faultSpec \<Rightarrow> grain_id \<Rightarrow> byte list \<Rightarrow> etag \<Rightarrow> fakeStore \<Rightarrow> (etag \<times> go_error option) \<times> fakeStore" where
  "fakeStore_Write_commit plan gid data expect s =
     (let current = gm_get_or zero_record (fs_records s) gid
      in if rec_ETag current \<noteq> expect then ((0, Some (Sentinel StoreErrConflict)), s)
         else if fa_kind plan = faultWriteError then ((0, Some (Sentinel SimWriteFailure)), s)
         else (let newETag = wrap64 (rec_ETag current + 1);
                   s1 = s\<lparr>fs_records := gm_put gid \<lparr>rec_Data = clone_bytes data, rec_ETag = newETag\<rparr> (fs_records s),
                          fs_writes := fs_writes s @ [WriteEvent gid (clone_bytes data)]\<rparr>
               in ((newETag, if fa_kind plan = faultWriteAppliedError then Some (Sentinel SimAppliedWriteFailure) else None), s1)))"

definition fakeStore_WriteMember_commit ::
    "memberFaultSpec \<Rightarrow> bool \<Rightarrow> bool \<Rightarrow> member \<Rightarrow> fakeStore \<Rightarrow> (etag \<times> go_error option) \<times> fakeStore" where
  "fakeStore_WriteMember_commit fault addressesTarget delayedActiveWrite member s =
     (let key = keyForMember member;
          current = gm_get_or zero_member (fs_members s) key
      in if m_ETag current \<noteq> m_ETag member
         then ((0, Some (Sentinel StoreErrConflict)),
               if delayedActiveWrite \<and> m_Status current = MemberDead
               then s\<lparr>fs_memberStats := (fs_memberStats s)\<lparr>mt_delayedDeadCAS := mt_delayedDeadCAS (fs_memberStats s) + 1\<rparr>\<rparr>
               else s)
         else (let applied = (addressesTarget \<and> mf_kind fault = memberCASAppliedError);
                   s1 = (if applied then s\<lparr>fs_memberFault := no_member_fault\<rparr> else s);
                   written = member\<lparr>m_ETag := wrap64 (m_ETag current + 1)\<rparr>;
                   s2 = s1\<lparr>fs_members := gm_put key written (fs_members s1),
                           fs_memberWrites := fs_memberWrites s1 @ [MemberWriteEvent key (m_Status written)]\<rparr>;
                   s3 = (if m_Status written = MemberDead
                         then s2\<lparr>fs_memberStats := (fs_memberStats s2)\<lparr>mt_deadWrites := mt_deadWrites (fs_memberStats s2) + 1\<rparr>\<rparr>
                         else s2)
               in if applied
                  then ((m_ETag written, Some (Sentinel SimMemberAppliedFailure)),
                        s3\<lparr>fs_memberStats := (fs_memberStats s3)\<lparr>mt_casAppliedErrors := mt_casAppliedErrors (fs_memberStats s3) + 1\<rparr>\<rparr>)
                  else ((m_ETag written, None), s3)))"

text \<open>
  The part of \<open>WriteMember\<close> before a delay: a conflict out of the fault, a sleep, or the commit at once.
\<close>

datatype 'a outcome = Answer 'a | Sleep memberFaultSpec

definition fakeStore_WriteMember_begin ::
    "member \<Rightarrow> fakeStore \<Rightarrow> (etag \<times> go_error option) outcome \<times> fakeStore" where
  "fakeStore_WriteMember_begin member s =
     (let s1 = s\<lparr>fs_memberStats := (fs_memberStats s)\<lparr>mt_writeCalls := mt_writeCalls (fs_memberStats s) + 1\<rparr>\<rparr>;
          fault = fs_memberFault s1;
          addressesTarget = (mf_kind fault \<noteq> memberFaultNone \<and> keyForMember member = ft_row (mf_target fault));
          delayedActiveWrite = (addressesTarget \<and> mf_kind fault = memberDelay \<and> m_Status member = MemberActive \<and> 1 < m_ETag member)
      in if addressesTarget \<and> mf_kind fault = memberCASFailure
         then (Answer (0, Some (Sentinel StoreErrConflict)),
               s1\<lparr>fs_memberFault := no_member_fault,
                  fs_memberStats := (fs_memberStats s1)\<lparr>mt_casConflicts := mt_casConflicts (fs_memberStats s1) + 1\<rparr>\<rparr>)
         else if delayedActiveWrite
         then (Sleep fault,
               recordDelay (s1\<lparr>fs_memberFault := no_member_fault,
                  fs_memberStats := (fs_memberStats s1)\<lparr>mt_delays := mt_delays (fs_memberStats s1) + 1\<rparr>,
                  fs_started := (case mf_started fault of None \<Rightarrow> fs_started s1 | Some c \<Rightarrow> c # fs_started s1)\<rparr>))
         else (case fakeStore_WriteMember_commit fault addressesTarget False member s1 of (a, s2) \<Rightarrow> (Answer a, s2)))"

definition listMembersFor ::
    "(memberClock \<Rightarrow> gtime) \<Rightarrow> string \<Rightarrow> fakeStore \<Rightarrow> member_snapshot result \<times> fakeStore" where
  "listMembersFor reading caller s =
     (let s1 = s\<lparr>fs_memberStats := (fs_memberStats s)\<lparr>mt_listCalls := mt_listCalls (fs_memberStats s) + 1\<rparr>\<rparr>;
          fault = fs_memberFault s1
      in if mf_kind fault = memberListError \<and> caller = ft_addr (mf_target fault)
         then (Inl (Sentinel SimMemberListFailure),
               s1\<lparr>fs_memberFault := no_member_fault,
                  fs_memberStats := (fs_memberStats s1)\<lparr>mt_listErrors := mt_listErrors (fs_memberStats s1) + 1\<rparr>\<rparr>)
         else (Inr \<lparr>ms_Members = sortMembers (map snd (fs_members s1)), ms_TableNow = memberTableNow reading s1\<rparr>, s1))"

definition memberStatsSnapshot :: "fakeStore \<Rightarrow> memberStats" where
  "memberStatsSnapshot s = fs_memberStats s"

text \<open>The loop of \<open>checkMemberStatuses\<close> over the events that are left, \<open>dead\<close> the keys seen dead.\<close>

fun checkMemberStatuses_loop :: "member_id list \<Rightarrow> memberWriteEvent list \<Rightarrow> go_error option" where
  "checkMemberStatuses_loop dead [] = None"
| "checkMemberStatuses_loop dead (event # events) =
     (if mw_key event \<in> set dead \<and> mw_status event \<noteq> MemberDead
      then Some (NewErr ''dead member became active again'')
      else checkMemberStatuses_loop (if mw_status event = MemberDead then mw_key event # dead else dead) events)"

definition checkMemberStatuses :: "fakeStore \<Rightarrow> go_error option" where
  "checkMemberStatuses s = checkMemberStatuses_loop [] (fs_memberWrites s)"

definition snapshotDue :: "gtime \<Rightarrow> string \<Rightarrow> fakeStore \<Rightarrow> (reminder list \<times> scheduleFaultSpec) \<times> fakeStore" where
  "snapshotDue now caller s =
     (let s1 = s\<lparr>fs_stats := (fs_stats s)\<lparr>ss_listCalls := ss_listCalls (fs_stats s) + 1\<rparr>\<rparr>;
          result = sortReminders (filter (\<lambda>r. \<not> now < r_DueAt r) (map snd (fs_reminders s1)));
          fault = fs_scheduleListFault s1
      in if sf_kind fault \<noteq> scheduleFaultNone \<and> caller \<noteq> nodeAddress (sf_targetNode fault)
         then ((result, no_schedule_fault), s1)
         else if sf_kind fault = scheduleListDelay \<and> result = [] then ((result, no_schedule_fault), s1)
         else (let s2 = s1\<lparr>fs_scheduleListFault := no_schedule_fault\<rparr>;
                   st = fs_stats s2
               in ((result, fault),
                   s2\<lparr>fs_stats :=
                     (if sf_kind fault = scheduleListError then st\<lparr>ss_listErrors := ss_listErrors st + 1\<rparr>
                      else if sf_kind fault = scheduleListDelay then st\<lparr>ss_listDelays := ss_listDelays st + 1\<rparr>
                      else st)\<rparr>)))"

definition fakeStore_Claim :: "reminder \<Rightarrow> gtime \<Rightarrow> fakeStore \<Rightarrow> bool result \<times> fakeStore" where
  "fakeStore_Claim schedule nextDueAt s =
     (let key = keyForReminder schedule; st = fs_stats s
      in case gm_get (fs_reminders s) key of
           None \<Rightarrow> (Inr False, s\<lparr>fs_stats := st\<lparr>ss_claimLost := ss_claimLost st + 1\<rparr>\<rparr>)
         | Some current \<Rightarrow>
             if r_ETag current \<noteq> r_ETag schedule then (Inr False, s\<lparr>fs_stats := st\<lparr>ss_claimLost := ss_claimLost st + 1\<rparr>\<rparr>)
             else (let fault = gm_get_or scheduleFaultNone (fs_scheduleClaimFaults s) (r_GrainId schedule);
                       s1 = s\<lparr>fs_scheduleClaimFaults := gm_del (r_GrainId schedule) (fs_scheduleClaimFaults s)\<rparr>
                   in if fault = scheduleClaimError
                      then (Inl (Sentinel SimScheduleClaimFailure), s1\<lparr>fs_stats := st\<lparr>ss_claimErrors := ss_claimErrors st + 1\<rparr>\<rparr>)
                      else (let rows = (if time_is_zero nextDueAt then gm_del key (fs_reminders s1)
                                        else gm_put key (current\<lparr>r_DueAt := nextDueAt, r_ETag := wrap64 (r_ETag current + 1)\<rparr>)
                                               (fs_reminders s1));
                                applied = (fault = scheduleClaimAppliedError);
                                st1 = st\<lparr>ss_claimWon := ss_claimWon st + 1\<rparr>;
                                st2 = (if applied then st1\<lparr>ss_claimAppliedErrors := ss_claimAppliedErrors st1 + 1\<rparr> else st1);
                                s2 = s1\<lparr>fs_reminders := rows, fs_stats := st2,
                                        fs_timerTracker := timerTracker_claim (r_GrainId schedule) (\<not> applied) (fs_timerTracker s1)\<rparr>
                            in (if applied then Inl (Sentinel SimScheduleClaimAppliedFailure) else Inr True, s2))))"

definition fakeStore_Put :: "reminder \<Rightarrow> fakeStore \<Rightarrow> fakeStore" where
  "fakeStore_Put schedule s =
     (let key = keyForReminder schedule;
          tag = (case gm_get (fs_reminders s) key of None \<Rightarrow> 1 | Some current \<Rightarrow> wrap64 (r_ETag current + 1))
      in s\<lparr>fs_reminders := gm_put key (schedule\<lparr>r_ETag := tag\<rparr>) (fs_reminders s)\<rparr>)"

definition fakeStore_Delete :: "grain_id \<Rightarrow> string \<Rightarrow> fakeStore \<Rightarrow> fakeStore" where
  "fakeStore_Delete gid name s = s\<lparr>fs_reminders := gm_del (ReminderKey gid name) (fs_reminders s)\<rparr>"

definition fakeStore_snapshot :: "fakeStore \<Rightarrow> grain_id list \<Rightarrow> (grain_id, store_record) gomap" where
  "fakeStore_snapshot s ids =
     fold (\<lambda>i m. let r = gm_get_or zero_record (fs_records s) i in gm_put i (r\<lparr>rec_Data := clone_bytes (rec_Data r)\<rparr>) m) ids []"

text \<open>An offset beyond the log makes \<open>make\<close> panic.\<close>

definition committedWritesSince :: "fakeStore \<Rightarrow> nat \<Rightarrow> (writeEvent list \<times> nat) option" where
  "committedWritesSince s offset =
     (if length (fs_writes s) < offset then None
      else Some (map (\<lambda>e. WriteEvent (we_id e) (clone_bytes (we_data e))) (drop offset (fs_writes s)), length (fs_writes s)))"

section \<open>Calls in flight\<close>

datatype store_call =
    CallRead grain_id | CallWrite grain_id "byte list" etag
  | CallWriteMember member | CallListMembers string
  | CallListDue string gtime | CallClaim reminder gtime | CallPut reminder | CallDelete grain_id string

datatype store_answer =
    AnsRecord "store_record result" | AnsTag etag "go_error option" | AnsMembers "member_snapshot result"
  | AnsDue "reminder list result" | AnsClaim "bool result" | AnsUnit

datatype flight =
    Reading grain_id faultSpec | Held store_record
  | Writing grain_id "byte list" etag faultSpec
  | MemberSleeping member memberFaultSpec | DueSleeping "reminder list"
  | Answered store_answer

fun fakeStore_start :: "(memberClock \<Rightarrow> gtime) \<Rightarrow> store_call \<Rightarrow> fakeStore \<Rightarrow> flight \<times> fakeStore" where
  "fakeStore_start reading (CallRead gid) s =
     (case fakeStore_Read_begin gid s of (plan, s1) \<Rightarrow> (Reading gid plan, s1))"
| "fakeStore_start reading (CallWrite gid data expect) s =
     (case fakeStore_Write_begin gid s of (plan, s1) \<Rightarrow> (Writing gid data expect plan, s1))"
| "fakeStore_start reading (CallWriteMember member) s =
     (case fakeStore_WriteMember_begin member s of
        (Answer (tag, err), s1) \<Rightarrow> (Answered (AnsTag tag err), s1)
      | (Sleep fault, s1) \<Rightarrow> (MemberSleeping member fault, s1))"
| "fakeStore_start reading (CallListMembers caller) s =
     (case listMembersFor reading caller s of (res, s1) \<Rightarrow> (Answered (AnsMembers res), s1))"
| "fakeStore_start reading (CallListDue caller now) s =
     (case snapshotDue now caller s of
        ((result, fault), s1) \<Rightarrow>
          if sf_kind fault = scheduleListError then (Answered (AnsDue (Inl (Sentinel SimScheduleListFailure))), s1)
          else if sf_kind fault = scheduleListDelay then (DueSleeping result, recordDelay s1)
          else (Answered (AnsDue (Inr result)), s1))"
| "fakeStore_start reading (CallClaim schedule nextDueAt) s =
     (case fakeStore_Claim schedule nextDueAt s of (res, s1) \<Rightarrow> (Answered (AnsClaim res), s1))"
| "fakeStore_start reading (CallPut schedule) s = (Answered AnsUnit, fakeStore_Put schedule s)"
| "fakeStore_start reading (CallDelete gid name) s = (Answered AnsUnit, fakeStore_Delete gid name s)"

text \<open>A call goes on when its sleep is over or its barrier is released; \<open>None\<close> when it has its answer.\<close>

fun fakeStore_resume :: "flight \<Rightarrow> fakeStore \<Rightarrow> (flight \<times> fakeStore) option" where
  "fakeStore_resume (Reading gid plan) s =
     Some (case fakeStore_Read_record plan gid s of
        Inl e \<Rightarrow> (Answered (AnsRecord (Inl e)), s)
      | Inr r \<Rightarrow> if fakeStore_readBarrier s gid = no_barrier then (Answered (AnsRecord (Inr r)), s) else (Held r, s))"
| "fakeStore_resume (Held r) s = Some (Answered (AnsRecord (Inr r)), s)"
| "fakeStore_resume (Writing gid data expect plan) s =
     Some (case fakeStore_Write_commit plan gid data expect s of ((tag, err), s1) \<Rightarrow> (Answered (AnsTag tag err), s1))"
| "fakeStore_resume (MemberSleeping member fault) s =
     Some (case fakeStore_WriteMember_commit fault True True member s of ((tag, err), s1) \<Rightarrow> (Answered (AnsTag tag err), s1))"
| "fakeStore_resume (DueSleeping result) s = Some (Answered (AnsDue (Inr result)), s)"
| "fakeStore_resume (Answered a) s = None"

text \<open>What the driver and the entities do to the store between calls.\<close>

datatype driver_op =
    SetMemberClock memberClock | SetFaultPlans "(grain_id, faultPlan) gomap" | SetMemberFault memberFaultSpec
  | SetScheduleFault grain_id scheduleFaultSpec | SetScheduleListFault scheduleFaultSpec
  | SetReadBarrier grain_id readBarrier | Deliver grain_id

fun driver_exec :: "driver_op \<Rightarrow> fakeStore \<Rightarrow> fakeStore" where
  "driver_exec (SetMemberClock c) s = setMemberClock c s"
| "driver_exec (SetFaultPlans plans) s = setFaultPlans plans s"
| "driver_exec (SetMemberFault fault) s = setMemberFault fault s"
| "driver_exec (SetScheduleFault gid fault) s = setScheduleFault gid fault s"
| "driver_exec (SetScheduleListFault fault) s = setScheduleListFault fault s"
| "driver_exec (SetReadBarrier gid barrier) s = setReadBarrier gid barrier s"
| "driver_exec (Deliver gid) s = s\<lparr>fs_timerTracker := timerTracker_deliver gid (fs_timerTracker s)\<rparr>"

text \<open>
  A state of the simulation's store: its value and the calls in flight, each with the channel
  \<open>beginOperation\<close> gave it. \<open>None\<close> stands for a panic.
\<close>

type_synonym store_state = "fakeStore \<times> (nat \<times> flight) list"

datatype store_event = Start store_call | Resume nat | Finish nat | Drive driver_op

fun store_exec :: "(memberClock \<Rightarrow> gtime) \<Rightarrow> store_event \<Rightarrow> store_state \<Rightarrow> store_state option" where
  "store_exec reading (Start call) (s, fl) =
     (case beginOperation s of (idle, s1) \<Rightarrow>
        case fakeStore_start reading call s1 of (f, s2) \<Rightarrow> Some (s2, fl @ [(idle, f)]))"
| "store_exec reading (Resume i) (s, fl) =
     (if i < length fl
      then (case fakeStore_resume (snd (fl ! i)) s of
              None \<Rightarrow> Some (s, fl)
            | Some (f, s1) \<Rightarrow> Some (s1, fl[i := (fst (fl ! i), f)]))
      else Some (s, fl))"
| "store_exec reading (Finish i) (s, fl) =
     (if i < length fl
      then (case snd (fl ! i) of
              Answered a \<Rightarrow> map_option (\<lambda>s1. (s1, drop_nth i fl)) (endOperation (fst (fl ! i)) s)
            | _ \<Rightarrow> Some (s, fl))
      else Some (s, fl))"
| "store_exec reading (Drive op) (s, fl) = Some (driver_exec op s, fl)"

primrec store_run :: "(memberClock \<Rightarrow> gtime) \<Rightarrow> store_event list \<Rightarrow> store_state \<Rightarrow> store_state option" where
  "store_run reading [] st = Some st"
| "store_run reading (e # es) st = Option.bind (store_exec reading e st) (store_run reading es)"

section \<open>Quiescence\<close>

interpretation store_gate: idle_gate fs_active fs_idle fs_chans fs_closed beginOperation endOperation
  by unfold_locales (auto simp: beginOperation_def endOperation_def Let_def)

lemmas record_call_defs = fakeStore_Read_begin_def fakeStore_Write_begin_def recordDelay_def Let_def
lemmas member_call_defs = fakeStore_WriteMember_begin_def fakeStore_WriteMember_commit_def listMembersFor_def recordDelay_def Let_def
lemmas reminder_call_defs = snapshotDue_def fakeStore_Claim_def fakeStore_Put_def fakeStore_Delete_def recordDelay_def Let_def
lemmas driver_defs = setMemberClock_def setFaultPlans_def setMemberFault_def setScheduleFault_def setScheduleListFault_def
  setReadBarrier_def Let_def

text \<open>A segment of a call never touches the gate.\<close>

definition same_gate :: "fakeStore \<Rightarrow> fakeStore \<Rightarrow> bool" where
  "same_gate s s' \<longleftrightarrow> fs_active s' = fs_active s \<and> fs_idle s' = fs_idle s \<and> fs_chans s' = fs_chans s \<and> fs_closed s' = fs_closed s"

lemma member_commit_fields [simp]:
  "fs_active (snd (fakeStore_WriteMember_commit fault a d m s)) = fs_active s"
  "fs_idle (snd (fakeStore_WriteMember_commit fault a d m s)) = fs_idle s"
  "fs_chans (snd (fakeStore_WriteMember_commit fault a d m s)) = fs_chans s"
  "fs_closed (snd (fakeStore_WriteMember_commit fault a d m s)) = fs_closed s"
  by (simp_all add: fakeStore_WriteMember_commit_def Let_def)

lemma member_begin_gate: "same_gate s (snd (fakeStore_WriteMember_begin m s))"
  by (simp add: fakeStore_WriteMember_begin_def Let_def same_gate_def recordDelay_def split_beta)

lemma start_gate: "same_gate s (snd (fakeStore_start reading call s))"
proof (cases call)
  case (CallWriteMember m)
  then show ?thesis using member_begin_gate [of s m] by (auto split: prod.split outcome.split)
next
  case (CallClaim r t)
  then show ?thesis by (auto simp: fakeStore_Claim_def Let_def same_gate_def split: prod.split option.split)
qed (auto simp: record_call_defs listMembersFor_def snapshotDue_def fakeStore_Put_def fakeStore_Delete_def same_gate_def split: prod.split)

lemma resume_gate: "fakeStore_resume f s = Some (f', s') \<Longrightarrow> same_gate s s'"
proof (cases f)
  case (MemberSleeping m fault)
  assume "fakeStore_resume f s = Some (f', s')"
  then show ?thesis by (auto simp: MemberSleeping same_gate_def split_beta)
qed (auto simp: fakeStore_Write_commit_def same_gate_def Let_def split: sum.splits if_splits prod.splits)

lemma driver_gate: "same_gate s (driver_exec op s)"
  by (cases op) (auto simp: driver_defs same_gate_def)

lemma gate_same: "same_gate s s' \<Longrightarrow> store_gate.gate_ok s' ts = store_gate.gate_ok s ts"
  by (simp add: same_gate_def store_gate.gate_ok_def)

lemma store_exec_gate:
  assumes "store_gate.gate_ok s (map fst fl)"
  shows "\<exists>s' fl'. store_exec reading e (s, fl) = Some (s', fl') \<and> store_gate.gate_ok s' (map fst fl')"
proof (cases e)
  case (Start call)
  obtain idle s1 where b: "beginOperation s = (idle, s1)" by force
  obtain f s2 where c: "fakeStore_start reading call s1 = (f, s2)" by force
  have "same_gate s1 s2" using start_gate [of s1 reading call] c by simp
  then show ?thesis using store_gate.gate_enter [OF assms b] gate_same by (simp add: Start b c)
next
  case (Resume i)
  show ?thesis
  proof (cases "i < length fl \<and> fakeStore_resume (snd (fl ! i)) s \<noteq> None")
    case True
    then obtain f s1 where r: "fakeStore_resume (snd (fl ! i)) s = Some (f, s1)" by auto
    have "map fst (fl[i := (fst (fl ! i), f)]) = map fst fl" using True by (simp add: map_update list_update_same_conv)
    then show ?thesis using True r gate_same [OF resume_gate [OF r]] assms by (simp add: Resume)
  next
    case False
    then show ?thesis using assms by (cases "fakeStore_resume (snd (fl ! i)) s") (auto simp: Resume)
  qed
next
  case (Finish i)
  show ?thesis
  proof (cases "i < length fl \<and> (\<exists>a. snd (fl ! i) = Answered a)")
    case True
    then obtain a where a: "snd (fl ! i) = Answered a" and i: "i < length fl" by auto
    from store_gate.gate_leave [OF assms, of i] i obtain s' where
      "endOperation (fst (fl ! i)) s = Some s'" "store_gate.gate_ok s' (drop_nth i (map fst fl))" by auto
    then show ?thesis using a i by (simp add: Finish map_drop_nth)
  next
    case False
    then show ?thesis using assms by (auto simp: Finish split: flight.split)
  qed
next
  case (Drive op)
  then show ?thesis using assms gate_same [OF driver_gate] by simp
qed

lemma store_run_gate:
  "store_gate.gate_ok (fst st) (map fst (snd st)) \<Longrightarrow>
    \<exists>s' fl'. store_run reading es st = Some (s', fl') \<and> store_gate.gate_ok s' (map fst fl')"
proof (induction es arbitrary: st)
  case (Cons e es)
  obtain s fl where st: "st = (s, fl)" by force
  from store_exec_gate [of s fl reading e] Cons.prems obtain s' fl' where
    "store_exec reading e st = Some (s', fl')" "store_gate.gate_ok s' (map fst fl')" by (auto simp: st)
  then show ?case using Cons.IH [of "(s', fl')"] by simp
qed auto

lemma newFakeStore_gate: "store_gate.gate_ok (newFakeStore t) []"
  by (simp add: store_gate.gate_ok_def newFakeStore_def)

section \<open>The tables are those of the in-memory store\<close>

definition fake_memory :: "fakeStore \<Rightarrow> memory" where
  "fake_memory s = \<lparr>mem_records = fs_records s, mem_reminders = fs_reminders s, mem_members = fs_members s\<rparr>"

text \<open>
  A call that took effect (\<open>won\<close>) under a fate: it stays as it is, it fails and leaves no effect, or it fails
  with its effect. A call that was refused stays refused.
\<close>

fun under_fate :: "('r \<Rightarrow> bool) \<Rightarrow> fate \<Rightarrow> memory \<Rightarrow> 'r result \<times> memory \<Rightarrow> 'r result \<times> memory" where
  "under_fate won fate m (Inl e, m') = (Inl e, m')"
| "under_fate won fate m (Inr r, m') =
     (if \<not> won r then (Inr r, m')
      else case fate of Runs \<Rightarrow> (Inr r, m') | FailsBefore e \<Rightarrow> (Inl e, m) | FailsAfter e \<Rightarrow> (Inl e, m'))"

lemma under_fate_Runs [simp]: "under_fate won Runs m out = out"
  by (cases "(won, Runs, m, out)" rule: under_fate.cases) auto

definition tag_result :: "etag \<times> go_error option \<Rightarrow> etag result" where
  "tag_result a = (case snd a of None \<Rightarrow> Inr (fst a) | Some e \<Rightarrow> Inl e)"

definition write_fate :: "faultSpec \<Rightarrow> fate" where
  "write_fate plan =
     (if fa_kind plan = faultWriteError then FailsBefore (Sentinel SimWriteFailure)
      else if fa_kind plan = faultWriteAppliedError then FailsAfter (Sentinel SimAppliedWriteFailure) else Runs)"

definition member_fate :: "memberFaultSpec \<Rightarrow> bool \<Rightarrow> fate" where
  "member_fate fault addressesTarget =
     (if addressesTarget \<and> mf_kind fault = memberCASFailure then FailsBefore (Sentinel StoreErrConflict)
      else if addressesTarget \<and> mf_kind fault = memberCASAppliedError then FailsAfter (Sentinel SimMemberAppliedFailure)
      else Runs)"

definition claim_fate :: "scheduleFaultKind \<Rightarrow> fate" where
  "claim_fate fault =
     (if fault = scheduleClaimError then FailsBefore (Sentinel SimScheduleClaimFailure)
      else if fault = scheduleClaimAppliedError then FailsAfter (Sentinel SimScheduleClaimAppliedFailure) else Runs)"

lemma fake_memory_simps [simp]:
  "mem_records (fake_memory s) = fs_records s" "mem_reminders (fake_memory s) = fs_reminders s"
  "mem_members (fake_memory s) = fs_members s"
  by (simp_all add: fake_memory_def)

lemma write_commit_fate:
  assumes "fakeStore_Write_commit plan gid data expect s = (a, s')"
  shows "(tag_result a, fake_memory s') =
    under_fate (\<lambda>_. True) (write_fate plan) (fake_memory s) (Memory_Write None (fake_memory s) gid data expect)"
  using assms by (auto simp: fakeStore_Write_commit_def Memory_Write_def Let_def tag_result_def write_fate_def fake_memory_def split: if_splits)

lemma member_commit_fate:
  assumes "fakeStore_WriteMember_commit fault addressesTarget delayed m s = (a, s')" and "mf_kind fault \<noteq> memberCASFailure \<or> \<not> addressesTarget"
  shows "(tag_result a, fake_memory s') =
    under_fate (\<lambda>_. True) (member_fate fault addressesTarget) (fake_memory s) (Memory_WriteMember None (fake_memory s) m)"
  using assms by (auto simp: fakeStore_WriteMember_commit_def Memory_WriteMember_def Let_def tag_result_def member_fate_def fake_memory_def split: if_splits)

lemma claim_fate_memory:
  assumes "fakeStore_Claim r nxt s = (res, s')"
  shows "(res, fake_memory s') =
    under_fate (\<lambda>won. won) (claim_fate (gm_get_or scheduleFaultNone (fs_scheduleClaimFaults s) (r_GrainId r))) (fake_memory s)
      (Memory_Claim None (fake_memory s) r nxt)"
proof (cases "gm_get (fs_reminders s) (keyForReminder r)")
  case None
  then show ?thesis using assms by (auto simp: fakeStore_Claim_def Memory_Claim_def Let_def fake_memory_def)
next
  case (Some current)
  then show ?thesis using assms
    by (auto simp: fakeStore_Claim_def Memory_Claim_def Let_def fake_memory_def claim_fate_def split: if_splits)
qed

text \<open>The three ways through the beginning of \<open>WriteMember\<close>.\<close>

lemma member_begin_fate:
  "(case fakeStore_WriteMember_begin m s of
      (Answer a, s') \<Rightarrow> (tag_result a, fake_memory s') =
        under_fate (\<lambda>_. True) (member_fate (fs_memberFault s) (keyForMember m = ft_row (mf_target (fs_memberFault s)))) (fake_memory s)
          (Memory_WriteMember None (fake_memory s) m)
    | (Sleep fault, s') \<Rightarrow> fake_memory s' = fake_memory s \<and> mf_kind fault = memberDelay)"
proof -
  let ?fault = "fs_memberFault s"
  let ?addr = "mf_kind ?fault \<noteq> memberFaultNone \<and> keyForMember m = ft_row (mf_target ?fault)"
  let ?delay = "?addr \<and> mf_kind ?fault = memberDelay \<and> m_Status m = MemberActive \<and> 1 < m_ETag m"
  let ?s1 = "s\<lparr>fs_memberStats := (fs_memberStats s)\<lparr>mt_writeCalls := mt_writeCalls (fs_memberStats s) + 1\<rparr>\<rparr>"
  consider "?addr \<and> mf_kind ?fault = memberCASFailure" | "\<not> (?addr \<and> mf_kind ?fault = memberCASFailure)" "?delay"
    | "\<not> (?addr \<and> mf_kind ?fault = memberCASFailure)" "\<not> ?delay"
    by blast
  then show ?thesis
  proof cases
    case 1
    have "under_fate (\<lambda>_. True) (FailsBefore (Sentinel StoreErrConflict)) (fake_memory s) (Memory_WriteMember None (fake_memory s) m) =
        (Inl (Sentinel StoreErrConflict), fake_memory s)"
      by (simp add: Memory_WriteMember_def Let_def)
    then show ?thesis using 1
      by (simp add: fakeStore_WriteMember_begin_def Let_def member_fate_def tag_result_def fake_memory_def)
  next
    case 2
    then show ?thesis by (simp add: fakeStore_WriteMember_begin_def Let_def recordDelay_def fake_memory_def)
  next
    case 3
    obtain a s2 where c: "fakeStore_WriteMember_commit ?fault ?addr False m ?s1 = (a, s2)" using prod.exhaust by blast
    have b: "fakeStore_WriteMember_begin m s = (Answer a, s2)"
      using 3 c by (auto simp: fakeStore_WriteMember_begin_def Let_def)
    have m: "fake_memory ?s1 = fake_memory s" by (simp add: fake_memory_def)
    have "member_fate ?fault ?addr = member_fate ?fault (keyForMember m = ft_row (mf_target ?fault))"
      by (auto simp: member_fate_def)
    moreover have "mf_kind ?fault \<noteq> memberCASFailure \<or> \<not> ?addr" using 3(1) by blast
    ultimately show ?thesis using member_commit_fate [OF c] unfolding b m by simp
  qed
qed

lemma under_fate_memory: "snd (under_fate won fate m out) = m \<or> snd (under_fate won fate m out) = snd out"
  by (cases "(won, fate, m, out)" rule: under_fate.cases) (auto split: fate.split)

text \<open>One segment of a call applies at most one operation to the tables.\<close>

definition one_op :: "memory \<Rightarrow> memory \<Rightarrow> bool" where
  "one_op m m' \<longleftrightarrow> m' = m \<or> (\<exists>op. m' = memory_step m op)"

lemma one_op_refl [simp]: "one_op m m"
  by (simp add: one_op_def)

lemma one_op_fate: "(r, m') = under_fate won fate m out \<Longrightarrow> snd out = memory_step m op \<Longrightarrow> one_op m m'"
  using under_fate_memory [of won fate m out] by (cases "under_fate won fate m out") (auto simp: one_op_def)

lemma one_op_write: "fakeStore_Write_commit plan gid data expect s = (a, s') \<Longrightarrow> one_op (fake_memory s) (fake_memory s')"
  by (drule write_commit_fate) (erule one_op_fate [where op = "OpWrite gid data expect"], simp)

lemma one_op_member_commit:
  assumes "fakeStore_WriteMember_commit fault addressesTarget delayed m s = (a, s')"
  shows "one_op (fake_memory s) (fake_memory s')"
proof -
  have "fake_memory s' = fake_memory s \<or> fake_memory s' = snd (Memory_WriteMember None (fake_memory s) m)"
    using assms by (auto simp: fakeStore_WriteMember_commit_def Memory_WriteMember_def Let_def fake_memory_def split: if_splits)
  then show ?thesis by (metis memory_step.simps(2) one_op_def)
qed

lemma one_op_member_begin: "one_op (fake_memory s) (fake_memory (snd (fakeStore_WriteMember_begin m s)))"
proof -
  let ?s1 = "s\<lparr>fs_memberStats := (fs_memberStats s)\<lparr>mt_writeCalls := mt_writeCalls (fs_memberStats s) + 1\<rparr>\<rparr>"
  have "fake_memory ?s1 = fake_memory s" by (simp add: fake_memory_def)
  then have "one_op (fake_memory s) (fake_memory (snd (fakeStore_WriteMember_commit f a d m ?s1)))" for f a d
    using one_op_member_commit [of f a d m ?s1] by (metis prod.collapse)
  then show ?thesis
    by (simp add: fakeStore_WriteMember_begin_def Let_def split_beta) (simp add: fake_memory_def one_op_def recordDelay_def)
qed

lemma one_op_start: "one_op (fake_memory s) (fake_memory (snd (fakeStore_start reading call s)))"
proof (cases call)
  case (CallWriteMember m)
  then show ?thesis using one_op_member_begin [of s m] by (auto split: prod.split outcome.split)
next
  case (CallClaim r t)
  obtain res s' where c: "fakeStore_Claim r t s = (res, s')" by force
  have "one_op (fake_memory s) (fake_memory s')"
    by (rule one_op_fate [OF claim_fate_memory [OF c], where op = "OpClaim r t"]) simp
  then show ?thesis using c by (simp add: CallClaim)
next
  case (CallPut r)
  have "fake_memory (fakeStore_Put r s) = memory_step (fake_memory s) (OpPut r)"
    by (simp add: fakeStore_Put_def Memory_Put_def Let_def fake_memory_def)
  then have "one_op (fake_memory s) (fake_memory (fakeStore_Put r s))" unfolding one_op_def by blast
  then show ?thesis by (simp add: CallPut)
next
  case (CallDelete gid name)
  have "fake_memory (fakeStore_Delete gid name s) = memory_step (fake_memory s) (OpDelete gid name)"
    by (simp add: fakeStore_Delete_def Memory_Delete_def fake_memory_def)
  then have "one_op (fake_memory s) (fake_memory (fakeStore_Delete gid name s))" unfolding one_op_def by blast
  then show ?thesis by (simp add: CallDelete)
qed (auto simp: record_call_defs listMembersFor_def snapshotDue_def fake_memory_def one_op_def split: prod.split)

lemma one_op_resume: "fakeStore_resume f s = Some (f', s') \<Longrightarrow> one_op (fake_memory s) (fake_memory s')"
  by (cases f) (auto dest: one_op_write one_op_member_commit
      split: sum.splits prod.splits if_splits)

section \<open>The logs of committed writes\<close>

definition writes_to :: "fakeStore \<Rightarrow> grain_id \<Rightarrow> writeEvent list" where
  "writes_to s gid = filter (\<lambda>e. we_id e = gid) (fs_writes s)"

definition member_events :: "memberWriteEvent list \<Rightarrow> member_id \<Rightarrow> memberWriteEvent list" where
  "member_events es k = filter (\<lambda>e. mw_key e = k) es"

text \<open>The last write of a record is its content, and its tag counts the writes as long as the count fits.\<close>

definition record_logged :: "fakeStore \<Rightarrow> grain_id \<Rightarrow> bool" where
  "record_logged s gid \<longleftrightarrow>
     (gm_get (fs_records s) gid = None \<longrightarrow> writes_to s gid = []) \<and>
     (\<forall>r. gm_get (fs_records s) gid = Some r \<longrightarrow>
        writes_to s gid \<noteq> [] \<and> we_data (last (writes_to s gid)) = rec_Data r \<and>
        (int (length (fs_writes s)) \<le> max_int64 \<longrightarrow> rec_ETag r = int (length (writes_to s gid))))"

definition member_logged :: "fakeStore \<Rightarrow> member_id \<Rightarrow> bool" where
  "member_logged s k \<longleftrightarrow>
     (gm_get (fs_members s) k = None \<longrightarrow> member_events (fs_memberWrites s) k = []) \<and>
     (\<forall>m. gm_get (fs_members s) k = Some m \<longrightarrow>
        member_events (fs_memberWrites s) k \<noteq> [] \<and> mw_status (last (member_events (fs_memberWrites s) k)) = m_Status m)"

definition logs_ok :: "fakeStore \<Rightarrow> bool" where
  "logs_ok s \<longleftrightarrow> (\<forall>gid. record_logged s gid) \<and> (\<forall>k. member_logged s k)"

lemma logs_frame:
  "logs_ok s \<Longrightarrow> fs_records s' = fs_records s \<Longrightarrow> fs_writes s' = fs_writes s \<Longrightarrow> fs_members s' = fs_members s \<Longrightarrow>
    fs_memberWrites s' = fs_memberWrites s \<Longrightarrow> logs_ok s'"
  by (simp add: logs_ok_def record_logged_def member_logged_def writes_to_def)

text \<open>Whether the log was only extended, so that earlier observations of it stay true.\<close>

definition extends :: "fakeStore \<Rightarrow> fakeStore \<Rightarrow> bool" where
  "extends s s' \<longleftrightarrow> (\<exists>new. fs_writes s' = fs_writes s @ new)"

lemma extends_refl [simp]: "extends s s"
  by (simp add: extends_def)

lemma extends_trans: "extends s s1 \<Longrightarrow> extends s1 s2 \<Longrightarrow> extends s s2"
  by (auto simp: extends_def)

lemma record_tag_fits:
  assumes "record_logged s gid" and "int (length (fs_writes s)) < max_int64"
  shows "wrap64 (rec_ETag (gm_get_or zero_record (fs_records s) gid) + 1) = int (length (writes_to s gid)) + 1"
proof -
  have "length (writes_to s gid) \<le> length (fs_writes s)" by (simp add: writes_to_def)
  moreover have "rec_ETag (gm_get_or zero_record (fs_records s) gid) = int (length (writes_to s gid))"
    using assms by (auto simp: record_logged_def gm_get_or_def zero_record_def split: option.splits)
  ultimately show ?thesis using assms(2) by (simp add: wrap64_tag)
qed

lemma write_commit_logs:
  assumes "logs_ok s" and "fakeStore_Write_commit plan gid data expect s = (a, s')"
  shows "logs_ok s' \<and> extends s s'"
proof (cases "fs_writes s' = fs_writes s")
  case True
  then have "s' = s" using assms(2) by (auto simp: fakeStore_Write_commit_def Let_def split: if_splits)
  with assms(1) show ?thesis by simp
next
  case False
  let ?tag = "wrap64 (rec_ETag (gm_get_or zero_record (fs_records s) gid) + 1)"
  from False have s': "s' = s\<lparr>fs_records := gm_put gid \<lparr>rec_Data = data, rec_ETag = ?tag\<rparr> (fs_records s),
      fs_writes := fs_writes s @ [WriteEvent gid data]\<rparr>"
    using assms(2) by (auto simp: fakeStore_Write_commit_def Let_def split: if_splits)
  have f: "fs_records s' = gm_put gid \<lparr>rec_Data = data, rec_ETag = ?tag\<rparr> (fs_records s)"
    "fs_writes s' = fs_writes s @ [WriteEvent gid data]" "fs_members s' = fs_members s" "fs_memberWrites s' = fs_memberWrites s"
    by (simp_all add: s')
  have w: "writes_to s' g = writes_to s g @ (if g = gid then [WriteEvent gid data] else [])" for g
    by (simp add: f writes_to_def)
  have rec: "record_logged s g" for g using assms(1) by (simp add: logs_ok_def)
  have "record_logged s' g" for g
  proof (cases "g = gid")
    case True
    then show ?thesis using record_tag_fits [OF rec [of gid]] by (auto simp: record_logged_def w f go_map_simps)
  next
    case False
    then show ?thesis using rec [of g] by (auto simp: record_logged_def w f go_map_simps)
  qed
  moreover have "member_logged s' k" for k using assms(1) by (simp add: logs_ok_def member_logged_def f)
  ultimately show ?thesis by (auto simp: logs_ok_def extends_def f)
qed

text \<open>A member write is refused, or it stores the row and logs its status.\<close>

lemma member_commit_tables [simp]:
  "fs_members (snd (fakeStore_WriteMember_commit fault addr delayed m s)) =
    (if m_ETag (gm_get_or zero_member (fs_members s) (keyForMember m)) \<noteq> m_ETag m then fs_members s
     else gm_put (keyForMember m) (m\<lparr>m_ETag := wrap64 (m_ETag m + 1)\<rparr>) (fs_members s))"
  "fs_memberWrites (snd (fakeStore_WriteMember_commit fault addr delayed m s)) =
    (if m_ETag (gm_get_or zero_member (fs_members s) (keyForMember m)) \<noteq> m_ETag m then fs_memberWrites s
     else fs_memberWrites s @ [MemberWriteEvent (keyForMember m) (m_Status m)])"
  "fs_records (snd (fakeStore_WriteMember_commit fault addr delayed m s)) = fs_records s"
  "fs_writes (snd (fakeStore_WriteMember_commit fault addr delayed m s)) = fs_writes s"
  by (simp_all add: fakeStore_WriteMember_commit_def Let_def)

lemma member_commit_logs:
  assumes "logs_ok s"
  shows "logs_ok (snd (fakeStore_WriteMember_commit fault addr delayed m s))"
proof (cases "m_ETag (gm_get_or zero_member (fs_members s) (keyForMember m)) = m_ETag m")
  case True
  let ?s = "snd (fakeStore_WriteMember_commit fault addr delayed m s)"
  have "member_logged ?s k" for k
    using assms True by (auto simp: logs_ok_def member_logged_def member_events_def go_map_simps)
  moreover have "record_logged ?s g" for g
    using assms by (simp add: logs_ok_def record_logged_def writes_to_def)
  ultimately show ?thesis by (simp add: logs_ok_def)
qed (rule logs_frame [OF assms]; simp)

lemma member_begin_cases:
  obtains (same) "fs_records (snd (fakeStore_WriteMember_begin m s)) = fs_records s" "fs_writes (snd (fakeStore_WriteMember_begin m s)) = fs_writes s"
      "fs_members (snd (fakeStore_WriteMember_begin m s)) = fs_members s"
      "fs_memberWrites (snd (fakeStore_WriteMember_begin m s)) = fs_memberWrites s"
  | (commit) f a where "snd (fakeStore_WriteMember_begin m s) = snd (fakeStore_WriteMember_commit f a False m
      (s\<lparr>fs_memberStats := (fs_memberStats s)\<lparr>mt_writeCalls := mt_writeCalls (fs_memberStats s) + 1\<rparr>\<rparr>))"
proof -
  let ?fault = "fs_memberFault s"
  let ?addr = "mf_kind ?fault \<noteq> memberFaultNone \<and> keyForMember m = ft_row (mf_target ?fault)"
  consider "?addr \<and> mf_kind ?fault = memberCASFailure"
    | "\<not> (?addr \<and> mf_kind ?fault = memberCASFailure)" "?addr \<and> mf_kind ?fault = memberDelay \<and> m_Status m = MemberActive \<and> 1 < m_ETag m"
    | "\<not> (?addr \<and> mf_kind ?fault = memberCASFailure)" "\<not> (?addr \<and> mf_kind ?fault = memberDelay \<and> m_Status m = MemberActive \<and> 1 < m_ETag m)"
    by blast
  then show ?thesis
  proof cases
    case 3
    show ?thesis
      by (rule commit [of ?fault ?addr]) (use 3 in \<open>auto simp: fakeStore_WriteMember_begin_def Let_def split_beta\<close>)
  qed (rule same; simp add: fakeStore_WriteMember_begin_def Let_def recordDelay_def)+
qed

lemma member_begin_logs:
  assumes "logs_ok s"
  shows "logs_ok (snd (fakeStore_WriteMember_begin m s)) \<and> extends s (snd (fakeStore_WriteMember_begin m s))"
proof -
  let ?s1 = "s\<lparr>fs_memberStats := (fs_memberStats s)\<lparr>mt_writeCalls := mt_writeCalls (fs_memberStats s) + 1\<rparr>\<rparr>"
  have s1: "logs_ok ?s1" by (rule logs_frame [OF assms]) simp_all
  show ?thesis
  proof (cases rule: member_begin_cases [of m s])
    case same
    then show ?thesis using logs_frame [OF assms] by (simp add: extends_def)
  next
    case (commit f a)
    show ?thesis unfolding commit using member_commit_logs [OF s1, of f a False m] by (simp add: extends_def)
  qed
qed

lemma start_logs:
  assumes "logs_ok s"
  shows "logs_ok (snd (fakeStore_start reading call s)) \<and> extends s (snd (fakeStore_start reading call s))"
proof (cases call)
  case (CallWriteMember m)
  then show ?thesis using member_begin_logs [OF assms, of m] by (auto split: prod.split outcome.split)
next
  case (CallClaim r t)
  have "fs_records (snd (fakeStore_Claim r t s)) = fs_records s \<and> fs_writes (snd (fakeStore_Claim r t s)) = fs_writes s \<and>
      fs_members (snd (fakeStore_Claim r t s)) = fs_members s \<and> fs_memberWrites (snd (fakeStore_Claim r t s)) = fs_memberWrites s"
    by (simp add: fakeStore_Claim_def Let_def split: option.split)
  then show ?thesis using logs_frame [OF assms, of "snd (fakeStore_Claim r t s)"]
    by (simp add: CallClaim extends_def split_beta)
qed (auto simp: record_call_defs listMembersFor_def snapshotDue_def fakeStore_Put_def fakeStore_Delete_def extends_def
    intro!: logs_frame [OF assms] split: prod.split)

lemma resume_logs:
  assumes "logs_ok s" and "fakeStore_resume f s = Some (f', s')"
  shows "logs_ok s' \<and> extends s s'"
proof (cases f)
  case (MemberSleeping m fault)
  then have "s' = snd (fakeStore_WriteMember_commit fault True True m s)" using assms(2) by (simp add: split_beta)
  then show ?thesis using member_commit_logs [OF assms(1), of fault True True m] by (simp add: extends_def)
next
  case (Writing gid data expect plan)
  then show ?thesis using assms by (auto dest: write_commit_logs split: prod.splits)
qed (use assms in \<open>auto split: sum.splits if_splits\<close>)

lemma frame_ops:
  "fake_memory (snd (beginOperation s)) = fake_memory s" "extends s (snd (beginOperation s))"
  "logs_ok s \<Longrightarrow> logs_ok (snd (beginOperation s))"
  "endOperation c s = Some s' \<Longrightarrow> fake_memory s' = fake_memory s \<and> extends s s' \<and> (logs_ok s \<longrightarrow> logs_ok s')"
  "fake_memory (driver_exec op s) = fake_memory s" "extends s (driver_exec op s)" "logs_ok s \<Longrightarrow> logs_ok (driver_exec op s)"
proof -
  show "logs_ok s \<Longrightarrow> logs_ok (snd (beginOperation s))"
    by (erule logs_frame) (simp_all add: beginOperation_def Let_def)
  show "logs_ok s \<Longrightarrow> logs_ok (driver_exec op s)"
    by (erule logs_frame; cases op) (simp_all add: driver_defs)
  show "endOperation c s = Some s' \<Longrightarrow> fake_memory s' = fake_memory s \<and> extends s s' \<and> (logs_ok s \<longrightarrow> logs_ok s')"
    by (auto simp: endOperation_def Let_def fake_memory_def extends_def intro: logs_frame split: if_splits)
  show "fake_memory (driver_exec op s) = fake_memory s" "extends s (driver_exec op s)"
    by (cases op; simp add: driver_defs fake_memory_def extends_def)+
qed (simp_all add: beginOperation_def fake_memory_def extends_def Let_def)

text \<open>What every event keeps: the logs, and at most one operation on the tables.\<close>

definition keeps_tables :: "fakeStore \<Rightarrow> fakeStore \<Rightarrow> bool" where
  "keeps_tables s s' \<longleftrightarrow> (logs_ok s \<longrightarrow> logs_ok s' \<and> extends s s') \<and> one_op (fake_memory s) (fake_memory s')"

lemma keeps_tables_refl [simp]: "keeps_tables s s"
  by (simp add: keeps_tables_def)

lemma store_exec_keeps:
  assumes "store_exec reading e (s, fl) = Some (s', fl')"
  shows "keeps_tables s s'"
proof (cases e)
  case (Start call)
  let ?s1 = "snd (beginOperation s)"
  have s': "s' = snd (fakeStore_start reading call ?s1)" using assms by (simp add: Start split_beta)
  have "logs_ok s' \<and> extends s s'" if "logs_ok s"
    using start_logs [OF frame_ops(3) [OF that], of reading call] extends_trans [OF frame_ops(2)] s' by blast
  moreover have "one_op (fake_memory s) (fake_memory s')"
    using one_op_start [of ?s1 reading call] s' by (simp add: frame_ops(1))
  ultimately show ?thesis by (simp add: keeps_tables_def)
next
  case (Resume i)
  show ?thesis
  proof (cases "i < length fl \<and> fakeStore_resume (snd (fl ! i)) s \<noteq> None")
    case True
    then obtain f s1 where r: "fakeStore_resume (snd (fl ! i)) s = Some (f, s1)" by auto
    then have "s' = s1" using assms True by (simp add: Resume)
    then show ?thesis using resume_logs [OF _ r] one_op_resume [OF r] by (simp add: keeps_tables_def)
  next
    case False
    then have "s' = s" using assms by (cases "fakeStore_resume (snd (fl ! i)) s") (auto simp: Resume split: if_splits)
    then show ?thesis by simp
  qed
next
  case (Finish i)
  then have "s' = s \<or> (\<exists>c. endOperation c s = Some s')"
    using assms by (auto split: if_splits flight.splits)
  then show ?thesis using frame_ops(4) by (auto simp: keeps_tables_def)
next
  case (Drive op)
  then have "s' = driver_exec op s" using assms by simp
  then show ?thesis by (simp add: keeps_tables_def frame_ops)
qed

lemma memory_run_append: "memory_run m (ops @ ops') = memory_run (memory_run m ops) ops'"
  by (induction ops arbitrary: m) simp_all

lemma store_run_keeps:
  "store_run reading es (s, fl) = Some (s', fl') \<Longrightarrow> logs_ok s \<Longrightarrow>
    logs_ok s' \<and> extends s s' \<and> (\<exists>ops. fake_memory s' = memory_run (fake_memory s) ops \<and> length ops \<le> length es)"
proof (induction es arbitrary: s fl)
  case Nil
  then show ?case by (auto intro: exI [of _ "[]"])
next
  case (Cons e es)
  then obtain s1 fl1 where e: "store_exec reading e (s, fl) = Some (s1, fl1)" and r: "store_run reading es (s1, fl1) = Some (s', fl')"
    by (auto simp: bind_eq_Some_conv)
  from store_exec_keeps [OF e] Cons.prems(2) have k: "logs_ok s1" "extends s s1" "one_op (fake_memory s) (fake_memory s1)"
    by (simp_all add: keeps_tables_def)
  from Cons.IH [OF r k(1)] obtain ops where ih: "logs_ok s'" "extends s1 s'" "fake_memory s' = memory_run (fake_memory s1) ops"
    "length ops \<le> length es" by blast
  from k(3) have "\<exists>ops'. fake_memory s1 = memory_run (fake_memory s) ops' \<and> length ops' \<le> 1"
    by (auto simp: one_op_def intro: exI [of _ "[]"] exI [of _ "[op]" for op])
  then obtain ops' where ops': "fake_memory s1 = memory_run (fake_memory s) ops'" "length ops' \<le> 1" by blast
  have "fake_memory s' = memory_run (fake_memory s) (ops' @ ops)" using ih(3) ops'(1) by (simp add: memory_run_append)
  moreover have "length (ops' @ ops) \<le> length (e # es)" using ih(4) ops'(2) by simp
  ultimately have "\<exists>ops. fake_memory s' = memory_run (fake_memory s) ops \<and> length ops \<le> length (e # es)" by blast
  then show ?case using ih(1) extends_trans [OF k(2) ih(2)] by blast
qed

lemma newFakeStore_logs: "logs_ok (newFakeStore t)" and newFakeStore_memory: "fake_memory (newFakeStore t) = NewMemory"
  by (simp_all add: logs_ok_def record_logged_def member_logged_def writes_to_def member_events_def newFakeStore_def
      fake_memory_def NewMemory_def)

section \<open>The check of member statuses\<close>

lemma check_loop_snoc:
  "checkMemberStatuses_loop dead (es @ [e]) =
    (case checkMemberStatuses_loop dead es of
       Some err \<Rightarrow> Some err
     | None \<Rightarrow> if (mw_key e \<in> set dead \<or> MemberWriteEvent (mw_key e) MemberDead \<in> set es) \<and> mw_status e \<noteq> MemberDead
               then Some (NewErr ''dead member became active again'') else None)"
proof (induction es arbitrary: dead)
  case (Cons x es)
  have "x = MemberWriteEvent (mw_key e) MemberDead \<longleftrightarrow> mw_key x = mw_key e \<and> mw_status x = MemberDead" by (cases x) auto
  then show ?case by (auto simp: Cons.IH split: option.split)
qed simp

text \<open>In a log the check accepts, a member that was ever written dead has dead as its last status.\<close>

lemma dead_is_last:
  "checkMemberStatuses_loop [] es = None \<Longrightarrow>
    MemberWriteEvent k MemberDead \<in> set es \<longleftrightarrow> member_events es k \<noteq> [] \<and> mw_status (last (member_events es k)) = MemberDead"
proof (induction es rule: rev_induct)
  case (snoc e es)
  then have ih: "MemberWriteEvent k MemberDead \<in> set es \<longleftrightarrow>
      member_events es k \<noteq> [] \<and> mw_status (last (member_events es k)) = MemberDead"
    and e: "MemberWriteEvent (mw_key e) MemberDead \<in> set es \<Longrightarrow> mw_status e = MemberDead"
    by (auto simp: check_loop_snoc split: option.splits if_splits)
  have "MemberWriteEvent k MemberDead = e \<longleftrightarrow> mw_key e = k \<and> mw_status e = MemberDead" by (cases e) auto
  then show ?case using ih e by (auto simp: member_events_def)
qed (simp add: member_events_def)

section \<open>The tracker counts claims against deliveries\<close>

datatype tracker_op = Claimed grain_id bool | Delivered grain_id

fun tracker_exec :: "tracker_op \<Rightarrow> timerTracker \<Rightarrow> timerTracker" where
  "tracker_exec (Claimed gid willDeliver) t = timerTracker_claim gid willDeliver t"
| "tracker_exec (Delivered gid) t = timerTracker_deliver gid t"

text \<open>Claims that will deliver, less deliveries.\<close>

definition balance :: "tracker_op list \<Rightarrow> grain_id \<Rightarrow> int" where
  "balance ops gid = int (count_list ops (Claimed gid True)) - int (count_list ops (Delivered gid))"

definition never_negative :: "tracker_op list \<Rightarrow> bool" where
  "never_negative ops \<longleftrightarrow> (\<forall>n gid. 0 \<le> balance (take n ops) gid)"

lemma never_negative_snoc: "never_negative (ops @ [op]) \<longleftrightarrow> never_negative ops \<and> (\<forall>gid. 0 \<le> balance (ops @ [op]) gid)"
proof
  assume l: "never_negative (ops @ [op])"
  have "0 \<le> balance (take n ops) gid" for n gid
    using l [unfolded never_negative_def, THEN spec, of "min n (length ops)", THEN spec, of gid]
    by (cases "n \<le> length ops") (simp_all add: min_def)
  moreover have "0 \<le> balance (ops @ [op]) gid" for gid
    using l [unfolded never_negative_def, THEN spec, of "Suc (length ops)", THEN spec, of gid] by simp
  ultimately show "never_negative ops \<and> (\<forall>gid. 0 \<le> balance (ops @ [op]) gid)" by (simp add: never_negative_def)
next
  assume r: "never_negative ops \<and> (\<forall>gid. 0 \<le> balance (ops @ [op]) gid)"
  show "never_negative (ops @ [op])"
    unfolding never_negative_def
  proof (intro allI)
    fix n gid
    show "0 \<le> balance (take n (ops @ [op])) gid"
      using r by (cases "n \<le> length ops") (auto simp: never_negative_def)
  qed
qed

lemma balance_snoc: "balance (ops @ [op]) gid = balance ops gid +
    (if op = Claimed gid True then 1 else if op = Delivered gid then - 1 else 0)"
  by (auto simp: balance_def)

definition delivered_count :: "tracker_op list \<Rightarrow> nat" where
  "delivered_count ops = length (filter (\<lambda>op. case op of Delivered _ \<Rightarrow> True | _ \<Rightarrow> False) ops)"

lemma tracker_run:
  "let t = fold tracker_exec ops newTimerTracker in
    (tt_failure t = None \<longleftrightarrow> never_negative ops) \<and>
    (never_negative ops \<longrightarrow> tt_deliveries t = delivered_count ops \<and> (\<forall>gid. gm_get_or 0 (tt_outstanding t) gid = balance ops gid))"
proof (induction ops rule: rev_induct)
  case Nil
  then show ?case
    by (simp add: newTimerTracker_def never_negative_def balance_def delivered_count_def gm_get_or_def)
next
  case (snoc op ops)
  let ?t = "fold tracker_exec ops newTimerTracker"
  from snoc have f: "tt_failure ?t = None \<longleftrightarrow> never_negative ops"
    and nn: "never_negative ops \<Longrightarrow> tt_deliveries ?t = delivered_count ops \<and> (\<forall>gid. gm_get_or 0 (tt_outstanding ?t) gid = balance ops gid)"
    by (simp_all add: Let_def)
  have pos: "never_negative ops \<Longrightarrow> 0 \<le> balance ops gid" for gid
    unfolding never_negative_def by (metis order_refl take_all)
  show ?case
  proof (cases op)
    case (Claimed gid b)
    then show ?thesis using f nn pos
      by (auto simp: never_negative_snoc balance_snoc timerTracker_claim_def Let_def go_map_simps delivered_count_def add_increasing)
  next
    case (Delivered gid)
    then show ?thesis using f nn pos [of gid] pos order_le_less [of 0 "balance ops gid"]
      by (auto simp: never_negative_snoc balance_snoc timerTracker_deliver_def Let_def go_map_simps delivered_count_def)
  qed
qed

section \<open>Properties\<close>

text \<open>
  Quiescence of the simulated store: whatever calls are started, resumed and finished and whatever the
  driver arms, no channel is closed twice, the count is the number of calls in flight, and \<open>waitForIdle\<close>
  returns exactly when no call is in flight.
\<close>

theorem simulated_store_quiescence:
  "\<exists>s fl. store_run reading events (newFakeStore tracker, []) = Some (s, fl) \<and> fs_active s = int (length fl) \<and>
    (waitForIdle_returns s \<longleftrightarrow> fl = [])"
proof -
  obtain s fl where r: "store_run reading events (newFakeStore tracker, []) = Some (s, fl)" and g: "store_gate.gate_ok s (map fst fl)"
    using store_run_gate [of "(newFakeStore tracker, [])" reading events] newFakeStore_gate by auto
  have "fs_active s = int (length fl)" using g by (simp add: store_gate.gate_ok_def)
  moreover have "waitForIdle_returns s \<longleftrightarrow> fl = []"
    using store_gate.gate_idle [OF g] by (simp add: waitForIdle_returns_def)
  ultimately show ?thesis using r by blast
qed


text \<open>
  The tables of the simulated store satisfy the invariant of the in-memory store after every interleaving
  of calls, faults and delays, and the log of committed writes explains every record: its content is
  that of its last logged write and its tag the number of its logged writes.
\<close>

theorem simulated_store_invariant:
  assumes "int (length events) \<le> max_int64" and "store_run reading events (newFakeStore tracker, []) = Some (s, fl)"
  shows "memory_ok (fake_memory s) \<and> record_logged s gid"
proof -
  from store_run_keeps [OF assms(2) newFakeStore_logs] obtain ops where
    "logs_ok s" and m: "fake_memory s = memory_run NewMemory ops" and len: "length ops \<le> length events"
    by (auto simp: newFakeStore_memory)
  have "tag_room NewMemory (length ops + 0)"
    using assms(1) len by (simp add: tag_room_def NewMemory_def record_look_def member_look_def reminder_tag_def tag_of_def)
  then have "memory_ok (fake_memory s)" unfolding m using memory_run_ok [OF memory_ok_NewMemory] by blast
  with \<open>logs_ok s\<close> show ?thesis by (simp add: logs_ok_def)
qed

definition demo_events :: "store_event list" where
  "demo_events = [Drive (SetFaultPlans [(GrainId ''a'' ''1'', no_plan\<lparr>fp_write := \<lparr>fa_kind = faultWriteAppliedError, fa_delay = 0\<rparr>\<rparr>)]),
     Start (CallWrite (GrainId ''a'' ''1'') [7] 0), Resume 0, Finish 0]"

definition demo_store :: fakeStore where
  "demo_store = fst (the (store_run (\<lambda>_. 0) demo_events (newFakeStore newTimerTracker, [])))"

lemma demo_store_run: "store_run (\<lambda>_. 0) demo_events (newFakeStore newTimerTracker, []) = Some (demo_store, [])"
  by (simp add: demo_store_def demo_events_def newFakeStore_def newTimerTracker_def setFaultPlans_def beginOperation_def
      fakeStore_Write_begin_def fakeStore_faultPlan_def gm_get_or_def fakeStore_Write_commit_def zero_record_def Let_def
      endOperation_def drop_nth_def)

theorem simulated_store_invariant_witness:
  "memory_ok (fake_memory demo_store) \<and> record_logged demo_store (GrainId ''a'' ''1'')"
proof -
  have "int (length demo_events) \<le> max_int64" by (simp add: demo_events_def max_int64_def)
  then show ?thesis using simulated_store_invariant [OF _ demo_store_run, of "GrainId ''a'' ''1''"] by blast
qed

text \<open>
  The check of member statuses detects exactly the resurrections: it goes from quiet to reporting at the
  commit of a member write precisely when that write replaces a row marked dead with another status.
\<close>

theorem resurrection_detected:
  assumes "store_run reading events (newFakeStore tracker, []) = Some (s, fl)" and "checkMemberStatuses s = None"
  shows "checkMemberStatuses (snd (fakeStore_WriteMember_commit fault addr delayed m s)) \<noteq> None \<longleftrightarrow>
    m_ETag (gm_get_or zero_member (fs_members s) (keyForMember m)) = m_ETag m \<and>
    m_Status (gm_get_or zero_member (fs_members s) (keyForMember m)) = MemberDead \<and> m_Status m \<noteq> MemberDead"
proof -
  let ?k = "keyForMember m"
  have "logs_ok s" using store_run_keeps [OF assms(1) newFakeStore_logs] by blast
  then have log: "member_logged s ?k" by (simp add: logs_ok_def)
  have check: "checkMemberStatuses_loop [] (fs_memberWrites s) = None" using assms(2) by (simp add: checkMemberStatuses_def)
  have "MemberWriteEvent ?k MemberDead \<in> set (fs_memberWrites s) \<longleftrightarrow>
      m_Status (gm_get_or zero_member (fs_members s) ?k) = MemberDead"
    using dead_is_last [OF check, of ?k] log
    by (cases "gm_get (fs_members s) ?k") (auto simp: member_logged_def gm_get_or_def zero_member_def MemberDead_def)
  then show ?thesis using check by (auto simp: checkMemberStatuses_def check_loop_snoc)
qed

definition dead_row :: member where
  "dead_row = \<lparr>m_NodeAddr = ''n'', m_Generation = ''g'', m_Status = MemberDead, m_IamAliveAt = 0, m_SuspectVotes = [], m_ETag = 0\<rparr>"

definition dead_store :: fakeStore where
  "dead_store = fst (the (store_run (\<lambda>_. 0) [Start (CallWriteMember dead_row)] (newFakeStore newTimerTracker, [])))"

theorem resurrection_detected_witness:
  "checkMemberStatuses (snd (fakeStore_WriteMember_commit no_member_fault False False
      (dead_row\<lparr>m_Status := MemberActive, m_ETag := 1\<rparr>) dead_store)) \<noteq> None"
proof -
  obtain fl where r: "store_run (\<lambda>_. 0) [Start (CallWriteMember dead_row)] (newFakeStore newTimerTracker, []) = Some (dead_store, fl)"
    by (simp add: dead_store_def split_beta)
  have row: "fs_members dead_store = [(MemberID ''n'' ''g'', dead_row\<lparr>m_ETag := 1\<rparr>)]"
    "fs_memberWrites dead_store = [MemberWriteEvent (MemberID ''n'' ''g'') MemberDead]"
    by (simp_all add: dead_store_def newFakeStore_def beginOperation_def fakeStore_WriteMember_begin_def
        fakeStore_WriteMember_commit_def no_member_fault_def Let_def dead_row_def keyForMember_def gm_get_or_def zero_member_def wrap64_def)
  have "checkMemberStatuses dead_store = None" by (simp add: checkMemberStatuses_def row)
  then show ?thesis
    using resurrection_detected [OF r, of no_member_fault False False "dead_row\<lparr>m_Status := MemberActive, m_ETag := 1\<rparr>"]
    by (simp add: row gm_get_or_def keyForMember_def dead_row_def MemberActive_def MemberDead_def)
qed

text \<open>
  The tracker of deliveries: after any sequence of claims and deliveries it reports no failure exactly when
  no Grain ever had more deliveries than claims that deliver, and then counts every delivery.
\<close>

theorem tracker_exact:
  "(timerTracker_check (fold tracker_exec ops newTimerTracker) = None \<longleftrightarrow> never_negative ops) \<and>
   (never_negative ops \<longrightarrow> timerTracker_deliveryCount (fold tracker_exec ops newTimerTracker) = delivered_count ops)"
  using tracker_run [of ops] by (simp add: timerTracker_check_def timerTracker_deliveryCount_def Let_def)

theorem tracker_exact_witness:
  "timerTracker_check (fold tracker_exec [Claimed (GrainId ''a'' ''1'') False, Delivered (GrainId ''a'' ''1'')] newTimerTracker) \<noteq> None"
proof -
  have "balance (take 2 [Claimed (GrainId ''a'' ''1'') False, Delivered (GrainId ''a'' ''1'')]) (GrainId ''a'' ''1'') < 0"
    by (simp add: balance_def)
  then have "\<not> never_negative [Claimed (GrainId ''a'' ''1'') False, Delivered (GrainId ''a'' ''1'')]"
    unfolding never_negative_def by (meson not_le)
  then show ?thesis using tracker_exact by blast
qed

end
