(* ===== verification/Gor_Sim_Network.thy ===== *)
theory Gor_Sim_Network
  imports Gor_Sim_Store
begin

text \<open>
  The network of the simulation, \<open>sim/network.go\<close>: endpoints in a heap with the map of the current endpoint
  of each address, partitions with their frozen member tables, delays, dropped requests and replies, and
  the deliveries in flight. A handler is a function from payloads to answers; that it ran is recorded in the
  delivery. A \<open>Send\<close> runs to the point where its goroutine is started, the delivery goes on in steps, and
  the caller takes the result or gives up when its context ends.
\<close>

section \<open>Data\<close>

datatype dropSide = dropNone | dropRequest | dropReply

record networkDropSpec =
  nd_source :: string
  nd_destination :: string
  nd_side :: dropSide

definition no_drop :: networkDropSpec where
  "no_drop = \<lparr>nd_source = [], nd_destination = [], nd_side = dropNone\<rparr>"

datatype networkPair = NetworkPair (np_source: string) (np_destination: string)

type_synonym handler = "byte list \<Rightarrow> byte list result"

text \<open>The channels \<open>served\<close>, \<open>done\<close> and \<open>closed\<close> are only ever closed.\<close>

record simulationTransport =
  st_addr :: string
  st_handler :: "handler option"
  st_served :: bool
  st_done :: bool
  st_closed :: bool

record partitionedMemberStore =
  pm_addr :: string
  pm_partitioned :: bool
  pm_members :: "(member_id, member) gomap"

text \<open>What a \<open>Send\<close> returned to its caller: a payload and an error.\<close>

type_synonym send_answer = "byte list \<times> go_error option"

datatype delivery_phase = Spawned | Delivering nat | Replying nat | Finished

record delivery =
  dl_source :: string
  dl_destination :: string
  dl_payload :: "byte list"
  dl_handler :: handler
  dl_delay :: duration
  dl_phase :: delivery_phase
  dl_handled :: bool
  dl_result :: "send_answer option"
  dl_returned :: "send_answer option"

record simulationNetwork =
  sn_endpoints :: "simulationTransport list"
  sn_stores :: "partitionedMemberStore list"
  sn_transports :: "(string, nat) gomap"
  sn_memberStore :: "(string, nat) gomap"
  sn_groups :: "(string, int) gomap"
  sn_partitioned :: bool
  sn_delays :: "(networkPair, duration) gomap"
  sn_drop :: networkDropSpec
  sn_activeDeliveries :: int
  sn_deliveriesIdle :: nat
  sn_chans :: nat
  sn_closed :: "nat list"
  sn_sends :: nat
  sn_delivered :: nat
  sn_dropped :: nat
  sn_dropRequests :: nat
  sn_dropReplies :: nat
  sn_held :: nat
  sn_completed :: nat
  sn_deliveries :: "delivery list"

definition newSimulationNetwork :: simulationNetwork where
  "newSimulationNetwork =
     \<lparr>sn_endpoints = [], sn_stores = [], sn_transports = [], sn_memberStore = [], sn_groups = [], sn_partitioned = False,
      sn_delays = [], sn_drop = no_drop, sn_activeDeliveries = 0, sn_deliveriesIdle = 0, sn_chans = 1, sn_closed = [0],
      sn_sends = 0, sn_delivered = 0, sn_dropped = 0, sn_dropRequests = 0, sn_dropReplies = 0, sn_held = 0, sn_completed = 0,
      sn_deliveries = []\<rparr>"

section \<open>Faults of the network\<close>

definition setDelays :: "(networkPair, duration) gomap \<Rightarrow> simulationNetwork \<Rightarrow> simulationNetwork" where
  "setDelays delays n = n\<lparr>sn_delays := fold (\<lambda>(p, d) m. gm_put p d m) delays []\<rparr>"

definition delayFor :: "simulationNetwork \<Rightarrow> string \<Rightarrow> string \<Rightarrow> duration" where
  "delayFor n source destination = gm_get_or 0 (sn_delays n) (NetworkPair source destination)"

definition setDrops :: "networkDropSpec \<Rightarrow> simulationNetwork \<Rightarrow> simulationNetwork" where
  "setDrops d n = n\<lparr>sn_drop := d\<rparr>"

definition dropFor :: "simulationNetwork \<Rightarrow> string \<Rightarrow> string \<Rightarrow> dropSide \<Rightarrow> bool" where
  "dropFor n source destination side \<longleftrightarrow>
     nd_side (sn_drop n) = side \<and> nd_source (sn_drop n) = source \<and> nd_destination (sn_drop n) = destination"

definition beginDelivery :: "simulationNetwork \<Rightarrow> nat \<times> simulationNetwork" where
  "beginDelivery n =
     (let n1 = (if sn_activeDeliveries n = 0 then n\<lparr>sn_deliveriesIdle := sn_chans n, sn_chans := Suc (sn_chans n)\<rparr> else n);
          n2 = n1\<lparr>sn_activeDeliveries := sn_activeDeliveries n1 + 1\<rparr>
      in (sn_deliveriesIdle n2, n2))"

definition endDelivery :: "nat \<Rightarrow> simulationNetwork \<Rightarrow> simulationNetwork option" where
  "endDelivery idle n =
     (let n1 = n\<lparr>sn_activeDeliveries := sn_activeDeliveries n - 1\<rparr>
      in if sn_activeDeliveries n1 \<noteq> 0 then Some n1
         else if idle \<in> set (sn_closed n1) then None
         else Some (n1\<lparr>sn_closed := idle # sn_closed n1\<rparr>))"

definition network_waitForIdle_returns :: "simulationNetwork \<Rightarrow> bool" where
  "network_waitForIdle_returns n \<longleftrightarrow> sn_deliveriesIdle n \<in> set (sn_closed n)"

definition addNode :: "string \<Rightarrow> simulationNetwork \<Rightarrow> simulationNetwork" where
  "addNode addr n =
     n\<lparr>sn_endpoints := sn_endpoints n @ [\<lparr>st_addr = addr, st_handler = None, st_served = False, st_done = False, st_closed = False\<rparr>],
       sn_stores := sn_stores n @ [\<lparr>pm_addr = addr, pm_partitioned = False, pm_members = []\<rparr>],
       sn_transports := gm_put addr (length (sn_endpoints n)) (sn_transports n),
       sn_memberStore := gm_put addr (length (sn_stores n)) (sn_memberStore n)\<rparr>"

definition memberStore_partition :: "member list \<Rightarrow> partitionedMemberStore \<Rightarrow> partitionedMemberStore" where
  "memberStore_partition snapshot s =
     s\<lparr>pm_partitioned := True, pm_members := fold (\<lambda>m rows. gm_put (keyForMember m) m rows) snapshot []\<rparr>"

definition memberStore_heal :: "partitionedMemberStore \<Rightarrow> partitionedMemberStore" where
  "memberStore_heal s = s\<lparr>pm_partitioned := False, pm_members := []\<rparr>"

definition cloneGroups :: "(string, int) gomap \<Rightarrow> (string, int) gomap" where
  "cloneGroups groups = fold (\<lambda>(a, g) m. gm_put a g m) groups []"

text \<open>The stores an operation reaches are those of the current endpoints.\<close>

definition on_stores :: "(partitionedMemberStore \<Rightarrow> partitionedMemberStore) \<Rightarrow> simulationNetwork \<Rightarrow> simulationNetwork" where
  "on_stores f n = n\<lparr>sn_stores := fold (\<lambda>i ss. ss[i := f (ss ! i)]) (map snd (sn_memberStore n)) (sn_stores n)\<rparr>"

text \<open>\<open>listing\<close> is the answer of \<open>ListMembers\<close> of the backend.\<close>

definition network_partition ::
    "member_snapshot result \<Rightarrow> (string, int) gomap \<Rightarrow> simulationNetwork \<Rightarrow> go_error option \<times> simulationNetwork" where
  "network_partition listing groups n =
     (case listing of
        Inl e \<Rightarrow> (Some e, n)
      | Inr snapshot \<Rightarrow>
          (None, (on_stores (memberStore_partition (ms_Members snapshot)) n)\<lparr>sn_groups := cloneGroups groups, sn_partitioned := True\<rparr>))"

definition network_heal :: "simulationNetwork \<Rightarrow> simulationNetwork" where
  "network_heal n = on_stores memberStore_heal (n\<lparr>sn_partitioned := False, sn_groups := []\<rparr>)"

definition blocked :: "simulationNetwork \<Rightarrow> string \<Rightarrow> string \<Rightarrow> bool" where
  "blocked n source destination \<longleftrightarrow>
     sn_partitioned n \<and> gm_get_or 0 (sn_groups n) source \<noteq> gm_get_or 0 (sn_groups n) destination"

definition network_stats :: "simulationNetwork \<Rightarrow> nat list" where
  "network_stats n = [sn_sends n, sn_delivered n, sn_dropped n, sn_dropRequests n, sn_dropReplies n, sn_held n, sn_completed n]"

section \<open>Endpoints\<close>

definition upd_endpoint :: "nat \<Rightarrow> (simulationTransport \<Rightarrow> simulationTransport) \<Rightarrow> simulationNetwork \<Rightarrow> simulationNetwork" where
  "upd_endpoint i f n = n\<lparr>sn_endpoints := (sn_endpoints n)[i := f (sn_endpoints n ! i)]\<rparr>"

definition transport_Serve_begin :: "handler \<Rightarrow> simulationTransport \<Rightarrow> simulationTransport" where
  "transport_Serve_begin h t = t\<lparr>st_handler := Some h, st_served := True\<rparr>"

text \<open>\<open>Serve\<close> returns when its context ends or the endpoint is closed, and closes \<open>done\<close>.\<close>

definition transport_Serve_end :: "go_error option \<Rightarrow> simulationTransport \<Rightarrow> (go_error \<times> simulationTransport) option" where
  "transport_Serve_end ctx_err t =
     (case ctx_err of
        Some e \<Rightarrow> Some (e, t\<lparr>st_done := True\<rparr>)
      | None \<Rightarrow> if st_closed t then Some (Sentinel SimNetworkClosed, t\<lparr>st_done := True\<rparr>) else None)"

definition transport_Close_begin :: "simulationTransport \<Rightarrow> simulationTransport" where
  "transport_Close_begin t = t\<lparr>st_closed := True\<rparr>"

definition transport_Kill_begin :: "simulationTransport \<Rightarrow> simulationTransport" where
  "transport_Kill_begin t = t\<lparr>st_closed := True\<rparr>"

text \<open>\<open>Close\<close> and \<open>Kill\<close> then wait for \<open>done\<close>.\<close>

definition transport_Close_returns :: "simulationTransport \<Rightarrow> bool" where
  "transport_Close_returns t \<longleftrightarrow> st_done t"

text \<open>The caller's part of \<open>Send\<close>: an error at once, or a delivery.\<close>

definition transport_Send ::
    "string \<Rightarrow> string \<Rightarrow> byte list \<Rightarrow> simulationNetwork \<Rightarrow> send_answer option \<times> simulationNetwork" where
  "transport_Send self addr payload n =
     (let n1 = n\<lparr>sn_sends := sn_sends n + 1\<rparr>
      in if blocked n1 self addr then (Some ([], Some (Sentinel SimNetworkPartition)), n1\<lparr>sn_dropped := sn_dropped n1 + 1\<rparr>)
         else (case gm_get (sn_transports n1) addr of
                 None \<Rightarrow> (Some ([], Some (NewErr ''sim network destination is not registered'')), n1)
               | Some i \<Rightarrow>
                   (case st_handler (sn_endpoints n1 ! i) of
                      None \<Rightarrow> (Some ([], Some (NewErr ''sim network destination is not serving'')), n1)
                    | Some h \<Rightarrow>
                        if dropFor n1 self addr dropRequest
                        then (Some ([], Some (Sentinel SimNetworkDrop)), n1\<lparr>sn_dropRequests := sn_dropRequests n1 + 1\<rparr>)
                        else (None, n1\<lparr>sn_deliveries := sn_deliveries n1 @
                                [\<lparr>dl_source = self, dl_destination = addr, dl_payload = payload, dl_handler = h,
                                  dl_delay = delayFor n1 self addr, dl_phase = Spawned, dl_handled = False, dl_result = None,
                                  dl_returned = None\<rparr>]\<rparr>))))"

definition upd_delivery :: "nat \<Rightarrow> (delivery \<Rightarrow> delivery) \<Rightarrow> simulationNetwork \<Rightarrow> simulationNetwork" where
  "upd_delivery i f n = n\<lparr>sn_deliveries := (sn_deliveries n)[i := f (sn_deliveries n ! i)]\<rparr>"

text \<open>The goroutine of a delivery: entering, the handler, and the end with its deferred calls.\<close>

definition delivery_begin :: "nat \<Rightarrow> simulationNetwork \<Rightarrow> simulationNetwork" where
  "delivery_begin i n =
     (case beginDelivery n of (idle, n1) \<Rightarrow>
        let n2 = (if 0 < dl_delay (sn_deliveries n1 ! i) then n1\<lparr>sn_held := sn_held n1 + 1\<rparr> else n1)
        in upd_delivery i (\<lambda>d. d\<lparr>dl_phase := Delivering idle\<rparr>) n2)"

definition delivery_handle :: "nat \<Rightarrow> nat \<Rightarrow> simulationNetwork \<Rightarrow> simulationNetwork" where
  "delivery_handle i idle n =
     (let d = sn_deliveries n ! i;
          answer = (case dl_handler d (dl_payload d) of Inl e \<Rightarrow> ([], Some e) | Inr r \<Rightarrow> (r, None));
          done = (\<lambda>a d. d\<lparr>dl_handled := True, dl_result := Some a, dl_phase := Replying idle\<rparr>)
      in if dropFor n (dl_source d) (dl_destination d) dropReply
         then upd_delivery i (done ([], Some (Sentinel SimNetworkDrop))) (n\<lparr>sn_dropReplies := sn_dropReplies n + 1\<rparr>)
         else upd_delivery i (done answer) n)"

definition delivery_end :: "nat \<Rightarrow> nat \<Rightarrow> simulationNetwork \<Rightarrow> simulationNetwork option" where
  "delivery_end i idle n =
     map_option (upd_delivery i (\<lambda>d. d\<lparr>dl_phase := Finished\<rparr>))
       (endDelivery idle (n\<lparr>sn_completed := sn_completed n + 1\<rparr>))"

text \<open>The caller takes the result, or returns with the error of its context.\<close>

definition send_receive :: "nat \<Rightarrow> send_answer \<Rightarrow> simulationNetwork \<Rightarrow> simulationNetwork" where
  "send_receive i a n =
     (let dropped = (case snd a of None \<Rightarrow> False | Some e \<Rightarrow> errors_Is e (TSentinel SimNetworkDrop));
          n1 = (if dropped then n else n\<lparr>sn_delivered := sn_delivered n + 1\<rparr>)
      in upd_delivery i (\<lambda>d. d\<lparr>dl_returned := Some a\<rparr>) n1)"

definition send_cancel :: "nat \<Rightarrow> go_error \<Rightarrow> simulationNetwork \<Rightarrow> simulationNetwork" where
  "send_cancel i e n = upd_delivery i (\<lambda>d. d\<lparr>dl_returned := Some ([], Some e)\<rparr>) n"

section \<open>The member table of a node\<close>

text \<open>\<open>None\<close>: the call goes to the backend.\<close>

definition partitioned_WriteMember ::
    "go_error option \<Rightarrow> member \<Rightarrow> partitionedMemberStore \<Rightarrow> etag result option \<times> partitionedMemberStore" where
  "partitioned_WriteMember ctx_err member s =
     (case ctx_err of
        Some e \<Rightarrow> (Some (Inl e), s)
      | None \<Rightarrow>
          if \<not> pm_partitioned s then (None, s)
          else (let key = keyForMember member;
                    current = gm_get_or zero_member (pm_members s) key
                in if m_ETag current \<noteq> m_ETag member then (Some (Inl (Sentinel StoreErrConflict)), s)
                   else (let written = member\<lparr>m_ETag := wrap64 (m_ETag current + 1)\<rparr>
                         in (Some (Inr (m_ETag written)), s\<lparr>pm_members := gm_put key written (pm_members s)\<rparr>))))"

definition partitioned_ListMembers ::
    "go_error option \<Rightarrow> gtime \<Rightarrow> partitionedMemberStore \<Rightarrow> member_snapshot result option" where
  "partitioned_ListMembers ctx_err tableNow s =
     (case ctx_err of
        Some e \<Rightarrow> Some (Inl e)
      | None \<Rightarrow>
          if \<not> pm_partitioned s then None
          else Some (Inr \<lparr>ms_Members = sortMembers (map snd (pm_members s)), ms_TableNow = tableNow\<rparr>))"

text \<open>The Reminder store of a node names its address in listings and passes the rest on.\<close>

definition nodeReminder_ListDue :: "string \<Rightarrow> gtime \<Rightarrow> store_call" where
  "nodeReminder_ListDue addr now = CallListDue addr now"

definition nodeReminder_Claim :: "reminder \<Rightarrow> gtime \<Rightarrow> store_call" where
  "nodeReminder_Claim schedule nextDueAt = CallClaim schedule nextDueAt"

definition nodeReminder_Put :: "reminder \<Rightarrow> store_call" where
  "nodeReminder_Put schedule = CallPut schedule"

definition nodeReminder_Delete :: "grain_id \<Rightarrow> string \<Rightarrow> store_call" where
  "nodeReminder_Delete gid name = CallDelete gid name"

section \<open>Runs of the network\<close>

datatype net_event =
    AddNode string | SetDelays "(networkPair, duration) gomap" | SetDrops networkDropSpec
  | Partition "member_snapshot result" "(string, int) gomap" | Heal
  | ServeBegin nat handler | ServeEnd nat "go_error option" | CloseEndpoint nat | KillEndpoint nat
  | SendCall string string "byte list" | DeliveryBegin nat | DeliveryHandle nat | DeliveryEnd nat
  | SendReceive nat | SendCancel nat bool

definition ctx_error :: "bool \<Rightarrow> go_error" where
  "ctx_error deadline = Sentinel (if deadline then CtxDeadlineExceeded else CtxCanceled)"

text \<open>One step; a step that is not enabled leaves the network as it is, \<open>None\<close> is a panic.\<close>

fun net_exec :: "net_event \<Rightarrow> simulationNetwork \<Rightarrow> simulationNetwork option" where
  "net_exec (AddNode addr) n = Some (addNode addr n)"
| "net_exec (SetDelays delays) n = Some (setDelays delays n)"
| "net_exec (SetDrops d) n = Some (setDrops d n)"
| "net_exec (Partition listing groups) n = Some (snd (network_partition listing groups n))"
| "net_exec Heal n = Some (network_heal n)"
| "net_exec (ServeBegin i h) n = Some (upd_endpoint i (transport_Serve_begin h) n)"
| "net_exec (ServeEnd i ctx_err) n =
     Some (upd_endpoint i (\<lambda>t. case transport_Serve_end ctx_err t of None \<Rightarrow> t | Some (e, t') \<Rightarrow> t') n)"
| "net_exec (CloseEndpoint i) n = Some (upd_endpoint i transport_Close_begin n)"
| "net_exec (KillEndpoint i) n = Some (upd_endpoint i transport_Kill_begin n)"
| "net_exec (SendCall self addr payload) n = Some (snd (transport_Send self addr payload n))"
| "net_exec (DeliveryBegin i) n =
     Some (if i < length (sn_deliveries n) \<and> dl_phase (sn_deliveries n ! i) = Spawned then delivery_begin i n else n)"
| "net_exec (DeliveryHandle i) n =
     Some (if i < length (sn_deliveries n)
           then (case dl_phase (sn_deliveries n ! i) of Delivering idle \<Rightarrow> delivery_handle i idle n | _ \<Rightarrow> n)
           else n)"
| "net_exec (DeliveryEnd i) n =
     (if i < length (sn_deliveries n)
      then (case dl_phase (sn_deliveries n ! i) of Replying idle \<Rightarrow> delivery_end i idle n | _ \<Rightarrow> Some n)
      else Some n)"
| "net_exec (SendReceive i) n =
     Some (if i < length (sn_deliveries n) \<and> dl_returned (sn_deliveries n ! i) = None
           then (case dl_result (sn_deliveries n ! i) of None \<Rightarrow> n | Some a \<Rightarrow> send_receive i a n)
           else n)"
| "net_exec (SendCancel i deadline) n =
     Some (if i < length (sn_deliveries n) \<and> dl_returned (sn_deliveries n ! i) = None
           then send_cancel i (ctx_error deadline) n else n)"

primrec net_run :: "net_event list \<Rightarrow> simulationNetwork \<Rightarrow> simulationNetwork option" where
  "net_run [] n = Some n"
| "net_run (e # es) n = Option.bind (net_exec e n) (net_run es)"

section \<open>Quiescence of the network\<close>

interpretation net_gate: idle_gate sn_activeDeliveries sn_deliveriesIdle sn_chans sn_closed beginDelivery endDelivery
  by unfold_locales (auto simp: beginDelivery_def endDelivery_def Let_def)

fun phase_tokens :: "delivery_phase \<Rightarrow> nat list" where
  "phase_tokens (Delivering c) = [c]"
| "phase_tokens (Replying c) = [c]"
| "phase_tokens _ = []"

definition tokens :: "delivery list \<Rightarrow> nat list" where
  "tokens ds = concat (map (\<lambda>d. phase_tokens (dl_phase d)) ds)"

lemma tokens_Cons [simp]: "tokens (d # ds) = phase_tokens (dl_phase d) @ tokens ds"
  by (simp add: tokens_def)

lemma tokens_mem: "i < length ds \<Longrightarrow> set (phase_tokens (dl_phase (ds ! i))) \<subseteq> set (tokens ds)"
  using nth_mem [of i ds] by (fastforce simp: tokens_def)

lemma tokens_length:
  "i < length ds \<Longrightarrow>
    length (tokens (ds[i := d])) + length (phase_tokens (dl_phase (ds ! i))) = length (tokens ds) + length (phase_tokens (dl_phase d))"
proof (induction ds arbitrary: i)
  case (Cons a ds)
  then show ?case by (cases i) simp_all
qed simp

lemma tokens_set: "set (tokens (ds[i := d])) \<subseteq> set (tokens ds) \<union> set (phase_tokens (dl_phase d))"
  using set_update_subset_insert [of ds i d] by (auto simp: tokens_def)

text \<open>A step that leaves the gate and the phases alone.\<close>

definition same_net_gate :: "simulationNetwork \<Rightarrow> simulationNetwork \<Rightarrow> bool" where
  "same_net_gate n n' \<longleftrightarrow> sn_activeDeliveries n' = sn_activeDeliveries n \<and> sn_deliveriesIdle n' = sn_deliveriesIdle n \<and>
     sn_chans n' = sn_chans n \<and> sn_closed n' = sn_closed n \<and>
     length (tokens (sn_deliveries n')) = length (tokens (sn_deliveries n)) \<and>
     set (tokens (sn_deliveries n')) \<subseteq> set (tokens (sn_deliveries n))"

definition net_gate_ok :: "simulationNetwork \<Rightarrow> bool" where
  "net_gate_ok n \<longleftrightarrow> net_gate.gate_ok n (tokens (sn_deliveries n))"

lemma same_net_gate_ok: "same_net_gate n n' \<Longrightarrow> net_gate_ok n \<Longrightarrow> net_gate_ok n'"
  unfolding net_gate_ok_def same_net_gate_def
  using net_gate.gate_resize [of n' "tokens (sn_deliveries n)" "tokens (sn_deliveries n')"]
  by (simp add: net_gate.gate_ok_def)

lemma upd_delivery_gate:
  assumes "i < length (sn_deliveries n)" and "phase_tokens (dl_phase (f (sn_deliveries n ! i))) = phase_tokens (dl_phase (sn_deliveries n ! i))"
  shows "same_net_gate n (upd_delivery i f n)"
  using tokens_length [OF assms(1), of "f (sn_deliveries n ! i)"] tokens_set [of "sn_deliveries n" i "f (sn_deliveries n ! i)"]
    tokens_mem [OF assms(1)] assms(2)
  by (auto simp: same_net_gate_def upd_delivery_def)

lemma delivery_begin_gate:
  assumes "net_gate_ok n" and "i < length (sn_deliveries n)" and "dl_phase (sn_deliveries n ! i) = Spawned"
  shows "net_gate_ok (delivery_begin i n)"
proof -
  obtain c n1 where b: "beginDelivery n = (c, n1)" by force
  have d: "sn_deliveries n1 = sn_deliveries n" using b by (auto simp: beginDelivery_def Let_def split: if_splits)
  let ?ds = "(sn_deliveries n)[i := (sn_deliveries n ! i)\<lparr>dl_phase := Delivering c\<rparr>]"
  have "net_gate.gate_ok n1 (tokens ?ds)"
    by (rule net_gate.gate_enter_any [OF assms(1) [unfolded net_gate_ok_def] b])
      (use tokens_length [OF assms(2), of "(sn_deliveries n ! i)\<lparr>dl_phase := Delivering c\<rparr>"] assms(3)
         tokens_set [of "sn_deliveries n" i "(sn_deliveries n ! i)\<lparr>dl_phase := Delivering c\<rparr>"] in auto)
  then show ?thesis
    by (simp add: delivery_begin_def b Let_def net_gate_ok_def upd_delivery_def d net_gate.gate_ok_def)
qed

lemma delivery_end_gate:
  assumes "net_gate_ok n" and "i < length (sn_deliveries n)" and "dl_phase (sn_deliveries n ! i) = Replying c"
  shows "\<exists>n'. delivery_end i c n = Some n' \<and> net_gate_ok n'"
proof -
  let ?n = "n\<lparr>sn_completed := sn_completed n + 1\<rparr>"
  let ?ds = "(sn_deliveries n)[i := (sn_deliveries n ! i)\<lparr>dl_phase := Finished\<rparr>]"
  have "net_gate.gate_ok ?n (tokens (sn_deliveries n))" using assms(1) by (simp add: net_gate_ok_def net_gate.gate_ok_def)
  then have "\<exists>s'. endDelivery c ?n = Some s' \<and> net_gate.gate_ok s' (tokens ?ds)"
    by (rule net_gate.gate_leave_any)
      (use tokens_length [OF assms(2), of "(sn_deliveries n ! i)\<lparr>dl_phase := Finished\<rparr>"] assms(3) tokens_mem [OF assms(2)]
         tokens_set [of "sn_deliveries n" i "(sn_deliveries n ! i)\<lparr>dl_phase := Finished\<rparr>"] in auto)
  then obtain s' where s': "endDelivery c ?n = Some s'" "net_gate.gate_ok s' (tokens ?ds)" by blast
  have "sn_deliveries s' = sn_deliveries n" using s'(1) by (auto simp: endDelivery_def Let_def split: if_splits)
  then show ?thesis using s' by (simp add: delivery_end_def net_gate_ok_def upd_delivery_def net_gate.gate_ok_def)
qed

lemma transport_Send_gate: "same_net_gate n (snd (transport_Send self addr payload n))"
  by (simp add: transport_Send_def Let_def same_net_gate_def tokens_def split: option.split)

lemma net_exec_gate:
  assumes "net_gate_ok n"
  shows "\<exists>n'. net_exec e n = Some n' \<and> net_gate_ok n'"
proof (cases e)
  case (SendCall self addr payload)
  then show ?thesis using same_net_gate_ok [OF transport_Send_gate assms] by simp
next
  case (DeliveryBegin i)
  then show ?thesis using assms delivery_begin_gate by auto
next
  case (DeliveryHandle i)
  show ?thesis
  proof (cases "i < length (sn_deliveries n) \<and> (\<exists>c. dl_phase (sn_deliveries n ! i) = Delivering c)")
    case True
    then obtain c where i: "i < length (sn_deliveries n)" and c: "dl_phase (sn_deliveries n ! i) = Delivering c" by blast
    have "same_net_gate n (delivery_handle i c n)"
      using upd_delivery_gate [of i n] upd_delivery_gate [of i "n\<lparr>sn_dropReplies := sn_dropReplies n + 1\<rparr>"] i c
      by (auto simp: delivery_handle_def Let_def same_net_gate_def)
    then show ?thesis using same_net_gate_ok assms i c by (simp add: DeliveryHandle)
  next
    case False
    then show ?thesis using assms by (auto simp: DeliveryHandle split: delivery_phase.split)
  qed
next
  case (DeliveryEnd i)
  then show ?thesis using assms delivery_end_gate [OF assms] by (auto split: delivery_phase.split)
next
  case (SendReceive i)
  have "same_net_gate n (send_receive i a n)" if "i < length (sn_deliveries n)" for a
    using upd_delivery_gate [of i n] upd_delivery_gate [of i "n\<lparr>sn_delivered := sn_delivered n + 1\<rparr>"] that
    by (auto simp: send_receive_def Let_def same_net_gate_def)
  then show ?thesis using same_net_gate_ok assms by (auto simp: SendReceive split: option.split)
next
  case (SendCancel i deadline)
  have "same_net_gate n (send_cancel i (ctx_error deadline) n)" if "i < length (sn_deliveries n)"
    using upd_delivery_gate [of i n] that by (simp add: send_cancel_def)
  then show ?thesis using same_net_gate_ok assms by (auto simp: SendCancel)
qed (use assms in \<open>auto simp: addNode_def setDelays_def setDrops_def network_partition_def network_heal_def on_stores_def
      upd_endpoint_def net_gate_ok_def net_gate.gate_ok_def split: sum.split\<close>)

lemma net_run_gate: "net_gate_ok n \<Longrightarrow> \<exists>n'. net_run es n = Some n' \<and> net_gate_ok n'"
proof (induction es arbitrary: n)
  case (Cons e es)
  from net_exec_gate [OF Cons.prems, of e] obtain n1 where "net_exec e n = Some n1" "net_gate_ok n1" by blast
  then show ?case using Cons.IH [of n1] by simp
qed simp

lemma new_network_gate: "net_gate_ok newSimulationNetwork"
  by (simp add: net_gate_ok_def net_gate.gate_ok_def newSimulationNetwork_def tokens_def)

section \<open>What a delivery has done\<close>

definition handler_answer :: "delivery \<Rightarrow> send_answer" where
  "handler_answer d = (case dl_handler d (dl_payload d) of Inl e \<Rightarrow> ([], Some e) | Inr r \<Rightarrow> (r, None))"

definition drop_answer :: send_answer where
  "drop_answer = ([], Some (Sentinel SimNetworkDrop))"

fun phase_handled :: "delivery_phase \<Rightarrow> bool" where
  "phase_handled Spawned = False"
| "phase_handled (Delivering c) = False"
| "phase_handled _ = True"

text \<open>
  The handler has run exactly when the delivery is past it; then the result is its answer or the drop
  error, and the caller got that result or the error of its context.
\<close>

definition delivery_ok :: "delivery \<Rightarrow> bool" where
  "delivery_ok d \<longleftrightarrow> (dl_handled d \<longleftrightarrow> phase_handled (dl_phase d)) \<and> (dl_handled d \<longleftrightarrow> dl_result d \<noteq> None) \<and>
     (\<forall>a. dl_result d = Some a \<longrightarrow> a = handler_answer d \<or> a = drop_answer) \<and>
     (\<forall>a. dl_returned d = Some a \<longrightarrow> dl_result d = Some a \<or> (\<exists>deadline. a = ([], Some (ctx_error deadline))))"

definition counters_ok :: "simulationNetwork \<Rightarrow> bool" where
  "counters_ok n \<longleftrightarrow> sn_dropped n + sn_dropRequests n + length (sn_deliveries n) \<le> sn_sends n \<and>
     sn_completed n = length (filter (\<lambda>d. dl_phase d = Finished) (sn_deliveries n))"

definition net_inv :: "simulationNetwork \<Rightarrow> bool" where
  "net_inv n \<longleftrightarrow> list_all delivery_ok (sn_deliveries n) \<and> counters_ok n"

lemma filter_update_length:
  "i < length xs \<Longrightarrow> length (filter P (xs[i := x])) + (if P (xs ! i) then 1 else 0) = length (filter P xs) + (if P x then 1 else 0)"
proof (induction xs arbitrary: i)
  case (Cons y ys)
  then show ?case by (cases i) auto
qed simp

lemma net_inv_upd:
  assumes "list_all delivery_ok (sn_deliveries n)" and "i < length (sn_deliveries n)" and "delivery_ok (f (sn_deliveries n ! i))"
  shows "list_all delivery_ok (sn_deliveries (upd_delivery i f n))"
  using assms set_update_subset_insert [of "sn_deliveries n" i] by (fastforce simp: upd_delivery_def list_all_iff)

text \<open>A step on one delivery that changes neither its phase nor the counts.\<close>

lemma net_inv_same_phase:
  assumes "net_inv n" and "i < length (sn_deliveries n)" and "delivery_ok (f (sn_deliveries n ! i))"
    and "dl_phase (f (sn_deliveries n ! i)) = Finished \<longleftrightarrow> dl_phase (sn_deliveries n ! i) = Finished"
  shows "net_inv (upd_delivery i f n)"
  using net_inv_upd [where n = n and i = i and f = f, OF _ assms(2,3)] filter_update_length [OF assms(2), of "\<lambda>d. dl_phase d = Finished" "f (sn_deliveries n ! i)"] assms(1,4)
  by (simp add: net_inv_def counters_ok_def) (simp add: upd_delivery_def split: if_splits)

lemma net_inv_frame:
  "net_inv n \<Longrightarrow> sn_deliveries n' = sn_deliveries n \<Longrightarrow> sn_completed n' = sn_completed n \<Longrightarrow> sn_dropped n' = sn_dropped n \<Longrightarrow>
    sn_dropRequests n' = sn_dropRequests n \<Longrightarrow> sn_sends n' = sn_sends n \<Longrightarrow> net_inv n'"
  by (simp add: net_inv_def counters_ok_def)

lemma transport_Send_inv: "net_inv n \<Longrightarrow> net_inv (snd (transport_Send self addr payload n))"
  by (auto simp: transport_Send_def Let_def net_inv_def counters_ok_def delivery_ok_def split: option.split)

lemma delivery_nth_ok: "net_inv n \<Longrightarrow> i < length (sn_deliveries n) \<Longrightarrow> delivery_ok (sn_deliveries n ! i)"
  by (simp add: net_inv_def list_all_length)

lemma delivery_begin_inv:
  assumes "net_inv n" and "i < length (sn_deliveries n)" and "dl_phase (sn_deliveries n ! i) = Spawned"
  shows "net_inv (delivery_begin i n)"
proof -
  obtain c n1 where b: "beginDelivery n = (c, n1)" by force
  let ?n2 = "if 0 < dl_delay (sn_deliveries n1 ! i) then n1\<lparr>sn_held := sn_held n1 + 1\<rparr> else n1"
  have d: "sn_deliveries ?n2 = sn_deliveries n" using b by (auto simp: beginDelivery_def Let_def split: if_splits)
  have "net_inv ?n2" by (rule net_inv_frame [OF assms(1)]) (use b in \<open>auto simp: beginDelivery_def Let_def split: if_splits\<close>)
  moreover have "delivery_ok ((sn_deliveries n ! i)\<lparr>dl_phase := Delivering c\<rparr>)"
    using delivery_nth_ok [OF assms(1,2)] assms(3) by (auto simp: delivery_ok_def handler_answer_def)
  ultimately show ?thesis
    using net_inv_same_phase [of ?n2 i "\<lambda>d. d\<lparr>dl_phase := Delivering c\<rparr>"] assms(2,3) d by (simp add: delivery_begin_def b Let_def)
qed

lemma delivery_handle_inv:
  assumes "net_inv n" and "i < length (sn_deliveries n)" and "dl_phase (sn_deliveries n ! i) = Delivering c"
  shows "net_inv (delivery_handle i c n)"
proof -
  let ?d = "sn_deliveries n ! i" and ?f = "\<lambda>a d. d\<lparr>dl_handled := True, dl_result := Some a, dl_phase := Replying c\<rparr>"
  have ok: "delivery_ok (?f a ?d)" if "a = handler_answer ?d \<or> a = drop_answer" for a
    using delivery_nth_ok [OF assms(1,2)] assms(3) that by (auto simp: delivery_ok_def handler_answer_def)
  have "net_inv (upd_delivery i (?f (handler_answer ?d)) n)"
    using net_inv_same_phase [of n i "?f (handler_answer ?d)"] assms ok by simp
  moreover have "net_inv (upd_delivery i (?f drop_answer) (n\<lparr>sn_dropReplies := sn_dropReplies n + 1\<rparr>))"
    using net_inv_same_phase [of "n\<lparr>sn_dropReplies := sn_dropReplies n + 1\<rparr>" i "?f drop_answer"] assms ok
      net_inv_frame [OF assms(1), of "n\<lparr>sn_dropReplies := sn_dropReplies n + 1\<rparr>"] by simp
  ultimately show ?thesis
    by (simp add: delivery_handle_def Let_def handler_answer_def drop_answer_def)
qed

lemma delivery_end_inv:
  assumes "net_inv n" and "i < length (sn_deliveries n)" and "dl_phase (sn_deliveries n ! i) = Replying c"
    and "delivery_end i c n = Some n'"
  shows "net_inv n'"
proof -
  obtain n1 where e: "endDelivery c (n\<lparr>sn_completed := sn_completed n + 1\<rparr>) = Some n1"
    and n': "n' = upd_delivery i (\<lambda>d. d\<lparr>dl_phase := Finished\<rparr>) n1"
    using assms(4) by (auto simp: delivery_end_def)
  have f: "sn_deliveries n1 = sn_deliveries n" "sn_completed n1 = sn_completed n + 1" "sn_dropped n1 = sn_dropped n"
    "sn_dropRequests n1 = sn_dropRequests n" "sn_sends n1 = sn_sends n"
    using e by (auto simp: endDelivery_def Let_def split: if_splits)
  have "delivery_ok ((sn_deliveries n ! i)\<lparr>dl_phase := Finished\<rparr>)"
    using delivery_nth_ok [OF assms(1,2)] assms(3) by (auto simp: delivery_ok_def handler_answer_def)
  then have "list_all delivery_ok (sn_deliveries n')"
    using net_inv_upd [of n1 i "\<lambda>d. d\<lparr>dl_phase := Finished\<rparr>"] assms(1,2) f n' by (simp add: net_inv_def)
  moreover have "counters_ok n'"
    using filter_update_length [OF assms(2), of "\<lambda>d. dl_phase d = Finished" "(sn_deliveries n ! i)\<lparr>dl_phase := Finished\<rparr>"] assms(1,3)
    by (simp add: net_inv_def counters_ok_def n' upd_delivery_def f)
  ultimately show ?thesis by (simp add: net_inv_def)
qed

lemma send_returns_inv:
  assumes "net_inv n" and "i < length (sn_deliveries n)"
  shows "dl_result (sn_deliveries n ! i) = Some a \<Longrightarrow> net_inv (send_receive i a n)"
    and "net_inv (send_cancel i (ctx_error deadline) n)"
proof -
  have ok: "delivery_ok ((sn_deliveries n ! i)\<lparr>dl_returned := Some a\<rparr>)"
    if "dl_result (sn_deliveries n ! i) = Some a \<or> (\<exists>deadline. a = ([], Some (ctx_error deadline)))" for a
    using delivery_nth_ok [OF assms] that by (auto simp: delivery_ok_def handler_answer_def)
  show "net_inv (send_cancel i (ctx_error deadline) n)"
    unfolding send_cancel_def by (rule net_inv_same_phase [OF assms]) (use ok in auto)
  let ?n1 = "n\<lparr>sn_delivered := sn_delivered n + 1\<rparr>"
  have n1: "net_inv ?n1" by (rule net_inv_frame [OF assms(1)]) simp_all
  assume "dl_result (sn_deliveries n ! i) = Some a"
  then have "net_inv (upd_delivery i (\<lambda>d. d\<lparr>dl_returned := Some a\<rparr>) n)"
    "net_inv (upd_delivery i (\<lambda>d. d\<lparr>dl_returned := Some a\<rparr>) ?n1)"
    using net_inv_same_phase [of n i "\<lambda>d. d\<lparr>dl_returned := Some a\<rparr>"] assms(1)
      net_inv_same_phase [of ?n1 i "\<lambda>d. d\<lparr>dl_returned := Some a\<rparr>"] n1 ok assms(2) by simp_all
  then show "net_inv (send_receive i a n)" by (simp add: send_receive_def Let_def)
qed

lemma net_exec_inv:
  assumes "net_inv n" and "net_exec e n = Some n'"
  shows "net_inv n'"
proof (cases e)
  case (SendCall self addr payload)
  then show ?thesis using transport_Send_inv [OF assms(1)] assms(2) by auto
next
  case (DeliveryBegin i)
  then show ?thesis using delivery_begin_inv [OF assms(1)] assms by (auto split: if_splits)
next
  case (DeliveryHandle i)
  then show ?thesis using delivery_handle_inv [OF assms(1)] assms by (auto split: if_splits delivery_phase.splits)
next
  case (DeliveryEnd i)
  then show ?thesis using delivery_end_inv [OF assms(1)] assms by (auto split: if_splits delivery_phase.splits)
next
  case (SendReceive i)
  then show ?thesis using send_returns_inv(1) [OF assms(1)] assms by (auto split: if_splits option.splits)
next
  case (SendCancel i deadline)
  then show ?thesis using send_returns_inv(2) [OF assms(1)] assms by (auto split: if_splits)
qed (use assms in \<open>auto simp: addNode_def setDelays_def setDrops_def network_partition_def network_heal_def on_stores_def
      upd_endpoint_def split: sum.splits intro: net_inv_frame\<close>)

lemma net_run_inv: "net_inv n \<Longrightarrow> net_run es n = Some n' \<Longrightarrow> net_inv n'"
  by (induction es arbitrary: n) (auto simp: bind_eq_Some_conv intro: net_exec_inv)

lemma new_network_inv: "net_inv newSimulationNetwork"
  by (simp add: net_inv_def counters_ok_def newSimulationNetwork_def)

section \<open>Partitions\<close>

text \<open>The stores of the current endpoints exist.\<close>

definition stores_ok :: "simulationNetwork \<Rightarrow> bool" where
  "stores_ok n \<longleftrightarrow> (\<forall>addr i. gm_get (sn_memberStore n) addr = Some i \<longrightarrow> i < length (sn_stores n))"

definition node_store :: "simulationNetwork \<Rightarrow> string \<Rightarrow> partitionedMemberStore option" where
  "node_store n addr = map_option (\<lambda>i. sn_stores n ! i) (gm_get (sn_memberStore n) addr)"

lemma fold_update_length [simp]: "length (fold (\<lambda>i ss. ss[i := f (ss ! i)]) js ss) = length ss"
  by (induction js arbitrary: ss) simp_all

lemma fold_update_nth:
  assumes "\<And>x. f (f x) = f x" and "i < length ss"
  shows "fold (\<lambda>i ss. ss[i := f (ss ! i)]) js ss ! i = (if i \<in> set js then f (ss ! i) else ss ! i)"
  using assms(2)
proof (induction js arbitrary: ss)
  case (Cons j js)
  then show ?case using assms(1) by (cases "j = i") simp_all
qed simp

lemma on_stores_node:
  assumes "stores_ok n" and "\<And>x. f (f x) = f x"
  shows "node_store (on_stores f n) addr = map_option f (node_store n addr)" and "stores_ok (on_stores f n)"
proof -
  have "i \<in> set (map snd (sn_memberStore n))" if "gm_get (sn_memberStore n) addr = Some i" for i
    using map_of_SomeD [OF that] by force
  then show "node_store (on_stores f n) addr = map_option f (node_store n addr)"
    using assms by (cases "gm_get (sn_memberStore n) addr") (auto simp: node_store_def on_stores_def stores_ok_def fold_update_nth)
  show "stores_ok (on_stores f n)" using assms(1) by (simp add: stores_ok_def on_stores_def)
qed

lemma stores_ok_frame:
  "stores_ok n \<Longrightarrow> sn_memberStore n' = sn_memberStore n \<Longrightarrow> length (sn_stores n') = length (sn_stores n) \<Longrightarrow> stores_ok n'"
  by (simp add: stores_ok_def)

lemma upd_delivery_stores [simp]:
  "sn_memberStore (upd_delivery i f n) = sn_memberStore n" "sn_stores (upd_delivery i f n) = sn_stores n"
  by (simp_all add: upd_delivery_def)

lemma gate_ops_stores:
  "sn_memberStore (snd (beginDelivery n)) = sn_memberStore n" "sn_stores (snd (beginDelivery n)) = sn_stores n"
  "endDelivery c n = Some n' \<Longrightarrow> sn_memberStore n' = sn_memberStore n \<and> sn_stores n' = sn_stores n"
  by (auto simp: beginDelivery_def endDelivery_def Let_def split: if_splits)

lemma transport_Send_stores:
  "sn_memberStore (snd (transport_Send self addr payload n)) = sn_memberStore n"
  "sn_stores (snd (transport_Send self addr payload n)) = sn_stores n"
  by (simp_all add: transport_Send_def Let_def split: option.split)

lemma net_exec_stores:
  assumes "stores_ok n" and "net_exec e n = Some n'"
  shows "stores_ok n'"
proof (cases e)
  case (AddNode addr)
  then show ?thesis using assms by (auto simp: stores_ok_def addNode_def go_map_simps less_Suc_eq split: if_splits)
next
  case (DeliveryEnd i)
  then have "n' = n \<or> (\<exists>c. delivery_end i c n = Some n')" using assms(2) by (auto split: if_splits delivery_phase.splits)
  then show ?thesis using assms(1) gate_ops_stores(3) by (fastforce simp: delivery_end_def intro: stores_ok_frame)
next
  case (Partition listing groups)
  have "stores_ok (on_stores f n)" for f using assms(1) by (rule stores_ok_frame) (simp_all add: on_stores_def)
  then show ?thesis using assms by (auto simp: Partition network_partition_def stores_ok_def split: sum.splits)
next
  case Heal
  then show ?thesis using assms by (auto simp: network_heal_def stores_ok_def on_stores_def)
next
  case (DeliveryHandle i)
  then show ?thesis using assms by (auto simp: delivery_handle_def Let_def stores_ok_def split: if_splits delivery_phase.splits)
next
  case (DeliveryBegin i)
  then show ?thesis using assms by (auto simp: delivery_begin_def Let_def stores_ok_def gate_ops_stores split_beta split: if_splits)
next
  case (SendReceive i)
  then show ?thesis using assms by (auto simp: send_receive_def Let_def stores_ok_def split: if_splits option.splits)
next
  case (SendCall self addr payload)
  then show ?thesis using assms transport_Send_stores by (auto intro: stores_ok_frame)
qed (use assms in \<open>auto simp: setDelays_def setDrops_def upd_endpoint_def send_cancel_def stores_ok_def split: if_splits\<close>)

lemma net_run_stores: "stores_ok n \<Longrightarrow> net_run es n = Some n' \<Longrightarrow> stores_ok n'"
  by (induction es arbitrary: n) (auto simp: bind_eq_Some_conv intro: net_exec_stores)

text \<open>The writes of a node while it is cut off.\<close>

fun partitioned_writes :: "member list \<Rightarrow> partitionedMemberStore \<Rightarrow> partitionedMemberStore" where
  "partitioned_writes [] s = s"
| "partitioned_writes (m # ms) s = partitioned_writes ms (snd (partitioned_WriteMember None m s))"

lemma partitioned_writes_local: "pm_partitioned s \<Longrightarrow> pm_partitioned (partitioned_writes ms s)"
  by (induction ms arbitrary: s) (auto simp: partitioned_WriteMember_def Let_def)

lemma partitioned_as_memory:
  assumes "pm_partitioned s"
  shows "partitioned_WriteMember None m s =
    (case Memory_WriteMember None \<lparr>mem_records = [], mem_reminders = [], mem_members = pm_members s\<rparr> m of
       (res, mem) \<Rightarrow> (Some res, s\<lparr>pm_members := mem_members mem\<rparr>))"
  using assms by (auto simp: partitioned_WriteMember_def Memory_WriteMember_def Let_def)

section \<open>Properties\<close>

text \<open>
  What a \<open>Send\<close> over the simulated network tells its caller, after any sequence of steps, none of which
  panics: a reply without an error is the handler's answer to that payload; the drop error after a
  delivery means that the handler ran; an error at once means that no handler was started. The network is
  idle exactly when no delivery is between its begin and its end.
\<close>

theorem simulated_send_outcomes:
  "\<exists>n. net_run events newSimulationNetwork = Some n \<and>
    (\<forall>d r. d \<in> set (sn_deliveries n) \<and> dl_returned d = Some (r, None) \<longrightarrow> dl_handled d \<and> dl_handler d (dl_payload d) = Inr r) \<and>
    (\<forall>d r. d \<in> set (sn_deliveries n) \<and> dl_returned d = Some (r, Some (Sentinel SimNetworkDrop)) \<longrightarrow> dl_handled d) \<and>
    (\<forall>a n'. transport_Send self addr payload n = (Some a, n') \<longrightarrow> snd a \<noteq> None \<and> sn_deliveries n' = sn_deliveries n) \<and>
    (network_waitForIdle_returns n \<longleftrightarrow> tokens (sn_deliveries n) = []) \<and> counters_ok n"
proof -
  obtain n where r: "net_run events newSimulationNetwork = Some n" and g: "net_gate_ok n"
    using net_run_gate [OF new_network_gate] by blast
  have inv: "net_inv n" by (rule net_run_inv [OF new_network_inv r])
  have ok: "delivery_ok d" if "d \<in> set (sn_deliveries n)" for d using inv that by (simp add: net_inv_def list_all_iff)
  have "dl_handled d \<and> dl_handler d (dl_payload d) = Inr r"
    if "d \<in> set (sn_deliveries n)" "dl_returned d = Some (r, None)" for d r
    using ok [OF that(1)] that(2) by (auto simp: delivery_ok_def handler_answer_def drop_answer_def split: sum.splits)
  moreover have "dl_handled d" if "d \<in> set (sn_deliveries n)" "dl_returned d = Some (r, Some (Sentinel SimNetworkDrop))" for d r
    using ok [OF that(1)] that(2) by (auto simp: delivery_ok_def ctx_error_def split: if_splits)
  moreover have "snd a \<noteq> None \<and> sn_deliveries n' = sn_deliveries n" if "transport_Send self addr payload n = (Some a, n')" for a n'
    using that by (auto simp: transport_Send_def Let_def split: if_splits option.splits)
  moreover have "network_waitForIdle_returns n \<longleftrightarrow> tokens (sn_deliveries n) = []"
    using net_gate.gate_idle [OF g [unfolded net_gate_ok_def]] by (simp add: network_waitForIdle_returns_def)
  moreover have "counters_ok n" using inv by (simp add: net_inv_def)
  ultimately show ?thesis using r by blast
qed

definition echo :: handler where "echo p = Inr (p @ p)"

definition demo_net_events :: "net_event list" where
  "demo_net_events = [AddNode ''a'', AddNode ''b'', ServeBegin 1 echo, SendCall ''a'' ''b'' [7], DeliveryBegin 0,
     DeliveryHandle 0, SendReceive 0, DeliveryEnd 0]"

theorem simulated_send_outcomes_witness:
  "\<exists>n d. net_run demo_net_events newSimulationNetwork = Some n \<and> sn_deliveries n = [d] \<and>
    dl_returned d = Some ([7, 7], None) \<and> dl_handler d (dl_payload d) = Inr [7, 7]"
proof -
  obtain n where n: "net_run demo_net_events newSimulationNetwork = Some n"
    and s: "\<forall>d r. d \<in> set (sn_deliveries n) \<and> dl_returned d = Some (r, None) \<longrightarrow> dl_handled d \<and> dl_handler d (dl_payload d) = Inr r"
    using simulated_send_outcomes [of demo_net_events "[]" "[]" "[]"] by (elim exE conjE) (rule that)
  have "\<exists>d. sn_deliveries n = [d] \<and> dl_returned d = Some ([7, 7], None)"
    using n by (auto simp: demo_net_events_def newSimulationNetwork_def addNode_def upd_endpoint_def transport_Serve_begin_def
        transport_Send_def blocked_def dropFor_def no_drop_def delayFor_def gm_get_or_def delivery_begin_def beginDelivery_def
        delivery_handle_def upd_delivery_def echo_def send_receive_def delivery_end_def endDelivery_def Let_def)
  then obtain d where d: "sn_deliveries n = [d]" "dl_returned d = Some ([7, 7], None)" by blast
  then have "dl_handler d (dl_payload d) = Inr [7, 7]" using s [THEN spec, of d, THEN spec, of "[7, 7]"] by simp
  then show ?thesis using n d by blast
qed



end
