(* ===== verification/Gor_Sim_Log.thy ===== *)
theory Gor_Sim_Log
  imports Gor_Sim_Network
begin

text \<open>
  The event log of the simulation, \<open>sim/log.go\<close>: the lines a run writes, the names of the faults, and
  \<open>decisionLines\<close>, which takes the decisions back out of the text. With it the formatting of the standard
  library it uses: \<open>%04d\<close>, \<open>time.Duration.String\<close>, and \<open>strings.Fields\<close> on lines of ASCII text.
\<close>

section \<open>Formatting\<close>

definition is_space :: "char \<Rightarrow> bool" where
  "is_space c \<longleftrightarrow> c \<in> {CHR 0x20, CHR 0x09, CHR 0x0A, CHR 0x0B, CHR 0x0C, CHR 0x0D}"

text \<open>\<open>strings.Fields\<close>: \<open>word\<close> is the field being read.\<close>

fun fields_from :: "string \<Rightarrow> string \<Rightarrow> string list" where
  "fields_from word [] = (if word = [] then [] else [word])"
| "fields_from word (x # xs) =
     (if is_space x then (if word = [] then fields_from [] xs else word # fields_from [] xs)
      else fields_from (word @ [x]) xs)"

definition go_fields :: "string \<Rightarrow> string list" where
  "go_fields s = fields_from [] s"

definition trim_newline :: "string \<Rightarrow> string" where
  "trim_newline s = (if s \<noteq> [] \<and> last s = CHR 0x0A then butlast s else s)"

text \<open>\<open>%04d\<close> on the non-negative numbers.\<close>

definition fmt_04d :: "nat \<Rightarrow> string" where
  "fmt_04d n = (let s = itoa n in replicate (4 - length s) (CHR ''0'') @ s)"

text \<open>\<open>fmtFrac\<close>: the digits after the point without trailing zeros.\<close>

definition fmt_frac :: "nat \<Rightarrow> nat \<Rightarrow> string" where
  "fmt_frac v prec =
     (let digits = (let s = itoa (v mod 10 ^ prec) in replicate (prec - length s) (CHR ''0'') @ s);
          kept = rev (dropWhile (\<lambda>c. c = CHR ''0'') (rev digits))
      in if v mod 10 ^ prec = 0 then [] else CHR ''.'' # kept)"

definition fmt_unit :: "nat \<Rightarrow> nat \<Rightarrow> string" where
  "fmt_unit v prec = itoa (v div 10 ^ prec) @ fmt_frac v prec"

definition duration_string :: "duration \<Rightarrow> string" where
  "duration_string d =
     (let u = nat \<bar>d\<bar>; sign = (if d < 0 then ''-'' else []);
          s = u div 1000000000; m = s div 60
      in if u = 0 then ''0s''
         else if u < 1000 then sign @ itoa u @ ''ns''
         else if u < 1000000 then sign @ fmt_unit u 3 @ [CHR 0xC2, CHR 0xB5] @ ''s''
         else if u < 1000000000 then sign @ fmt_unit u 6 @ ''ms''
         else sign @ (if 60 \<le> m then itoa (m div 60) @ ''h'' else []) @ (if 0 < m then itoa (m mod 60) @ ''m'' else []) @
              itoa (s mod 60) @ fmt_frac u 9 @ ''s'')"

section \<open>Names of faults\<close>

definition memberKey_eventName :: "member_id \<Rightarrow> string" where
  "memberKey_eventName k = id_NodeAddr k @ ''/'' @ id_Generation k"

text \<open>A fault without a name panics.\<close>

definition fault_eventName :: "string \<Rightarrow> faultSpec \<Rightarrow> string option" where
  "fault_eventName operation f =
     (case fa_kind f of
        faultReadError \<Rightarrow> Some (operation @ ''.error'')
      | faultWriteError \<Rightarrow> Some (operation @ ''.error'')
      | faultWriteAppliedError \<Rightarrow> Some (operation @ ''.applied-then-error'')
      | faultDelay \<Rightarrow> Some (''delay.'' @ operation @ ''='' @ duration_string (fa_delay f))
      | faultNone \<Rightarrow> None)"

definition memberFault_eventName :: "memberFaultSpec \<Rightarrow> string" where
  "memberFault_eventName f =
     (case mf_kind f of
        memberListError \<Rightarrow> ''member.list.error@'' @ ft_addr (mf_target f)
      | memberCASFailure \<Rightarrow> ''member.cas.error@'' @ memberKey_eventName (ft_row (mf_target f))
      | memberCASAppliedError \<Rightarrow> ''member.cas.applied-then-error@'' @ memberKey_eventName (ft_row (mf_target f))
      | memberDelay \<Rightarrow> ''member.delay='' @ duration_string (mf_delay f) @ ''@'' @ memberKey_eventName (ft_row (mf_target f))
      | memberFaultNone \<Rightarrow> ''none'')"

definition plan_eventName :: "faultPlan \<Rightarrow> string" where
  "plan_eventName p =
     (let parts = (if fa_kind (fp_read p) \<noteq> faultNone then [the (fault_eventName ''read'' (fp_read p))] else []) @
                  (if fa_kind (fp_write p) \<noteq> faultNone then [the (fault_eventName ''write'' (fp_write p))] else []) @
                  (if mf_kind (fp_member p) \<noteq> memberFaultNone then [memberFault_eventName (fp_member p)] else [])
      in if parts = [] then ''none'' else go_join '','' parts)"

definition drop_eventName :: "networkDropSpec \<Rightarrow> string" where
  "drop_eventName d =
     (case nd_side d of
        dropRequest \<Rightarrow> ''request@'' @ nd_source d @ ''->'' @ nd_destination d
      | dropReply \<Rightarrow> ''reply@'' @ nd_source d @ ''->'' @ nd_destination d
      | dropNone \<Rightarrow> ''none'')"

definition scheduleFault_eventName :: "scheduleFaultSpec \<Rightarrow> string" where
  "scheduleFault_eventName f =
     (case sf_kind f of
        scheduleListError \<Rightarrow> ''schedule.list.error@'' @ nodeAddress (sf_targetNode f)
      | scheduleListDelay \<Rightarrow> ''schedule.list.delay@'' @ nodeAddress (sf_targetNode f)
      | scheduleClaimError \<Rightarrow> ''schedule.claim.error''
      | scheduleClaimAppliedError \<Rightarrow> ''schedule.claim.applied-then-error''
      | scheduleFaultNone \<Rightarrow> ''none'')"

definition memberFaultSuffix :: "memberFaultSpec list \<Rightarrow> string" where
  "memberFaultSuffix fault = (case fault of [] \<Rightarrow> [] | f # _ \<Rightarrow> '' member-fault='' @ memberFault_eventName f)"

section \<open>The log\<close>

record eventLog =
  el_lines :: "string list"
  el_nextDecision :: nat

definition emptyLog :: eventLog where
  "emptyLog = \<lparr>el_lines = [], el_nextDecision = 0\<rparr>"

definition log_add :: "string \<Rightarrow> eventLog \<Rightarrow> eventLog" where
  "log_add line l = l\<lparr>el_lines := el_lines l @ [line]\<rparr>"

definition addDecisionEvent :: "string \<Rightarrow> eventLog \<Rightarrow> eventLog" where
  "addDecisionEvent event l =
     (let l1 = log_add (fmt_04d (el_nextDecision l) @ '' decision '' @ event) l
      in l1\<lparr>el_nextDecision := el_nextDecision l1 + 1\<rparr>)"

definition formatIntList :: "int list \<Rightarrow> string" where
  "formatIntList xs = go_join '','' (map print_int xs)"

definition formatInt64List :: "int list \<Rightarrow> string" where
  "formatInt64List xs = go_join '','' (map print_int xs)"

definition grain_name :: "grain_id \<Rightarrow> string" where
  "grain_name gid = GrainType gid @ ''/'' @ GrainKey gid"

definition addCallDecision :: "int list \<Rightarrow> grain_id \<Rightarrow> faultPlan \<Rightarrow> int list \<Rightarrow> eventLog \<Rightarrow> eventLog" where
  "addCallDecision nodes gid plan deltas =
     addDecisionEvent (''call nodes=['' @ formatIntList nodes @ ''] entity='' @ grain_name gid @ '' deltas=['' @
       formatInt64List deltas @ ''] fault='' @ plan_eventName plan)"

definition addScheduleDecision ::
    "int \<Rightarrow> grain_id \<Rightarrow> string \<Rightarrow> duration \<Rightarrow> duration \<Rightarrow> scheduleFaultSpec \<Rightarrow> memberFaultSpec list \<Rightarrow> eventLog \<Rightarrow> eventLog" where
  "addScheduleDecision node gid name delay interval fault member =
     addDecisionEvent (''schedule node='' @ print_int node @ '' entity='' @ grain_name gid @ '' name='' @ name @ '' after='' @
       duration_string delay @ '' every='' @ duration_string interval @ '' fault='' @ scheduleFault_eventName fault @ memberFaultSuffix member)"

definition addDisarmDecision :: "int \<Rightarrow> grain_id \<Rightarrow> string \<Rightarrow> memberFaultSpec list \<Rightarrow> eventLog \<Rightarrow> eventLog" where
  "addDisarmDecision node gid name member =
     addDecisionEvent (''disarm node='' @ print_int node @ '' entity='' @ grain_name gid @ '' name='' @ name @ memberFaultSuffix member)"

definition addCrashDecision :: "int \<Rightarrow> memberFaultSpec list \<Rightarrow> eventLog \<Rightarrow> eventLog" where
  "addCrashDecision node member = addDecisionEvent (''crash node='' @ print_int node @ memberFaultSuffix member)"

definition addRestartDecision :: "int \<Rightarrow> memberFaultSpec list \<Rightarrow> eventLog \<Rightarrow> eventLog" where
  "addRestartDecision node member = addDecisionEvent (''restart node='' @ print_int node @ memberFaultSuffix member)"

definition addLeaveDecision :: "int \<Rightarrow> memberFaultSpec \<Rightarrow> eventLog \<Rightarrow> eventLog" where
  "addLeaveDecision node member = addDecisionEvent (''leave node='' @ print_int node @ memberFaultSuffix [member])"

definition addNetworkDecision :: "duration \<Rightarrow> networkDropSpec \<Rightarrow> eventLog \<Rightarrow> eventLog" where
  "addNetworkDecision delay d = addDecisionEvent (''network-delay='' @ duration_string delay @ '' drop='' @ drop_eventName d)"

definition addClusterOutcome :: "string \<Rightarrow> int \<Rightarrow> string \<Rightarrow> eventLog \<Rightarrow> eventLog" where
  "addClusterOutcome operation node out = log_add (''     observe '' @ operation @ '' node='' @ print_int node @ '' outcome='' @ out)"

definition addScheduleOutcome :: "string \<Rightarrow> int \<Rightarrow> string \<Rightarrow> eventLog \<Rightarrow> eventLog" where
  "addScheduleOutcome operation node out = log_add (''     observe '' @ operation @ '' node='' @ print_int node @ '' outcome='' @ out)"

definition addOutcomes :: "string list \<Rightarrow> eventLog \<Rightarrow> eventLog" where
  "addOutcomes outcomes = log_add (''     observe outcomes=['' @ go_join '','' outcomes @ '']'')"

definition addState :: "grain_id \<Rightarrow> int \<Rightarrow> eventLog \<Rightarrow> eventLog" where
  "addState gid v = log_add (''     observe state '' @ grain_name gid @ ''='' @ print_int v)"

definition addScheduleObservation :: "scheduleStats \<Rightarrow> nat \<Rightarrow> eventLog \<Rightarrow> eventLog" where
  "addScheduleObservation st deliveries =
     log_add (''     observe reminders list-calls='' @ itoa (ss_listCalls st) @ '' claim-won='' @ itoa (ss_claimWon st) @
       '' claim-lost='' @ itoa (ss_claimLost st) @ '' deliveries='' @ itoa deliveries @ '' list-errors='' @ itoa (ss_listErrors st) @
       '' list-delays='' @ itoa (ss_listDelays st) @ '' claim-errors='' @ itoa (ss_claimErrors st) @
       '' claim-applied-errors='' @ itoa (ss_claimAppliedErrors st))"

definition addMemberObservation :: "memberStats \<Rightarrow> eventLog \<Rightarrow> eventLog" where
  "addMemberObservation st =
     log_add (''     observe members list-calls='' @ itoa (mt_listCalls st) @ '' write-calls='' @ itoa (mt_writeCalls st) @
       '' list-errors='' @ itoa (mt_listErrors st) @ '' cas-errors='' @ itoa (mt_casConflicts st) @ '' cas-applied-errors='' @
       itoa (mt_casAppliedErrors st) @ '' delays='' @ itoa (mt_delays st) @ '' dead-writes='' @ itoa (mt_deadWrites st) @
       '' delayed-dead-cas='' @ itoa (mt_delayedDeadCAS st))"

definition addNetworkObservation :: "simulationNetwork \<Rightarrow> eventLog \<Rightarrow> eventLog" where
  "addNetworkObservation n =
     log_add (''     observe network sends='' @ itoa (sn_sends n) @ '' delivered='' @ itoa (sn_delivered n) @ '' partition-drops='' @
       itoa (sn_dropped n) @ '' drop-requests='' @ itoa (sn_dropRequests n) @ '' drop-replies='' @ itoa (sn_dropReplies n) @
       '' held='' @ itoa (sn_held n) @ '' completed='' @ itoa (sn_completed n))"

definition log_String :: "eventLog \<Rightarrow> string" where
  "log_String l = go_join [CHR 0x0A] (el_lines l) @ [CHR 0x0A]"

definition is_decision_line :: "string \<Rightarrow> bool" where
  "is_decision_line line \<longleftrightarrow> 1 < length (go_fields line) \<and> go_fields line ! 1 = ''decision''"

definition decisionLines :: "string \<Rightarrow> string" where
  "decisionLines log =
     go_join [CHR 0x0A] (filter is_decision_line (go_split (CHR 0x0A) (trim_newline log))) @ [CHR 0x0A]"

section \<open>Reading the text back\<close>

lemma go_split_line: "c \<notin> set l \<Longrightarrow> go_split c l = [l]"
  by (induction l) auto

lemma go_split_append: "c \<notin> set l \<Longrightarrow> go_split c (l @ c # rest) = l # go_split c rest"
  by (induction l) auto

lemma go_split_join: "ls \<noteq> [] \<Longrightarrow> \<forall>l \<in> set ls. c \<notin> set l \<Longrightarrow> go_split c (go_join [c] ls) = ls"
proof (induction "[c]" ls rule: go_join.induct)
  case (3 s s' ss)
  then show ?case by (simp add: go_split_append)
qed (simp_all add: go_split_line)

lemma trim_newline_snoc [simp]: "trim_newline (s @ [CHR 0x0A]) = s"
  by (simp add: trim_newline_def)

lemma fields_word:
  "\<forall>x \<in> set w. \<not> is_space x \<Longrightarrow> fields_from word (w @ rest) = fields_from (word @ w) rest"
  by (induction w arbitrary: word) simp_all

lemma go_fields_word:
  "w \<noteq> [] \<Longrightarrow> \<forall>x \<in> set w. \<not> is_space x \<Longrightarrow> go_fields (w @ CHR 0x20 # rest) = w # go_fields rest"
  using fields_word [of w "[]" "CHR 0x20 # rest"] by (simp add: go_fields_def is_space_def)

lemma go_fields_nospace: "\<forall>x \<in> set w. \<not> is_space x \<Longrightarrow> length (go_fields w) \<le> 1"
  using fields_word [of w "[]" "[]"] by (simp add: go_fields_def)

lemma itoa_no_space: "x \<in> set (itoa n) \<Longrightarrow> \<not> is_space x"
  using itoa_digits [of n] by (auto simp: is_space_def is_digit_def list_all_iff)

lemma fmt_04d_word: "fmt_04d n \<noteq> []" "x \<in> set (fmt_04d n) \<Longrightarrow> \<not> is_space x"
  using itoa_no_space [of x n] itoa_head [of n] by (auto simp: fmt_04d_def Let_def is_space_def)

lemma decision_line: "is_decision_line (fmt_04d n @ '' decision '' @ event)"
proof -
  have "go_fields (fmt_04d n @ CHR 0x20 # ''decision'' @ CHR 0x20 # event) = fmt_04d n # go_fields (''decision'' @ CHR 0x20 # event)"
    by (rule go_fields_word) (auto simp: fmt_04d_word)
  moreover have "go_fields (''decision'' @ CHR 0x20 # event) = ''decision'' # go_fields event"
    by (rule go_fields_word) (auto simp: is_space_def)
  ultimately show ?thesis by (simp add: is_decision_line_def)
qed

lemma observe_line: "is_decision_line (''     observe '' @ str) \<longleftrightarrow> go_fields str \<noteq> [] \<and> hd (go_fields str) = ''decision''"
proof -
  have "go_fields (''     observe '' @ str) = go_fields (''observe'' @ CHR 0x20 # str)"
    by (simp add: go_fields_def is_space_def)
  also have "\<dots> = ''observe'' # go_fields str" by (rule go_fields_word) (auto simp: is_space_def)
  finally show ?thesis by (cases "go_fields str") (simp_all add: is_decision_line_def)
qed

text \<open>A run logs the seed, decisions and observations.\<close>

datatype log_op = LogSeed string | LogDecision string | LogObserve string

fun log_exec :: "log_op \<Rightarrow> eventLog \<Rightarrow> eventLog" where
  "log_exec (LogSeed str) l = log_add (''seed='' @ str) l"
| "log_exec (LogDecision event) l = addDecisionEvent event l"
| "log_exec (LogObserve str) l = log_add (''     observe '' @ str) l"

text \<open>Texts on one line; no blank in the seed; no observation that starts with the word \<open>decision\<close>.\<close>

fun log_op_ok :: "log_op \<Rightarrow> bool" where
  "log_op_ok (LogSeed str) = list_all (\<lambda>c. \<not> is_space c) str"
| "log_op_ok (LogDecision event) = (CHR 0x0A \<notin> set event)"
| "log_op_ok (LogObserve str) = (CHR 0x0A \<notin> set str \<and> \<not> (go_fields str \<noteq> [] \<and> hd (go_fields str) = ''decision''))"

fun decision_texts :: "nat \<Rightarrow> log_op list \<Rightarrow> string list" where
  "decision_texts n [] = []"
| "decision_texts n (LogDecision event # ops) = (fmt_04d n @ '' decision '' @ event) # decision_texts (Suc n) ops"
| "decision_texts n (_ # ops) = decision_texts n ops"

lemma log_run_lines:
  "list_all log_op_ok ops \<Longrightarrow>
    \<exists>new. el_lines (fold log_exec ops l) = el_lines l @ new \<and> (\<forall>x \<in> set new. CHR 0x0A \<notin> set x) \<and>
      filter is_decision_line new = decision_texts (el_nextDecision l) ops"
proof (induction ops arbitrary: l)
  case (Cons op ops)
  let ?l = "log_exec op l"
  have "list_all log_op_ok ops" using Cons.prems by simp
  from Cons.IH [OF this, of ?l] obtain new where new: "el_lines (fold log_exec ops ?l) = el_lines ?l @ new" "\<forall>x \<in> set new. CHR 0x0A \<notin> set x"
    "filter is_decision_line new = decision_texts (el_nextDecision ?l) ops" by blast
  have nl: "CHR 0x0A \<notin> set (fmt_04d n)" for n using fmt_04d_word(2) [of "CHR 0x0A" n] by (auto simp: is_space_def)
  obtain line where line: "el_lines ?l = el_lines l @ [line]" "CHR 0x0A \<notin> set line"
    "(if is_decision_line line then [line] else []) @ decision_texts (el_nextDecision ?l) ops = decision_texts (el_nextDecision l) (op # ops)"
  proof (cases op)
    case (LogSeed str)
    have "\<not> is_decision_line (''seed='' @ str)"
      using go_fields_nospace [of "''seed='' @ str"] Cons.prems by (simp add: LogSeed is_decision_line_def list_all_iff is_space_def)
    then show ?thesis using that [of "''seed='' @ str"] Cons.prems by (auto simp: LogSeed log_add_def list_all_iff is_space_def)
  next
    case (LogDecision event)
    then show ?thesis using that [of "fmt_04d (el_nextDecision l) @ '' decision '' @ event"] Cons.prems decision_line [of _ event] nl
      by (simp add: addDecisionEvent_def Let_def log_add_def)
  next
    case (LogObserve str)
    then show ?thesis using that [of "''     observe '' @ str"] Cons.prems observe_line [of str] by (simp add: log_add_def)
  qed
  have "el_lines (fold log_exec (op # ops) l) = el_lines l @ (line # new)" using new(1) line(1) by simp
  moreover have "filter is_decision_line (line # new) = decision_texts (el_nextDecision l) (op # ops)" using new(3) line(3) by (auto split: if_splits)
  ultimately show ?case using new(2) line(2) by (intro exI [of _ "line # new"]) simp
qed simp

section \<open>Properties\<close>

text \<open>
  The decisions of a run can be read back from its text: for texts on one line, \<open>decisionLines\<close> of the
  printed log returns exactly the decisions, numbered in the order they were logged, whatever was
  observed in between.
\<close>

theorem decision_lines_roundtrip:
  assumes "list_all log_op_ok ops"
  shows "decisionLines (log_String (fold log_exec ops emptyLog)) = go_join [CHR 0x0A] (decision_texts 0 ops) @ [CHR 0x0A]"
proof -
  from log_run_lines [OF assms, of emptyLog] obtain new where
    new: "el_lines (fold log_exec ops emptyLog) = new" "\<forall>x \<in> set new. CHR 0x0A \<notin> set x" "filter is_decision_line new = decision_texts 0 ops"
    by (auto simp: emptyLog_def)
  have "filter is_decision_line (go_split (CHR 0x0A) (go_join [CHR 0x0A] new)) = filter is_decision_line new"
  proof (cases "new = []")
    case True
    then show ?thesis by (simp add: is_decision_line_def go_fields_def)
  next
    case False
    then show ?thesis using go_split_join [of new "CHR 0x0A"] new(2) by simp
  qed
  then show ?thesis using new by (simp add: decisionLines_def log_String_def)
qed

lemma fmt_04d_small: "fmt_04d 0 = ''0000''" "fmt_04d (Suc 0) = ''0001''"
  by code_simp+

theorem decision_lines_roundtrip_witness:
  "decisionLines (log_String (fold log_exec [LogSeed ''8f3c224c'', LogDecision ''crash node=1'', LogObserve ''outcomes=[ok]'',
      LogDecision ''restart node=1''] emptyLog)) =
   go_join [CHR 0x0A] [''0000 decision crash node=1'', ''0001 decision restart node=1''] @ [CHR 0x0A]"
  using decision_lines_roundtrip [of "[LogSeed ''8f3c224c'', LogDecision ''crash node=1'', LogObserve ''outcomes=[ok]'',
      LogDecision ''restart node=1'']"]
  by (simp add: is_space_def go_fields_def fmt_04d_small)

text \<open>Every kind of line the run writes is one of these.\<close>

lemma log_lines_are_ops:
  "addCrashDecision node mf = log_exec (LogDecision (''crash node='' @ print_int node @ memberFaultSuffix mf))"
  "addOutcomes outs = log_exec (LogObserve (''outcomes=['' @ go_join '','' outs @ '']''))"
  "addState gid v = log_exec (LogObserve (''state '' @ grain_name gid @ ''='' @ print_int v))"
  by (simp_all add: addCrashDecision_def addOutcomes_def addState_def fun_eq_iff)

end
