(* ===== verification/Gor_Sim.thy ===== *)
theory Gor_Sim
  imports Gor_Sim_Log Gor_State Gor_Root Gor_Clock
begin

text \<open>
  The simulation itself: the counter Grain and its proxy, the classification of outcomes and the
  observations of \<open>sim/sim.go\<close>, the history model of \<open>sim/history.go\<close>, the driver's model of the cluster
  of \<open>sim/cluster.go\<close>, and the decisions a step draws. The random source is the parameter \<open>intN\<close>,
  \<open>rng.IntN\<close>: it gives a number below its argument, or panics (\<open>None\<close>) when the argument is not positive.
  The linearizability checker of the third-party package \<open>porcupine\<close> is not modelled: the history model
  is the step function the code hands to it.
\<close>

section \<open>The counter Grain\<close>

datatype counter_args =
    AddRequest int | ArmRequest string duration duration | DisarmRequest string | TickRequest tick_status

datatype counter_reply = AddReply int | ArmReply | DisarmReply | TickReply

definition zero_tick :: tick_status where
  "zero_tick = \<lparr>ts_FirstTickTime = 0, ts_Period = 0, ts_CurrentTickTime = 0\<rparr>"

text \<open>\<open>encoding/json\<close> on an \<open>int64\<close>.\<close>

definition int64_codec :: "int codec" where
  "int64_codec = \<lparr>cd_zero = 0, cd_marshal = (\<lambda>n. Inr (JNum n)), cd_unmarshal = (\<lambda>j old. un_int64 old j)\<rparr>"

definition counter_binder :: "grain_id \<Rightarrow> int grain_binder" where
  "counter_binder i = projr (NewState ''value'' int64_codec (newBinder i))"

definition counterEntity_Add ::
    "'s store_write \<Rightarrow> int \<Rightarrow> int grain_binder \<Rightarrow> 's \<Rightarrow> (int \<times> go_error option) \<times> int grain_binder \<times> 's" where
  "counterEntity_Add wr delta b s =
     (let next = wrap64 (the (State_Get b ''value'') + delta)
      in case State_Set wr int64_codec ''value'' next b s of
           (Some e, b', s') \<Rightarrow> ((0, Some e), b', s')
         | (None, b', s') \<Rightarrow> ((next, None), b', s'))"

definition counterEntity_Arm ::
    "('s \<Rightarrow> reminder \<Rightarrow> unit result \<times> 's) option \<Rightarrow> gtime \<Rightarrow> grain_id \<Rightarrow> string \<Rightarrow> duration \<Rightarrow> duration \<Rightarrow> 's \<Rightarrow> go_error option \<times> 's" where
  "counterEntity_Arm put now i name delay interval s =
     Reminder_Set put now i name (if 0 < interval then Every interval else After delay) (Handle ''sim.counter.Tick'') s"

definition counterEntity_Disarm ::
    "('s \<Rightarrow> grain_id \<Rightarrow> string \<Rightarrow> unit result \<times> 's) option \<Rightarrow> grain_id \<Rightarrow> string \<Rightarrow> 's \<Rightarrow> go_error option \<times> 's" where
  "counterEntity_Disarm del i name s = Reminder_Cancel del i name s"

definition counterEntity_Tick :: "grain_id \<Rightarrow> timerTracker \<Rightarrow> timerTracker" where
  "counterEntity_Tick i t = timerTracker_deliver i t"

text \<open>What each proxy method passes to \<open>Invoke\<close>: method, arguments and reply.\<close>

definition counterProxy_Add :: "int \<Rightarrow> string \<times> counter_args \<times> counter_reply" where
  "counterProxy_Add delta = (''Add'', AddRequest delta, AddReply 0)"

definition counterProxy_Arm :: "string \<Rightarrow> duration \<Rightarrow> duration \<Rightarrow> string \<times> counter_args \<times> counter_reply" where
  "counterProxy_Arm name delay interval = (''Arm'', ArmRequest name delay interval, ArmReply)"

definition counterProxy_Disarm :: "string \<Rightarrow> string \<times> counter_args \<times> counter_reply" where
  "counterProxy_Disarm name = (''Disarm'', DisarmRequest name, DisarmReply)"

definition counterProxy_Tick :: "tick_status \<Rightarrow> string \<times> counter_args \<times> counter_reply" where
  "counterProxy_Tick tick = (''Tick'', TickRequest tick, TickReply)"

text \<open>
  \<open>dispatchCounter\<close>: which method of the instance runs, on which arguments. The outer \<open>None\<close> is the panic of a
  failed type assertion.
\<close>

datatype counter_call = CallAdd int | CallArm string duration duration | CallDisarm string | CallTick tick_status

definition dispatchCounter :: "string \<Rightarrow> counter_args \<Rightarrow> counter_reply \<Rightarrow> counter_call result option" where
  "dispatchCounter meth args reply =
     (if meth = ''Add'' then (case (args, reply) of (AddRequest d, AddReply _) \<Rightarrow> Some (Inr (CallAdd d)) | _ \<Rightarrow> None)
      else if meth = ''Arm'' then (case args of ArmRequest n d i \<Rightarrow> Some (Inr (CallArm n d i)) | _ \<Rightarrow> None)
      else if meth = ''Disarm'' then (case args of DisarmRequest n \<Rightarrow> Some (Inr (CallDisarm n)) | _ \<Rightarrow> None)
      else if meth = ''Tick'' then (case args of TickRequest t \<Rightarrow> Some (Inr (CallTick t)) | _ \<Rightarrow> None)
      else Some (Inl (NewErr (''unknown method '' @ go_quote meth))))"

definition newCounterCall :: "string \<Rightarrow> counter_args option \<times> counter_reply option" where
  "newCounterCall meth =
     (if meth = ''Add'' then (Some (AddRequest 0), Some (AddReply 0))
      else if meth = ''Arm'' then (Some (ArmRequest [] 0 0), Some ArmReply)
      else if meth = ''Disarm'' then (Some (DisarmRequest []), Some DisarmReply)
      else if meth = ''Tick'' then (Some (TickRequest zero_tick), Some TickReply)
      else (None, None))"

definition newCounterReminderCall :: "string \<Rightarrow> tick_status \<Rightarrow> counter_args option \<times> counter_reply option" where
  "newCounterReminderCall meth status = (if meth = ''Tick'' then (Some (TickRequest status), Some TickReply) else (None, None))"

section \<open>Outcomes\<close>

definition simErrorIs :: "go_error option \<Rightarrow> err_target \<Rightarrow> bool" where
  "simErrorIs err target \<longleftrightarrow> (case err of None \<Rightarrow> False | Some e \<Rightarrow> errors_Is e target)"

definition classifyOutcome :: "go_error option \<Rightarrow> string result" where
  "classifyOutcome err =
     (case err of
        None \<Rightarrow> Inr ''ok''
      | Some e \<Rightarrow>
          if simErrorIs err (TSentinel SimReadFailure) then Inr ''store-read-error''
          else if simErrorIs err (TSentinel SimWriteFailure) then Inr ''store-write-error''
          else if simErrorIs err (TSentinel SimAppliedWriteFailure) then Inr ''store-write-applied-then-error''
          else if simErrorIs err (TSentinel SimMemberListFailure) then Inr ''member-list-error''
          else if simErrorIs err (TSentinel SimMemberAppliedFailure) then Inr ''member-write-applied-then-error''
          else if simErrorIs err (TCode ErrNodeDead) then Inr ''cluster-node-dead''
          else if simErrorIs err (TCode ErrTransportFailed) then Inr ''transport-failed''
          else if simErrorIs err (TCode ErrPersistenceConflict) \<or> simErrorIs err (TSentinel StoreErrConflict) then Inr ''store-conflict''
          else if simErrorIs err (TCode ErrPersistenceFailed) then Inr ''store-write-unknown''
          else if simErrorIs err (TCode ErrNoOwner) then Inr ''wrong-owner''
          else if simErrorIs err (TCode ErrRuntimeClosed) then Inr ''closed''
          else if simErrorIs err (TCode ErrOverloaded) then Inr ''overloaded''
          else if simErrorIs err (TSentinel CtxCanceled) then Inr ''canceled''
          else Inl (Wrap (''unclassified invocation error: '' @ error_text e) e))"

datatype counterOperationStatus = counterOperationSucceeded | counterOperationFailed | counterOperationUnknown

record counterOperationOutput =
  co_value :: int
  co_status :: counterOperationStatus

definition counterOperationOutputFor :: "int \<Rightarrow> go_error option \<Rightarrow> counterOperationOutput" where
  "counterOperationOutputFor v err =
     \<lparr>co_value = v,
      co_status =
        (if err = None then counterOperationSucceeded
         else if simErrorIs err (TSentinel SimAppliedWriteFailure) \<or> simErrorIs err (TCode ErrPersistenceFailed) \<or>
                 simErrorIs err (TCode ErrRuntimeClosed) \<or> simErrorIs err (TSentinel CtxCanceled) \<or> simErrorIs err (TCode ErrTransportFailed)
              then counterOperationUnknown
         else counterOperationFailed)\<rparr>"

text \<open>The nondeterministic model of one counter, on \<open>int64\<close>.\<close>

definition counterModel_Init :: "int list" where
  "counterModel_Init = [0]"

definition counterModel_Step :: "int \<Rightarrow> int \<Rightarrow> counterOperationOutput \<Rightarrow> int list" where
  "counterModel_Step v delta result =
     (case co_status result of
        counterOperationUnknown \<Rightarrow> [v, wrap64 (v + delta)]
      | counterOperationFailed \<Rightarrow> [v]
      | counterOperationSucceeded \<Rightarrow> if co_value result \<noteq> wrap64 (v + delta) then [] else [co_value result])"

text \<open>The value a record holds for the checks: \<open>value\<close> of its document.\<close>

definition counterValue :: "store_record \<Rightarrow> int result" where
  "counterValue rec =
     (if rec_Data rec = [] then Inr 0
      else case unmarshal_bytes (rec_Data rec) of
             Inl e \<Rightarrow> Inl e
           | Inr j \<Rightarrow> un_struct (\<lambda>n j v. if n = ''value'' then un_int64 v j else Inr v) 0 j)"

record observations =
  ob_commitOffset :: nat
  ob_lastETag :: "(grain_id, etag) gomap"
  ob_knownData :: "(grain_id, string list) gomap"

definition newObservations :: observations where
  "newObservations = \<lparr>ob_commitOffset = 0, ob_lastETag = [], ob_knownData = []\<rparr>"

definition note_write :: "writeEvent \<Rightarrow> (grain_id, string list) gomap \<Rightarrow> (grain_id, string list) gomap" where
  "note_write w kd = gm_put (we_id w) (List.insert (string_of_bytes (we_data w)) (gm_get_or [] kd (we_id w))) kd"

text \<open>The loop of \<open>check\<close> over the identities that are left.\<close>

fun check_records :: "(grain_id, store_record) gomap \<Rightarrow> grain_id list \<Rightarrow> observations \<Rightarrow> go_error option \<times> observations" where
  "check_records records [] o1 = (None, o1)"
| "check_records records (i # is) o1 =
     (let rec = gm_get_or zero_record records i;
          lastTag = gm_get_or 0 (ob_lastETag o1) i
      in if rec_ETag rec < lastTag
         then (Some (NewErr (''etag regressed for '' @ grain_name i @ '': got '' @ print_int (rec_ETag rec) @ '' after '' @ print_int lastTag)), o1)
         else (let o2 = o1\<lparr>ob_lastETag := gm_put i (rec_ETag rec) (ob_lastETag o1)\<rparr>
               in if 0 < rec_ETag rec \<and> string_of_bytes (rec_Data rec) \<notin> set (gm_get_or [] (ob_knownData o2) i)
                  then (Some (NewErr (''content was not observed in a committed write for '' @ grain_name i @ '': '' @
                         go_quote (string_of_bytes (rec_Data rec)))), o2)
                  else check_records records is o2))"

definition observations_check :: "fakeStore \<Rightarrow> grain_id list \<Rightarrow> observations \<Rightarrow> (go_error option \<times> observations) option" where
  "observations_check backend ids o1 =
     (case committedWritesSince backend (ob_commitOffset o1) of
        None \<Rightarrow> None
      | Some (writes, offset) \<Rightarrow>
          Some (check_records (fakeStore_snapshot backend ids) ids
            (o1\<lparr>ob_knownData := fold note_write writes (ob_knownData o1), ob_commitOffset := offset\<rparr>)))"

definition counterHistory_add ::
    "grain_id \<Rightarrow> 'op \<Rightarrow> (grain_id, 'op list) gomap \<Rightarrow> (grain_id, 'op list) gomap" where
  "counterHistory_add i operation h = gm_put i (gm_get_or [] h i @ [operation]) h"

text \<open>\<open>checkOperations\<close> is the checker of the package \<open>porcupine\<close>.\<close>

definition counterHistory_check :: "('op list \<Rightarrow> bool) \<Rightarrow> (grain_id, 'op list) gomap \<Rightarrow> go_error option" where
  "counterHistory_check checkOperations h =
     (case filter (\<lambda>i. \<not> checkOperations (gm_get_or [] h i)) (sort (map fst h)) of
        [] \<Rightarrow> None
      | i # _ \<Rightarrow> Some (NewErr (''counter history is not linearizable for '' @ grain_name i)))"

definition logEntityStates :: "fakeStore \<Rightarrow> grain_id list \<Rightarrow> eventLog \<Rightarrow> go_error option \<times> eventLog" where
  "logEntityStates backend ids l =
     (let records = fakeStore_snapshot backend ids
      in fold (\<lambda>i (err, l1).
           case err of
             Some e \<Rightarrow> (Some e, l1)
           | None \<Rightarrow>
               (case counterValue (gm_get_or zero_record records i) of
                  Inl e \<Rightarrow> (Some (Wrap (''decode state for '' @ grain_name i @ '': '' @ error_text e) e), l1)
                | Inr v \<Rightarrow> (None, addState i v l1))) (sort ids) (None, l))"

section \<open>The driver's model of the cluster\<close>

definition simulationStepDuration :: duration where "simulationStepDuration = 1000000"

text \<open>
  Node numbers are positions. \<open>cl_nodes\<close> holds the runtime of each node, \<open>None\<close> for nil, and \<open>cl_stops\<close>
  records which stop each runtime got before the node forgot it. The store, the network, the tracker and
  the clock of the cluster are arguments of the operations that use them.
\<close>

datatype runtime_stop = RuntimeClose | RuntimeKill

record 'a simulationCluster =
  cl_generations :: "nat list"
  cl_driverLive :: "bool list"
  cl_nodes :: "'a root option list"
  cl_stops :: "(nat \<times> runtime_stop) list"

definition memberGeneration :: "nat \<Rightarrow> nat \<Rightarrow> string" where
  "memberGeneration i generation = ''generation-'' @ itoa i @ ''-'' @ itoa generation"

definition cluster_of :: "'a root list \<Rightarrow> 'a simulationCluster" where
  "cluster_of runtimes =
     \<lparr>cl_generations = replicate (length runtimes) 0, cl_driverLive = replicate (length runtimes) True,
      cl_nodes = map Some runtimes, cl_stops = []\<rparr>"

text \<open>
  \<open>close\<close> over the node pointers: each runtime is closed. The outer \<open>None\<close> in the list is a nil pointer,
  whose field read panics.
\<close>

fun close_nodes :: "nat \<Rightarrow> 'a root option option list \<Rightarrow> (nat \<times> runtime_stop) list option" where
  "close_nodes k [] = Some []"
| "close_nodes k (None # nodes) = None"
| "close_nodes k (Some None # nodes) = close_nodes (Suc k) nodes"
| "close_nodes k (Some (Some rt) # nodes) = map_option ((#) (k, RuntimeClose)) (close_nodes (Suc k) nodes)"

definition cluster_close :: "'a simulationCluster \<Rightarrow> 'a simulationCluster" where
  "cluster_close c =
     c\<lparr>cl_nodes := map (\<lambda>_. None) (cl_nodes c), cl_stops := cl_stops c @ the (close_nodes 0 (map Some (cl_nodes c)))\<rparr>"

text \<open>
  \<open>newSimulationCluster\<close>; \<open>created\<close> are the results of \<open>newRuntime\<close> for the nodes in order. After the first
  error the nodes from there on are still nil pointers when \<open>close\<close> runs over them. \<open>None\<close> is the panic.
\<close>

definition newSimulationCluster :: "'a root result list \<Rightarrow> fakeStore \<Rightarrow> ('a simulationCluster result \<times> fakeStore) option" where
  "newSimulationCluster created backend =
     (let runtimes = map projr (takeWhile (\<lambda>r. \<not> isl r) created)
      in case dropWhile (\<lambda>r. \<not> isl r) created of
           [] \<Rightarrow> Some (Inr (cluster_of runtimes), setMemberClock FakeClock backend)
         | failed # _ \<Rightarrow>
             map_option (\<lambda>_. (Inl (projl failed), setMemberClock FakeClock backend))
               (close_nodes 0 (map (Some \<circ> Some) runtimes @ replicate (length created - length runtimes) None)))"

definition runtimeStopped :: "'a root \<Rightarrow> bool" where
  "runtimeStopped rt = rt_done rt"

definition cluster_node :: "'a simulationCluster \<Rightarrow> int \<Rightarrow> nat result" where
  "cluster_node c i = (if i < 0 \<or> int (length (cl_nodes c)) \<le> i then Inl (NewErr (''unknown node '' @ print_int i)) else Inr (nat i))"

definition stop_node :: "runtime_stop \<Rightarrow> 'a simulationCluster \<Rightarrow> int \<Rightarrow> go_error option \<times> 'a simulationCluster" where
  "stop_node stop c i =
     (case cluster_node c i of
        Inl e \<Rightarrow> (Some e, c)
      | Inr k \<Rightarrow>
          (case cl_nodes c ! k of
             None \<Rightarrow> (Some (NewErr (''node '' @ print_int i @ '' is already stopped'')), c)
           | Some rt \<Rightarrow>
               (None, c\<lparr>cl_nodes := (cl_nodes c)[k := None], cl_driverLive := (cl_driverLive c)[k := False],
                        cl_stops := cl_stops c @ [(k, stop)]\<rparr>)))"

definition cluster_crash :: "'a simulationCluster \<Rightarrow> int \<Rightarrow> go_error option \<times> 'a simulationCluster" where
  "cluster_crash c i = stop_node RuntimeKill c i"

definition cluster_leave :: "'a simulationCluster \<Rightarrow> int \<Rightarrow> go_error option \<times> 'a simulationCluster" where
  "cluster_leave c i = stop_node RuntimeClose c i"

text \<open>\<open>created\<close> is what \<open>newRuntime\<close> returns for the new generation.\<close>

definition cluster_restart :: "'a root result \<Rightarrow> 'a simulationCluster \<Rightarrow> int \<Rightarrow> go_error option \<times> 'a simulationCluster" where
  "cluster_restart created c i =
     (case cluster_node c i of
        Inl e \<Rightarrow> (Some e, c)
      | Inr k \<Rightarrow>
          if (case cl_nodes c ! k of None \<Rightarrow> False | Some rt \<Rightarrow> \<not> runtimeStopped rt)
          then (Some (NewErr (''node '' @ print_int i @ '' is already running'')), c)
          else (let stops = (if cl_nodes c ! k = None then [] else [(k, RuntimeClose)]);
                    c1 = c\<lparr>cl_nodes := (cl_nodes c)[k := None], cl_stops := cl_stops c @ stops, cl_generations := (cl_generations c)[k := cl_generations c ! k + 1]\<rparr>
                in case created of
                     Inl e \<Rightarrow> (Some e, c1\<lparr>cl_driverLive := (cl_driverLive c1)[k := False]\<rparr>)
                   | Inr rt \<Rightarrow> (None, c1\<lparr>cl_nodes := (cl_nodes c1)[k := Some rt], cl_driverLive := (cl_driverLive c1)[k := True]\<rparr>)))"

definition liveNodeIDs :: "'a simulationCluster \<Rightarrow> nat list" where
  "liveNodeIDs c = filter (\<lambda>k. cl_driverLive c ! k) [0..<length (cl_nodes c)]"

definition stoppedNodeIDs :: "'a simulationCluster \<Rightarrow> nat list" where
  "stoppedNodeIDs c = filter (\<lambda>k. \<not> cl_driverLive c ! k) [0..<length (cl_nodes c)]"

definition clusterLiveNodeIDs :: "'a simulationCluster \<Rightarrow> nat list" where
  "clusterLiveNodeIDs c =
     filter (\<lambda>k. case cl_nodes c ! k of None \<Rightarrow> False | Some rt \<Rightarrow> \<not> runtimeStopped rt) [0..<length (cl_nodes c)]"

definition targetPool :: "'a simulationCluster \<Rightarrow> int \<Rightarrow> nat list" where
  "targetPool c restartNode = liveNodeIDs c @ (if 0 \<le> restartNode then [nat restartNode] else [])"

text \<open>The loop of \<open>partition\<close> over the groups: the addresses, or the first error.\<close>

fun address_groups :: "'a simulationCluster \<Rightarrow> (int \<times> int) list \<Rightarrow> (string, int) gomap result" where
  "address_groups c [] = Inr []"
| "address_groups c ((i, g) # rest) =
     (case cluster_node c i of
        Inl e \<Rightarrow> Inl e
      | Inr k \<Rightarrow>
          if (case cl_nodes c ! k of None \<Rightarrow> True | Some rt \<Rightarrow> runtimeStopped rt)
          then Inl (NewErr (''cannot partition stopped node '' @ print_int i))
          else map_sum id (gm_put (nodeAddress i) g) (address_groups c rest))"

definition cluster_partition ::
    "member_snapshot result \<Rightarrow> (int \<times> int) list \<Rightarrow> 'a simulationCluster \<Rightarrow> simulationNetwork \<Rightarrow> go_error option \<times> simulationNetwork" where
  "cluster_partition listing groups c n =
     (case address_groups c groups of
        Inl e \<Rightarrow> (Some e, n)
      | Inr addressGroups \<Rightarrow>
          if length addressGroups \<noteq> length (clusterLiveNodeIDs c)
          then (Some (NewErr (''partition groups cover '' @ itoa (length addressGroups) @ '' nodes, want '' @ itoa (length (clusterLiveNodeIDs c)))), n)
          else network_partition listing addressGroups n)"

text \<open>
  The steps \<open>advance\<close> moves the clock by, and the clock after it. Between two steps the code waits for the
  store and the network to be idle.
\<close>

function advance_steps :: "duration \<Rightarrow> duration list" where
  "advance_steps d =
     (if 0 < d then (let step = (if d < simulationStepDuration then d else simulationStepDuration) in step # advance_steps (d - step))
      else [])"
  by pat_completeness auto
termination
  by (relation "measure nat") (auto simp: simulationStepDuration_def)

declare advance_steps.simps [simp del]

fun advance_clock :: "duration list \<Rightarrow> fake \<Rightarrow> fake option" where
  "advance_clock [] f = Some f"
| "advance_clock (d # ds) f = (case Fake_Advance f d of None \<Rightarrow> None | Some f' \<Rightarrow> advance_clock ds f')"

definition cluster_advance :: "duration \<Rightarrow> fake \<Rightarrow> fake option" where
  "cluster_advance d f = advance_clock (advance_steps d) f"

definition cluster_settle :: "fakeStore \<times> simulationNetwork \<times> fake \<Rightarrow> (fakeStore \<times> simulationNetwork \<times> fake) option" where
  "cluster_settle w =
     (case w of (backend, network, clock) \<Rightarrow>
        map_option (\<lambda>clock'.
          (setMemberFault no_member_fault (setFaultPlans [] backend), setDrops no_drop (setDelays [] network), clock'))
          (((\<lambda>c. Option.bind c (cluster_advance simulationStepDuration)) ^^ 20) (Some clock)))"

definition owner_count :: "'a simulationCluster \<Rightarrow> grain_id \<Rightarrow> nat" where
  "owner_count c i = length (filter (\<lambda>k. case cl_nodes c ! k of None \<Rightarrow> False | Some rt \<Rightarrow> Root_Owns rt i) (clusterLiveNodeIDs c))"

definition cluster_checkInvariants :: "fakeStore \<Rightarrow> 'a simulationCluster \<Rightarrow> grain_id list \<Rightarrow> go_error option" where
  "cluster_checkInvariants backend c ids =
     (case checkMemberStatuses backend of
        Some e \<Rightarrow> Some e
      | None \<Rightarrow>
          if clusterLiveNodeIDs c = [] then None
          else (case filter (\<lambda>i. owner_count c i \<noteq> 1) ids of
                  [] \<Rightarrow> None
                | i # _ \<Rightarrow> Some (NewErr (''identity '' @ grain_name i @ '' has '' @ itoa (owner_count c i) @ '' live owners after settle''))))"

section \<open>The runtimes of the cluster\<close>

definition probeIdentities :: "string \<Rightarrow> grain_id list" where
  "probeIdentities entityType =
     map (\<lambda>k. GrainId entityType (''probe-'' @ replicate (3 - length (itoa k)) (CHR ''0'') @ itoa k)) [0..<64]"

text \<open>What \<open>installCounterType\<close> installs; arguments are on the left, replies on the right.\<close>

definition counter_registration :: "(counter_args + counter_reply) type_registration" where
  "counter_registration =
     \<lparr>tr_newCall = (\<lambda>meth. map_prod (map_option Inl) (map_option Inr) (newCounterCall meth)),
      tr_newReminderCall = Some (\<lambda>meth status. map_prod (map_option Inl) (map_option Inr) (newCounterReminderCall meth status))\<rparr>"

text \<open>\<open>counterType\<close> is \<open>TypeName[counter]()\<close>, read by reflection.\<close>

definition installCounterWithTracker ::
    "string \<Rightarrow> (counter_args + counter_reply) root \<Rightarrow> go_error option \<times> (counter_args + counter_reply) root" where
  "installCounterWithTracker counterType rt =
     (case InstallType counterType counter_registration rt of
        (Some e, rt1) \<Rightarrow> (Some e, rt1)
      | (None, rt1) \<Rightarrow> Root_Register counterType rt1)"

definition baseRuntimeOptions :: "store_handle \<Rightarrow> root_option list" where
  "baseRuntimeOptions backend =
     [WithStore backend, WithIdleTimeout 0, WithEvictionInterval 0, WithReminderInterval simulationStepDuration, WithMailboxCapacity 4]"

text \<open>The second part of the answer is the runtime that was closed again.\<close>

definition newCounterRuntimeWithOptions ::
    "env \<Rightarrow> gtime \<Rightarrow> gtime \<Rightarrow> string \<Rightarrow> store_handle \<Rightarrow> root_option list \<Rightarrow> world \<Rightarrow>
     ((counter_args + counter_reply) root \<times> node_run option) result \<times> (counter_args + counter_reply) root option \<times> world" where
  "newCounterRuntimeWithOptions env now1 now2 counterType backend options w =
     (case Root_New env now1 now2 (baseRuntimeOptions backend @ options) w of
        (Inl e, w1) \<Rightarrow> (Inl e, None, w1)
      | (Inr (rt, run), w1) \<Rightarrow>
          (case installCounterWithTracker counterType rt of
             (Some e, rt1) \<Rightarrow> (Inl e, Some rt1, w1)
           | (None, rt1) \<Rightarrow> (Inr (rt1, run), None, w1)))"

text \<open>\<open>newRuntime\<close>: \<open>reminders\<close> is the node's own Reminder store, clock 1 the cluster's fake clock.\<close>

definition cluster_options :: "nat \<Rightarrow> nat \<Rightarrow> store_handle \<Rightarrow> root_option list" where
  "cluster_options i generation reminders =
     [WithClock 1, WithMemberStore True, WithReminderStore (Some reminders), WithNodeAddr (nodeAddress (int i)),
      WithGeneration (memberGeneration i generation), WithHeartbeatInterval simulationStepDuration,
      WithViewInterval simulationStepDuration, WithProbeInterval simulationStepDuration,
      WithProbeTimeout (simulationStepDuration div 2), WithProbeFailures 3, WithVoteTTL (6 * simulationStepDuration),
      WithMaxTickGap (2 * simulationStepDuration), WithMaxTableLatency (simulationStepDuration div 2),
      WithIdleTimeout (2 * simulationStepDuration), WithEvictionInterval simulationStepDuration, WithTransport True]"

definition cluster_newRuntime ::
    "env \<Rightarrow> gtime \<Rightarrow> gtime \<Rightarrow> string \<Rightarrow> store_handle \<Rightarrow> store_handle \<Rightarrow> nat \<Rightarrow> nat \<Rightarrow> simulationNetwork \<Rightarrow> world \<Rightarrow>
     (((counter_args + counter_reply) root \<times> node_run option) result \<times> (counter_args + counter_reply) root option \<times> world) \<times> simulationNetwork" where
  "cluster_newRuntime env now1 now2 counterType backend reminders i generation n w =
     (newCounterRuntimeWithOptions env now1 now2 counterType backend (cluster_options i generation reminders) w,
      addNode (nodeAddress (int i)) n)"

section \<open>The calls of a step\<close>

text \<open>A call takes its two stamps from \<open>operationSequence\<close>; the operation is what the checker of histories reads.\<close>

record counterOperation =
  cp_Input :: int
  cp_Call :: int
  cp_Output :: counterOperationOutput
  cp_Return :: int

record invocationResult =
  ir_id :: grain_id
  ir_operation :: counterOperation
  ir_err :: "go_error option"

definition invocation_result :: "grain_id \<Rightarrow> int \<Rightarrow> int \<Rightarrow> int \<Rightarrow> go_error option \<Rightarrow> int \<Rightarrow> invocationResult" where
  "invocation_result i delta call reply err return =
     \<lparr>ir_id = i,
      ir_operation = \<lparr>cp_Input = delta, cp_Call = call, cp_Output = counterOperationOutputFor reply err, cp_Return = return\<rparr>,
      ir_err = err\<rparr>"

text \<open>The loop over the results, in the order they arrive on the channel.\<close>

fun collect_outcomes ::
    "invocationResult list \<Rightarrow> (grain_id, counterOperation list) gomap \<Rightarrow> string list result \<times> (grain_id, counterOperation list) gomap" where
  "collect_outcomes [] h = (Inr [], h)"
| "collect_outcomes (result # results) h =
     (let h1 = counterHistory_add (ir_id result) (ir_operation result) h
      in case classifyOutcome (ir_err result) of
           Inl e \<Rightarrow> (Inl e, h1)
         | Inr outcome \<Rightarrow> (case collect_outcomes results h1 of (r, h2) \<Rightarrow> (map_sum id ((#) outcome) r, h2)))"

definition executeDecisions ::
    "invocationResult list \<Rightarrow> nat option \<Rightarrow> 'a simulationCluster \<Rightarrow> (grain_id, counterOperation list) gomap \<Rightarrow>
     string list result \<times> 'a simulationCluster \<times> (grain_id, counterOperation list) gomap" where
  "executeDecisions results crashNode c h =
     (case (case crashNode of None \<Rightarrow> (None, c) | Some k \<Rightarrow> cluster_crash c (int k)) of
        (Some e, c1) \<Rightarrow> (Inl e, c1, h)
      | (None, c1) \<Rightarrow> (case collect_outcomes results h of (r, h1) \<Rightarrow> (map_sum id sort r, c1, h1)))"

section \<open>Decisions\<close>

type_synonym 'r rng = "nat \<Rightarrow> 'r \<Rightarrow> (nat \<times> 'r) option"

type_synonym ('r, 'b) drawn = "'r \<Rightarrow> ('b \<times> 'r) option"

definition bind_draw :: "('r, 'b) drawn \<Rightarrow> ('b \<Rightarrow> ('r, 'c) drawn) \<Rightarrow> ('r, 'c) drawn" where
  "bind_draw m f r = (case m r of None \<Rightarrow> None | Some (x, r') \<Rightarrow> f x r')"

definition return_draw :: "'b \<Rightarrow> ('r, 'b) drawn" where
  "return_draw x r = Some (x, r)"

text \<open>An element of a list: \<open>xs[rng.IntN(len(xs))]\<close>.\<close>

definition pick :: "'r rng \<Rightarrow> 'b list \<Rightarrow> ('r, 'b) drawn" where
  "pick intN xs = bind_draw (intN (length xs)) (\<lambda>k. return_draw (xs ! k))"

definition millisecond :: duration where "millisecond = 1000000"
definition callsPerStep :: nat where "callsPerStep = 2"

definition randomFaultKinds :: "faultKind list" where
  "randomFaultKinds = [faultNone, faultReadError, faultWriteError, faultWriteAppliedError, faultDelay]"

definition randomMemberFaultKinds :: "memberFaultKind list" where
  "randomMemberFaultKinds = [memberFaultNone, memberListError, memberCASFailure, memberCASAppliedError, memberDelay]"

definition chooseFaultPlan :: "'r rng \<Rightarrow> ('r, faultPlan) drawn" where
  "chooseFaultPlan intN =
     bind_draw (pick intN randomFaultKinds) (\<lambda>kind.
       case kind of
         faultNone \<Rightarrow> return_draw no_plan
       | faultReadError \<Rightarrow> return_draw (no_plan\<lparr>fp_read := \<lparr>fa_kind = faultReadError, fa_delay = 0\<rparr>\<rparr>)
       | faultWriteError \<Rightarrow> return_draw (no_plan\<lparr>fp_write := \<lparr>fa_kind = faultWriteError, fa_delay = 0\<rparr>\<rparr>)
       | faultWriteAppliedError \<Rightarrow> return_draw (no_plan\<lparr>fp_write := \<lparr>fa_kind = faultWriteAppliedError, fa_delay = 0\<rparr>\<rparr>)
       | faultDelay \<Rightarrow>
           bind_draw (intN 3) (\<lambda>d.
             bind_draw (intN 2) (\<lambda>k.
               let spec = \<lparr>fa_kind = faultDelay, fa_delay = (int d + 1) * millisecond\<rparr>
               in return_draw (if k = 0 then no_plan\<lparr>fp_read := spec\<rparr> else no_plan\<lparr>fp_write := spec\<rparr>))))"

definition chooseMemberFault :: "'r rng \<Rightarrow> 'a simulationCluster \<Rightarrow> int \<Rightarrow> ('r, memberFaultSpec) drawn" where
  "chooseMemberFault intN c restartNode =
     bind_draw (pick intN randomMemberFaultKinds) (\<lambda>kind.
       if kind = memberFaultNone then return_draw (no_member_fault\<lparr>mf_kind := kind\<rparr>)
       else
         bind_draw (pick intN (targetPool c restartNode)) (\<lambda>targetNode.
           let generation = cl_generations c ! targetNode + (if int targetNode = restartNode then 1 else 0);
               spec = no_member_fault\<lparr>mf_kind := kind,
                 mf_target := \<lparr>ft_addr = nodeAddress (int targetNode),
                   ft_row = MemberID (nodeAddress (int targetNode)) (memberGeneration targetNode generation)\<rparr>\<rparr>
           in if kind = memberDelay
              then bind_draw (intN 3) (\<lambda>d. return_draw (spec\<lparr>mf_delay := (int d + 4) * millisecond\<rparr>))
              else return_draw spec))"

definition chooseNetworkDelay :: "'r rng \<Rightarrow> ('r, duration) drawn" where
  "chooseNetworkDelay intN =
     bind_draw (intN 2) (\<lambda>k.
       if k = 0 then bind_draw (intN 3) (\<lambda>d. return_draw ((int d + 1) * simulationStepDuration)) else return_draw 0)"

definition chooseNetworkDrop :: "'r rng \<Rightarrow> 'a simulationCluster \<Rightarrow> int \<Rightarrow> ('r, networkDropSpec) drawn" where
  "chooseNetworkDrop intN c restartNode =
     (let pool = targetPool c restartNode
      in if length pool < 2 then return_draw no_drop
         else bind_draw (intN 4) (\<lambda>k.
           if k \<noteq> 0 then return_draw no_drop
           else bind_draw (pick intN pool) (\<lambda>source.
             bind_draw (pick intN (filter (\<lambda>node. node \<noteq> source) pool)) (\<lambda>destination.
               bind_draw (intN 2) (\<lambda>s.
                 return_draw \<lparr>nd_source = nodeAddress (int source), nd_destination = nodeAddress (int destination),
                   nd_side = (if s = 1 then dropReply else dropRequest)\<rparr>)))))"

definition networkDelays :: "'a simulationCluster \<Rightarrow> duration \<Rightarrow> (networkPair, duration) gomap" where
  "networkDelays c delay =
     (if delay = 0 then []
      else fold (\<lambda>(source, destination) m.
             if source = destination then m
             else gm_put (NetworkPair (nodeAddress (int source)) (nodeAddress (int destination))) delay m)
             (List.product [0..<length (cl_nodes c)] [0..<length (cl_nodes c)]) [])"

definition chooseScheduleFault :: "'r rng \<Rightarrow> 'a simulationCluster \<Rightarrow> ('r, scheduleFaultSpec) drawn" where
  "chooseScheduleFault intN c =
     bind_draw (intN 5) (\<lambda>k.
       let kind = (if k = 0 then scheduleFaultNone else if k = 1 then scheduleListError else if k = 2 then scheduleListDelay
                   else if k = 3 then scheduleClaimError else scheduleClaimAppliedError)
       in if kind = scheduleListError \<or> kind = scheduleListDelay
          then bind_draw (pick intN (targetPool c (- 1))) (\<lambda>node. return_draw \<lparr>sf_kind = kind, sf_targetNode = int node\<rparr>)
          else return_draw \<lparr>sf_kind = kind, sf_targetNode = 0\<rparr>)"

datatype clusterAction = clusterCall | clusterCrash | clusterRestart | clusterLeave | clusterSchedule | clusterDisarm

definition chooseClusterAction :: "'r rng \<Rightarrow> 'a simulationCluster \<Rightarrow> ('r, clusterAction) drawn" where
  "chooseClusterAction intN c =
     pick intN ((if liveNodeIDs c \<noteq> [] then [clusterCall, clusterCrash, clusterLeave, clusterSchedule, clusterDisarm] else []) @
       (if stoppedNodeIDs c \<noteq> [] then [clusterRestart] else []))"

text \<open>What a step decided: the faults of every step, and the action with its own draws.\<close>

datatype step_action =
    ActCall nat faultPlan "nat list" "int list" "nat option"
  | ActCrash nat | ActRestart nat | ActLeave nat
  | ActSchedule nat nat duration duration scheduleFaultSpec
  | ActDisarm nat nat

record step_decision =
  sd_memberFault :: memberFaultSpec
  sd_networkDelay :: duration
  sd_networkDrop :: networkDropSpec
  sd_action :: step_action

text \<open>The calls of a step: a live node and a delta for each.\<close>

fun draw_calls :: "'r rng \<Rightarrow> nat list \<Rightarrow> nat \<Rightarrow> ('r, (nat \<times> int) list) drawn" where
  "draw_calls intN liveIDs 0 = return_draw []"
| "draw_calls intN liveIDs (Suc n) =
     bind_draw (pick intN liveIDs) (\<lambda>node.
       bind_draw (intN 9) (\<lambda>d.
         bind_draw (draw_calls intN liveIDs n) (\<lambda>rest. return_draw ((node, int d + 1) # rest))))"

definition draw_action ::
    "'r rng \<Rightarrow> nat \<Rightarrow> 'a simulationCluster \<Rightarrow> clusterAction \<Rightarrow> int \<Rightarrow> memberFaultSpec \<Rightarrow> ('r, step_action) drawn" where
  "draw_action intN entities c action restartNode memberFault =
     (case action of
        clusterCall \<Rightarrow>
          bind_draw (intN entities) (\<lambda>entity.
            bind_draw (chooseFaultPlan intN) (\<lambda>plan.
              bind_draw (draw_calls intN (liveNodeIDs c) callsPerStep) (\<lambda>calls.
                bind_draw (intN 2) (\<lambda>k.
                  if k = 0
                  then bind_draw (pick intN (map fst calls)) (\<lambda>node.
                    return_draw (ActCall entity (plan\<lparr>fp_member := memberFault\<rparr>) (map fst calls) (map snd calls) (Some node)))
                  else return_draw (ActCall entity (plan\<lparr>fp_member := memberFault\<rparr>) (map fst calls) (map snd calls) None)))))
      | clusterCrash \<Rightarrow> bind_draw (pick intN (liveNodeIDs c)) (\<lambda>node. return_draw (ActCrash node))
      | clusterRestart \<Rightarrow> return_draw (ActRestart (nat restartNode))
      | clusterLeave \<Rightarrow> bind_draw (pick intN (liveNodeIDs c)) (\<lambda>node. return_draw (ActLeave node))
      | clusterSchedule \<Rightarrow>
          bind_draw (pick intN (liveNodeIDs c)) (\<lambda>node.
            bind_draw (intN entities) (\<lambda>entity.
              bind_draw (intN 3) (\<lambda>d.
                bind_draw (intN 2) (\<lambda>k.
                  if k = 1
                  then bind_draw (intN 2) (\<lambda>p.
                    let interval = (int p + 2) * simulationStepDuration
                    in bind_draw (chooseScheduleFault intN c) (\<lambda>fault. return_draw (ActSchedule node entity interval interval fault)))
                  else bind_draw (chooseScheduleFault intN c) (\<lambda>fault.
                    return_draw (ActSchedule node entity ((int d + 1) * simulationStepDuration) 0 fault))))))
      | clusterDisarm \<Rightarrow>
          bind_draw (pick intN (liveNodeIDs c)) (\<lambda>node.
            bind_draw (intN entities) (\<lambda>entity. return_draw (ActDisarm node entity))))"

definition draw_step :: "'r rng \<Rightarrow> nat \<Rightarrow> 'a simulationCluster \<Rightarrow> ('r, step_decision) drawn" where
  "draw_step intN entities c =
     bind_draw (chooseClusterAction intN c) (\<lambda>action.
       bind_draw (if action = clusterRestart then bind_draw (pick intN (stoppedNodeIDs c)) (\<lambda>k. return_draw (int k)) else return_draw (- 1))
         (\<lambda>restartNode.
           bind_draw (chooseMemberFault intN c restartNode) (\<lambda>memberFault.
             bind_draw (chooseNetworkDelay intN) (\<lambda>delay.
               bind_draw (chooseNetworkDrop intN c restartNode) (\<lambda>drop1.
                 bind_draw (draw_action intN entities c action restartNode memberFault) (\<lambda>act.
                   return_draw \<lparr>sd_memberFault = memberFault, sd_networkDelay = delay, sd_networkDrop = drop1, sd_action = act\<rparr>))))))"

text \<open>What the step does to the driver's model; \<open>created\<close> as for \<open>restart\<close>.\<close>

definition apply_step :: "'a root result \<Rightarrow> step_action \<Rightarrow> 'a simulationCluster \<Rightarrow> go_error option \<times> 'a simulationCluster" where
  "apply_step created act c =
     (case act of
        ActCall entity plan nodes deltas crash \<Rightarrow> (case crash of None \<Rightarrow> (None, c) | Some k \<Rightarrow> cluster_crash c (int k))
      | ActCrash k \<Rightarrow> cluster_crash c (int k)
      | ActRestart k \<Rightarrow> cluster_restart created c (int k)
      | ActLeave k \<Rightarrow> cluster_leave c (int k)
      | _ \<Rightarrow> (None, c))"

text \<open>
  The driver's side of the loop of \<open>runSimulation\<close>: a step's draws, the change of the driver's model, and
  the errors that stop the run. A restart that fails with a known outcome goes on.
\<close>

definition driver_step ::
    "'r rng \<Rightarrow> nat \<Rightarrow> 'a root result \<Rightarrow> 'a simulationCluster \<Rightarrow> 'r \<Rightarrow> ('a simulationCluster result \<times> 'r) option" where
  "driver_step intN entities created c r =
     (case draw_step intN entities c r of
        None \<Rightarrow> None
      | Some (d, r') \<Rightarrow>
          Some (case apply_step created (sd_action d) c of
                  (None, c') \<Rightarrow> Inr c'
                | (Some e, c') \<Rightarrow>
                    (case sd_action d of
                       ActRestart k \<Rightarrow> map_sum id (\<lambda>_. c') (classifyOutcome (Some e))
                     | _ \<Rightarrow> Inl e), r'))"

fun driver_run ::
    "'r rng \<Rightarrow> nat \<Rightarrow> 'a root result list \<Rightarrow> 'a simulationCluster \<Rightarrow> 'r \<Rightarrow> ('a simulationCluster result \<times> 'r) option" where
  "driver_run intN entities [] c r = Some (Inr c, r)"
| "driver_run intN entities (created # rest) c r =
     (case driver_step intN entities created c r of
        None \<Rightarrow> None
      | Some (Inl e, r') \<Rightarrow> Some (Inl e, r')
      | Some (Inr c', r') \<Rightarrow> driver_run intN entities rest c' r')"

end
