(* ===== verification/Gor_Sim_Counter.thy ===== *)
theory Gor_Sim_Counter
  imports Gor_Sim
begin

text \<open>
  The counter Grain of the simulation against the model its history is checked with. A call loads the
  activation if the node has none, runs \<open>Add\<close> on the simulated store under a fault plan, and the error the
  caller sees is classified; any number of nodes may hold an activation of the same Grain. The history
  of calls in the order of their commits is accepted by the nondeterministic model, with the value in the
  store as one of its states. \<open>observations.check\<close> never reports on the same store.
\<close>

section \<open>One call\<close>

definition fake_write :: "faultSpec \<Rightarrow> fakeStore store_write" where
  "fake_write plan s i data expect = (case fakeStore_Write_commit plan i data expect s of (a, s') \<Rightarrow> (tag_result a, s'))"

text \<open>The error of a method, through \<open>Register\<close>'s dispatch, the engine and \<open>publicError\<close>.\<close>

definition caller_error :: "go_error option \<Rightarrow> 'v grain_binder \<Rightarrow> go_error option" where
  "caller_error err b =
     publicError (case Register_Dispatch err b of
        None \<Rightarrow> None
      | Some e \<Rightarrow> (case errors_As_discard e of Some inner \<Rightarrow> inner | None \<Rightarrow> Some e))"

lemma caller_error_dispatch: "caller_error err b = publicError (fst (dispatch (Returned (Register_Dispatch err b)) a eng))"
  by (simp add: caller_error_def dispatch_def split: option.split)

definition counter_call ::
    "grain_id \<Rightarrow> faultPlan \<Rightarrow> int \<Rightarrow> int grain_binder option \<Rightarrow> fakeStore \<Rightarrow> counterOperationOutput \<times> int grain_binder option \<times> fakeStore" where
  "counter_call i plan delta act s =
     (case (case act of
              Some b \<Rightarrow> Inr b
            | None \<Rightarrow> Register_Factory (\<lambda>b. projr (NewState ''value'' int64_codec b)) (\<lambda>j. fakeStore_Read_record (fp_read plan) j s) None i) of
        Inl e \<Rightarrow> (counterOperationOutputFor 0 (publicError (Some e)), None, s)
      | Inr b \<Rightarrow>
          (case counterEntity_Add (fake_write (fp_write plan)) delta b s of
             ((r, err), b', s') \<Rightarrow>
               (counterOperationOutputFor r (caller_error err b'), if b_discard b' = None then Some b' else None, s')))"

text \<open>The nodes' activations of one counter and its store; a node calls or evicts.\<close>

datatype counter_event = CallOn nat faultPlan int | EvictOn nat

type_synonym counter_history = "(int \<times> counterOperationOutput) list"

fun counter_run ::
    "grain_id \<Rightarrow> counter_event list \<Rightarrow> int grain_binder option list \<times> fakeStore \<Rightarrow> counter_history \<times> int grain_binder option list \<times> fakeStore" where
  "counter_run i [] (acts, s) = ([], acts, s)"
| "counter_run i (EvictOn k # es) (acts, s) = counter_run i es (acts[k := None], s)"
| "counter_run i (CallOn k plan delta # es) (acts, s) =
     (if k < length acts
      then (case counter_call i plan delta (acts ! k) s of
              (out, act, s') \<Rightarrow>
                (case counter_run i es (acts[k := act], s') of (h, st) \<Rightarrow> ((delta, out) # h, st)))
      else counter_run i es (acts, s))"

text \<open>The states the model can be in after a history.\<close>

definition model_states :: "counter_history \<Rightarrow> int list \<Rightarrow> int list" where
  "model_states h vs = foldl (\<lambda>vs (delta, out). concat (map (\<lambda>v. counterModel_Step v delta out) vs)) vs h"

section \<open>Invariant\<close>

definition counter_doc :: "int \<Rightarrow> byte list" where
  "counter_doc v = json_bytes (JObj [(''value'', JNum v)])"

definition current :: "fakeStore \<Rightarrow> grain_id \<Rightarrow> store_record" where
  "current s i = gm_get_or zero_record (fs_records s) i"

text \<open>The record of the counter is absent with value zero, or holds its document.\<close>

definition holds :: "fakeStore \<Rightarrow> grain_id \<Rightarrow> int \<Rightarrow> bool" where
  "holds s i v \<longleftrightarrow> in_int64 v \<and> 0 \<le> rec_ETag (current s i) \<and>
     (if rec_ETag (current s i) = 0 then current s i = zero_record \<and> v = 0 else rec_Data (current s i) = counter_doc v)"

text \<open>An activation of the counter: what it holds is current, or its tag is outdated.\<close>

definition coherent :: "fakeStore \<Rightarrow> grain_id \<Rightarrow> int \<Rightarrow> int grain_binder \<Rightarrow> bool" where
  "coherent s i v b \<longleftrightarrow> b_identity b = i \<and> b_discard b = None \<and> b_etag b \<le> rec_ETag (current s i) \<and>
     (\<exists>x p. b_states b = [(''value'', \<lparr>c_codec = int64_codec, c_value = x, c_present = p\<rparr>)] \<and>
        (b_etag b = rec_ETag (current s i) \<longrightarrow> x = v))"

lemma doc_facts: "unmarshal_bytes (counter_doc v) = Inr (JObj [(''value'', JNum v)])" "counter_doc v \<noteq> []"
proof -
  have "json_ok (JObj [(''value'', JNum v)])" "json_utf8 (JObj [(''value'', JNum v)])"
    using valid_ascii [of "''value''"] by simp_all
  then show "unmarshal_bytes (counter_doc v) = Inr (JObj [(''value'', JNum v)])" "counter_doc v \<noteq> []"
    unfolding counter_doc_def by (simp_all only: unmarshal_json_bytes json_bytes_nonempty not_False_eq_True)
qed

lemma counterValue_holds: "holds s i v \<Longrightarrow> counterValue (current s i) = Inr v"
  by (auto simp: holds_def counterValue_def doc_facts zero_record_def split: if_splits)

text \<open>Loading gives a coherent activation or fails with a coded error.\<close>

lemma load_coherent:
  assumes "holds s i v"
  shows "case Register_Factory (\<lambda>b. projr (NewState ''value'' int64_codec b)) (\<lambda>j. fakeStore_Read_record rp j s) None i of
      Inl e \<Rightarrow> e = withCode ErrPersistenceFailed (Sentinel SimReadFailure)
    | Inr b \<Rightarrow> coherent s i v b"
proof (cases "fa_kind rp = faultReadError")
  case True
  then show ?thesis
    by (simp add: Register_Factory_def Binder_load_def fakeStore_Read_record_def NewState_def newBinder_def is_cancellation_def)
next
  case False
  then have rd: "fakeStore_Read_record rp i s = Inr (current s i)"
    by (simp add: fakeStore_Read_record_def current_def Let_def)
  let ?b = "projr (NewState ''value'' int64_codec (newBinder i))"
  have b: "?b = \<lparr>b_identity = i, b_etag = 0, b_states = [(''value'', \<lparr>c_codec = int64_codec, c_value = 0, c_present = False\<rparr>)], b_discard = None\<rparr>"
    by (simp add: NewState_def newBinder_def int64_codec_def)
  show ?thesis
  proof (cases "rec_ETag (current s i) = 0")
    case True
    then have "current s i = zero_record" "v = 0" using assms by (simp_all add: holds_def)
    then show ?thesis by (auto simp: Register_Factory_def Binder_load_def b rd coherent_def zero_record_def)
  next
    case nz: False
    then have d: "rec_Data (current s i) = counter_doc v" "in_int64 v" using assms by (simp_all add: holds_def)
    have "document_of (JObj [(''value'', JNum v)]) = Inr [(''value'', JNum v)]" by (simp add: document_of_def)
    moreover have "decode_states [(''value'', JNum v)] [(''value'', \<lparr>c_codec = int64_codec, c_value = 0, c_present = False\<rparr>)] =
        Inr [(''value'', \<lparr>c_codec = int64_codec, c_value = v, c_present = True\<rparr>)]"
      using d(2) by (simp add: cell_decode_def int64_codec_def)
    ultimately show ?thesis
      using d by (auto simp: Register_Factory_def Binder_load_def b rd doc_facts coherent_def)
  qed
qed

lemma State_Set_counter:
  assumes "b_states b = [(''value'', \<lparr>c_codec = int64_codec, c_value = x, c_present = p\<rparr>)]"
  shows "State_Set wr int64_codec ''value'' n b s =
    (case wr s (b_identity b) (counter_doc n) (b_etag b) of
       (Inr t, s') \<Rightarrow> (None, b\<lparr>b_etag := t, b_states := [(''value'', \<lparr>c_codec = int64_codec, c_value = n, c_present = True\<rparr>)]\<rparr>, s')
     | (Inl e, s') \<Rightarrow>
         if is_cancellation e then (Some e, b, s')
         else (let d = withCode (if errors_Is e (TSentinel StoreErrConflict) then ErrPersistenceConflict else ErrPersistenceFailed) e
               in (Some d, b\<lparr>b_discard := Some d\<rparr>, s')))"
  using assms
  by (simp add: State_Set_def Binder_persist_def int64_codec_def set_cell_def counter_doc_def Let_def split: prod.split sum.split)

lemma caller_error_coded:
  assumes "b_discard b = Some (withCode c (Sentinel s))" and "s \<noteq> CtxCanceled" and "s \<noteq> CtxDeadlineExceeded"
  shows "caller_error (Some (withCode c (Sentinel s))) b = Some (JoinErr [withCode c (Sentinel s), withCode c (Sentinel s)])"
  using assms
  by (simp add: caller_error_def Register_Dispatch_def errors_As_discard_def errors_join_def List.map_filter_def publicError_def
      withCode_def CodeOf_def codedError_Is_def)

lemmas err_codes = ErrPersistenceFailed_def ErrPersistenceConflict_def ErrRuntimeClosed_def ErrTransportFailed_def

text \<open>What the classification makes of the errors a store call can have.\<close>

lemma output_status:
  "co_status (counterOperationOutputFor r (Some (JoinErr [withCode ErrPersistenceFailed e, x]))) = counterOperationUnknown"
  "co_status (counterOperationOutputFor r (publicError (Some (withCode ErrPersistenceFailed (Sentinel SimReadFailure))))) = counterOperationUnknown"
  "co_status (counterOperationOutputFor r (Some (JoinErr [withCode ErrPersistenceConflict (Sentinel StoreErrConflict),
     withCode ErrPersistenceConflict (Sentinel StoreErrConflict)]))) = counterOperationFailed"
  "counterOperationOutputFor r None = \<lparr>co_value = r, co_status = counterOperationSucceeded\<rparr>"
  by (simp_all add: counterOperationOutputFor_def simErrorIs_def withCode_def codedError_Is_def publicError_def CodeOf_def err_codes)

section \<open>Every call is a step of the model\<close>

text \<open>A commit of the counter's document: refused, failed before or done.\<close>

lemma fake_write_cases [consumes 2, case_names conflict failed stored]:
  assumes "0 \<le> rec_ETag (current s i)" and "rec_ETag (current s i) < max_int64"
  obtains (conflict) "rec_ETag (current s i) \<noteq> expect" "fake_write plan s i data expect = (Inl (Sentinel StoreErrConflict), s)"
  | (failed) "fake_write plan s i data expect = (Inl (Sentinel SimWriteFailure), s)"
  | (stored) s' where "rec_ETag (current s i) = expect" "current s' i = \<lparr>rec_Data = data, rec_ETag = expect + 1\<rparr>"
      "fake_write plan s i data expect = (Inr (expect + 1), s') \<or> fake_write plan s i data expect = (Inl (Sentinel SimAppliedWriteFailure), s')"
proof (cases "rec_ETag (current s i) = expect")
  case False
  then show ?thesis
    by (intro conflict) (simp_all add: fake_write_def fakeStore_Write_commit_def current_def Let_def tag_result_def)
next
  case True
  have w: "wrap64 (expect + 1) = expect + 1" using assms True by (simp add: wrap64_tag)
  show ?thesis
  proof (cases "fa_kind plan = faultWriteError")
    case failed: True
    then show ?thesis using True that(2)
      by (simp add: fake_write_def fakeStore_Write_commit_def current_def Let_def tag_result_def)
  next
    case False
    let ?s = "s\<lparr>fs_records := gm_put i \<lparr>rec_Data = data, rec_ETag = expect + 1\<rparr> (fs_records s), fs_writes := fs_writes s @ [WriteEvent i data]\<rparr>"
    have "current ?s i = \<lparr>rec_Data = data, rec_ETag = expect + 1\<rparr>" by (simp add: current_def go_map_simps)
    then show ?thesis using True False w that(3) [of ?s]
      by (simp add: fake_write_def fakeStore_Write_commit_def current_def Let_def tag_result_def)
  qed
qed

lemma call_step:
  assumes "holds s i v" and "\<And>b. act = Some b \<Longrightarrow> coherent s i v b" and "rec_ETag (current s i) < max_int64"
    and "counter_call i plan delta act s = (out, act', s')"
  shows "\<exists>v'. v' \<in> set (counterModel_Step v delta out) \<and> holds s' i v' \<and> (\<forall>b. act' = Some b \<longrightarrow> coherent s' i v' b) \<and>
    (\<forall>b. coherent s i v b \<longrightarrow> coherent s' i v' b) \<and> rec_ETag (current s' i) \<le> rec_ETag (current s i) + 1"
proof -
  let ?load = "case act of Some b \<Rightarrow> Inr b
    | None \<Rightarrow> Register_Factory (\<lambda>b. projr (NewState ''value'' int64_codec b)) (\<lambda>j. fakeStore_Read_record (fp_read plan) j s) None i"
  have load: "case ?load of Inl e \<Rightarrow> e = withCode ErrPersistenceFailed (Sentinel SimReadFailure) | Inr b \<Rightarrow> coherent s i v b"
    using assms(2) load_coherent [OF assms(1), of "fp_read plan"] by (cases act) simp_all
  show ?thesis
  proof (cases ?load)
    case (Inl e)
    then have "s' = s" "act' = None" "co_status out = counterOperationUnknown"
      using assms(4) load output_status(2) [of 0] by (auto simp: counter_call_def)
    then show ?thesis using assms(1) by (auto simp: counterModel_Step_def)
  next
    case (Inr b)
    then have coh: "coherent s i v b" using load by simp
    then obtain x p where st: "b_states b = [(''value'', \<lparr>c_codec = int64_codec, c_value = x, c_present = p\<rparr>)]"
      and cur: "b_etag b = rec_ETag (current s i) \<Longrightarrow> x = v" and i: "b_identity b = i" and nd: "b_discard b = None"
      by (auto simp: coherent_def)
    let ?n = "wrap64 (x + delta)"
    let ?add = "counterEntity_Add (fake_write (fp_write plan)) delta b s"
    have call: "(out, act', s') = (case ?add of ((r, err), b', s') \<Rightarrow>
        (counterOperationOutputFor r (caller_error err b'), if b_discard b' = None then Some b' else None, s'))"
      using assms(4) Inr by (simp add: counter_call_def)
    have get: "State_Get b ''value'' = Some x" by (simp add: State_Get_def st)
    note add = counterEntity_Add_def get State_Set_counter [OF st] i Let_def
    have pos: "0 \<le> rec_ETag (current s i)" using assms(1) by (simp add: holds_def)
    from pos assms(3) show ?thesis
    proof (cases rule: fake_write_cases [where expect = "b_etag b" and plan = "fp_write plan" and data = "counter_doc ?n"])
      case conflict
      then have "s' = s" "act' = None" "co_status out = counterOperationFailed"
        using call output_status(3) [of 0]
        by (auto simp: add is_cancellation_def caller_error_coded)
      then show ?thesis using assms(1) by (auto simp: counterModel_Step_def)
    next
      case failed
      then have "s' = s" "act' = None" "co_status out = counterOperationUnknown"
        using call output_status(1) [of 0]
        by (auto simp: add is_cancellation_def caller_error_coded)
      then show ?thesis using assms(1) by (auto simp: counterModel_Step_def)
    next
      case (stored s1)
      have xv: "x = v" using cur stored(1) by simp
      have s1: "holds s1 i ?n" using stored(1,2) pos by (simp add: holds_def)
      have others: "coherent s1 i ?n b0" if "coherent s i v b0" for b0
        using that stored(1,2) by (auto simp: coherent_def)
      have tag: "rec_ETag (current s1 i) \<le> rec_ETag (current s i) + 1" using stored(1,2) by simp
      from stored(3) show ?thesis
      proof
        assume w: "fake_write (fp_write plan) s i (counter_doc ?n) (b_etag b) = (Inr (b_etag b + 1), s1)"
        let ?b = "b\<lparr>b_etag := b_etag b + 1, b_states := [(''value'', \<lparr>c_codec = int64_codec, c_value = ?n, c_present = True\<rparr>)]\<rparr>"
        have "caller_error None ?b = None" by (simp add: caller_error_def Register_Dispatch_def nd publicError_def)
        then have r: "s' = s1" "act' = Some ?b" "out = \<lparr>co_value = ?n, co_status = counterOperationSucceeded\<rparr>"
          using call w nd output_status(4) [of ?n] by (simp_all add: add)
        have "coherent s1 i ?n ?b" using stored(2) i nd by (auto simp: coherent_def)
        then show ?thesis using r s1 others tag xv by (auto simp: counterModel_Step_def)
      next
        assume w: "fake_write (fp_write plan) s i (counter_doc ?n) (b_etag b) = (Inl (Sentinel SimAppliedWriteFailure), s1)"
        then have r: "s' = s1" "act' = None" "co_status out = counterOperationUnknown"
          using call output_status(1) [of 0] by (auto simp: add is_cancellation_def caller_error_coded)
        then show ?thesis using s1 others tag xv by (auto simp: counterModel_Step_def)
      qed
    qed
  qed
qed

lemma model_states_Cons: "model_states ((delta, out) # h) vs = model_states h (concat (map (\<lambda>v. counterModel_Step v delta out) vs))"
  by (simp add: model_states_def)

lemma model_states_mono: "set vs \<subseteq> set ws \<Longrightarrow> set (model_states h vs) \<subseteq> set (model_states h ws)"
proof (induction h arbitrary: vs ws)
  case (Cons p h)
  obtain delta out where p: "p = (delta, out)" by force
  have "set (concat (map (\<lambda>v. counterModel_Step v delta out) vs)) \<subseteq> set (concat (map (\<lambda>v. counterModel_Step v delta out) ws))"
    using Cons.prems by auto
  then show ?case unfolding p model_states_Cons by (rule Cons.IH)
qed (simp add: model_states_def)

lemma counter_run_accepted:
  "counter_run i es (acts, s) = (h, acts', s') \<Longrightarrow> holds s i v \<Longrightarrow> (\<forall>b. Some b \<in> set acts \<longrightarrow> coherent s i v b) \<Longrightarrow>
    rec_ETag (current s i) + int (length es) \<le> max_int64 \<Longrightarrow>
    \<exists>v'. v' \<in> set (model_states h [v]) \<and> holds s' i v'"
proof (induction i es "(acts, s)" arbitrary: acts s v h rule: counter_run.induct)
  case (1 i acts s)
  then show ?case by (auto simp: model_states_def)
next
  case (2 i k es acts s)
  have "\<forall>b. Some b \<in> set (acts[k := None]) \<longrightarrow> coherent s i v b"
    using "2.prems"(3) set_update_subset_insert [of acts k None] by auto
  then show ?case using "2.hyps" [of h v] "2.prems" by simp
next
  case (3 i k plan delta es acts s)
  show ?case
  proof (cases "k < length acts")
    case False
    then show ?thesis using "3.hyps"(2) [of h v] "3.prems" by simp
  next
    case True
    obtain out act s1 where c: "counter_call i plan delta (acts ! k) s = (out, act, s1)" using prod_cases3 by blast
    obtain h1 where r: "counter_run i es (acts[k := act], s1) = (h1, acts', s')" and h: "h = (delta, out) # h1"
      using "3.prems"(1) True c by (auto split: prod.splits)
    have lt: "rec_ETag (current s i) < max_int64" using "3.prems"(4) by simp
    have "\<And>b. acts ! k = Some b \<Longrightarrow> coherent s i v b" using "3.prems"(3) nth_mem [OF True] by metis
    from call_step [OF "3.prems"(2) this lt c] obtain v1 where
      v1: "v1 \<in> set (counterModel_Step v delta out)" "holds s1 i v1" "\<forall>b. act = Some b \<longrightarrow> coherent s1 i v1 b"
      "\<forall>b. coherent s i v b \<longrightarrow> coherent s1 i v1 b" "rec_ETag (current s1 i) \<le> rec_ETag (current s i) + 1" by blast
    have "\<forall>b. Some b \<in> set (acts[k := act]) \<longrightarrow> coherent s1 i v1 b"
      using v1(3,4) "3.prems"(3) set_update_subset_insert [of acts k act] by auto
    then obtain v' where v': "v' \<in> set (model_states h1 [v1])" "holds s' i v'"
      using "3.hyps"(1) [OF True c [symmetric] refl r v1(2)] v1(5) "3.prems"(4) by auto
    have "set (model_states h1 [v1]) \<subseteq> set (model_states h [v])"
      unfolding h model_states_Cons by (rule model_states_mono) (use v1(1) in simp)
    then show ?thesis using v' by blast
  qed
qed

section \<open>Properties\<close>


definition demo_counter_events :: "counter_event list" where
  "demo_counter_events =
     [CallOn 0 no_plan 5, CallOn 1 (no_plan\<lparr>fp_write := \<lparr>fa_kind = faultWriteAppliedError, fa_delay = 0\<rparr>\<rparr>) 3,
      CallOn 0 no_plan 4, EvictOn 1, CallOn 1 (no_plan\<lparr>fp_read := \<lparr>fa_kind = faultReadError, fa_delay = 0\<rparr>\<rparr>) 2]"


section \<open>Observations\<close>

text \<open>What the observer knows of a store: a prefix of its log and tags that were reached.\<close>

definition observed :: "observations \<Rightarrow> fakeStore \<Rightarrow> bool" where
  "observed o1 s \<longleftrightarrow> ob_commitOffset o1 \<le> length (fs_writes s) \<and>
     (\<forall>w \<in> set (take (ob_commitOffset o1) (fs_writes s)). string_of_bytes (we_data w) \<in> set (gm_get_or [] (ob_knownData o1) (we_id w))) \<and>
     (\<forall>i. gm_get_or 0 (ob_lastETag o1) i \<le> int (length (writes_to s i)))"

lemma observed_extends:
  assumes "observed o1 s" and "extends s s'"
  shows "observed o1 s'"
proof -
  obtain new where new: "fs_writes s' = fs_writes s @ new" using assms(2) by (auto simp: extends_def)
  then have "length (writes_to s i) \<le> length (writes_to s' i)" for i by (simp add: writes_to_def)
  then have "gm_get_or 0 (ob_lastETag o1) i \<le> int (length (writes_to s' i))" for i
    using assms(1) by (auto simp: observed_def intro: order_trans)
  then show ?thesis using assms(1) new by (simp add: observed_def)
qed

lemma note_writes_mono: "x \<in> set (gm_get_or [] kd i) \<Longrightarrow> x \<in> set (gm_get_or [] (fold note_write ws kd) i)"
proof (induction ws arbitrary: kd)
  case (Cons w ws)
  have "x \<in> set (gm_get_or [] (note_write w kd) i)" using Cons.prems by (auto simp: note_write_def go_map_simps)
  then show ?case using Cons.IH by simp
qed simp

lemma note_writes_mem: "w \<in> set ws \<Longrightarrow> string_of_bytes (we_data w) \<in> set (gm_get_or [] (fold note_write ws kd) (we_id w))"
proof (induction ws arbitrary: kd)
  case (Cons x ws)
  show ?case
  proof (cases "w = x")
    case True
    have "string_of_bytes (we_data w) \<in> set (gm_get_or [] (note_write w kd) (we_id w))" by (simp add: note_write_def go_map_simps)
    then show ?thesis using True note_writes_mono by simp
  next
    case False
    then show ?thesis using Cons by simp
  qed
qed simp

lemma snapshot_get: "i \<in> set ids \<Longrightarrow> gm_get_or zero_record (fakeStore_snapshot s ids) i = gm_get_or zero_record (fs_records s) i"
proof -
  have "gm_get (fold (\<lambda>i m. let r = gm_get_or zero_record (fs_records s) i in gm_put i (r\<lparr>rec_Data := clone_bytes (rec_Data r)\<rparr>) m) ids m0) i =
      (if i \<in> set ids then Some (gm_get_or zero_record (fs_records s) i) else gm_get m0 i)" for m0
    by (induction ids arbitrary: m0) (simp_all add: Let_def go_map_simps)
  then show "i \<in> set ids \<Longrightarrow> gm_get_or zero_record (fakeStore_snapshot s ids) i = gm_get_or zero_record (fs_records s) i"
    by (simp add: fakeStore_snapshot_def gm_get_or_def)
qed

lemma logged_tag:
  assumes "logs_ok s" and "int (length (fs_writes s)) \<le> max_int64"
  shows "rec_ETag (gm_get_or zero_record (fs_records s) i) = int (length (writes_to s i))"
    and "0 < rec_ETag (gm_get_or zero_record (fs_records s) i) \<Longrightarrow>
      WriteEvent i (rec_Data (gm_get_or zero_record (fs_records s) i)) \<in> set (fs_writes s)"
proof -
  have r: "record_logged s i" using assms(1) by (simp add: logs_ok_def)
  then show tag: "rec_ETag (gm_get_or zero_record (fs_records s) i) = int (length (writes_to s i))"
    using assms(2) by (cases "gm_get (fs_records s) i") (simp_all add: record_logged_def gm_get_or_def zero_record_def)
  assume "0 < rec_ETag (gm_get_or zero_record (fs_records s) i)"
  then have "writes_to s i \<noteq> []" using tag by auto
  then have "last (writes_to s i) \<in> set (fs_writes s)" "we_id (last (writes_to s i)) = i"
    using last_in_set [of "writes_to s i"] by (auto simp: writes_to_def)
  moreover have "we_data (last (writes_to s i)) = rec_Data (gm_get_or zero_record (fs_records s) i)"
    using r \<open>writes_to s i \<noteq> []\<close> by (cases "gm_get (fs_records s) i") (simp_all add: record_logged_def gm_get_or_def)
  ultimately show "WriteEvent i (rec_Data (gm_get_or zero_record (fs_records s) i)) \<in> set (fs_writes s)"
    by (metis writeEvent.collapse)
qed

lemma check_records_ok:
  assumes "logs_ok s" and "int (length (fs_writes s)) \<le> max_int64" and "observed o1 s" and "ob_commitOffset o1 = length (fs_writes s)"
    and "set is \<subseteq> set ids"
  shows "\<exists>o2. check_records (fakeStore_snapshot s ids) is o1 = (None, o2) \<and> observed o2 s"
  using assms(3-5)
proof (induction "is" arbitrary: o1)
  case (Cons i "is")
  let ?r = "gm_get_or zero_record (fs_records s) i"
  let ?o = "o1\<lparr>ob_lastETag := gm_put i (rec_ETag ?r) (ob_lastETag o1)\<rparr>"
  have rec: "gm_get_or zero_record (fakeStore_snapshot s ids) i = ?r" using Cons.prems(3) by (intro snapshot_get) simp
  have tag: "rec_ETag ?r = int (length (writes_to s i))" by (rule logged_tag(1) [OF assms(1,2)])
  have "\<not> rec_ETag ?r < gm_get_or 0 (ob_lastETag o1) i" using Cons.prems(1) tag by (simp add: observed_def not_less)
  moreover have "string_of_bytes (rec_Data ?r) \<in> set (gm_get_or [] (ob_knownData ?o) i)" if "0 < rec_ETag ?r"
    using logged_tag(2) [OF assms(1,2) that] Cons.prems(1,2) by (force simp: observed_def)
  moreover have "observed ?o s" using Cons.prems(1) tag by (simp add: observed_def go_map_simps)
  ultimately show ?case using Cons.IH [of ?o] Cons.prems(2,3) by (auto simp: rec Let_def)
qed simp

lemma observations_check_ok:
  assumes "logs_ok s" and "int (length (fs_writes s)) \<le> max_int64" and "observed o1 s"
  shows "\<exists>o2. observations_check s ids o1 = Some (None, o2) \<and> observed o2 s"
proof -
  let ?ws = "drop (ob_commitOffset o1) (fs_writes s)"
  have map_ws: "map (\<lambda>e. WriteEvent (we_id e) (clone_bytes (we_data e))) ?ws = ?ws" by (simp add: map_idI)
  let ?o = "o1\<lparr>ob_knownData := fold note_write ?ws (ob_knownData o1), ob_commitOffset := length (fs_writes s)\<rparr>"
  have "string_of_bytes (we_data w) \<in> set (gm_get_or [] (ob_knownData ?o) (we_id w))" if "w \<in> set (fs_writes s)" for w
  proof (cases "w \<in> set ?ws")
    case True
    then show ?thesis using note_writes_mem by simp
  next
    case False
    then have "w \<in> set (take (ob_commitOffset o1) (fs_writes s))"
      using that by (metis Un_iff append_take_drop_id set_append)
    then show ?thesis using assms(3) note_writes_mono by (simp add: observed_def)
  qed
  then have "observed ?o s" using assms(3) by (simp add: observed_def)
  from check_records_ok [OF assms(1,2) this, of ids ids] obtain o2 where
    "check_records (fakeStore_snapshot s ids) ids ?o = (None, o2)" "observed o2 s" by auto
  then show ?thesis using assms(3) by (simp add: observations_check_def committedWritesSince_def observed_def map_ws)
qed

text \<open>An event logs at most one write.\<close>

lemma start_writes: "fs_writes (snd (fakeStore_start reading call s)) = fs_writes s"
proof (cases call)
  case (CallWriteMember m)
  have "fs_writes (snd (fakeStore_WriteMember_begin m s)) = fs_writes s" by (cases rule: member_begin_cases [of m s]) simp_all
  then show ?thesis by (auto simp: CallWriteMember split: prod.split outcome.split)
next
  case (CallClaim r t)
  then show ?thesis by (simp add: fakeStore_Claim_def Let_def split_beta split: option.split)
qed (auto simp: record_call_defs listMembersFor_def snapshotDue_def fakeStore_Put_def fakeStore_Delete_def split: prod.split)

lemma resume_writes: "fakeStore_resume f s = Some (f', s') \<Longrightarrow> length (fs_writes s') \<le> Suc (length (fs_writes s))"
proof (cases f)
  case (MemberSleeping m fault)
  assume "fakeStore_resume f s = Some (f', s')"
  then show ?thesis by (auto simp: MemberSleeping split_beta)
qed (auto simp: fakeStore_Write_commit_def Let_def split: sum.splits if_splits)

lemma exec_writes:
  assumes "store_exec reading e (s, fl) = Some (s', fl')"
  shows "length (fs_writes s') \<le> Suc (length (fs_writes s))"
proof (cases e)
  case (Start call)
  have "fs_writes (snd (beginOperation s)) = fs_writes s" by (simp add: beginOperation_def Let_def)
  then show ?thesis using assms start_writes [of reading call "snd (beginOperation s)"] by (auto simp: Start split_beta)
next
  case (Resume i)
  then show ?thesis using assms resume_writes by (auto split: if_splits option.splits)
next
  case (Finish i)
  have "fs_writes s1 = fs_writes s" if "endOperation c s = Some s1" for c s1
    using that by (auto simp: endOperation_def Let_def split: if_splits)
  then show ?thesis using assms by (fastforce simp: Finish split: if_splits flight.splits)
next
  case (Drive op)
  then show ?thesis using assms by (cases op) (auto simp: driver_defs)
qed

lemma store_run_writes:
  "store_run reading es (s, fl) = Some (s', fl') \<Longrightarrow> length (fs_writes s') \<le> length (fs_writes s) + length es"
proof (induction es arbitrary: s fl)
  case (Cons e es)
  then obtain s1 fl1 where e: "store_exec reading e (s, fl) = Some (s1, fl1)" and r: "store_run reading es (s1, fl1) = Some (s', fl')"
    by (auto simp: bind_eq_Some_conv)
  then show ?case using Cons.IH [OF r] exec_writes [OF e] by simp
qed simp

text \<open>Batches of store events with a check after each: the errors the checks report.\<close>

fun observed_run ::
    "(memberClock \<Rightarrow> gtime) \<Rightarrow> grain_id list \<Rightarrow> store_event list list \<Rightarrow> store_state \<Rightarrow> observations \<Rightarrow> go_error option list option" where
  "observed_run reading ids [] st o1 = Some []"
| "observed_run reading ids (batch # batches) st o1 =
     (case store_run reading batch st of
        None \<Rightarrow> None
      | Some st' \<Rightarrow>
          (case observations_check (fst st') ids o1 of
             None \<Rightarrow> None
           | Some (err, o2) \<Rightarrow> map_option (\<lambda>errs. err # errs) (observed_run reading ids batches st' o2)))"

lemma observed_run_quiet:
  assumes "store_gate.gate_ok (fst st) (map fst (snd st))" and "logs_ok (fst st)" and "observed o1 (fst st)"
    and "int (length (fs_writes (fst st)) + length (concat batches)) \<le> max_int64"
  shows "observed_run reading ids batches st o1 = Some (replicate (length batches) None)"
  using assms
proof (induction batches arbitrary: st o1)
  case (Cons batch batches)
  obtain s fl where st: "st = (s, fl)" by force
  obtain s' fl' where r: "store_run reading batch (s, fl) = Some (s', fl')" and g: "store_gate.gate_ok s' (map fst fl')"
    using store_run_gate [of "(s, fl)" reading batch] Cons.prems(1) by (auto simp: st)
  from store_run_keeps [OF r] Cons.prems(2) have k: "logs_ok s'" "extends s s'" by (auto simp: st)
  have len: "length (fs_writes s') \<le> length (fs_writes s) + length batch" by (rule store_run_writes [OF r])
  have "observed o1 s'" using observed_extends [OF _ k(2)] Cons.prems(3) by (simp add: st)
  moreover have "int (length (fs_writes s')) \<le> max_int64" using len Cons.prems(4) by (simp add: st)
  ultimately obtain o2 where o2: "observations_check s' ids o1 = Some (None, o2)" "observed o2 s'"
    using observations_check_ok [OF k(1)] by blast
  have "observed_run reading ids batches (s', fl') o2 = Some (replicate (length batches) None)"
    using Cons.IH [of "(s', fl')" o2] g k(1) o2(2) len Cons.prems(4) by (simp add: st)
  then show ?case by (simp add: st r o2(1))
qed simp

text \<open>
  The observations of the simulation never report a false alarm: after any batches of store events, with
  any faults, delays and interleavings, no check finds a tag that went back or content that no committed
  write put there.
\<close>

theorem observations_quiet:
  assumes "int (length (concat batches)) \<le> max_int64"
  shows "observed_run reading ids batches (newFakeStore tracker, []) newObservations = Some (replicate (length batches) None)"
proof (rule observed_run_quiet)
  show "observed newObservations (fst (newFakeStore tracker, []))"
    by (simp add: observed_def newObservations_def gm_get_or_def)
  show "int (length (fs_writes (fst (newFakeStore tracker, []))) + length (concat batches)) \<le> max_int64"
    using assms by (simp add: newFakeStore_def)
qed (simp_all add: newFakeStore_gate newFakeStore_logs)

theorem observations_quiet_witness:
  "observed_run (\<lambda>_. 0) [GrainId ''a'' ''1''] [demo_events, demo_events] (newFakeStore newTimerTracker, []) newObservations = Some [None, None]"
  using observations_quiet [of "[demo_events, demo_events]"] by (simp add: demo_events_def max_int64_def numeral_2_eq_2)

end
