(* ===== verification/Gor_Sim_Driver.thy ===== *)
theory Gor_Sim_Driver
  imports Gor_Sim
begin

text \<open>
  The decisions of the simulation are always possible: whatever the random source gives, a step never
  draws from an empty list, every node it names has a runtime, and carrying it out keeps the driver's
  model consistent. \<open>draws\<close> is the weakest precondition of a draw: it does not panic and its result
  satisfies a predicate.
\<close>

section \<open>Draws\<close>

text \<open>The documented contract of \<open>rand.Rand.IntN\<close>.\<close>

definition rng_ok :: "'r rng \<Rightarrow> bool" where
  "rng_ok intN \<longleftrightarrow> (\<forall>r. intN 0 r = None) \<and> (\<forall>n r. 0 < n \<longrightarrow> (\<exists>k r'. intN n r = Some (k, r') \<and> k < n))"

definition draws :: "('r, 'b) drawn \<Rightarrow> ('b \<Rightarrow> bool) \<Rightarrow> bool" where
  "draws m P \<longleftrightarrow> (\<forall>r. \<exists>x r'. m r = Some (x, r') \<and> P x)"

named_theorems draw_intros \<open>weakest preconditions of draws\<close>

lemma draws_return [draw_intros]: "P x \<Longrightarrow> draws (return_draw x) P"
  by (simp add: draws_def return_draw_def)

lemma draws_bind: "draws m P \<Longrightarrow> (\<And>x. P x \<Longrightarrow> draws (f x) Q) \<Longrightarrow> draws (bind_draw m f) Q"
  unfolding draws_def bind_draw_def by (metis (no_types, lifting) case_prod_conv option.simps(5))

lemma draws_mono: "draws m P \<Longrightarrow> (\<And>x. P x \<Longrightarrow> Q x) \<Longrightarrow> draws m Q"
  unfolding draws_def by metis

lemma draws_intN: "rng_ok intN \<Longrightarrow> 0 < n \<Longrightarrow> draws (intN n) (\<lambda>k. k < n)"
  by (simp add: rng_ok_def draws_def)

lemma draws_pick: "rng_ok intN \<Longrightarrow> xs \<noteq> [] \<Longrightarrow> draws (pick intN xs) (\<lambda>x. x \<in> set xs)"
  unfolding pick_def by (rule draws_bind [OF draws_intN]) (auto intro: draws_return)

section \<open>The driver's model\<close>

definition cluster_ok :: "'a simulationCluster \<Rightarrow> bool" where
  "cluster_ok c \<longleftrightarrow> length (cl_driverLive c) = length (cl_nodes c) \<and> length (cl_generations c) = length (cl_nodes c) \<and>
     (\<forall>k < length (cl_nodes c). cl_driverLive c ! k \<longleftrightarrow> cl_nodes c ! k \<noteq> None)"

definition live :: "'a simulationCluster \<Rightarrow> nat \<Rightarrow> bool" where
  "live c k \<longleftrightarrow> k < length (cl_nodes c) \<and> cl_nodes c ! k \<noteq> None"

definition stopped :: "'a simulationCluster \<Rightarrow> nat \<Rightarrow> bool" where
  "stopped c k \<longleftrightarrow> k < length (cl_nodes c) \<and> cl_nodes c ! k = None"

lemma live_ids: "cluster_ok c \<Longrightarrow> k \<in> set (liveNodeIDs c) \<longleftrightarrow> live c k"
  by (auto simp: liveNodeIDs_def live_def cluster_ok_def)

lemma stopped_ids: "cluster_ok c \<Longrightarrow> k \<in> set (stoppedNodeIDs c) \<longleftrightarrow> stopped c k"
  by (auto simp: stoppedNodeIDs_def stopped_def cluster_ok_def)

lemma some_node: "cl_nodes c \<noteq> [] \<Longrightarrow> liveNodeIDs c \<noteq> [] \<or> stoppedNodeIDs c \<noteq> []"
  by (cases "cl_driverLive c ! 0") (auto simp: liveNodeIDs_def stoppedNodeIDs_def filter_empty_conv intro!: bexI [of _ 0])

lemma cluster_node_nat: "k < length (cl_nodes c) \<Longrightarrow> cluster_node c (int k) = Inr k"
  by (simp add: cluster_node_def)

lemma stop_node_ok:
  assumes "cluster_ok c" and "live c k"
  shows "fst (stop_node stop c (int k)) = None \<and> cluster_ok (snd (stop_node stop c (int k))) \<and>
    length (cl_nodes (snd (stop_node stop c (int k)))) = length (cl_nodes c)"
  using assms by (auto simp: stop_node_def cluster_node_nat live_def cluster_ok_def nth_list_update)

lemma restart_ok:
  assumes "cluster_ok c" and "stopped c k"
  shows "fst (cluster_restart created c (int k)) = (case created of Inl e \<Rightarrow> Some e | Inr _ \<Rightarrow> None) \<and>
    cluster_ok (snd (cluster_restart created c (int k))) \<and> length (cl_nodes (snd (cluster_restart created c (int k)))) = length (cl_nodes c)"
  using assms
  by (auto simp: cluster_restart_def cluster_node_nat stopped_def cluster_ok_def nth_list_update Let_def split: sum.split)

section \<open>What a decision may name\<close>

definition in_pool :: "'a simulationCluster \<Rightarrow> int \<Rightarrow> nat \<Rightarrow> bool" where
  "in_pool c restartNode k \<longleftrightarrow> live c k \<or> int k = restartNode"

definition member_fault_legal :: "'a simulationCluster \<Rightarrow> int \<Rightarrow> memberFaultSpec \<Rightarrow> bool" where
  "member_fault_legal c restartNode f \<longleftrightarrow>
     mf_kind f = memberFaultNone \<or>
     (\<exists>k. in_pool c restartNode k \<and> ft_addr (mf_target f) = nodeAddress (int k) \<and>
        ft_row (mf_target f) = MemberID (nodeAddress (int k))
          (memberGeneration k (cl_generations c ! k + (if int k = restartNode then 1 else 0))))"

definition drop_legal :: "networkDropSpec \<Rightarrow> bool" where
  "drop_legal d \<longleftrightarrow> nd_side d = dropNone \<or> nd_source d \<noteq> nd_destination d"

fun action_legal :: "nat \<Rightarrow> 'a simulationCluster \<Rightarrow> step_action \<Rightarrow> bool" where
  "action_legal entities c (ActCall entity plan nodes deltas crash) \<longleftrightarrow>
     entity < entities \<and> length nodes = callsPerStep \<and> length deltas = callsPerStep \<and> (\<forall>k \<in> set nodes. live c k) \<and>
     (\<forall>d \<in> set deltas. 1 \<le> d \<and> d \<le> 9) \<and> (\<forall>k. crash = Some k \<longrightarrow> k \<in> set nodes)"
| "action_legal entities c (ActCrash k) \<longleftrightarrow> live c k"
| "action_legal entities c (ActRestart k) \<longleftrightarrow> stopped c k"
| "action_legal entities c (ActLeave k) \<longleftrightarrow> live c k"
| "action_legal entities c (ActSchedule k entity delay interval fault) \<longleftrightarrow>
     live c k \<and> entity < entities \<and> 0 < delay \<and> (interval = 0 \<or> interval = delay) \<and>
     (sf_kind fault \<in> {scheduleListError, scheduleListDelay} \<longrightarrow> (\<exists>t. live c t \<and> sf_targetNode fault = int t))"
| "action_legal entities c (ActDisarm k entity) \<longleftrightarrow> live c k \<and> entity < entities"

lemma nodeAddress_inj [simp]: "nodeAddress (int m) = nodeAddress (int n) \<longleftrightarrow> m = n"
  by (auto simp: nodeAddress_def print_int_def dest: itoa_inj)

section \<open>Every choice is possible\<close>

lemma draws_faultPlan: "rng_ok intN \<Longrightarrow> draws (chooseFaultPlan intN) (\<lambda>_. True)"
  unfolding chooseFaultPlan_def
  by (rule draws_bind [OF draws_pick], assumption, simp add: randomFaultKinds_def)
    (auto split: faultKind.split intro!: draws_return draws_bind [OF draws_intN] simp: Let_def)

lemma pool_facts:
  assumes "cluster_ok c"
  shows "k \<in> set (targetPool c restartNode) \<Longrightarrow> in_pool c restartNode k"
    and "liveNodeIDs c \<noteq> [] \<or> 0 \<le> restartNode \<Longrightarrow> targetPool c restartNode \<noteq> []"
  using live_ids [OF assms] by (auto simp: targetPool_def in_pool_def split: if_splits)

lemma target_legal:
  assumes "cluster_ok c" and "k \<in> set (targetPool c restartNode)" and "ft_addr (mf_target f) = nodeAddress (int k)"
    and "ft_row (mf_target f) = MemberID (nodeAddress (int k)) (memberGeneration k (cl_generations c ! k + (if int k = restartNode then 1 else 0)))"
  shows "member_fault_legal c restartNode f"
  unfolding member_fault_legal_def using assms(3,4) pool_facts(1) [OF assms(1,2)] by blast

lemma draws_memberFault:
  assumes "rng_ok intN" and "cluster_ok c" and "liveNodeIDs c \<noteq> [] \<or> 0 \<le> restartNode"
  shows "draws (chooseMemberFault intN c restartNode) (member_fault_legal c restartNode)"
  unfolding chooseMemberFault_def
proof (rule draws_bind [OF draws_pick [OF assms(1)]])
  show "randomMemberFaultKinds \<noteq> []" by (simp add: randomMemberFaultKinds_def)
  fix kind
  show "draws (if kind = memberFaultNone then return_draw (no_member_fault\<lparr>mf_kind := kind\<rparr>)
       else
         bind_draw (pick intN (targetPool c restartNode)) (\<lambda>targetNode.
           let generation = cl_generations c ! targetNode + (if int targetNode = restartNode then 1 else 0);
               spec = no_member_fault\<lparr>mf_kind := kind,
                 mf_target := \<lparr>ft_addr = nodeAddress (int targetNode),
                   ft_row = MemberID (nodeAddress (int targetNode)) (memberGeneration targetNode generation)\<rparr>\<rparr>
           in if kind = memberDelay
              then bind_draw (intN 3) (\<lambda>d. return_draw (spec\<lparr>mf_delay := (int d + 4) * millisecond\<rparr>))
              else return_draw spec)) (member_fault_legal c restartNode)"
  proof (cases "kind = memberFaultNone")
    case True
    then show ?thesis by (simp add: draws_return member_fault_legal_def)
  next
    case False
    then show ?thesis
      by (auto simp: Let_def intro!: draws_return draws_bind [OF draws_intN [OF assms(1)]] target_legal [OF assms(2)]
          draws_bind [OF draws_pick [OF assms(1) pool_facts(2) [OF assms(2,3)]]])
  qed
qed

lemma draws_networkDelay: "rng_ok intN \<Longrightarrow> draws (chooseNetworkDelay intN) (\<lambda>d. 0 \<le> d)"
  unfolding chooseNetworkDelay_def
  by (auto intro!: draws_return draws_bind [OF draws_intN] simp: simulationStepDuration_def)

lemma draws_networkDrop:
  assumes "rng_ok intN" and "distinct (targetPool c restartNode)"
  shows "draws (chooseNetworkDrop intN c restartNode) drop_legal"
proof (cases "length (targetPool c restartNode) < 2")
  case True
  then show ?thesis by (simp add: chooseNetworkDrop_def drop_legal_def no_drop_def draws_return)
next
  case False
  let ?pool = "targetPool c restartNode"
  have ne: "?pool \<noteq> []" using False by auto
  have other: "filter (\<lambda>node. node \<noteq> source) ?pool \<noteq> []" if "source \<in> set ?pool" for source
  proof
    assume "filter (\<lambda>node. node \<noteq> source) ?pool = []"
    then have "set ?pool \<subseteq> {source}" by (auto simp: filter_empty_conv)
    then have "card (set ?pool) \<le> 1" using card_mono [of "{source}" "set ?pool"] by simp
    then show False using False distinct_card [OF assms(2)] by simp
  qed
  show ?thesis
    using False
    by (auto simp: chooseNetworkDrop_def drop_legal_def no_drop_def Let_def
        intro!: draws_return draws_bind [OF draws_intN [OF assms(1)]] draws_bind [OF draws_pick [OF assms(1) ne]]
          draws_bind [OF draws_pick [OF assms(1) other]])
qed

lemma draws_scheduleFault:
  assumes "rng_ok intN" and "cluster_ok c" and "liveNodeIDs c \<noteq> []"
  shows "draws (chooseScheduleFault intN c)
    (\<lambda>f. sf_kind f \<in> {scheduleListError, scheduleListDelay} \<longrightarrow> (\<exists>t. live c t \<and> sf_targetNode f = int t))"
proof -
  have pool: "targetPool c (- 1) = liveNodeIDs c" by (simp add: targetPool_def)
  show ?thesis
    unfolding chooseScheduleFault_def pool Let_def
    by (rule draws_bind [OF draws_intN [OF assms(1)]])
      (auto simp: live_ids [OF assms(2)] intro!: draws_return draws_bind [OF draws_pick [OF assms(1,3)]])
qed

lemma draws_calls:
  assumes "rng_ok intN" and "cluster_ok c" and "liveNodeIDs c \<noteq> []"
  shows "draws (draw_calls intN (liveNodeIDs c) n)
    (\<lambda>calls. length calls = n \<and> (\<forall>p \<in> set calls. live c (fst p) \<and> 1 \<le> snd p \<and> snd p \<le> 9))"
proof (induction n)
  case 0
  then show ?case by (simp add: draws_return)
next
  case (Suc n)
  show ?case
    unfolding draw_calls.simps
    by (rule draws_bind [OF draws_pick [OF assms(1,3)]], rule draws_bind [OF draws_intN [OF assms(1)]], simp,
        rule draws_bind [OF Suc.IH], rule draws_return) (auto simp: live_ids [OF assms(2)])
qed

lemma draws_action_call:
  assumes "rng_ok intN" and "cluster_ok c" and "liveNodeIDs c \<noteq> []" and "0 < entities"
  shows "draws (draw_action intN entities c clusterCall restartNode f) (action_legal entities c)"
proof -
  have ne: "map fst calls \<noteq> []" if "length calls = callsPerStep" for calls :: "(nat \<times> int) list"
    using that by (auto simp: callsPerStep_def)
  show ?thesis
    unfolding draw_action_def clusterAction.case
    by (rule draws_bind [OF draws_intN [OF assms(1,4)]], rule draws_bind [OF draws_faultPlan [OF assms(1)]],
        rule draws_bind [OF draws_calls [OF assms(1,2,3)]], rule draws_bind [OF draws_intN [OF assms(1)]], simp)
      (auto intro!: draws_return draws_bind [OF draws_pick [OF assms(1) ne]])
qed

lemma draws_action_schedule:
  assumes "rng_ok intN" and "cluster_ok c" and "liveNodeIDs c \<noteq> []" and "0 < entities"
  shows "draws (draw_action intN entities c clusterSchedule restartNode f) (action_legal entities c)"
  unfolding draw_action_def clusterAction.case
  by (rule draws_bind [OF draws_pick [OF assms(1,3)]], rule draws_bind [OF draws_intN [OF assms(1,4)]],
      rule draws_bind [OF draws_intN [OF assms(1)]], simp, rule draws_bind [OF draws_intN [OF assms(1)]], simp)
    (auto simp: Let_def live_ids [OF assms(2)] simulationStepDuration_def
      intro!: draws_return draws_bind [OF draws_intN [OF assms(1)]] draws_bind [OF draws_scheduleFault [OF assms(1,2,3)]])

lemma draws_action:
  assumes "rng_ok intN" and "cluster_ok c" and "0 < entities"
    and "if action = clusterRestart then \<exists>k. stopped c k \<and> restartNode = int k else liveNodeIDs c \<noteq> []"
  shows "draws (draw_action intN entities c action restartNode f) (action_legal entities c)"
proof (cases action)
  case clusterCall
  then show ?thesis using assms draws_action_call [OF assms(1,2) _ assms(3)] by simp
next
  case clusterSchedule
  then show ?thesis using assms draws_action_schedule [OF assms(1,2) _ assms(3)] by simp
next
  case clusterRestart
  then show ?thesis using assms(4) by (auto simp: draw_action_def intro!: draws_return)
qed (use assms in \<open>auto simp: draw_action_def live_ids [OF assms(2)]
    intro!: draws_return draws_bind [OF draws_pick [OF assms(1)]] draws_bind [OF draws_intN [OF assms(1)]]\<close>)

definition action_node_legal :: "'a simulationCluster \<Rightarrow> clusterAction \<Rightarrow> int \<Rightarrow> bool" where
  "action_node_legal c action restartNode \<longleftrightarrow>
     (if action = clusterRestart then \<exists>k. stopped c k \<and> restartNode = int k else liveNodeIDs c \<noteq> [] \<and> restartNode = - 1)"

lemma draws_clusterAction:
  assumes "rng_ok intN" and "cl_nodes c \<noteq> []"
  shows "draws (chooseClusterAction intN c)
    (\<lambda>a. if a = clusterRestart then stoppedNodeIDs c \<noteq> [] else liveNodeIDs c \<noteq> [])"
  unfolding chooseClusterAction_def
  by (rule draws_mono [OF draws_pick [OF assms(1)]]) (use some_node [OF assms(2)] in \<open>auto split: if_splits\<close>)

lemma draws_restartNode:
  assumes "rng_ok intN" and "cluster_ok c" and "if a = clusterRestart then stoppedNodeIDs c \<noteq> [] else liveNodeIDs c \<noteq> []"
  shows "draws (if a = clusterRestart then bind_draw (pick intN (stoppedNodeIDs c)) (\<lambda>k. return_draw (int k)) else return_draw (- 1))
    (action_node_legal c a)"
  using assms by (auto simp: action_node_legal_def stopped_ids intro!: draws_return draws_bind [OF draws_pick])

lemma pool_distinct:
  assumes "cluster_ok c" and "action_node_legal c a restartNode"
  shows "distinct (targetPool c restartNode)"
  using assms
  by (auto simp: targetPool_def action_node_legal_def liveNodeIDs_def stopped_def cluster_ok_def split: if_splits)

lemma pool_nonempty:
  assumes "action_node_legal c a restartNode"
  shows "liveNodeIDs c \<noteq> [] \<or> 0 \<le> restartNode"
  using assms by (auto simp: action_node_legal_def split: if_splits)

section \<open>A step\<close>

definition step_legal :: "nat \<Rightarrow> 'a simulationCluster \<Rightarrow> step_decision \<Rightarrow> bool" where
  "step_legal entities c d \<longleftrightarrow>
     action_legal entities c (sd_action d) \<and> 0 \<le> sd_networkDelay d \<and> drop_legal (sd_networkDrop d) \<and>
     (\<exists>restartNode. member_fault_legal c restartNode (sd_memberFault d) \<and>
        (\<forall>k. int k = restartNode \<longrightarrow> stopped c k \<and> sd_action d = ActRestart k))"

lemma restart_is_node:
  assumes "action_node_legal c a restartNode" and "int k = restartNode"
  shows "stopped c k \<and> a = clusterRestart \<and> nat restartNode = k"
  using assms by (auto simp: action_node_legal_def split: if_splits)

lemma action_is_restart: "draws (draw_action intN entities c clusterRestart restartNode f) (\<lambda>a. a = ActRestart (nat restartNode))"
  by (simp add: draw_action_def draws_return)

lemma draws_conj: "draws m P \<Longrightarrow> draws m Q \<Longrightarrow> draws m (\<lambda>x. P x \<and> Q x)"
  unfolding draws_def by (metis Pair_inject option.inject)

lemma draws_action_of:
  assumes "rng_ok intN" and "cluster_ok c" and "0 < entities" and "action_node_legal c action restartNode"
  shows "draws (draw_action intN entities c action restartNode f)
    (\<lambda>a. action_legal entities c a \<and> (\<forall>k. int k = restartNode \<longrightarrow> stopped c k \<and> a = ActRestart k))"
proof (rule draws_conj)
  show "draws (draw_action intN entities c action restartNode f) (action_legal entities c)"
    using assms by (intro draws_action) (auto simp: action_node_legal_def split: if_splits)
  show "draws (draw_action intN entities c action restartNode f) (\<lambda>a. \<forall>k. int k = restartNode \<longrightarrow> stopped c k \<and> a = ActRestart k)"
  proof (cases "action = clusterRestart")
    case True
    then show ?thesis using restart_is_node [OF assms(4)] by (auto intro: draws_mono [OF action_is_restart])
  next
    case False
    then have "\<nexists>k. int k = restartNode" using assms(4) by (auto simp: action_node_legal_def)
    then show ?thesis
      by (intro draws_mono [OF draws_action [OF assms(1-3)]]) (use assms(4) in \<open>auto simp: action_node_legal_def split: if_splits\<close>)
  qed
qed

lemma draws_step:
  assumes "rng_ok intN" and "cluster_ok c" and "cl_nodes c \<noteq> []" and "0 < entities"
  shows "draws (draw_step intN entities c) (step_legal entities c)"
  unfolding draw_step_def
proof (rule draws_bind [OF draws_clusterAction [OF assms(1,3)]], rule draws_bind [OF draws_restartNode [OF assms(1,2)]], assumption)
  fix action restartNode
  assume a: "action_node_legal c action restartNode"
  show "draws (bind_draw (chooseMemberFault intN c restartNode) (\<lambda>memberFault.
             bind_draw (chooseNetworkDelay intN) (\<lambda>delay.
               bind_draw (chooseNetworkDrop intN c restartNode) (\<lambda>drop1.
                 bind_draw (draw_action intN entities c action restartNode memberFault) (\<lambda>act.
                   return_draw \<lparr>sd_memberFault = memberFault, sd_networkDelay = delay, sd_networkDrop = drop1, sd_action = act\<rparr>)))))
     (step_legal entities c)"
    by (rule draws_bind [OF draws_memberFault [OF assms(1,2) pool_nonempty [OF a]]],
        rule draws_bind [OF draws_networkDelay [OF assms(1)]],
        rule draws_bind [OF draws_networkDrop [OF assms(1) pool_distinct [OF assms(2) a]]],
        rule draws_bind [OF draws_action_of [OF assms(1,2,4) a]], rule draws_return)
      (auto simp: step_legal_def)
qed

lemma apply_step_ok:
  assumes "cluster_ok c" and "action_legal entities c act"
  shows "cluster_ok (snd (apply_step created act c)) \<and>
    length (cl_nodes (snd (apply_step created act c))) = length (cl_nodes c) \<and>
    (fst (apply_step created act c) = None \<or>
      (\<exists>k e. act = ActRestart k \<and> created = Inl e \<and> fst (apply_step created act c) = Some e))"
proof (cases act)
  case (ActRestart k)
  then show ?thesis using restart_ok [OF assms(1), of k created] assms(2) by (auto simp: apply_step_def split: sum.splits)
qed (use assms stop_node_ok [OF assms(1)] in
    \<open>auto simp: apply_step_def cluster_crash_def cluster_leave_def split: option.split\<close>)

lemma driver_step_ok:
  assumes "rng_ok intN" and "cluster_ok c" and "cl_nodes c \<noteq> []" and "0 < entities"
    and "\<And>e. created = Inl e \<Longrightarrow> \<exists>outcome. classifyOutcome (Some e) = Inr outcome"
  obtains c' r' where "driver_step intN entities created c r = Some (Inr c', r')" "cluster_ok c'"
    "length (cl_nodes c') = length (cl_nodes c)"
proof -
  obtain d r' where d: "draw_step intN entities c r = Some (d, r')" and l: "step_legal entities c d"
    using draws_step [OF assms(1-4)] unfolding draws_def by metis
  obtain err c' where s: "apply_step created (sd_action d) c = (err, c')" by (cases "apply_step created (sd_action d) c")
  have ok: "cluster_ok c'" "length (cl_nodes c') = length (cl_nodes c)"
    "err = None \<or> (\<exists>k e. sd_action d = ActRestart k \<and> created = Inl e \<and> err = Some e)"
    using apply_step_ok [OF assms(2), of entities "sd_action d" created] l s by (auto simp: step_legal_def)
  have "driver_step intN entities created c r = Some (Inr c', r')"
    using ok(3) assms(5) d s by (fastforce simp: driver_step_def)
  then show ?thesis using ok that by blast
qed

lemma cluster_of_ok: "cluster_ok (cluster_of runtimes)"
  by (simp add: cluster_ok_def cluster_of_def)

section \<open>Decisions are legal and the run goes on\<close>

text \<open>
  Whatever the random source gives, a step of the simulation draws without panicking: it never asks for
  a number below zero choices. Its decision is legal: calls, crashes, leaves and reminders name nodes that
  have a runtime, a restart names one that has none, the crash of a call step hits a node that serves one
  of its calls, a dropped message goes between two different nodes, and a fault of the member table
  addresses a live node at its present generation, or the restarting node at the generation it will have.
\<close>

theorem driver_decisions_legal:
  assumes "rng_ok intN" and "cluster_ok c" and "cl_nodes c \<noteq> []" and "0 < entities"
  shows "\<exists>d r'. draw_step intN entities c r = Some (d, r') \<and> step_legal entities c d"
  using draws_step [OF assms] by (auto simp: draws_def)


section \<open>Creating the cluster\<close>

lemma close_nodes_nil: "None \<in> set nodes \<Longrightarrow> close_nodes k nodes = None"
  by (induction k nodes rule: close_nodes.induct) auto

lemma newSimulationCluster_ok: "newSimulationCluster (map Inr runtimes) backend = Some (Inr (cluster_of runtimes), setMemberClock FakeClock backend)"
proof -
  have t: "takeWhile (\<lambda>r. \<not> isl r) (map Inr runtimes) = (map Inr runtimes :: 'a root result list)"
    by (auto simp: takeWhile_eq_all_conv)
  have d: "dropWhile (\<lambda>r. \<not> isl r) (map Inr runtimes) = ([] :: 'a root result list)"
    by (auto simp: dropWhile_eq_Nil_conv)
  show ?thesis unfolding newSimulationCluster_def Let_def t d by (simp add: o_def)
qed

text \<open>
  An error of a new node is never reported by \<open>newSimulationCluster\<close>: the clean-up after it runs over nodes
  that do not exist yet, and panics.
\<close>

theorem new_cluster_error_panics:
  assumes "\<exists>e. Inl e \<in> set created"
  shows "newSimulationCluster created backend = None"
proof -
  obtain e where e: "Inl e \<in> set created" using assms by blast
  then have "dropWhile (\<lambda>r. \<not> isl r) created \<noteq> []" by (force simp: dropWhile_eq_Nil_conv)
  then obtain failed rest where d: "dropWhile (\<lambda>r. \<not> isl r) created = failed # rest" by (cases "dropWhile (\<lambda>r. \<not> isl r) created") auto
  have "length (takeWhile (\<lambda>r. \<not> isl r) created) + length (failed # rest) = length created"
    by (metis d length_append takeWhile_dropWhile_id)
  then have "close_nodes 0 (map (Some \<circ> Some) (map projr (takeWhile (\<lambda>r. \<not> isl r) created)) @
      replicate (length created - length (map projr (takeWhile (\<lambda>r. \<not> isl r) created))) None) = None"
    by (intro close_nodes_nil) auto
  then show ?thesis by (simp add: newSimulationCluster_def d Let_def)
qed

theorem new_cluster_error_panics_witness:
  "newSimulationCluster [Inr (demo_root True), Inl (Sentinel SimReadFailure)] (newFakeStore newTimerTracker) = None"
  by (rule new_cluster_error_panics) auto

section \<open>The outcomes of a step\<close>

lemma collect_outcomes_eq:
  "collect_outcomes results h = (Inr outcomes, h') \<longleftrightarrow>
     map (\<lambda>r. classifyOutcome (ir_err r)) results = map Inr outcomes \<and>
     h' = fold (\<lambda>r. counterHistory_add (ir_id r) (ir_operation r)) results h"
proof (induction results arbitrary: h outcomes)
  case Nil
  then show ?case by auto
next
  case (Cons r results)
  show ?case
  proof (cases "classifyOutcome (ir_err r)")
    case (Inl e)
    then show ?thesis by (cases outcomes) auto
  next
    case (Inr o1)
    obtain x h2 where c: "collect_outcomes results (counterHistory_add (ir_id r) (ir_operation r) h) = (x, h2)" by force
    then show ?thesis
      using Cons.IH [of "counterHistory_add (ir_id r) (ir_operation r) h" "tl outcomes"] Inr
      by (cases x; cases outcomes) auto
  qed
qed

lemma history_operations:
  "gm_get_or [] (fold (\<lambda>r. counterHistory_add (ir_id r) (ir_operation r)) results h) i =
     gm_get_or [] h i @ map ir_operation (filter (\<lambda>r. ir_id r = i) results)"
  by (induction results arbitrary: h) (auto simp: counterHistory_add_def go_map_simps)

text \<open>
  C35. What a step logs does not depend on the order in which its calls return: with the results in any other
  order, the outcome line is the same, and so are the operations recorded for each Grain, up to their order.
\<close>

theorem outcomes_order_free:
  assumes "mset results' = mset results" and "executeDecisions results crash c h = (Inr outcomes, c1, h1)"
  shows "\<exists>h2. executeDecisions results' crash c h = (Inr outcomes, c1, h2) \<and>
    (\<forall>i. mset (gm_get_or [] h2 i) = mset (gm_get_or [] h1 i))"
proof -
  let ?h2 = "fold (\<lambda>r. counterHistory_add (ir_id r) (ir_operation r)) results' h"
  let ?stop = "case crash of None \<Rightarrow> (None, c) | Some k \<Rightarrow> cluster_crash c (int k)"
  let ?cls = "\<lambda>r. classifyOutcome (ir_err r)"
  obtain e c2 where s: "?stop = (e, c2)" by force
  obtain x h3 where x: "collect_outcomes results h = (x, h3)" by force
  have v: "e = None" "c2 = c1" "h3 = h1" "map_sum id sort x = Inr outcomes"
    using assms(2) s x by (cases e; simp add: executeDecisions_def)+
  then obtain os where os: "x = Inr os" "outcomes = sort os" by (cases x) auto
  have cls: "map ?cls results = map Inr os" and h1: "h1 = fold (\<lambda>r. counterHistory_add (ir_id r) (ir_operation r)) results h"
    using x os(1) v(3) collect_outcomes_eq [of results h os h1] by simp_all
  define os' where "os' = map (projr \<circ> ?cls) results'"
  have "?cls r \<in> Inr ` set os" if "r \<in> set results'" for r
    using that cls assms(1) by (metis image_eqI list.set_map mset_eq_setD)
  then have cls': "map ?cls results' = map Inr os'" by (force simp: os'_def)
  have "mset (map Inr os' :: string result list) = mset (map Inr os)"
    using cls cls' assms(1) by (metis mset_map)
  then have "image_mset projr (mset (map Inr os' :: string result list)) = image_mset projr (mset (map Inr os :: string result list))"
    by (rule arg_cong)
  then have "mset os' = mset os" by (simp add: multiset.map_comp o_def)
  then have "sort os' = outcomes" using os(2) by (metis properties_for_sort mset_sort sorted_sort)
  moreover have "collect_outcomes results' h = (Inr os', ?h2)" using cls' by (simp add: collect_outcomes_eq)
  ultimately have "executeDecisions results' crash c h = (Inr outcomes, c1, ?h2)"
    using s v(1,2) by (simp add: executeDecisions_def)
  moreover have "mset (gm_get_or [] ?h2 i) = mset (gm_get_or [] h1 i)" for i
    using assms(1) by (simp add: h1 history_operations)
  ultimately show ?thesis by blast
qed

section \<open>Time\<close>

lemma advance_steps_spec:
  "sum_list (advance_steps d) = max 0 d \<and> (\<forall>step \<in> set (advance_steps d). 0 < step \<and> step \<le> simulationStepDuration)"
proof (induction d rule: advance_steps.induct)
  case (1 d)
  then show ?case
    by (subst (1 2) advance_steps.simps) (auto simp: Let_def simulationStepDuration_def max_def)
qed

section \<open>New runtimes\<close>

definition sim_config :: "store_handle \<Rightarrow> store_handle \<Rightarrow> nat \<Rightarrow> nat \<Rightarrow> root_config" where
  "sim_config backend reminders i generation =
     foldl (\<lambda>c option. option c) default_config (baseRuntimeOptions backend @ cluster_options i generation reminders)"

lemmas option_defs = WithClock_def WithMailboxCapacity_def WithIdleTimeout_def WithEvictionInterval_def WithStore_def
  WithReminderStore_def WithReminderInterval_def WithTransport_def WithMemberStore_def WithNodeAddr_def WithGeneration_def
  WithHeartbeatInterval_def WithViewInterval_def WithProbeInterval_def WithProbeTimeout_def WithProbeFailures_def
  WithVoteTTL_def WithMaxTickGap_def WithMaxTableLatency_def

lemma sim_config_valid:
  "rc_MemberStore (sim_config b rm i g)" "rc_Transport (sim_config b rm i g)" "rc_ReminderStore (sim_config b rm i g) \<noteq> None"
  "node_config (cluster_config (sim_config b rm i g)) = Inr (cluster_config (sim_config b rm i g))"
  "cf_NodeAddr (cluster_config (sim_config b rm i g)) = nodeAddress (int i)"
  "cf_Generation (cluster_config (sim_config b rm i g)) = memberGeneration i g"
  "rc_NodeAddr (sim_config b rm i g) = nodeAddress (int i)"
  by (simp_all add: sim_config_def baseRuntimeOptions_def cluster_options_def option_defs default_config_def cluster_config_def
      node_config_def simulationStepDuration_def default_to_def)

lemma install_fresh:
  assumes "rt_types rt = []" and "e_registrations (rt_engine rt) = []"
  shows "\<exists>rt'. installCounterWithTracker n rt = (None, rt') \<and> gm_get (rt_types rt') n = Some counter_registration \<and>
    gm_get (e_registrations (rt_engine rt')) n = Some True \<and> rt_nodeAddr rt' = rt_nodeAddr rt"
  using assms
  by (auto simp: installCounterWithTracker_def InstallType_def Root_Register_def Root_typeRegistration_def Engine_Register_def go_map_simps)

lemma Root_New_join:
  assumes "foldl (\<lambda>c option. option c) default_config options = c" and "rc_MemberStore c" and "rc_Transport c"
    and "rc_ReminderStore c \<noteq> None" and "node_config (cluster_config c) = Inr cfg"
  shows "join env now1 now2 cfg w = (Inl e, w1) \<Longrightarrow>
      Root_New env now1 now2 options w = (Inl (Wrap (''start cluster node: '' @ error_text e) e), w1)"
    and "join env now1 now2 cfg w = (Inr x, w1) \<Longrightarrow>
      \<exists>rt run. Root_New env now1 now2 options w = (Inr (rt, Some run), w1) \<and> rt_nodeAddr rt = rc_NodeAddr c \<and>
        rt_types rt = [] \<and> e_registrations (rt_engine rt) = []"
  using assms by (auto simp: Root_New_def Node_New_def Let_def Engine_New_def split: prod.split)

text \<open>
  A node of the simulated cluster fails to start only when it cannot join: its options pass every check of
  \<open>New\<close>, the counter type is installed and registered on the fresh runtime, and nothing has to be closed again.
\<close>

theorem sim_runtime_starts:
  "\<exists>cfg. node_config cfg = Inr cfg \<and> cf_NodeAddr cfg = nodeAddress (int i) \<and> cf_Generation cfg = memberGeneration i generation \<and>
     (case join env now1 now2 cfg w of
        (Inl e, w1) \<Rightarrow>
          fst (cluster_newRuntime env now1 now2 n backend reminders i generation net w) =
            (Inl (Wrap (''start cluster node: '' @ error_text e) e), None, w1)
      | (Inr _, w1) \<Rightarrow>
          (\<exists>rt run. fst (cluster_newRuntime env now1 now2 n backend reminders i generation net w) = (Inr (rt, Some run), None, w1) \<and>
             rt_nodeAddr rt = nodeAddress (int i) \<and> gm_get (rt_types rt) n = Some counter_registration \<and>
             gm_get (e_registrations (rt_engine rt)) n = Some True))"
proof -
  let ?c = "sim_config backend reminders i generation"
  let ?options = "baseRuntimeOptions backend @ cluster_options i generation reminders"
  note new = Root_New_join [of ?options ?c, OF sim_config_def [symmetric] sim_config_valid(1,2,3,4), of env now1 now2 w]
  have "case join env now1 now2 (cluster_config ?c) w of
        (Inl e, w1) \<Rightarrow>
          fst (cluster_newRuntime env now1 now2 n backend reminders i generation net w) =
            (Inl (Wrap (''start cluster node: '' @ error_text e) e), None, w1)
      | (Inr _, w1) \<Rightarrow>
          (\<exists>rt run. fst (cluster_newRuntime env now1 now2 n backend reminders i generation net w) = (Inr (rt, Some run), None, w1) \<and>
             rt_nodeAddr rt = nodeAddress (int i) \<and> gm_get (rt_types rt) n = Some counter_registration \<and>
             gm_get (e_registrations (rt_engine rt)) n = Some True)"
  proof (cases "join env now1 now2 (cluster_config ?c) w")
    case (Pair x w1)
    show ?thesis
    proof (cases x)
      case (Inl e)
      show ?thesis using Pair Inl by (simp add: cluster_newRuntime_def newCounterRuntimeWithOptions_def new(1))
    next
      case (Inr y)
      then obtain rt :: "(counter_args + counter_reply) root" and run where r: "Root_New env now1 now2 ?options w = (Inr (rt, Some run), w1)"
          "rt_nodeAddr rt = rc_NodeAddr ?c" "rt_types rt = []" "e_registrations (rt_engine rt) = []"
        using Pair new(2) by blast
      with install_fresh [OF r(3,4), of n] Pair Inr show ?thesis
        by (auto simp: cluster_newRuntime_def newCounterRuntimeWithOptions_def sim_config_valid(7) split: prod.split)
    qed
  qed
  then show ?thesis by (intro exI [of _ "cluster_config ?c"] conjI sim_config_valid)
qed

section \<open>Witnesses\<close>

definition demo_calls :: "invocationResult list" where
  "demo_calls = [invocation_result (GrainId ''c'' ''a'') 3 1 0 (Some (Sentinel SimWriteFailure)) 3,
     invocation_result (GrainId ''c'' ''a'') 5 2 5 None 4]"

theorem outcomes_order_free_witness:
  "\<exists>h2. executeDecisions (rev demo_calls) (Some 0) (cluster_of [demo_root True]) [] =
     (Inr [''ok'', ''store-write-error''], snd (cluster_crash (cluster_of [demo_root True]) 0), h2) \<and>
     mset (gm_get_or [] h2 (GrainId ''c'' ''a'')) = mset (map ir_operation demo_calls)"
proof -
  let ?c = "cluster_of [demo_root True]"
  have cls: "classifyOutcome (Some (Sentinel SimWriteFailure)) = Inr ''store-write-error''" "classifyOutcome None = Inr ''ok''"
    by code_simp+
  have "sort [''store-write-error'', ''ok''] = [''ok'', ''store-write-error'']" by code_simp
  then have e: "executeDecisions demo_calls (Some 0) ?c [] =
      (Inr [''ok'', ''store-write-error''], snd (cluster_crash ?c 0), [(GrainId ''c'' ''a'', map ir_operation demo_calls)])"
    by (simp add: executeDecisions_def demo_calls_def invocation_result_def cls counterHistory_add_def gm_get_or_def
        cluster_crash_def stop_node_def cluster_node_def cluster_of_def)
  have m: "mset (rev demo_calls) = mset demo_calls" by simp
  show ?thesis using outcomes_order_free [OF m e] by (fastforce simp: gm_get_or_def)
qed

definition demo_intN :: "nat rng" where
  "demo_intN n r = (if n = 0 then None else Some (r mod n, Suc r))"

lemma demo_intN_ok: "rng_ok demo_intN"
  by (simp add: rng_ok_def demo_intN_def)

theorem driver_decisions_legal_witness:
  "\<exists>d r'. draw_step demo_intN 2 (cluster_of [demo_root True, demo_root True]) 3 = Some (d, r') \<and>
     step_legal 2 (cluster_of [demo_root True, demo_root True]) d"
  by (rule driver_decisions_legal [OF demo_intN_ok cluster_of_ok]) (simp_all add: cluster_of_def)


end
