(* ===== verification/Gor_App_Store.thy ===== *)
theory Gor_App_Store
  imports Gor_Errors
begin

text \<open>
  The application stores of the example (\<open>examples/shadow/domain/application.go\<close>): business actions that
  wait, and receipts of the actions that were applied. Both implementations are interpretations of the
  locale \<open>application_store\<close>, whose operations may fail at any statement; the client lemmas are proved there
  once. Strings are ordered by their bytes, as Go and SQLite's binary collation order them.
\<close>

section \<open>Records\<close>

record pendingAction =
  pa_ActionID :: string
  pa_DeviceKey :: string
  pa_State :: string
  pa_TraceID :: string

record appliedRecord =
  ar_ActionID :: string
  ar_DeviceKey :: string
  ar_State :: string
  ar_TraceID :: string

text \<open>The conversion \<open>AppliedRecord(action)\<close>.\<close>

definition AppliedRecord_of :: "pendingAction \<Rightarrow> appliedRecord" where
  "AppliedRecord_of a = \<lparr>ar_ActionID = pa_ActionID a, ar_DeviceKey = pa_DeviceKey a, ar_State = pa_State a, ar_TraceID = pa_TraceID a\<rparr>"

lemma AppliedRecord_of_inj [simp]: "AppliedRecord_of a = AppliedRecord_of b \<longleftrightarrow> a = b"
  by (cases a; cases b) (simp add: AppliedRecord_of_def)

lemma AppliedRecord_of_id [simp]: "ar_ActionID (AppliedRecord_of a) = pa_ActionID a"
  by (simp add: AppliedRecord_of_def)

definition empty_action_id :: go_error where
  "empty_action_id = NewErr ''application action ID is empty''"

section \<open>The store in memory\<close>

record app_memory =
  am_pending :: "(string, pendingAction) gomap"
  am_applied :: "(string, appliedRecord) gomap"

definition NewMemoryApplicationStore :: app_memory where
  "NewMemoryApplicationStore = \<lparr>am_pending = [], am_applied = []\<rparr>"

definition mem_SavePending :: "go_error option \<Rightarrow> app_memory \<Rightarrow> pendingAction \<Rightarrow> unit result \<times> app_memory" where
  "mem_SavePending ctx_err s action =
     (case ctx_err of
        Some e \<Rightarrow> (Inl e, s)
      | None \<Rightarrow>
          if pa_ActionID action = [] then (Inl empty_action_id, s)
          else (case gm_get (am_pending s) (pa_ActionID action) of
                  Some current \<Rightarrow>
                    if current \<noteq> action then (Inl (Sentinel AppErrPendingActionConflict), s) else (Inr (), s)
                | None \<Rightarrow>
                    (case gm_get (am_applied s) (pa_ActionID action) of
                       Some current \<Rightarrow>
                         if current \<noteq> AppliedRecord_of action then (Inl (Sentinel AppErrPendingActionConflict), s) else (Inr (), s)
                     | None \<Rightarrow> (Inr (), s\<lparr>am_pending := gm_put (pa_ActionID action) action (am_pending s)\<rparr>))))"

definition mem_ListPending :: "go_error option \<Rightarrow> app_memory \<Rightarrow> pendingAction list result" where
  "mem_ListPending ctx_err s =
     (case ctx_err of Some e \<Rightarrow> Inl e | None \<Rightarrow> Inr (sort_key pa_ActionID (map snd (am_pending s))))"

definition mem_ApplyPending :: "go_error option \<Rightarrow> app_memory \<Rightarrow> string \<Rightarrow> unit result \<times> app_memory" where
  "mem_ApplyPending ctx_err s actionID =
     (case ctx_err of
        Some e \<Rightarrow> (Inl e, s)
      | None \<Rightarrow>
          if gm_get (am_applied s) actionID \<noteq> None then (Inr (), s)
          else (case gm_get (am_pending s) actionID of
                  None \<Rightarrow> (Inl (Sentinel AppErrPendingActionNotFound), s)
                | Some action \<Rightarrow>
                    (Inr (), s\<lparr>am_applied := gm_put actionID (AppliedRecord_of action) (am_applied s),
                               am_pending := gm_del actionID (am_pending s)\<rparr>)))"

text \<open>The record and the flag of \<open>ReadApplied\<close> are one option.\<close>

definition mem_ReadApplied :: "go_error option \<Rightarrow> app_memory \<Rightarrow> string \<Rightarrow> appliedRecord option result" where
  "mem_ReadApplied ctx_err s actionID = (case ctx_err of Some e \<Rightarrow> Inl e | None \<Rightarrow> Inr (gm_get (am_applied s) actionID))"

section \<open>The SQLite store\<close>

text \<open>
  The two tables as lists of rows. \<open>tx_env\<close> says which statement of a transaction fails: a statement that
  fails makes the method return and roll back; a commit that fails may have taken effect or not.
\<close>

record app_sqlite =
  aq_pending :: "pendingAction list"
  aq_applied :: "appliedRecord list"

datatype commit_fate = Commits | CommitRefused go_error | CommitLost go_error

record tx_env =
  te_ctx :: "go_error option"
  te_begin :: "go_error option"
  te_read1 :: "go_error option"
  te_read2 :: "go_error option"
  te_exec1 :: "go_error option"
  te_exec2 :: "go_error option"
  te_commit :: commit_fate

definition OpenSQLiteApplicationStore_empty :: app_sqlite where
  "OpenSQLiteApplicationStore_empty = \<lparr>aq_pending = [], aq_applied = []\<rparr>"

definition readPending :: "app_sqlite \<Rightarrow> string \<Rightarrow> pendingAction option" where
  "readPending s actionID = find (\<lambda>r. pa_ActionID r = actionID) (aq_pending s)"

definition readApplied :: "app_sqlite \<Rightarrow> string \<Rightarrow> appliedRecord option" where
  "readApplied s actionID = find (\<lambda>r. ar_ActionID r = actionID) (aq_applied s)"

definition tx_fails :: "go_error option \<Rightarrow> unit result \<times> 's \<Rightarrow> 's \<Rightarrow> unit result \<times> 's" where
  "tx_fails err rest s = (case err of Some e \<Rightarrow> (Inl e, s) | None \<Rightarrow> rest)"

definition tx_Commit :: "commit_fate \<Rightarrow> 's \<Rightarrow> 's \<Rightarrow> unit result \<times> 's" where
  "tx_Commit fate s s' =
     (case fate of Commits \<Rightarrow> (Inr (), s') | CommitRefused e \<Rightarrow> (Inl e, s) | CommitLost e \<Rightarrow> (Inl e, s'))"

definition sql_SavePending :: "tx_env \<Rightarrow> app_sqlite \<Rightarrow> pendingAction \<Rightarrow> unit result \<times> app_sqlite" where
  "sql_SavePending env s action =
     tx_fails (te_ctx env)
      (if pa_ActionID action = [] then (Inl empty_action_id, s)
       else
         tx_fails (te_begin env) (tx_fails (te_read1 env)
          (case readPending s (pa_ActionID action) of
             Some current \<Rightarrow>
               if current \<noteq> action then (Inl (Sentinel AppErrPendingActionConflict), s) else tx_Commit (te_commit env) s s
           | None \<Rightarrow>
               tx_fails (te_read2 env)
                (case readApplied s (pa_ActionID action) of
                   Some applied \<Rightarrow>
                     if applied \<noteq> AppliedRecord_of action then (Inl (Sentinel AppErrPendingActionConflict), s)
                     else tx_Commit (te_commit env) s s
                 | None \<Rightarrow>
                     tx_fails (te_exec1 env)
                      (tx_Commit (te_commit env) s (s\<lparr>aq_pending := aq_pending s @ [action]\<rparr>)) s) s) s) s) s"

definition sql_ListPending :: "tx_env \<Rightarrow> app_sqlite \<Rightarrow> pendingAction list result" where
  "sql_ListPending env s =
     (case te_ctx env of
        Some e \<Rightarrow> Inl e
      | None \<Rightarrow> (case te_read1 env of Some e \<Rightarrow> Inl e | None \<Rightarrow> Inr (sort_key pa_ActionID (aq_pending s))))"

definition sql_ApplyPending :: "tx_env \<Rightarrow> app_sqlite \<Rightarrow> string \<Rightarrow> unit result \<times> app_sqlite" where
  "sql_ApplyPending env s actionID =
     tx_fails (te_ctx env) (tx_fails (te_begin env) (tx_fails (te_read1 env)
      (if readApplied s actionID \<noteq> None then tx_Commit (te_commit env) s s
       else
         tx_fails (te_read2 env)
          (case readPending s actionID of
             None \<Rightarrow> (Inl (Sentinel AppErrPendingActionNotFound), s)
           | Some action \<Rightarrow>
               tx_fails (te_exec1 env) (tx_fails (te_exec2 env)
                 (tx_Commit (te_commit env) s
                   (s\<lparr>aq_applied := aq_applied s @ [AppliedRecord_of action],
                      aq_pending := filter (\<lambda>r. pa_ActionID r \<noteq> actionID) (aq_pending s)\<rparr>)) s) s) s) s) s) s"

definition sql_ReadApplied :: "tx_env \<Rightarrow> app_sqlite \<Rightarrow> string \<Rightarrow> appliedRecord option result" where
  "sql_ReadApplied env s actionID =
     (case te_ctx env of
        Some e \<Rightarrow> Inl e
      | None \<Rightarrow> (case te_read1 env of Some e \<Rightarrow> Inl e | None \<Rightarrow> Inr (readApplied s actionID)))"

section \<open>What an application store promises\<close>

record app_view =
  av_pending :: "string \<rightharpoonup> pendingAction"
  av_applied :: "string \<rightharpoonup> appliedRecord"

definition empty_view :: app_view where
  "empty_view = \<lparr>av_pending = Map.empty, av_applied = Map.empty\<rparr>"

definition save_spec :: "pendingAction \<Rightarrow> app_view \<Rightarrow> unit result \<times> app_view" where
  "save_spec a v =
     (if pa_ActionID a = [] then (Inl empty_action_id, v)
      else if av_pending v (pa_ActionID a) = None \<and> av_applied v (pa_ActionID a) = None
        then (Inr (), v\<lparr>av_pending := (av_pending v)(pa_ActionID a \<mapsto> a)\<rparr>)
      else if av_pending v (pa_ActionID a) = Some a \<or>
          av_pending v (pa_ActionID a) = None \<and> av_applied v (pa_ActionID a) = Some (AppliedRecord_of a)
        then (Inr (), v)
      else (Inl (Sentinel AppErrPendingActionConflict), v))"

definition apply_spec :: "string \<Rightarrow> app_view \<Rightarrow> unit result \<times> app_view" where
  "apply_spec k v =
     (if av_applied v k \<noteq> None then (Inr (), v)
      else (case av_pending v k of
              None \<Rightarrow> (Inl (Sentinel AppErrPendingActionNotFound), v)
            | Some a \<Rightarrow>
                (Inr (), v\<lparr>av_applied := (av_applied v)(k \<mapsto> AppliedRecord_of a), av_pending := (av_pending v)(k := None)\<rparr>)))"

text \<open>An action is never both pending and applied, and is stored under its own ID.\<close>

definition view_ok :: "app_view \<Rightarrow> bool" where
  "view_ok v \<longleftrightarrow> (\<forall>k a. av_pending v k = Some a \<longrightarrow> pa_ActionID a = k \<and> av_applied v k = None) \<and>
     (\<forall>k r. av_applied v k = Some r \<longrightarrow> ar_ActionID r = k) \<and> finite (dom (av_pending v))"

text \<open>The answer and the view after an operation that may fail: as specified, or an error before or after the effect.\<close>

definition disturbed :: "bool \<Rightarrow> app_view \<Rightarrow> unit result \<times> app_view \<Rightarrow> unit result \<times> app_view \<Rightarrow> bool" where
  "disturbed fine v spec res \<longleftrightarrow> res = spec \<or> (\<not> fine \<and> isl (fst res) \<and> (snd res = v \<or> snd res = snd spec))"

datatype 'f app_op = AppSave 'f pendingAction | AppApply 'f string

fun app_exec ::
    "('f \<Rightarrow> 's \<Rightarrow> pendingAction \<Rightarrow> unit result \<times> 's) \<Rightarrow> ('f \<Rightarrow> 's \<Rightarrow> string \<Rightarrow> unit result \<times> 's) \<Rightarrow> 'f app_op \<Rightarrow> 's \<Rightarrow> unit result \<times> 's" where
  "app_exec save apply1 (AppSave f a) s = save f s a"
| "app_exec save apply1 (AppApply f k) s = apply1 f s k"

definition app_run ::
    "('f \<Rightarrow> 's \<Rightarrow> pendingAction \<Rightarrow> unit result \<times> 's) \<Rightarrow> ('f \<Rightarrow> 's \<Rightarrow> string \<Rightarrow> unit result \<times> 's) \<Rightarrow> 'f app_op list \<Rightarrow> 's \<Rightarrow> 's" where
  "app_run save apply1 ops s = fold (\<lambda>op s. snd (app_exec save apply1 op s)) ops s"

fun op_spec :: "'f app_op \<Rightarrow> app_view \<Rightarrow> unit result \<times> app_view" where
  "op_spec (AppSave f a) v = save_spec a v"
| "op_spec (AppApply f k) v = apply_spec k v"

fun spec_answers :: "'f app_op list \<Rightarrow> app_view \<Rightarrow> unit result list" where
  "spec_answers [] v = []"
| "spec_answers (op # ops) v = fst (op_spec op v) # spec_answers ops (snd (op_spec op v))"

fun app_answers ::
    "('f \<Rightarrow> 's \<Rightarrow> pendingAction \<Rightarrow> unit result \<times> 's) \<Rightarrow> ('f \<Rightarrow> 's \<Rightarrow> string \<Rightarrow> unit result \<times> 's) \<Rightarrow> 'f app_op list \<Rightarrow> 's \<Rightarrow> unit result list" where
  "app_answers save apply1 [] s = []"
| "app_answers save apply1 (op # ops) s =
     fst (app_exec save apply1 op s) # app_answers save apply1 ops (snd (app_exec save apply1 op s))"

fun op_fate :: "'f app_op \<Rightarrow> 'f" where
  "op_fate (AppSave f a) = f"
| "op_fate (AppApply f k) = f"

lemma save_spec_cases:
  obtains "snd (save_spec a v) = v"
  | "pa_ActionID a \<noteq> []" "av_pending v (pa_ActionID a) = None" "av_applied v (pa_ActionID a) = None"
    "save_spec a v = (Inr (), v\<lparr>av_pending := (av_pending v)(pa_ActionID a \<mapsto> a)\<rparr>)"
  by (cases "pa_ActionID a = []"; cases "av_pending v (pa_ActionID a) = None \<and> av_applied v (pa_ActionID a) = None")
    (auto simp: save_spec_def)

lemma apply_spec_cases:
  obtains "snd (apply_spec k v) = v"
  | a where "av_applied v k = None" "av_pending v k = Some a"
    "apply_spec k v = (Inr (), v\<lparr>av_applied := (av_applied v)(k \<mapsto> AppliedRecord_of a), av_pending := (av_pending v)(k := None)\<rparr>)"
  by (cases "av_applied v k"; cases "av_pending v k") (auto simp: apply_spec_def)

lemma view_ok_save:
  "view_ok v \<Longrightarrow> av_applied v (pa_ActionID a) = None \<Longrightarrow> view_ok (v\<lparr>av_pending := (av_pending v)(pa_ActionID a \<mapsto> a)\<rparr>)"
  by (simp add: view_ok_def)

lemma view_ok_apply:
  "view_ok v \<Longrightarrow> av_pending v k = Some a \<Longrightarrow>
    view_ok (v\<lparr>av_applied := (av_applied v)(k \<mapsto> AppliedRecord_of a), av_pending := (av_pending v)(k := None)\<rparr>)"
  by (simp add: view_ok_def)

lemma op_spec_ok: "view_ok v \<Longrightarrow> view_ok (snd (op_spec op v))"
proof (cases op)
  case (AppSave f a)
  assume "view_ok v"
  then show ?thesis using AppSave by (cases rule: save_spec_cases [of a v]) (simp_all add: view_ok_save)
next
  case (AppApply f k)
  assume "view_ok v"
  then show ?thesis using AppApply by (cases rule: apply_spec_cases [of k v]) (simp_all add: view_ok_apply)
qed

text \<open>What an ID stands for: its pending action or the one it was applied from.\<close>

definition payload :: "app_view \<Rightarrow> string \<Rightarrow> appliedRecord option" where
  "payload v k = (case av_applied v k of Some r \<Rightarrow> Some r | None \<Rightarrow> map_option AppliedRecord_of (av_pending v k))"

lemma op_spec_payload: "payload v k = Some r \<Longrightarrow> payload (snd (op_spec op v)) k = Some r"
proof (cases op)
  case (AppSave f a)
  assume "payload v k = Some r"
  then show ?thesis using AppSave by (cases rule: save_spec_cases [of a v]) (auto simp: payload_def split: option.splits)
next
  case (AppApply f i)
  assume "payload v k = Some r"
  then show ?thesis using AppApply by (cases rule: apply_spec_cases [of i v]) (auto simp: payload_def split: option.splits)
qed

lemma op_spec_origin:
  assumes "payload (snd (op_spec op v)) k = Some r"
  shows "payload v k = Some r \<or> (\<exists>f a. op = AppSave f a \<and> AppliedRecord_of a = r \<and> pa_ActionID a = k)"
proof (cases op)
  case (AppSave f a)
  then show ?thesis using assms by (cases rule: save_spec_cases [of a v]) (auto simp: payload_def split: option.splits if_splits)
next
  case (AppApply f i)
  then show ?thesis using assms by (cases rule: apply_spec_cases [of i v]) (auto simp: payload_def split: option.splits if_splits)
qed

lemma op_spec_receipts: "av_applied v k = Some r \<Longrightarrow> av_applied (snd (op_spec op v)) k = Some r"
proof (cases op)
  case (AppSave f a)
  assume "av_applied v k = Some r"
  then show ?thesis using AppSave by (cases rule: save_spec_cases [of a v]) simp_all
next
  case (AppApply f i)
  assume "av_applied v k = Some r"
  then show ?thesis using AppApply by (cases rule: apply_spec_cases [of i v]) auto
qed

text \<open>
  The interface. \<open>fine\<close> marks the environments in which no statement fails; \<open>view\<close> is what the store holds.
\<close>

locale application_store =
  fixes save :: "'f \<Rightarrow> 's \<Rightarrow> pendingAction \<Rightarrow> unit result \<times> 's"
    and apply1 :: "'f \<Rightarrow> 's \<Rightarrow> string \<Rightarrow> unit result \<times> 's"
    and listing :: "'f \<Rightarrow> 's \<Rightarrow> pendingAction list result"
    and receipt :: "'f \<Rightarrow> 's \<Rightarrow> string \<Rightarrow> appliedRecord option result"
    and inv :: "'s \<Rightarrow> bool" and view :: "'s \<Rightarrow> app_view" and fine :: "'f \<Rightarrow> bool"
  assumes view_ok: "inv s \<Longrightarrow> view_ok (view s)"
    and save_law: "inv s \<Longrightarrow> inv (snd (save f s a)) \<and>
      disturbed (fine f) (view s) (save_spec a (view s)) (apsnd view (save f s a))"
    and apply_law: "inv s \<Longrightarrow> inv (snd (apply1 f s k)) \<and>
      disturbed (fine f) (view s) (apply_spec k (view s)) (apsnd view (apply1 f s k))"
    and listing_law: "inv s \<Longrightarrow> fine f \<Longrightarrow> listing f s = Inr as \<Longrightarrow>
      distinct as \<and> sorted (map pa_ActionID as) \<and> set as = ran (av_pending (view s))"
    and listing_fine: "inv s \<Longrightarrow> fine f \<Longrightarrow> \<exists>as. listing f s = Inr as"
    and receipt_law: "inv s \<Longrightarrow> fine f \<Longrightarrow> receipt f s k = Inr (av_applied (view s) k)"
begin

lemma exec_law:
  assumes "inv s"
  shows "inv (snd (app_exec save apply1 op s)) \<and>
    disturbed (fine (op_fate op)) (view s) (op_spec op (view s)) (apsnd view (app_exec save apply1 op s))"
  using save_law [OF assms] apply_law [OF assms] by (cases op) auto

lemma exec_view:
  assumes "inv s"
  shows "view (snd (app_exec save apply1 op s)) = view s \<or> view (snd (app_exec save apply1 op s)) = snd (op_spec op (view s))"
  using exec_law [OF assms, of op] unfolding disturbed_def by (metis snd_apsnd)

lemma exec_fine: "inv s \<Longrightarrow> fine (op_fate op) \<Longrightarrow> apsnd view (app_exec save apply1 op s) = op_spec op (view s)"
  using exec_law [of s op] by (simp add: disturbed_def)

lemma run_inv: "inv s \<Longrightarrow> inv (app_run save apply1 ops s)"
  unfolding app_run_def by (induction ops arbitrary: s) (simp_all add: exec_law)

lemma run_append: "app_run save apply1 (ops @ ops') s = app_run save apply1 ops' (app_run save apply1 ops s)"
  by (simp add: app_run_def)

lemma run_keeps:
  assumes "inv s" and "P (view s)" and "\<And>v (op :: 'f app_op). P v \<Longrightarrow> P (snd (op_spec op v))"
  shows "P (view (app_run save apply1 ops s))"
  using assms(1,2) unfolding app_run_def
proof (induction ops arbitrary: s)
  case (Cons op ops)
  have "P (view (snd (app_exec save apply1 op s)))"
    using exec_view [OF Cons.prems(1), of op] Cons.prems(2) assms(3) by metis
  then show ?case using Cons exec_law [OF Cons.prems(1), of op] by simp
qed simp

lemma run_receipts: "inv s \<Longrightarrow> av_applied (view s) k = Some r \<Longrightarrow> av_applied (view (app_run save apply1 ops s)) k = Some r"
  by (rule run_keeps) (simp_all add: op_spec_receipts)

lemma run_payload: "inv s \<Longrightarrow> payload (view s) k = Some r \<Longrightarrow> payload (view (app_run save apply1 ops s)) k = Some r"
  by (rule run_keeps) (simp_all add: op_spec_payload)

lemma run_origin:
  assumes "inv s" and "payload (view (app_run save apply1 ops s)) k = Some r"
  shows "payload (view s) k = Some r \<or> (\<exists>f a. AppSave f a \<in> set ops \<and> AppliedRecord_of a = r \<and> pa_ActionID a = k)"
  using assms unfolding app_run_def
proof (induction ops arbitrary: s)
  case (Cons op ops)
  let ?s = "snd (app_exec save apply1 op s)"
  have "payload (view ?s) k = Some r \<or> (\<exists>f a. AppSave f a \<in> set ops \<and> AppliedRecord_of a = r \<and> pa_ActionID a = k)"
    using Cons exec_law [OF Cons.prems(1), of op] by simp
  then show ?case
    using exec_view [OF Cons.prems(1), of op] op_spec_origin [of op "view s" k r] by (metis list.set_intros)
qed simp

text \<open>A save that was confirmed fixes the payload of its ID.\<close>

lemma save_payload:
  assumes "inv s" and "save f s a = (Inr (), s')"
  shows "payload (view s') (pa_ActionID a) = Some (AppliedRecord_of a)"
proof -
  have "(Inr (), view s') = save_spec a (view s)"
    using save_law [OF assms(1), of f a] assms(2) by (simp add: disturbed_def)
  moreover have "av_applied (view s) k = None" if "av_pending (view s) k = Some x" for k x
    using view_ok [OF assms(1)] that by (simp add: view_ok_def)
  ultimately show ?thesis
    by (cases "av_applied (view s) (pa_ActionID a)"; cases "av_pending (view s) (pa_ActionID a)")
      (auto simp: save_spec_def payload_def split: if_splits)
qed

lemma other_payload_refused:
  assumes "inv s" and "payload (view s) (pa_ActionID a) = Some r" and "AppliedRecord_of a \<noteq> r"
  shows "isl (fst (save f s a))"
proof (cases "fst (save f s a)")
  case (Inr u)
  then show ?thesis using save_payload [OF assms(1), of f a "snd (save f s a)"] run_payload [OF assms(1,2), of "[AppSave f a]"] assms(3)
    by (cases "save f s a") (simp add: app_run_def)
qed simp

text \<open>An undisturbed apply of an ID with a payload creates its receipt.\<close>

lemma apply_receipt:
  assumes "inv s" and "payload (view s) k = Some r" and "fine f"
  shows "fst (apply1 f s k) = Inr () \<and> av_applied (view (snd (apply1 f s k))) k = Some r"
  using exec_fine [of s "AppApply f k"] assms
  by (cases "apply1 f s k"; cases "av_applied (view s) k") (auto simp: apply_spec_def payload_def split: option.splits)

lemma exactly_once:
  assumes "inv s" and "view s = empty_view" and "fine f"
    and "receipt f (app_run save apply1 ops s) k = Inr (Some r)"
  shows "receipt f (app_run save apply1 (ops @ ops') s) k = Inr (Some r) \<and>
    (\<exists>g a. AppSave g a \<in> set ops \<and> AppliedRecord_of a = r \<and> pa_ActionID a = k) \<and>
    (\<forall>g b. pa_ActionID b = k \<and> AppliedRecord_of b \<noteq> r \<longrightarrow> isl (fst (save g (app_run save apply1 (ops @ ops') s) b)))"
proof -
  let ?s1 = "app_run save apply1 ops s"
  let ?s2 = "app_run save apply1 (ops @ ops') s"
  have i1: "inv ?s1" and i2: "inv ?s2" using run_inv [OF assms(1)] by blast+
  have a1: "av_applied (view ?s1) k = Some r" using assms(4) receipt_law [OF i1 assms(3)] by simp
  then have a2: "av_applied (view ?s2) k = Some r" using run_receipts [OF i1] by (simp add: run_append)
  have "payload (view s) k = None" by (simp add: assms(2) payload_def empty_view_def)
  then have "\<exists>g a. AppSave g a \<in> set ops \<and> AppliedRecord_of a = r \<and> pa_ActionID a = k"
    using run_origin [OF assms(1), of ops k r] a1 by (auto simp: payload_def)
  moreover have "isl (fst (save g ?s2 b))" if "pa_ActionID b = k" "AppliedRecord_of b \<noteq> r" for g b
    using other_payload_refused [OF i2, of b r g] a2 that by (auto simp: payload_def)
  ultimately show ?thesis using receipt_law [OF i2 assms(3)] a2 by auto
qed

lemma confirmed_applied:
  assumes "inv s" and "save g s a = (Inr (), s')" and "fine f"
  shows "let s2 = app_run save apply1 ops s' in fst (apply1 f s2 (pa_ActionID a)) = Inr () \<and>
    receipt f (snd (apply1 f s2 (pa_ActionID a))) (pa_ActionID a) = Inr (Some (AppliedRecord_of a))"
proof -
  have i: "inv s'" using save_law [OF assms(1), of g a] assms(2) by simp
  let ?s2 = "app_run save apply1 ops s'"
  have i2: "inv ?s2" by (rule run_inv [OF i])
  have p: "payload (view ?s2) (pa_ActionID a) = Some (AppliedRecord_of a)"
    by (rule run_payload [OF i save_payload [OF assms(1,2)]])
  have "inv (snd (apply1 f ?s2 (pa_ActionID a)))" using apply_law [OF i2] by blast
  then show ?thesis using apply_receipt [OF i2 p assms(3)] by (simp add: Let_def receipt_law [OF _ assms(3)])
qed

lemma undisturbed_run:
  assumes "inv s" and "\<forall>op \<in> set ops. fine (op_fate op)"
  shows "app_answers save apply1 ops s = spec_answers ops (view s) \<and>
    view (app_run save apply1 ops s) = fold (\<lambda>op v. snd (op_spec op v)) ops (view s)"
  using assms unfolding app_run_def
proof (induction ops arbitrary: s)
  case (Cons op ops)
  let ?r = "app_exec save apply1 op s"
  have "apsnd view ?r = op_spec op (view s)" using exec_fine [OF Cons.prems(1)] Cons.prems(2) by simp
  then have "fst ?r = fst (op_spec op (view s))" and v: "view (snd ?r) = snd (op_spec op (view s))"
    by (metis fst_apsnd, metis snd_apsnd)
  moreover have "inv (snd ?r)" using exec_law [OF Cons.prems(1)] by blast
  ultimately show ?case using Cons.IH [of "snd ?r"] Cons.prems(2) by simp
qed simp

lemma listing_view:
  assumes "inv s" and "fine f"
  shows "listing f s = Inr (map (the \<circ> av_pending (view s)) (sorted_list_of_set (dom (av_pending (view s)))))"
proof -
  obtain as where as: "listing f s = Inr as" using listing_fine [OF assms] by blast
  have l: "distinct as" "sorted (map pa_ActionID as)" "set as = ran (av_pending (view s))"
    using listing_law [OF assms as] by blast+
  have key: "av_pending (view s) k = Some a \<Longrightarrow> pa_ActionID a = k" for k a
    using view_ok [OF assms(1)] by (simp add: view_ok_def)
  have ids: "av_pending (view s) (pa_ActionID a) = Some a" if "a \<in> set as" for a
    using that l(3) key by (auto simp: ran_def)
  have "inj_on pa_ActionID (set as)" using ids by (metis inj_onI option.inject)
  then have d: "distinct (map pa_ActionID as)" using l(1) by (simp add: distinct_map)
  have "set (map pa_ActionID as) = dom (av_pending (view s))" using l(3) key ids by (force simp: ran_def dom_def)
  then have "map pa_ActionID as = sorted_list_of_set (dom (av_pending (view s)))"
    using l(2) d by (metis sorted_list_of_set.idem_if_sorted_distinct)
  moreover have "map (the \<circ> av_pending (view s)) (map pa_ActionID as) = as"
    using ids by (auto intro!: map_idI)
  ultimately show ?thesis using as by simp
qed

end

section \<open>Both stores keep the promise\<close>

definition mem_app_ok :: "app_memory \<Rightarrow> bool" where
  "mem_app_ok s \<longleftrightarrow> gm_ok (am_pending s) \<and>
     (\<forall>k a. gm_get (am_pending s) k = Some a \<longrightarrow> pa_ActionID a = k \<and> gm_get (am_applied s) k = None) \<and>
     (\<forall>k r. gm_get (am_applied s) k = Some r \<longrightarrow> ar_ActionID r = k)"

definition mem_app_view :: "app_memory \<Rightarrow> app_view" where
  "mem_app_view s = \<lparr>av_pending = gm_get (am_pending s), av_applied = gm_get (am_applied s)\<rparr>"

lemma gm_ran: "gm_ok m \<Longrightarrow> snd ` set m = ran (gm_get m)"
  by (force simp: ran_def gm_ok_get_iff)

lemma mem_view_ok: "mem_app_ok s \<Longrightarrow> view_ok (mem_app_view s)"
  by (simp add: view_ok_def mem_app_ok_def mem_app_view_def finite_dom_map_of)

lemma mem_save_ok: "mem_app_ok s \<Longrightarrow> mem_app_ok (snd (mem_SavePending f s a))"
  by (cases f; cases "gm_get (am_pending s) (pa_ActionID a)"; cases "gm_get (am_applied s) (pa_ActionID a)")
    (simp_all add: mem_SavePending_def mem_app_ok_def go_map_simps)

lemma mem_apply_ok: "mem_app_ok s \<Longrightarrow> mem_app_ok (snd (mem_ApplyPending f s k))"
  by (cases f; cases "gm_get (am_pending s) k"; cases "gm_get (am_applied s) k")
    (simp_all add: mem_ApplyPending_def mem_app_ok_def go_map_simps)

lemma mem_save_spec: "apsnd mem_app_view (mem_SavePending None s a) = save_spec a (mem_app_view s)"
  by (cases "gm_get (am_pending s) (pa_ActionID a)"; cases "gm_get (am_applied s) (pa_ActionID a)")
    (simp_all add: mem_SavePending_def save_spec_def mem_app_view_def go_map_simps fun_upd_def)

lemma mem_apply_spec: "apsnd mem_app_view (mem_ApplyPending None s k) = apply_spec k (mem_app_view s)"
  by (cases "gm_get (am_pending s) k"; cases "gm_get (am_applied s) k")
    (simp_all add: mem_ApplyPending_def apply_spec_def mem_app_view_def go_map_simps fun_upd_def)

lemma distinct_snd: "gm_ok m \<Longrightarrow> (\<And>k a. gm_get m k = Some a \<Longrightarrow> f a = k) \<Longrightarrow> distinct (map snd m)"
proof (induction m)
  case (Cons p m)
  obtain k a where p: "p = (k, a)" by force
  have m: "gm_ok m" "k \<notin> fst ` set m" using Cons.prems(1) p by (auto simp: gm_ok_def)
  have key: "f b = i" if "(i, b) \<in> set m" for i b
  proof -
    have "i \<noteq> k" using that m(2) by force
    then show ?thesis using Cons.prems(2) [of i b] that p gm_ok_get_iff [OF m(1), of i b] by simp
  qed
  have "a \<notin> snd ` set m" using key Cons.prems(2) [of k a] m(2) p by (auto simp: image_iff)
  moreover have "distinct (map snd m)" using Cons.IH [OF m(1)] key by (metis gm_ok_get_iff m(1))
  ultimately show ?case using p by simp
qed simp

interpretation mem_app: application_store mem_SavePending mem_ApplyPending mem_ListPending mem_ReadApplied mem_app_ok mem_app_view
  "\<lambda>f. f = None"
proof unfold_locales
  fix s f a k as
  assume ok: "mem_app_ok s"
  show "view_ok (mem_app_view s)" by (rule mem_view_ok [OF ok])
  show "mem_app_ok (snd (mem_SavePending f s a)) \<and>
      disturbed (f = None) (mem_app_view s) (save_spec a (mem_app_view s)) (apsnd mem_app_view (mem_SavePending f s a))"
    using mem_save_ok [OF ok] mem_save_spec [of s a] ok by (cases f) (simp_all add: disturbed_def, simp_all add: mem_SavePending_def)
  show "mem_app_ok (snd (mem_ApplyPending f s k)) \<and>
      disturbed (f = None) (mem_app_view s) (apply_spec k (mem_app_view s)) (apsnd mem_app_view (mem_ApplyPending f s k))"
    using mem_apply_ok [OF ok] mem_apply_spec [of s k] ok by (cases f) (simp_all add: disturbed_def, simp_all add: mem_ApplyPending_def)
  show "f = None \<Longrightarrow> \<exists>as. mem_ListPending f s = Inr as" by (simp add: mem_ListPending_def)
  show "f = None \<Longrightarrow> mem_ReadApplied f s k = Inr (av_applied (mem_app_view s) k)" by (simp add: mem_ReadApplied_def mem_app_view_def)
  show "distinct as \<and> sorted (map pa_ActionID as) \<and> set as = ran (av_pending (mem_app_view s))"
    if "f = None" "mem_ListPending f s = Inr as"
  proof -
    have as: "as = sort_key pa_ActionID (map snd (am_pending s))" using that by (simp add: mem_ListPending_def)
    have "distinct (map snd (am_pending s))" using distinct_snd [of "am_pending s" pa_ActionID] ok by (simp add: mem_app_ok_def)
    moreover have "snd ` set (am_pending s) = ran (gm_get (am_pending s))" by (rule gm_ran) (use ok in \<open>simp add: mem_app_ok_def\<close>)
    ultimately show ?thesis by (simp add: as mem_app_view_def)
  qed
qed

definition sql_app_ok :: "app_sqlite \<Rightarrow> bool" where
  "sql_app_ok s \<longleftrightarrow> distinct (map pa_ActionID (aq_pending s)) \<and>
     pa_ActionID ` set (aq_pending s) \<inter> ar_ActionID ` set (aq_applied s) = {}"

definition sql_app_view :: "app_sqlite \<Rightarrow> app_view" where
  "sql_app_view s = \<lparr>av_pending = readPending s, av_applied = readApplied s\<rparr>"

definition tx_fine :: "tx_env \<Rightarrow> bool" where
  "tx_fine env \<longleftrightarrow> te_ctx env = None \<and> te_begin env = None \<and> te_read1 env = None \<and> te_read2 env = None \<and>
     te_exec1 env = None \<and> te_exec2 env = None \<and> te_commit env = Commits"

lemma find_key_missing: "find (\<lambda>r. f r = k) xs = None \<longleftrightarrow> k \<notin> f ` set xs"
  by (auto simp: find_None_iff)

lemma find_key_Some: "find (\<lambda>r. f r = k) xs = Some x \<Longrightarrow> f x = k \<and> x \<in> set xs"
  by (auto simp: find_Some_iff)

lemma find_key_distinct: "distinct (map f xs) \<Longrightarrow> x \<in> set xs \<Longrightarrow> find (\<lambda>r. f r = f x) xs = Some x"
  by (induction xs) auto

lemma find_key_append: "find (\<lambda>r. f r = k) (xs @ [x]) =
    (case find (\<lambda>r. f r = k) xs of Some y \<Rightarrow> Some y | None \<Rightarrow> if f x = k then Some x else None)"
  by (induction xs) auto

lemma find_key_filter: "find (\<lambda>r. f r = k) (filter (\<lambda>r. f r \<noteq> i) xs) = (if k = i then None else find (\<lambda>r. f r = k) xs)"
  by (induction xs) auto

lemma sql_view_ok: "sql_app_ok s \<Longrightarrow> view_ok (sql_app_view s)"
proof -
  assume ok: "sql_app_ok s"
  have "dom (readPending s) \<subseteq> pa_ActionID ` set (aq_pending s)" by (auto simp: readPending_def dest!: find_key_Some)
  then have "finite (dom (readPending s))" by (rule finite_subset) simp
  then show ?thesis
    using ok by (auto simp: view_ok_def sql_app_view_def readPending_def readApplied_def sql_app_ok_def find_key_missing dest!: find_key_Some)
qed

lemma find_key_snoc:
  "find (\<lambda>r. f r = f x) xs = None \<Longrightarrow> (\<lambda>k. find (\<lambda>r. f r = k) (xs @ [x])) = (\<lambda>k. find (\<lambda>r. f r = k) xs)(f x \<mapsto> x)"
  by (auto simp: fun_eq_iff find_key_append split: option.split)

lemma sql_view_lookups:
  assumes "sql_app_ok s" and "readPending s (pa_ActionID a) = None" and "readApplied s (pa_ActionID a) = None"
  shows "sql_app_ok (s\<lparr>aq_pending := aq_pending s @ [a]\<rparr>) \<and>
    sql_app_view (s\<lparr>aq_pending := aq_pending s @ [a]\<rparr>) = (sql_app_view s)\<lparr>av_pending := (readPending s)(pa_ActionID a \<mapsto> a)\<rparr>"
proof
  show "sql_app_ok (s\<lparr>aq_pending := aq_pending s @ [a]\<rparr>)"
    using assms by (auto simp: sql_app_ok_def readPending_def readApplied_def find_key_missing)
  have "readPending (s\<lparr>aq_pending := aq_pending s @ [a]\<rparr>) = (readPending s)(pa_ActionID a \<mapsto> a)"
    using find_key_snoc [of pa_ActionID a "aq_pending s"] assms(2) by (simp add: readPending_def [abs_def])
  then show "sql_app_view (s\<lparr>aq_pending := aq_pending s @ [a]\<rparr>) = (sql_app_view s)\<lparr>av_pending := (readPending s)(pa_ActionID a \<mapsto> a)\<rparr>"
    by (simp add: sql_app_view_def readApplied_def [abs_def])
qed

lemma sql_view_moves:
  assumes "sql_app_ok s" and "readPending s k = Some a" and "readApplied s k = None"
  shows "let s' = s\<lparr>aq_applied := aq_applied s @ [AppliedRecord_of a], aq_pending := filter (\<lambda>r. pa_ActionID r \<noteq> k) (aq_pending s)\<rparr>
    in sql_app_ok s' \<and> sql_app_view s' =
      \<lparr>av_pending = (readPending s)(k := None), av_applied = (readApplied s)(k \<mapsto> AppliedRecord_of a)\<rparr>"
proof -
  let ?s = "s\<lparr>aq_applied := aq_applied s @ [AppliedRecord_of a], aq_pending := filter (\<lambda>r. pa_ActionID r \<noteq> k) (aq_pending s)\<rparr>"
  have k: "pa_ActionID a = k" using assms(2) by (auto simp: readPending_def dest: find_key_Some)
  have "sql_app_ok ?s" using assms k by (auto simp: sql_app_ok_def distinct_map_filter)
  moreover have "readApplied ?s = (readApplied s)(k \<mapsto> AppliedRecord_of a)"
    using find_key_snoc [of ar_ActionID "AppliedRecord_of a" "aq_applied s"] assms(3) k by (simp add: readApplied_def [abs_def])
  moreover have "readPending ?s = (readPending s)(k := None)"
    by (simp add: readPending_def [abs_def] find_key_filter fun_eq_iff)
  ultimately show ?thesis by (simp add: Let_def sql_app_view_def)
qed

text \<open>
  A statement that fails leaves the view as it was; a commit whose answer is lost leaves the specified one.
  \<open>obeys\<close> is the law of the interface for one answer.
\<close>

definition obeys :: "('s \<Rightarrow> bool) \<Rightarrow> ('s \<Rightarrow> app_view) \<Rightarrow> bool \<Rightarrow> 's \<Rightarrow> unit result \<times> app_view \<Rightarrow> unit result \<times> 's \<Rightarrow> bool" where
  "obeys ok vw fine s spec res \<longleftrightarrow> ok (snd res) \<and> disturbed fine (vw s) spec (apsnd vw res)"

lemma obeys_exact: "ok s' \<Longrightarrow> spec = (r, vw s') \<Longrightarrow> obeys ok vw fine s spec (r, s')"
  by (simp add: obeys_def disturbed_def)

lemma obeys_fails:
  assumes "ok s" and "fine \<longrightarrow> err = None" and "obeys ok vw fine s spec rest"
  shows "obeys ok vw fine s spec (tx_fails err rest s)"
  using assms by (cases err) (auto simp: tx_fails_def obeys_def disturbed_def)

lemma obeys_Commit:
  assumes "ok s" and "ok s'" and "fine \<longrightarrow> fate = Commits" and "spec = (Inr (), vw s')"
  shows "obeys ok vw fine s spec (tx_Commit fate s s')"
  using assms by (cases fate) (auto simp: tx_Commit_def obeys_def disturbed_def)

lemma sql_view_sel [simp]: "av_pending (sql_app_view s) = readPending s" "av_applied (sql_app_view s) = readApplied s"
  by (simp_all add: sql_app_view_def)

lemma sql_disjoint: "sql_app_ok s \<Longrightarrow> readPending s k = Some a \<Longrightarrow> readApplied s k = None"
  using sql_view_ok [of s] by (simp add: view_ok_def)

lemma sql_save_law:
  assumes ok: "sql_app_ok s"
  shows "obeys sql_app_ok sql_app_view (tx_fine f) s (save_spec a (sql_app_view s)) (sql_SavePending f s a)"
proof (cases "pa_ActionID a = []")
  case True
  then show ?thesis
    using ok by (auto simp: sql_SavePending_def tx_fine_def save_spec_def intro!: obeys_fails obeys_exact)
next
  case False
  have new: "sql_app_ok (s\<lparr>aq_pending := aq_pending s @ [a]\<rparr>)"
    "sql_app_view (s\<lparr>aq_pending := aq_pending s @ [a]\<rparr>) = (sql_app_view s)\<lparr>av_pending := (readPending s)(pa_ActionID a \<mapsto> a)\<rparr>"
    if "readPending s (pa_ActionID a) = None" "readApplied s (pa_ActionID a) = None"
    using sql_view_lookups [OF ok that] by blast+
  show ?thesis
    using ok False new sql_disjoint [OF ok]
    by (auto simp: sql_SavePending_def tx_fine_def save_spec_def split: option.split
        intro!: obeys_fails obeys_exact obeys_Commit)
qed

lemma sql_apply_law:
  assumes ok: "sql_app_ok s"
  shows "obeys sql_app_ok sql_app_view (tx_fine f) s (apply_spec k (sql_app_view s)) (sql_ApplyPending f s k)"
proof -
  let ?s = "\<lambda>a. s\<lparr>aq_applied := aq_applied s @ [AppliedRecord_of a], aq_pending := filter (\<lambda>r. pa_ActionID r \<noteq> k) (aq_pending s)\<rparr>"
  have new: "sql_app_ok (?s a)"
    "sql_app_view (?s a) = \<lparr>av_pending = (readPending s)(k := None), av_applied = (readApplied s)(k \<mapsto> AppliedRecord_of a)\<rparr>"
    if "readPending s k = Some a" "readApplied s k = None" for a
    using sql_view_moves [OF ok that] by (auto simp: Let_def)
  have upd: "(sql_app_view s)\<lparr>av_applied := x, av_pending := y\<rparr> = \<lparr>av_pending = y, av_applied = x\<rparr>" for x y
    by (simp add: sql_app_view_def)
  show ?thesis
    using ok new
    by (auto simp: sql_ApplyPending_def tx_fine_def apply_spec_def upd split: option.split
        intro!: obeys_fails obeys_exact obeys_Commit)
qed

interpretation sql_app: application_store sql_SavePending sql_ApplyPending sql_ListPending sql_ReadApplied sql_app_ok sql_app_view tx_fine
proof unfold_locales
  fix s f a k as
  assume ok: "sql_app_ok s"
  show "view_ok (sql_app_view s)" by (rule sql_view_ok [OF ok])
  show "sql_app_ok (snd (sql_SavePending f s a)) \<and>
      disturbed (tx_fine f) (sql_app_view s) (save_spec a (sql_app_view s)) (apsnd sql_app_view (sql_SavePending f s a))"
    using sql_save_law [OF ok] by (simp add: obeys_def)
  show "sql_app_ok (snd (sql_ApplyPending f s k)) \<and>
      disturbed (tx_fine f) (sql_app_view s) (apply_spec k (sql_app_view s)) (apsnd sql_app_view (sql_ApplyPending f s k))"
    using sql_apply_law [OF ok] by (simp add: obeys_def)
  show "tx_fine f \<Longrightarrow> \<exists>as. sql_ListPending f s = Inr as" by (simp add: sql_ListPending_def tx_fine_def)
  show "tx_fine f \<Longrightarrow> sql_ReadApplied f s k = Inr (av_applied (sql_app_view s) k)" by (simp add: sql_ReadApplied_def tx_fine_def)
  show "distinct as \<and> sorted (map pa_ActionID as) \<and> set as = ran (av_pending (sql_app_view s))"
    if "tx_fine f" "sql_ListPending f s = Inr as"
  proof -
    have as: "as = sort_key pa_ActionID (aq_pending s)" using that by (simp add: sql_ListPending_def tx_fine_def)
    have d: "distinct (map pa_ActionID (aq_pending s))" using ok by (simp add: sql_app_ok_def)
    have "set (aq_pending s) = ran (readPending s)"
      using find_key_distinct [OF d] by (auto simp: ran_def readPending_def dest: find_key_Some)
    then show ?thesis using d by (simp add: as distinct_map)
  qed
qed

section \<open>Properties\<close>

definition calm_tx :: tx_env where
  "calm_tx = \<lparr>te_ctx = None, te_begin = None, te_read1 = None, te_read2 = None, te_exec1 = None, te_exec2 = None, te_commit = Commits\<rparr>"

lemma calm_tx_fine [simp]: "tx_fine calm_tx"
  by (simp add: calm_tx_def tx_fine_def)

lemma empty_stores [simp]:
  "sql_app_ok OpenSQLiteApplicationStore_empty" "sql_app_view OpenSQLiteApplicationStore_empty = empty_view"
  "mem_app_ok NewMemoryApplicationStore" "mem_app_view NewMemoryApplicationStore = empty_view"
  by (auto simp: OpenSQLiteApplicationStore_empty_def sql_app_ok_def sql_app_view_def empty_view_def readPending_def readApplied_def
      NewMemoryApplicationStore_def mem_app_ok_def mem_app_view_def)

abbreviation sql_app_run :: "tx_env app_op list \<Rightarrow> app_sqlite \<Rightarrow> app_sqlite" where
  "sql_app_run \<equiv> app_run sql_SavePending sql_ApplyPending"

text \<open>
  C37. An action is applied exactly once. On the SQLite store, through any sequence of saves and applies in which any
  statement may fail and any commit may lose its answer: once an ID has a receipt, the receipt never
  changes, it is the payload of a save that was really made, and a different payload under that ID is
  refused from then on.
\<close>

theorem receipt_exactly_once:
  assumes "sql_ReadApplied calm_tx (sql_app_run ops OpenSQLiteApplicationStore_empty) k = Inr (Some r)"
  shows "sql_ReadApplied calm_tx (sql_app_run (ops @ ops') OpenSQLiteApplicationStore_empty) k = Inr (Some r) \<and>
    (\<exists>g a. AppSave g a \<in> set ops \<and> AppliedRecord_of a = r \<and> pa_ActionID a = k) \<and>
    (\<forall>g b. pa_ActionID b = k \<and> AppliedRecord_of b \<noteq> r \<longrightarrow>
       isl (fst (sql_SavePending g (sql_app_run (ops @ ops') OpenSQLiteApplicationStore_empty) b)))"
  by (rule sql_app.exactly_once [OF _ _ _ assms]) simp_all

text \<open>
  A confirmed action is never lost. After a save of the SQLite store was confirmed, and whatever happens then, one
  undisturbed apply succeeds and leaves the receipt of exactly that action.
\<close>

theorem confirmed_action_applied:
  assumes "sql_SavePending g (sql_app_run ops OpenSQLiteApplicationStore_empty) a = (Inr (), s)"
  shows "fst (sql_ApplyPending calm_tx (sql_app_run ops' s) (pa_ActionID a)) = Inr () \<and>
    sql_ReadApplied calm_tx (snd (sql_ApplyPending calm_tx (sql_app_run ops' s) (pa_ActionID a))) (pa_ActionID a) =
      Inr (Some (AppliedRecord_of a))"
  using sql_app.confirmed_applied [OF sql_app.run_inv assms, of calm_tx ops'] by (simp add: Let_def)

text \<open>A sequence of operations in which every operation meets the same environment.\<close>

definition all_in :: "'f \<Rightarrow> unit app_op list \<Rightarrow> 'f app_op list" where
  "all_in f ops = map (map_app_op (\<lambda>_. f)) ops"

lemma op_spec_map: "op_spec (map_app_op h op) = op_spec op"
  by (cases op) (simp_all add: fun_eq_iff)

lemma op_fate_map: "op_fate (map_app_op h op) = h (op_fate op)"
  by (cases op) simp_all

lemma all_in_fate: "op \<in> set (all_in f ops) \<Longrightarrow> op_fate op = f"
  by (auto simp: all_in_def op_fate_map)

lemma all_in_spec:
  "spec_answers (all_in f ops) v = spec_answers ops v"
  "fold (\<lambda>op v. snd (op_spec op v)) (all_in f ops) v = fold (\<lambda>op v. snd (op_spec op v)) ops v"
  unfolding all_in_def by (induction ops arbitrary: v) (simp_all add: op_spec_map)

text \<open>
  The durable store and the one in memory cannot be told apart: for every sequence of saves and applies that is
  not disturbed, every answer, the listing of pending actions and every receipt agree.
\<close>

theorem application_stores_agree:
  "app_answers sql_SavePending sql_ApplyPending (all_in calm_tx ops) OpenSQLiteApplicationStore_empty =
      app_answers mem_SavePending mem_ApplyPending (all_in None ops) NewMemoryApplicationStore \<and>
    sql_ListPending calm_tx (sql_app_run (all_in calm_tx ops) OpenSQLiteApplicationStore_empty) =
      mem_ListPending None (app_run mem_SavePending mem_ApplyPending (all_in None ops) NewMemoryApplicationStore) \<and>
    sql_ReadApplied calm_tx (sql_app_run (all_in calm_tx ops) OpenSQLiteApplicationStore_empty) k =
      mem_ReadApplied None (app_run mem_SavePending mem_ApplyPending (all_in None ops) NewMemoryApplicationStore) k"
proof -
  let ?s = "sql_app_run (all_in calm_tx ops) OpenSQLiteApplicationStore_empty"
  let ?m = "app_run mem_SavePending mem_ApplyPending (all_in None ops) NewMemoryApplicationStore"
  have "\<forall>op \<in> set (all_in calm_tx ops). tx_fine (op_fate op)" "\<forall>op \<in> set (all_in (None :: go_error option) ops). op_fate op = None"
    using all_in_fate calm_tx_fine by metis+
  then have s: "app_answers sql_SavePending sql_ApplyPending (all_in calm_tx ops) OpenSQLiteApplicationStore_empty = spec_answers ops empty_view"
      "sql_app_view ?s = fold (\<lambda>op v. snd (op_spec op v)) ops empty_view"
    and m: "app_answers mem_SavePending mem_ApplyPending (all_in None ops) NewMemoryApplicationStore = spec_answers ops empty_view"
      "mem_app_view ?m = fold (\<lambda>op v. snd (op_spec op v)) ops empty_view"
    using sql_app.undisturbed_run [of OpenSQLiteApplicationStore_empty "all_in calm_tx ops"]
      mem_app.undisturbed_run [of NewMemoryApplicationStore "all_in None ops"] by (simp_all add: all_in_spec)
  have i: "sql_app_ok ?s" "mem_app_ok ?m" by (simp_all add: sql_app.run_inv mem_app.run_inv)
  show ?thesis
    using s m sql_app.listing_view [OF i(1)] mem_app.listing_view [OF i(2)] sql_app.receipt_law [OF i(1)] mem_app.receipt_law [OF i(2)]
    by simp
qed

section \<open>Witnesses\<close>

definition demo_action :: pendingAction where
  "demo_action = \<lparr>pa_ActionID = ''a1'', pa_DeviceKey = ''d'', pa_State = ''on'', pa_TraceID = []\<rparr>"

definition demo_lost :: tx_env where
  "demo_lost = calm_tx\<lparr>te_commit := CommitLost (Sentinel SimWriteFailure)\<rparr>"

theorem receipt_exactly_once_witness:
  "isl (fst (sql_SavePending calm_tx
     (sql_app_run ([AppSave demo_lost demo_action, AppApply demo_lost ''a1''] @ [AppApply calm_tx ''a1'']) OpenSQLiteApplicationStore_empty)
     (demo_action\<lparr>pa_State := ''off''\<rparr>)))"
proof -
  have "sql_ReadApplied calm_tx (sql_app_run [AppSave demo_lost demo_action, AppApply demo_lost ''a1''] OpenSQLiteApplicationStore_empty) ''a1'' =
      Inr (Some (AppliedRecord_of demo_action))"
    by code_simp
  from receipt_exactly_once [OF this, of "[AppApply calm_tx ''a1'']"] show ?thesis
    by (simp add: demo_action_def)
qed

theorem confirmed_action_applied_witness:
  "sql_ReadApplied calm_tx (snd (sql_ApplyPending calm_tx (sql_app_run [AppApply demo_lost ''a1'']
     (snd (sql_SavePending calm_tx OpenSQLiteApplicationStore_empty demo_action))) ''a1'')) ''a1'' = Inr (Some (AppliedRecord_of demo_action))"
proof -
  have "sql_SavePending calm_tx (sql_app_run [] OpenSQLiteApplicationStore_empty) demo_action =
      (Inr (), snd (sql_SavePending calm_tx OpenSQLiteApplicationStore_empty demo_action))"
    by code_simp
  from confirmed_action_applied [OF this, of "[AppApply demo_lost ''a1'']"] show ?thesis
    by (simp add: demo_action_def)
qed

end
