(* ===== verification/Gor_App.thy ===== *)
theory Gor_App
  imports Gor_App_Store Gor_State Gor_Context
begin

text \<open>
  The Grains of the example (\<open>examples/shadow/domain/domain.go\<close>, \<open>recovery.go\<close>) and its HTTP handlers
  (\<open>http.go\<close>). An operation works on the \<open>Binder\<close> of its activation and on a world that holds the stores;
  a call of another Grain is a parameter that may change the world. The JSON codecs of the state types are
  parameters. The types are installed before any Grain runs, so \<open>Ref\<close> does not panic.
\<close>

section \<open>Device\<close>

record shadow_value =
  sh_ReportedState :: string
  sh_ReportedAt :: gtime
  sh_Online :: bool
  sh_WorkshopID :: string
  sh_Configuration :: string

definition zero_shadow :: shadow_value where
  "zero_shadow = \<lparr>sh_ReportedState = [], sh_ReportedAt = 0, sh_Online = False, sh_WorkshopID = [], sh_Configuration = []\<rparr>"

definition OfflineAfter :: duration where "OfflineAfter = 30 * nanosPerSecond"

definition ErrWorkshopIDRequired :: code where "ErrWorkshopIDRequired = ''shadow.workshop_id_required''"

text \<open>What a device asks of a workshop, by the key of the workshop and its own.\<close>

datatype workshop_call = DeviceOnline | DeviceOffline

type_synonym 'w workshop_ref = "'w \<Rightarrow> workshop_call \<Rightarrow> string \<Rightarrow> string \<Rightarrow> go_error option \<times> 'w"

type_synonym 'w reminder_put = "'w \<Rightarrow> reminder \<Rightarrow> unit result \<times> 'w"

definition newDevice :: "shadow_value codec \<Rightarrow> grain_id \<Rightarrow> shadow_value grain_binder" where
  "newDevice cd i = projr (NewState ''shadow'' cd (newBinder i))"

definition device_key :: "shadow_value grain_binder \<Rightarrow> string" where
  "device_key b = GrainKey (binder_Self b)"

definition device_shadow :: "shadow_value grain_binder \<Rightarrow> shadow_value" where
  "device_shadow b = the (State_Get b ''shadow'')"

text \<open>The two calls at the end of \<open>Report\<close>.\<close>

definition report_calls ::
    "'w workshop_ref \<Rightarrow> shadow_value \<Rightarrow> string \<Rightarrow> string \<Rightarrow> 'w \<Rightarrow> go_error option \<times> 'w" where
  "report_calls ref previous workshopID key w =
     (case (if sh_Online previous \<and> sh_WorkshopID previous \<noteq> workshopID
            then ref w DeviceOffline (sh_WorkshopID previous) key else (None, w)) of
        (Some e, w1) \<Rightarrow> (Some e, w1)
      | (None, w1) \<Rightarrow>
          if \<not> sh_Online previous \<or> sh_WorkshopID previous \<noteq> workshopID
          then ref w1 DeviceOnline workshopID key else (None, w1))"

definition device_Report ::
    "'w store_write \<Rightarrow> shadow_value codec \<Rightarrow> 'w reminder_put option \<Rightarrow> 'w workshop_ref \<Rightarrow> gtime \<Rightarrow> string \<Rightarrow> string \<Rightarrow>
     shadow_value grain_binder \<Rightarrow> 'w \<Rightarrow> go_error option \<times> shadow_value grain_binder \<times> 'w" where
  "device_Report wr cd put ref now workshopID state b w =
     (if workshopID = [] then (Some (CodeErr ErrWorkshopIDRequired), b, w)
      else
        (let previous = device_shadow b;
             nxt = previous\<lparr>sh_ReportedState := state, sh_ReportedAt := now, sh_Online := True, sh_WorkshopID := workshopID\<rparr>
         in case State_Set wr cd ''shadow'' nxt b w of
              (Some e, b1, w1) \<Rightarrow> (Some e, b1, w1)
            | (None, b1, w1) \<Rightarrow>
                (case Reminder_Set put now (binder_Self b1) ''offline'' (After OfflineAfter) (Handle ''domain.Device.MarkOffline'') w1 of
                   (Some e, w2) \<Rightarrow> (Some e, b1, w2)
                 | (None, w2) \<Rightarrow>
                     (case report_calls ref previous workshopID (device_key b1) w2 of (err, w3) \<Rightarrow> (err, b1, w3)))))"

text \<open>\<open>%T\<close> of a value.\<close>

fun kind_suffix :: "int_kind \<Rightarrow> string" where
  "kind_suffix K_int = []" | "kind_suffix K_8 = ''8''" | "kind_suffix K_16 = ''16''" | "kind_suffix K_32 = ''32''" | "kind_suffix K_64 = ''64''"

fun any_type_name :: "any \<Rightarrow> string" where
  "any_type_name AnyNil = ''<nil>''"
| "any_type_name (AnyBool _) = ''bool''"
| "any_type_name (AnyString _) = ''string''"
| "any_type_name (AnyInt k _) = ''int'' @ kind_suffix k"
| "any_type_name (AnyUint k _) = ''uint'' @ kind_suffix k"
| "any_type_name (AnyFloat32 _) = ''float32''"
| "any_type_name (AnyFloat64 _) = ''float64''"
| "any_type_name (AnyOther n) = n"

definition traceIDFromContext :: "snapshot option \<Rightarrow> string result" where
  "traceIDFromContext ctx =
     (case RequestContextValue ctx ''trace_id'' of
        None \<Rightarrow> Inr []
      | Some v \<Rightarrow> (case v of AnyString traceID \<Rightarrow> Inr traceID
                   | _ \<Rightarrow> Inl (NewErr (''trace_id has type '' @ any_type_name v @ '', want string''))))"

text \<open>\<open>application\<close> is the \<open>SavePending\<close> of the application store, \<open>None\<close> when none is configured.\<close>

definition device_ReportAction ::
    "'w store_write \<Rightarrow> shadow_value codec \<Rightarrow> ('w \<Rightarrow> pendingAction \<Rightarrow> unit result \<times> 'w) option \<Rightarrow> snapshot option \<Rightarrow> gtime \<Rightarrow> string \<Rightarrow> string \<Rightarrow>
     shadow_value grain_binder \<Rightarrow> 'w \<Rightarrow> go_error option \<times> shadow_value grain_binder \<times> 'w" where
  "device_ReportAction wr cd application ctx now actionID state b w =
     (case application of
        None \<Rightarrow> (Some (NewErr ''application store is not configured''), b, w)
      | Some save \<Rightarrow>
          if actionID = [] then (Some (NewErr ''application action ID is empty''), b, w)
          else (case traceIDFromContext ctx of
                  Inl e \<Rightarrow> (Some e, b, w)
                | Inr traceID \<Rightarrow>
                    (case save w \<lparr>pa_ActionID = actionID, pa_DeviceKey = device_key b, pa_State = state, pa_TraceID = traceID\<rparr> of
                       (Inl e, w1) \<Rightarrow> (Some e, b, w1)
                     | (Inr _, w1) \<Rightarrow>
                         State_Set wr cd ''shadow''
                           ((device_shadow b)\<lparr>sh_ReportedState := state, sh_ReportedAt := now, sh_Online := True\<rparr>) b w1)))"

definition device_Configure ::
    "'w store_write \<Rightarrow> shadow_value codec \<Rightarrow> string \<Rightarrow> shadow_value grain_binder \<Rightarrow> 'w \<Rightarrow> go_error option \<times> shadow_value grain_binder \<times> 'w" where
  "device_Configure wr cd configuration b w = State_Set wr cd ''shadow'' ((device_shadow b)\<lparr>sh_Configuration := configuration\<rparr>) b w"

definition device_Shadow :: "shadow_value grain_binder \<Rightarrow> shadow_value" where
  "device_Shadow b = device_shadow b"

definition device_ShadowExists :: "shadow_value grain_binder \<Rightarrow> bool" where
  "device_ShadowExists b = the (State_Exists b ''shadow'')"

definition device_ClearShadow ::
    "'w store_write \<Rightarrow> shadow_value codec \<Rightarrow> shadow_value grain_binder \<Rightarrow> 'w \<Rightarrow> go_error option \<times> shadow_value grain_binder \<times> 'w" where
  "device_ClearShadow wr cd b w = State_Clear wr cd ''shadow'' b w"

definition device_ApplyPending ::
    "('w \<Rightarrow> string \<Rightarrow> unit result \<times> 'w) option \<Rightarrow> string \<Rightarrow> 'w \<Rightarrow> go_error option \<times> 'w" where
  "device_ApplyPending application actionID w =
     (case application of
        None \<Rightarrow> (Some (NewErr ''application store is not configured''), w)
      | Some apply1 \<Rightarrow> (case apply1 w actionID of (Inl e, w1) \<Rightarrow> (Some e, w1) | (Inr _, w1) \<Rightarrow> (None, w1)))"

definition device_MarkOffline ::
    "'w store_write \<Rightarrow> shadow_value codec \<Rightarrow> 'w workshop_ref \<Rightarrow> shadow_value grain_binder \<Rightarrow> 'w \<Rightarrow>
     go_error option \<times> shadow_value grain_binder \<times> 'w" where
  "device_MarkOffline wr cd ref b w =
     (let shadow = (device_shadow b)\<lparr>sh_Online := False\<rparr>
      in case State_Set wr cd ''shadow'' shadow b w of
           (Some e, b1, w1) \<Rightarrow> (Some e, b1, w1)
         | (None, b1, w1) \<Rightarrow>
             (case ref w1 DeviceOffline (sh_WorkshopID shadow) (device_key b1) of (err, w2) \<Rightarrow> (err, b1, w2)))"

text \<open>Lifecycle events go to a channel, when there is one.\<close>

datatype lifecycle_kind = LifecycleActivated | LifecycleDeactivated

definition emitLifecycle :: "bool \<Rightarrow> grain_id \<Rightarrow> lifecycle_kind \<Rightarrow> (grain_id \<times> lifecycle_kind) list \<Rightarrow> (grain_id \<times> lifecycle_kind) list" where
  "emitLifecycle has_channel i kind events = (if has_channel then events @ [(i, kind)] else events)"

definition device_OnActivate :: "bool \<Rightarrow> grain_id \<Rightarrow> (grain_id \<times> lifecycle_kind) list \<Rightarrow> go_error option \<times> (grain_id \<times> lifecycle_kind) list" where
  "device_OnActivate has_channel i events = (None, emitLifecycle has_channel i LifecycleActivated events)"

definition device_OnDeactivate :: "bool \<Rightarrow> grain_id \<Rightarrow> (grain_id \<times> lifecycle_kind) list \<Rightarrow> go_error option \<times> (grain_id \<times> lifecycle_kind) list" where
  "device_OnDeactivate has_channel i events = (None, emitLifecycle has_channel i LifecycleDeactivated events)"

section \<open>Workshop\<close>

text \<open>
  The state is a Go map, \<open>None\<close> for nil, with the keys as a list without repetition. \<open>Get\<close> returns the map itself, so
  an insertion or deletion changes the value in the cell before it is written.
\<close>

type_synonym online_set = "string list option"

definition workshop_online :: "online_set grain_binder \<Rightarrow> online_set" where
  "workshop_online b = the (State_Get b ''online'')"

definition workshop_DeviceOnline ::
    "'w store_write \<Rightarrow> online_set codec \<Rightarrow> string \<Rightarrow> online_set grain_binder \<Rightarrow> 'w \<Rightarrow> go_error option \<times> online_set grain_binder \<times> 'w" where
  "workshop_DeviceOnline wr cd deviceID b w =
     (case workshop_online b of
        None \<Rightarrow> State_Set wr cd ''online'' (Some [deviceID]) b w
      | Some online \<Rightarrow>
          State_Set wr cd ''online'' (Some (List.insert deviceID online))
            (set_cell ''online'' (\<lambda>c. c\<lparr>c_value := Some (List.insert deviceID online)\<rparr>) b) w)"

definition workshop_DeviceOffline ::
    "'w store_write \<Rightarrow> online_set codec \<Rightarrow> string \<Rightarrow> online_set grain_binder \<Rightarrow> 'w \<Rightarrow> go_error option \<times> online_set grain_binder \<times> 'w" where
  "workshop_DeviceOffline wr cd deviceID b w =
     (let online = map_option (removeAll deviceID) (workshop_online b)
      in State_Set wr cd ''online'' online (set_cell ''online'' (\<lambda>c. c\<lparr>c_value := online\<rparr>) b) w)"

definition workshop_OnlineCount :: "online_set grain_binder \<Rightarrow> nat" where
  "workshop_OnlineCount b = (case workshop_online b of None \<Rightarrow> 0 | Some online \<Rightarrow> length online)"

definition newWorkshop :: "online_set codec \<Rightarrow> grain_id \<Rightarrow> online_set grain_binder" where
  "newWorkshop cd i = projr (NewState ''online'' cd (newBinder i))"

section \<open>Recovery\<close>

definition RecoveryInterval :: duration where "RecoveryInterval = nanosPerSecond"

record coordinator_state =
  cs_Running :: bool

definition newRecoveryCoordinator :: "coordinator_state codec \<Rightarrow> grain_id \<Rightarrow> coordinator_state grain_binder" where
  "newRecoveryCoordinator cd i = projr (NewState ''running'' cd (newBinder i))"

definition coordinator_running :: "coordinator_state grain_binder \<Rightarrow> bool" where
  "coordinator_running b \<longleftrightarrow> the (State_Exists b ''running'') \<and> cs_Running (the (State_Get b ''running''))"

definition coordinator_Start ::
    "'w store_write \<Rightarrow> coordinator_state codec \<Rightarrow> 'w reminder_put option \<Rightarrow> gtime \<Rightarrow>
     coordinator_state grain_binder \<Rightarrow> 'w \<Rightarrow> go_error option \<times> coordinator_state grain_binder \<times> 'w" where
  "coordinator_Start wr cd put now b w =
     (if coordinator_running b then (None, b, w)
      else (case Reminder_Set put now (binder_Self b) ''recovery'' (Every RecoveryInterval) (Handle ''domain.RecoveryCoordinator.Recover'') w of
              (Some e, w1) \<Rightarrow> (Some e, b, w1)
            | (None, w1) \<Rightarrow> State_Set wr cd ''running'' \<lparr>cs_Running = True\<rparr> b w1))"

definition coordinator_Stop ::
    "'w store_write \<Rightarrow> coordinator_state codec \<Rightarrow> ('w \<Rightarrow> grain_id \<Rightarrow> string \<Rightarrow> unit result \<times> 'w) option \<Rightarrow>
     coordinator_state grain_binder \<Rightarrow> 'w \<Rightarrow> go_error option \<times> coordinator_state grain_binder \<times> 'w" where
  "coordinator_Stop wr cd del b w =
     (case State_Clear wr cd ''running'' b w of
        (Some e, b1, w1) \<Rightarrow> (Some e, b1, w1)
      | (None, b1, w1) \<Rightarrow> (case Reminder_Cancel del (binder_Self b1) ''recovery'' w1 of (err, w2) \<Rightarrow> (err, b1, w2)))"

text \<open>The loop of \<open>Recover\<close>; \<open>ref\<close> is the call of \<open>ApplyPending\<close> on the device with the given key.\<close>

fun recover_actions ::
    "('w \<Rightarrow> string \<Rightarrow> string \<Rightarrow> go_error option \<times> 'w) \<Rightarrow> pendingAction list \<Rightarrow> 'w \<Rightarrow> go_error option \<times> 'w" where
  "recover_actions ref [] w = (None, w)"
| "recover_actions ref (action # actions) w =
     (case ref w (pa_DeviceKey action) (pa_ActionID action) of
        (Some e, w1) \<Rightarrow> (Some e, w1)
      | (None, w1) \<Rightarrow> recover_actions ref actions w1)"

definition recovery_observation :: "bool \<Rightarrow> snapshot option \<Rightarrow> any option option" where
  "recovery_observation observed ctx = (if observed then Some (RequestContextValue ctx ''trace_id'') else None)"

definition coordinator_Recover ::
    "('w \<Rightarrow> pendingAction list result) option \<Rightarrow> ('w \<Rightarrow> string \<Rightarrow> string \<Rightarrow> go_error option \<times> 'w) \<Rightarrow> 'w \<Rightarrow> go_error option \<times> 'w" where
  "coordinator_Recover application ref w =
     (case application of
        None \<Rightarrow> (Some (NewErr ''application store is not configured''), w)
      | Some listing \<Rightarrow> (case listing w of Inl e \<Rightarrow> (Some e, w) | Inr actions \<Rightarrow> recover_actions ref actions w))"

section \<open>HTTP handlers\<close>

text \<open>
  A response is its status and its body, \<open>None\<close> for no body; \<open>decoded\<close> is the result of decoding the request and
  \<open>encode\<close> is \<open>json.Marshal\<close> on the response structs.
\<close>

definition statusForError :: "go_error \<Rightarrow> nat" where
  "statusForError e = (if errors_Is e (TCode ErrWorkshopIDRequired) then 400 else 500)"

text \<open>\<open>writeJSON\<close>: the body ends with a newline; a value that cannot be encoded is an internal error.\<close>

definition writeJSON :: "nat \<Rightarrow> string result \<Rightarrow> nat \<times> string option" where
  "writeJSON status encoded =
     (case encoded of Inl _ \<Rightarrow> (500, Some (''internal server error'' @ [CHR 0x0A])) | Inr data \<Rightarrow> (status, Some (data @ [CHR 0x0A])))"

definition http_writeError :: "(string \<Rightarrow> string result) \<Rightarrow> nat \<Rightarrow> go_error \<Rightarrow> nat \<times> string option" where
  "http_writeError encode status e = writeJSON status (encode (error_text e))"

definition http_report ::
    "(string \<Rightarrow> string result) \<Rightarrow> (string \<times> string) result \<Rightarrow> (string \<Rightarrow> string \<Rightarrow> go_error option) \<Rightarrow> nat \<times> string option" where
  "http_report encode decoded report =
     (case decoded of
        Inl e \<Rightarrow> http_writeError encode 400 (Wrap (''decode request JSON: '' @ error_text e) e)
      | Inr (workshopID, state) \<Rightarrow>
          (case report workshopID state of
             Some e \<Rightarrow> http_writeError encode (statusForError e) e
           | None \<Rightarrow> (204, None)))"

definition http_configure ::
    "(string \<Rightarrow> string result) \<Rightarrow> string result \<Rightarrow> (string \<Rightarrow> go_error option) \<Rightarrow> nat \<times> string option" where
  "http_configure encode decoded configure =
     (case decoded of
        Inl e \<Rightarrow> http_writeError encode 400 (Wrap (''decode request JSON: '' @ error_text e) e)
      | Inr configuration \<Rightarrow>
          (case configure configuration of Some e \<Rightarrow> http_writeError encode 500 e | None \<Rightarrow> (204, None)))"

definition http_shadow ::
    "(string \<Rightarrow> string result) \<Rightarrow> (shadow_value \<Rightarrow> string result) \<Rightarrow> shadow_value result \<Rightarrow> nat \<times> string option" where
  "http_shadow encode encode_shadow answer =
     (case answer of Inl e \<Rightarrow> http_writeError encode 500 e | Inr v \<Rightarrow> writeJSON 200 (encode_shadow v))"

definition http_onlineCount ::
    "(string \<Rightarrow> string result) \<Rightarrow> (nat \<Rightarrow> string result) \<Rightarrow> nat result \<Rightarrow> nat \<times> string option" where
  "http_onlineCount encode encode_count answer =
     (case answer of Inl e \<Rightarrow> http_writeError encode 500 e | Inr v \<Rightarrow> writeJSON 200 (encode_count v))"

end
