(* ===== verification/Gor_App_Recovery.thy ===== *)
theory Gor_App_Recovery
  imports Gor_App
begin

text \<open>
  Recovery of pending actions: rounds of \<open>Recover\<close> over an application store, in which listings fail, calls to
  devices do not arrive, run into failing statements, or lose their answer. The lemmas are proved once
  for every application store.
\<close>

section \<open>Calls to devices\<close>

datatype 'f device_fate = DeviceRuns 'f | DeviceUnreached go_error | DeviceAnswerLost 'f go_error

text \<open>
  The reference to a device in a round: the world is the list of fates still to come and the store; a call past the
  end of the list meets the environment \<open>calm\<close>.
\<close>

fun device_ref ::
    "('f \<Rightarrow> 's \<Rightarrow> string \<Rightarrow> unit result \<times> 's) \<Rightarrow> 'f \<Rightarrow> 'f device_fate list \<times> 's \<Rightarrow> string \<Rightarrow> string \<Rightarrow>
     go_error option \<times> 'f device_fate list \<times> 's" where
  "device_ref apply1 calm ([], s) key k = (case device_ApplyPending (Some (apply1 calm)) k s of (e, s') \<Rightarrow> (e, [], s'))"
| "device_ref apply1 calm (DeviceRuns f # fs, s) key k = (case device_ApplyPending (Some (apply1 f)) k s of (e, s') \<Rightarrow> (e, fs, s'))"
| "device_ref apply1 calm (DeviceUnreached e # fs, s) key k = (Some e, fs, s)"
| "device_ref apply1 calm (DeviceAnswerLost f e # fs, s) key k = (Some e, fs, snd (device_ApplyPending (Some (apply1 f)) k s))"

definition recovery_round ::
    "('f \<Rightarrow> 's \<Rightarrow> pendingAction list result) \<Rightarrow> ('f \<Rightarrow> 's \<Rightarrow> string \<Rightarrow> unit result \<times> 's) \<Rightarrow> 'f \<Rightarrow> 'f \<Rightarrow> 'f device_fate list \<Rightarrow> 's \<Rightarrow>
     go_error option \<times> 's" where
  "recovery_round listing apply1 calm f fates s =
     (case coordinator_Recover (Some (\<lambda>w. listing f (snd w))) (device_ref apply1 calm) (fates, s) of (err, _, s') \<Rightarrow> (err, s'))"

datatype 'f recovery_event = Saves 'f pendingAction | Recovers 'f "'f device_fate list"

fun recovery_exec ::
    "('f \<Rightarrow> 's \<Rightarrow> pendingAction \<Rightarrow> unit result \<times> 's) \<Rightarrow> ('f \<Rightarrow> 's \<Rightarrow> string \<Rightarrow> unit result \<times> 's) \<Rightarrow>
     ('f \<Rightarrow> 's \<Rightarrow> pendingAction list result) \<Rightarrow> 'f \<Rightarrow> 'f recovery_event \<Rightarrow> 's \<Rightarrow> 's" where
  "recovery_exec save apply1 listing calm (Saves f a) s = snd (save f s a)"
| "recovery_exec save apply1 listing calm (Recovers f fates) s = snd (recovery_round listing apply1 calm f fates s)"

section \<open>A round applies actions and does nothing else\<close>

lemma device_ApplyPending_some: "device_ApplyPending (Some g) k s = (case g s k of (r, s') \<Rightarrow> (case r of Inl e \<Rightarrow> Some e | Inr _ \<Rightarrow> None, s'))"
  by (cases "g s k") (auto simp: device_ApplyPending_def split: sum.split)

lemma device_ref_run:
  "\<exists>ops. snd (snd (device_ref apply1 calm (fs, s) key k)) = app_run save apply1 ops s"
proof (cases fs)
  case Nil
  then show ?thesis
    by (intro exI [of _ "[AppApply calm k]"]) (simp add: app_run_def device_ApplyPending_some split: prod.split)
next
  case (Cons fate rest)
  show ?thesis
  proof (cases fate)
    case (DeviceRuns f)
    then show ?thesis using Cons
      by (intro exI [of _ "[AppApply f k]"]) (simp add: app_run_def device_ApplyPending_some split: prod.split)
  next
    case (DeviceUnreached e)
    then show ?thesis using Cons by (intro exI [of _ "[]"]) (simp add: app_run_def)
  next
    case (DeviceAnswerLost f e)
    then show ?thesis using Cons
      by (intro exI [of _ "[AppApply f k]"]) (simp add: app_run_def device_ApplyPending_some split: prod.split)
  qed
qed

lemma recover_actions_run:
  "\<exists>ops. snd (snd (recover_actions (device_ref apply1 calm) as (fs, s))) = app_run save apply1 ops s"
proof (induction as arbitrary: fs s)
  case Nil
  then show ?case by (intro exI [of _ "[]"]) (simp add: app_run_def)
next
  case (Cons a as)
  obtain e fs1 s1 where c: "device_ref apply1 calm (fs, s) (pa_DeviceKey a) (pa_ActionID a) = (e, fs1, s1)"
    using prod_cases3 by blast
  obtain ops1 where o1: "s1 = app_run save apply1 ops1 s"
    using device_ref_run [of apply1 calm fs s "pa_DeviceKey a" "pa_ActionID a" save] c by auto
  show ?case
  proof (cases e)
    case (Some x)
    then show ?thesis using c o1 by auto
  next
    case None
    obtain ops2 where "snd (snd (recover_actions (device_ref apply1 calm) as (fs1, s1))) = app_run save apply1 ops2 s1"
      using Cons.IH by blast
    then show ?thesis using None c o1 by (intro exI [of _ "ops1 @ ops2"]) (simp add: app_run_def)
  qed
qed

lemma recovery_exec_run: "\<exists>ops. recovery_exec save apply1 listing calm ev s = app_run save apply1 ops s"
proof (cases ev)
  case (Saves f a)
  then show ?thesis by (intro exI [of _ "[AppSave f a]"]) (simp add: app_run_def)
next
  case (Recovers f fs)
  show ?thesis
  proof (cases "listing f s")
    case (Inl e)
    then show ?thesis using Recovers
      by (intro exI [of _ "[]"]) (simp add: recovery_round_def coordinator_Recover_def app_run_def)
  next
    case (Inr as)
    then have "recovery_exec save apply1 listing calm ev s = snd (snd (recover_actions (device_ref apply1 calm) as (fs, s)))"
      using Recovers by (simp add: recovery_round_def coordinator_Recover_def split: prod.split)
    then show ?thesis using recover_actions_run by metis
  qed
qed

lemma recovery_run:
  "\<exists>ops. fold (recovery_exec save apply1 listing calm) evs s = app_run save apply1 ops s"
proof (induction evs arbitrary: s)
  case Nil
  then show ?case by (intro exI [of _ "[]"]) (simp add: app_run_def)
next
  case (Cons ev evs)
  obtain ops1 where "recovery_exec save apply1 listing calm ev s = app_run save apply1 ops1 s"
    using recovery_exec_run [of save apply1 listing calm ev s] by blast
  moreover obtain ops2 where
    "fold (recovery_exec save apply1 listing calm) evs (app_run save apply1 ops1 s) = app_run save apply1 ops2 (app_run save apply1 ops1 s)"
    using Cons.IH by blast
  ultimately show ?case by (intro exI [of _ "ops1 @ ops2"]) (simp add: app_run_def)
qed

section \<open>An undisturbed round finishes the work\<close>

context application_store
begin

lemma recover_actions_calm:
  assumes "inv s" and "fine calm" and "\<forall>a \<in> set as. payload (view s) (pa_ActionID a) \<noteq> None"
  obtains s' where "recover_actions (device_ref apply1 calm) as ([], s) = (None, [], s')" "inv s'"
    "\<forall>a \<in> set as. av_applied (view s') (pa_ActionID a) \<noteq> None"
    "\<forall>k. av_pending (view s) k = None \<longrightarrow> av_pending (view s') k = None"
    "\<forall>k r. payload (view s) k = Some r \<longrightarrow> payload (view s') k = Some r"
  using assms
proof (induction as arbitrary: s thesis)
  case Nil
  then show ?case by simp
next
  case (Cons a as)
  let ?k = "pa_ActionID a"
  obtain r where r: "payload (view s) ?k = Some r" using Cons.prems(4) by auto
  obtain s0 where one: "apply1 calm s ?k = (Inr (), s0)" "av_applied (view s0) ?k = Some r"
    using apply_receipt [OF Cons.prems(2) r Cons.prems(3)] by (cases "apply1 calm s ?k") simp
  have i: "inv s0" using apply_law [OF Cons.prems(2), of calm ?k] one(1) by simp
  have "view s0 = snd (apply_spec ?k (view s))"
    using exec_fine [OF Cons.prems(2), of "AppApply calm ?k"] Cons.prems(3) one(1) by (metis app_exec.simps(2) op_fate.simps(2) op_spec.simps(2) snd_apsnd snd_conv)
  then have pend: "\<forall>k. av_pending (view s) k = None \<longrightarrow> av_pending (view s0) k = None"
    by (cases rule: apply_spec_cases [of ?k "view s"]) auto
  have pay: "\<forall>k r. payload (view s) k = Some r \<longrightarrow> payload (view s0) k = Some r"
    using run_payload [OF Cons.prems(2), of _ _ "[AppApply calm ?k]"] one(1) by (simp add: app_run_def)
  then have "\<forall>b \<in> set as. payload (view s0) (pa_ActionID b) \<noteq> None" using Cons.prems(4) by fastforce
  then obtain s' where s': "recover_actions (device_ref apply1 calm) as ([], s0) = (None, [], s')" "inv s'"
    "\<forall>b \<in> set as. av_applied (view s') (pa_ActionID b) \<noteq> None"
    "\<forall>k. av_pending (view s0) k = None \<longrightarrow> av_pending (view s') k = None"
    "\<forall>k r. payload (view s0) k = Some r \<longrightarrow> payload (view s') k = Some r"
    using Cons.IH [OF _ i Cons.prems(3)] by blast
  obtain ops where "s' = app_run save apply1 ops s0"
    using recover_actions_run [of apply1 calm as "[]" s0 save] s'(1) by auto
  then have "av_applied (view s') ?k = Some r" using run_receipts [OF i one(2)] by simp
  moreover have "recover_actions (device_ref apply1 calm) (a # as) ([], s) = (None, [], s')"
    using s'(1) one(1) by (simp add: device_ApplyPending_some)
  ultimately show ?case using Cons.prems(1) [of s'] s' pend pay by auto
qed

lemma round_calm:
  assumes "inv s" and "fine calm"
  obtains s' where "recovery_round listing apply1 calm calm [] s = (None, s')" "inv s'" "av_pending (view s') = Map.empty"
    "\<forall>k r. payload (view s) k = Some r \<longrightarrow> av_applied (view s') k = Some r"
proof -
  obtain as where as: "listing calm s = Inr as" using listing_fine [OF assms] by blast
  then have set_as: "set as = ran (av_pending (view s))" using listing_law [OF assms as] by blast
  have ids: "av_pending (view s) k = Some a \<Longrightarrow> pa_ActionID a = k" for k a using view_ok [OF assms(1)] by (simp add: view_ok_def)
  have "\<forall>a \<in> set as. payload (view s) (pa_ActionID a) \<noteq> None"
    using set_as ids by (auto simp: ran_def payload_def split: option.split)
  from recover_actions_calm [OF assms this] obtain s' where
    s': "recover_actions (device_ref apply1 calm) as ([], s) = (None, [], s')" "inv s'"
      "\<forall>a \<in> set as. av_applied (view s') (pa_ActionID a) \<noteq> None"
      "\<forall>k. av_pending (view s) k = None \<longrightarrow> av_pending (view s') k = None"
      "\<forall>k r. payload (view s) k = Some r \<longrightarrow> payload (view s') k = Some r" by metis
  have "recovery_round listing apply1 calm calm [] s = (None, s')"
    using as s'(1) by (simp add: recovery_round_def coordinator_Recover_def)
  moreover have empty: "av_pending (view s') k = None" for k
  proof (cases "av_pending (view s) k")
    case (Some a)
    then have "av_applied (view s') k \<noteq> None" using s'(3) set_as ids by (metis ranI)
    then show ?thesis using view_ok [OF s'(2)] by (metis not_None_eq view_ok_def)
  qed (use s'(4) in simp)
  moreover have "\<forall>k r. payload (view s) k = Some r \<longrightarrow> av_applied (view s') k = Some r"
  proof (intro allI impI)
    fix k r
    assume "payload (view s) k = Some r"
    then have "payload (view s') k = Some r" using s'(5) by blast
    then show "av_applied (view s') k = Some r" using empty [of k] by (cases "av_applied (view s') k") (simp_all add: payload_def)
  qed
  ultimately show ?thesis using that s'(2) by blast
qed

lemma recovery_completes:
  assumes "inv s" and "save g s a = (Inr (), s1)" and "fine calm"
  shows "\<exists>s3. recovery_round listing apply1 calm calm [] (fold (recovery_exec save apply1 listing calm) evs s1) = (None, s3) \<and>
    listing calm s3 = Inr [] \<and> receipt calm s3 (pa_ActionID a) = Inr (Some (AppliedRecord_of a))"
proof -
  have i1: "inv s1" using save_law [OF assms(1), of g a] assms(2) by simp
  let ?s2 = "fold (recovery_exec save apply1 listing calm) evs s1"
  obtain ops where ops: "?s2 = app_run save apply1 ops s1"
    using recovery_run [of save apply1 listing calm evs s1] by blast
  then have i2: "inv ?s2" using run_inv [OF i1] by simp
  have p: "payload (view ?s2) (pa_ActionID a) = Some (AppliedRecord_of a)"
    using run_payload [OF i1 save_payload [OF assms(1,2)]] ops by simp
  obtain s3 where s3: "recovery_round listing apply1 calm calm [] ?s2 = (None, s3)" "inv s3" "av_pending (view s3) = Map.empty"
    "\<forall>k r. payload (view ?s2) k = Some r \<longrightarrow> av_applied (view s3) k = Some r"
    using round_calm [OF i2 assms(3)] by metis
  have "listing calm s3 = Inr []" using listing_view [OF s3(2) assms(3)] s3(3) by simp
  then show ?thesis using s3 p receipt_law [OF s3(2) assms(3)] by auto
qed

end

section \<open>Properties\<close>

text \<open>
  C38. Recovery completes the confirmed actions. On the SQLite application store, after a save was confirmed and then
  any number of further saves and recovery rounds, in which listings and statements fail, commits and answers
  are lost and devices are not reached, one undisturbed round of \<open>Recover\<close> returns without an error,
  leaves nothing pending, and the action has the receipt with its own payload.
\<close>

theorem recovery_clears_pending:
  assumes "sql_SavePending g (fold (recovery_exec sql_SavePending sql_ApplyPending sql_ListPending calm_tx) evs0 OpenSQLiteApplicationStore_empty) a =
    (Inr (), s1)"
  shows "\<exists>s3. recovery_round sql_ListPending sql_ApplyPending calm_tx calm_tx []
        (fold (recovery_exec sql_SavePending sql_ApplyPending sql_ListPending calm_tx) evs s1) = (None, s3) \<and>
    sql_ListPending calm_tx s3 = Inr [] \<and> sql_ReadApplied calm_tx s3 (pa_ActionID a) = Inr (Some (AppliedRecord_of a))"
proof -
  obtain ops where "fold (recovery_exec sql_SavePending sql_ApplyPending sql_ListPending calm_tx) evs0 OpenSQLiteApplicationStore_empty =
      sql_app_run ops OpenSQLiteApplicationStore_empty"
    using recovery_run [of sql_SavePending sql_ApplyPending sql_ListPending calm_tx evs0 OpenSQLiteApplicationStore_empty] by blast
  then have "sql_app_ok (fold (recovery_exec sql_SavePending sql_ApplyPending sql_ListPending calm_tx) evs0 OpenSQLiteApplicationStore_empty)"
    by (simp add: sql_app.run_inv)
  then show ?thesis by (rule sql_app.recovery_completes [OF _ assms]) simp
qed

theorem recovery_clears_pending_witness:
  "\<exists>s3. recovery_round sql_ListPending sql_ApplyPending calm_tx calm_tx []
      (fold (recovery_exec sql_SavePending sql_ApplyPending sql_ListPending calm_tx)
        [Recovers calm_tx [DeviceAnswerLost demo_lost (Sentinel SimNetworkDrop)]]
        (snd (sql_SavePending calm_tx OpenSQLiteApplicationStore_empty demo_action))) = (None, s3) \<and>
    sql_ReadApplied calm_tx s3 ''a1'' = Inr (Some (AppliedRecord_of demo_action))"
proof -
  have "sql_SavePending calm_tx (fold (recovery_exec sql_SavePending sql_ApplyPending sql_ListPending calm_tx) [] OpenSQLiteApplicationStore_empty) demo_action =
      (Inr (), snd (sql_SavePending calm_tx OpenSQLiteApplicationStore_empty demo_action))"
    by code_simp
  from recovery_clears_pending [OF this, of "[Recovers calm_tx [DeviceAnswerLost demo_lost (Sentinel SimNetworkDrop)]]"]
  show ?thesis by (auto simp: demo_action_def)
qed

end
