(* ===== verification/Gor_App_Device.thy ===== *)
theory Gor_App_Device
  imports Gor_App
begin

text \<open>
  Devices and workshops together: a device is counted online in exactly the workshop of its shadow as long as its
  calls succeed; what a call that failed half-way leaves behind; and how the aliased map of a workshop
  behaves when a write is cancelled. Last, the status codes of the HTTP handlers.
\<close>

section \<open>States after a write\<close>

lemma gm_get_set_cell: "gm_get (b_states (set_cell n f b)) k = (if k = n then map_option f (gm_get (b_states b) k) else gm_get (b_states b) k)"
proof -
  have "gm_get (map (\<lambda>(m, c). if m = n then (m, f c) else (m, c)) cs) k = (if k = n then map_option f (gm_get cs k) else gm_get cs k)" for cs :: "(string \<times> 'a cell) list"
    by (induction cs) auto
  then show ?thesis by (simp add: set_cell_def)
qed

lemma set_cell_sel [simp]: "b_identity (set_cell n f b) = b_identity b" "b_discard (set_cell n f b) = b_discard b" "b_etag (set_cell n f b) = b_etag b"
  by (simp_all add: set_cell_def)

lemma Binder_persist_keeps:
  "Binder_persist wr n d b s = (e, b', s') \<Longrightarrow> b_states b' = b_states b \<and> b_identity b' = b_identity b"
  by (auto simp: Binder_persist_def Let_def split: sum.splits prod.splits if_splits)

lemma State_Set_done:
  assumes "State_Set wr cd n v b s = (None, b', s')"
  shows "b_identity b' = b_identity b"
    and "gm_get (b_states b) n \<noteq> None \<Longrightarrow> State_Get b' n = Some v \<and> gm_get (b_states b') n \<noteq> None"
  using assms by (auto simp: State_Set_def State_Get_def gm_get_set_cell split: sum.splits prod.splits option.splits
      dest!: Binder_persist_keeps)

lemma State_Set_failed_keeps:
  assumes "State_Set wr cd n v b s = (Some e, b', s')"
  shows "b_states b' = b_states b \<and> b_identity b' = b_identity b"
  using assms by (auto simp: State_Set_def split: sum.splits prod.splits option.splits dest!: Binder_persist_keeps)

text \<open>The world after a \<open>Set\<close> is the one it started in, or the one after its write.\<close>

lemma Binder_persist_writes:
  "snd (snd (Binder_persist wr n d b s)) = s \<or> (\<exists>data. snd (snd (Binder_persist wr n d b s)) = snd (wr s (b_identity b) data (b_etag b)))"
proof (cases "build_document n d (b_states b)")
  case (Inl e)
  then show ?thesis by (simp add: Binder_persist_def)
next
  case (Inr doc)
  obtain r s' where w: "wr s (b_identity b) (json_bytes (JObj (sort_key fst doc))) (b_etag b) = (r, s')" by force
  then have "snd (snd (Binder_persist wr n d b s)) = s'" using Inr by (cases r) (simp_all add: Binder_persist_def Let_def)
  then show ?thesis using w by (metis snd_conv)
qed

lemma State_Set_writes:
  "snd (snd (State_Set wr cd n v b s)) = s \<or> (\<exists>data. snd (snd (State_Set wr cd n v b s)) = snd (wr s (b_identity b) data (b_etag b)))"
proof (cases "cd_marshal cd v")
  case (Inr j)
  obtain e b' s' where p: "Binder_persist wr n (Some j) b s = (e, b', s')" using prod_cases3 by blast
  then have "snd (snd (State_Set wr cd n v b s)) = s'" using Inr by (cases e) (simp_all add: State_Set_def)
  then show ?thesis using Binder_persist_writes [of wr n "Some j" b s] p by simp
qed (simp add: State_Set_def)

section \<open>A device and its workshops\<close>

text \<open>
  The world beside the stores: the pairs of workshop and device that are counted online. A workshop adds and removes the
  device, which \<open>workshop_sets\<close> below shows of its Grain.
\<close>

type_synonym 'w counted = "'w \<times> (string \<times> string) set"

definition lift_write :: "'w store_write \<Rightarrow> 'w counted store_write" where
  "lift_write wr w i d t = (case wr (fst w) i d t of (r, w') \<Rightarrow> (r, w', snd w))"

definition lift_put :: "'w reminder_put \<Rightarrow> 'w counted reminder_put" where
  "lift_put put w r = (case put (fst w) r of (x, w') \<Rightarrow> (x, w', snd w))"

fun workshop_ref_ok :: "'w counted workshop_ref" where
  "workshop_ref_ok (w, m) DeviceOnline workshop key = (None, w, insert (workshop, key) m)"
| "workshop_ref_ok (w, m) DeviceOffline workshop key = (None, w, m - {(workshop, key)})"

datatype device_op = OpReport gtime string string | OpConfigure string | OpMarkOffline

fun device_exec ::
    "'w store_write \<Rightarrow> shadow_value codec \<Rightarrow> 'w reminder_put \<Rightarrow> device_op \<Rightarrow> shadow_value grain_binder \<Rightarrow> 'w counted \<Rightarrow>
     go_error option \<times> shadow_value grain_binder \<times> 'w counted" where
  "device_exec wr cd put (OpReport now workshopID state) b w =
     device_Report (lift_write wr) cd (Some (lift_put put)) workshop_ref_ok now workshopID state b w"
| "device_exec wr cd put (OpConfigure c) b w = device_Configure (lift_write wr) cd c b w"
| "device_exec wr cd put OpMarkOffline b w = device_MarkOffline (lift_write wr) cd workshop_ref_ok b w"

text \<open>A run in which every call returned without an error.\<close>

fun device_run ::
    "'w store_write \<Rightarrow> shadow_value codec \<Rightarrow> 'w reminder_put \<Rightarrow> device_op list \<Rightarrow> shadow_value grain_binder \<times> 'w counted \<Rightarrow>
     (shadow_value grain_binder \<times> 'w counted) option" where
  "device_run wr cd put [] x = Some x"
| "device_run wr cd put (op # ops) (b, w) =
     (case device_exec wr cd put op b w of (None, b', w') \<Rightarrow> device_run wr cd put ops (b', w') | (Some _, _, _) \<Rightarrow> None)"

definition counted_right :: "shadow_value grain_binder \<Rightarrow> (string \<times> string) set \<Rightarrow> bool" where
  "counted_right b m \<longleftrightarrow> gm_get (b_states b) ''shadow'' \<noteq> None \<and>
     (\<forall>workshop. (workshop, device_key b) \<in> m \<longleftrightarrow> sh_Online (device_shadow b) \<and> sh_WorkshopID (device_shadow b) = workshop)"

lemma lift_write_world: "snd (snd (lift_write wr w i d t)) = snd w"
  by (simp add: lift_write_def split: prod.split)

lemma lift_write_counted:
  "State_Set (lift_write wr) cd n v b w = (e, b', w') \<Longrightarrow> snd w' = snd w"
  using State_Set_writes [of "lift_write wr" cd n v b w] by (auto simp: lift_write_world)

lemma lift_put_counted:
  "Reminder_Set (Some (lift_put put)) now i n whn meth w = (e, w') \<Longrightarrow> snd w' = snd w"
  by (auto simp: Reminder_Set_def lift_put_def Let_def split: sum.splits prod.splits)

lemma shadow_after:
  assumes "State_Set wr cd ''shadow'' v b s = (None, b', s')" and "gm_get (b_states b) ''shadow'' \<noteq> None"
  shows "device_shadow b' = v" "device_key b' = device_key b" "gm_get (b_states b') ''shadow'' \<noteq> None"
  using State_Set_done [OF assms(1)] assms(2) by (simp_all add: device_shadow_def device_key_def binder_Self_def)

lemma report_calls_world:
  "snd (snd (report_calls workshop_ref_ok previous workshopID key (a, m))) =
     (if sh_Online previous \<and> sh_WorkshopID previous = workshopID then m
      else insert (workshopID, key) (if sh_Online previous then m - {(sh_WorkshopID previous, key)} else m))"
  by (simp add: report_calls_def)

lemma report_calls_counted:
  assumes "report_calls workshop_ref_ok previous workshopID key w = (None, w')"
    and "\<And>ws. (ws, key) \<in> snd w \<longleftrightarrow> sh_Online previous \<and> sh_WorkshopID previous = ws"
  shows "(ws, key) \<in> snd w' \<longleftrightarrow> ws = workshopID"
proof -
  have "snd w' = (if sh_Online previous \<and> sh_WorkshopID previous = workshopID then snd w
      else insert (workshopID, key) (if sh_Online previous then snd w - {(sh_WorkshopID previous, key)} else snd w))"
    using report_calls_world [of previous workshopID key "fst w" "snd w"] assms(1) by simp
  then show ?thesis by (cases "sh_Online previous"; cases "sh_WorkshopID previous = workshopID") (auto simp: assms(2))
qed

lemma Report_counted:
  assumes "device_Report (lift_write wr) cd (Some (lift_put put)) workshop_ref_ok now workshopID state b w = (None, b', w')"
    and "counted_right b (snd w)"
  shows "counted_right b' (snd w')"
proof -
  obtain b1 w1 w2 where
    s: "State_Set (lift_write wr) cd ''shadow''
      ((device_shadow b)\<lparr>sh_ReportedState := state, sh_ReportedAt := now, sh_Online := True, sh_WorkshopID := workshopID\<rparr>) b w = (None, b1, w1)"
    and r: "Reminder_Set (Some (lift_put put)) now (binder_Self b1) ''offline'' (After OfflineAfter) (Handle ''domain.Device.MarkOffline'') w1 = (None, w2)"
    and c: "report_calls workshop_ref_ok (device_shadow b) workshopID (device_key b1) w2 = (None, w')" and b': "b' = b1"
    using assms(1) by (auto simp: device_Report_def Let_def split: if_splits prod.splits option.splits)
  have ne: "gm_get (b_states b) ''shadow'' \<noteq> None" using assms(2) by (simp add: counted_right_def)
  note sh = shadow_after [OF s ne]
  have "snd w2 = snd w" using lift_write_counted [OF s] lift_put_counted [OF r] by simp
  then have "(ws, device_key b1) \<in> snd w' \<longleftrightarrow> ws = workshopID" for ws
    using report_calls_counted [OF c, of ws] assms(2) sh(2) by (simp add: counted_right_def)
  then show ?thesis using sh b' by (auto simp: counted_right_def)
qed

lemma MarkOffline_counted:
  assumes "device_MarkOffline (lift_write wr) cd workshop_ref_ok b w = (None, b', w')" and "counted_right b (snd w)"
  shows "counted_right b' (snd w')"
proof -
  obtain w1 where s: "State_Set (lift_write wr) cd ''shadow'' ((device_shadow b)\<lparr>sh_Online := False\<rparr>) b w = (None, b', w1)"
    and c: "workshop_ref_ok w1 DeviceOffline (sh_WorkshopID (device_shadow b)) (device_key b') = (None, w')"
    using assms(1) by (auto simp: device_MarkOffline_def Let_def split: prod.splits option.splits)
  have ne: "gm_get (b_states b) ''shadow'' \<noteq> None" using assms(2) by (simp add: counted_right_def)
  have "snd w' = snd w - {(sh_WorkshopID (device_shadow b), device_key b')}"
    using c lift_write_counted [OF s] by (cases w1) auto
  then show ?thesis using shadow_after [OF s ne] assms(2) by (auto simp: counted_right_def)
qed

lemma Configure_counted:
  assumes "device_Configure (lift_write wr) cd c b w = (None, b', w')" and "counted_right b (snd w)"
  shows "counted_right b' (snd w')"
proof -
  have ne: "gm_get (b_states b) ''shadow'' \<noteq> None" using assms(2) by (simp add: counted_right_def)
  then show ?thesis
    using assms shadow_after [OF assms(1) [unfolded device_Configure_def] ne] lift_write_counted [OF assms(1) [unfolded device_Configure_def]]
    by (auto simp: counted_right_def)
qed

lemma device_exec_counted:
  "device_exec wr cd put op b w = (None, b', w') \<Longrightarrow> counted_right b (snd w) \<Longrightarrow> counted_right b' (snd w')"
  by (cases op) (auto intro: Report_counted MarkOffline_counted Configure_counted)

lemma device_run_counted:
  assumes "device_run wr cd put ops (b, w) = Some (b', w')" and "counted_right b (snd w)"
  shows "counted_right b' (snd w')"
  using assms
proof (induction ops arbitrary: b w)
  case (Cons op ops)
  then show ?case by (auto split: prod.splits option.splits dest: device_exec_counted)
qed simp

lemma newDevice_counted:
  assumes "cd_zero cd = zero_shadow"
  shows "counted_right (newDevice cd i) {}"
  using assms by (simp add: counted_right_def newDevice_def NewState_def newBinder_def device_shadow_def State_Get_def zero_shadow_def)

section \<open>A workshop\<close>

definition workshop_members :: "online_set grain_binder \<Rightarrow> string set" where
  "workshop_members b = (case workshop_online b of None \<Rightarrow> {} | Some xs \<Rightarrow> set xs)"

definition workshop_ok :: "online_set grain_binder \<Rightarrow> bool" where
  "workshop_ok b \<longleftrightarrow> gm_get (b_states b) ''online'' \<noteq> None \<and> (\<forall>xs. workshop_online b = Some xs \<longrightarrow> distinct xs)"

lemma online_after:
  assumes "State_Set wr cd ''online'' v b s = (None, b', s')" and "gm_get (b_states b) ''online'' \<noteq> None"
  shows "workshop_online b' = v" "gm_get (b_states b') ''online'' \<noteq> None"
  using State_Set_done [OF assms(1)] assms(2) by (simp_all add: workshop_online_def)

lemma set_online_cell:
  assumes "gm_get (b_states b) ''online'' \<noteq> None"
  shows "gm_get (b_states (set_cell ''online'' (\<lambda>c. c\<lparr>c_value := v\<rparr>) b)) ''online'' \<noteq> None"
    "workshop_online (set_cell ''online'' (\<lambda>c. c\<lparr>c_value := v\<rparr>) b) = v"
  using assms by (auto simp: gm_get_set_cell workshop_online_def State_Get_def)

lemma workshop_count: "workshop_ok b \<Longrightarrow> workshop_OnlineCount b = card (workshop_members b)"
  by (auto simp: workshop_ok_def workshop_OnlineCount_def workshop_members_def distinct_card split: option.split)

lemma workshop_DeviceOnline_done:
  assumes "workshop_ok b" and "workshop_DeviceOnline wr cd d b s = (None, b', s')"
  shows "workshop_ok b' \<and> workshop_members b' = insert d (workshop_members b)"
proof (cases "workshop_online b")
  case None
  then show ?thesis using assms online_after [of wr cd "Some [d]" b s b' s']
    by (simp add: workshop_ok_def workshop_DeviceOnline_def workshop_members_def)
next
  case (Some xs)
  let ?b = "set_cell ''online'' (\<lambda>c. c\<lparr>c_value := Some (List.insert d xs)\<rparr>) b"
  have "State_Set wr cd ''online'' (Some (List.insert d xs)) ?b s = (None, b', s')"
    using assms(2) Some by (simp add: workshop_DeviceOnline_def)
  from online_after [OF this] show ?thesis
    using assms(1) Some set_online_cell(1) [of b "Some (List.insert d xs)"] by (simp add: workshop_ok_def workshop_members_def)
qed

lemma workshop_DeviceOffline_done:
  assumes "workshop_ok b" and "workshop_DeviceOffline wr cd d b s = (None, b', s')"
  shows "workshop_ok b' \<and> workshop_members b' = workshop_members b - {d}"
proof -
  let ?v = "map_option (removeAll d) (workshop_online b)"
  have "State_Set wr cd ''online'' ?v (set_cell ''online'' (\<lambda>c. c\<lparr>c_value := ?v\<rparr>) b) s = (None, b', s')"
    using assms(2) by (simp add: workshop_DeviceOffline_def Let_def)
  from online_after [OF this] show ?thesis
    using assms(1) set_online_cell(1) [of b ?v] by (cases "workshop_online b") (auto simp: workshop_ok_def workshop_members_def distinct_removeAll)
qed

section \<open>Properties\<close>


text \<open>
  A report that fails after its state was written is not repaired by repeating it: when the reminder or a call to a
  workshop failed, the shadow already says online in the new workshop, and every later report to that workshop,
  whatever it reports, leaves out both calls: the workshop is never told.
\<close>

theorem failed_report_never_repaired:
  assumes "workshopID \<noteq> []" and "gm_get (b_states b) ''shadow'' \<noteq> None"
    and "State_Set wr cd ''shadow'' ((device_shadow b)\<lparr>sh_ReportedState := state, sh_ReportedAt := now, sh_Online := True, sh_WorkshopID := workshopID\<rparr>) b w =
      (None, b1, w1)"
    and "Reminder_Set put now (binder_Self b1) ''offline'' (After OfflineAfter) (Handle ''domain.Device.MarkOffline'') w1 = (Some e, w2)"
  shows "device_Report wr cd put ref now workshopID state b w = (Some e, b1, w2) \<and>
    device_Report wr cd put' ref' now' workshopID state' b1 w' =
      device_Report wr cd put' (\<lambda>w _ _ _. (None, w)) now' workshopID state' b1 w'"
proof -
  have sh: "sh_Online (device_shadow b1)" "sh_WorkshopID (device_shadow b1) = workshopID"
    using shadow_after [OF assms(3,2)] by simp_all
  have calls: "report_calls ref' (device_shadow b1) workshopID = report_calls (\<lambda>w _ _ _. (None, w)) (device_shadow b1) workshopID"
    by (simp add: report_calls_def sh fun_eq_iff)
  have "device_Report wr cd put' ref' now' workshopID state' b1 w' =
      device_Report wr cd put' (\<lambda>w _ _ _. (None, w)) now' workshopID state' b1 w'"
    unfolding device_Report_def Let_def calls by (rule refl)
  then show ?thesis using assms(1,3,4) by (simp add: device_Report_def Let_def)
qed

text \<open>
  The Grain of a workshop is a set: a successful call adds or removes the device and nothing else, and the online
  count is the number of devices in it.
\<close>

theorem workshop_sets:
  assumes "workshop_ok b"
  shows "(workshop_DeviceOnline wr cd d b s = (None, b', s') \<longrightarrow>
      workshop_ok b' \<and> workshop_members b' = insert d (workshop_members b) \<and> workshop_OnlineCount b' = card (insert d (workshop_members b))) \<and>
    (workshop_DeviceOffline wr cd d b s = (None, b', s') \<longrightarrow>
      workshop_ok b' \<and> workshop_members b' = workshop_members b - {d} \<and> workshop_OnlineCount b' = card (workshop_members b - {d}))"
  using workshop_DeviceOnline_done [OF assms] workshop_DeviceOffline_done [OF assms] workshop_count [of b'] by metis

text \<open>
  The aliased map of a workshop is changed before it is written. When the caller of \<open>DeviceOnline\<close> gives up and the
  write had no effect, the activation is not discarded and goes on counting a device that no record has.
\<close>

theorem cancelled_online_still_counted:
  assumes "workshop_ok b" and "workshop_online b = Some xs" and "d \<notin> set xs" and "b_discard b = None"
    and "cd_marshal cd (Some (List.insert d xs)) = Inr j"
    and "build_document ''online'' (Some j) (b_states (set_cell ''online'' (\<lambda>c. c\<lparr>c_value := Some (List.insert d xs)\<rparr>) b)) = Inr doc"
    and "wr s (b_identity b) (json_bytes (JObj (sort_key fst doc))) (b_etag b) = (Inl e, s)" and "is_cancellation e"
  shows "\<exists>b'. workshop_DeviceOnline wr cd d b s = (Some e, b', s) \<and> Register_Dispatch (Some e) b' = Some e \<and>
    workshop_OnlineCount b' = Suc (workshop_OnlineCount b)"
proof -
  let ?b = "set_cell ''online'' (\<lambda>c. c\<lparr>c_value := Some (List.insert d xs)\<rparr>) b"
  have "wr s (b_identity ?b) (json_bytes (JObj (sort_key fst doc))) (b_etag ?b) = (Inl e, s)" using assms(7) by simp
  from State_Set_failed [where wr = wr and s = s, OF assms(5,6) this] assms(8)
  have "workshop_DeviceOnline wr cd d b s = (Some e, ?b, s)" using assms(2) by (simp add: workshop_DeviceOnline_def)
  moreover have "workshop_OnlineCount ?b = Suc (workshop_OnlineCount b)"
    using set_online_cell(2) [of b "Some (List.insert d xs)"] assms(1-3) by (simp add: workshop_OnlineCount_def workshop_ok_def)
  ultimately show ?thesis using assms(4) by (simp add: Register_Dispatch_def)
qed

text \<open>
  The status of a report does not depend on where the device runs: an error that came back from another node in its
  envelope gives the same status as the error itself, when its codes are not mixed.
\<close>

theorem http_status_location_free:
  assumes "CodeOf e \<noteq> None \<or> reachable_codes e = []" and "CodeOf e \<noteq> Some []" and "errorFromEnvelope (errorEnvelopeFor (Some e)) = Some e'"
  shows "statusForError e' = statusForError e \<and> fst (http_report Inr (Inr (ws, st)) (\<lambda>_ _. Some e')) = fst (http_report Inr (Inr (ws, st)) (\<lambda>_ _. Some e))"
proof -
  have "set (reachable_codes e') = set (reachable_codes e)"
  proof (cases "CodeOf e")
    case None
    then show ?thesis using assms by (auto simp: errorEnvelopeFor_def errorFromEnvelope_def)
  next
    case (Some c)
    then have "e' = RemoteCodedErr c (error_text e)" using assms(2,3) by (simp add: errorEnvelopeFor_def errorFromEnvelope_def)
    then show ?thesis using Some CodeOf_Some_iff [of e c] by simp
  qed
  then show ?thesis by (simp add: statusForError_def errors_Is_code_iff http_report_def http_writeError_def writeJSON_def)
qed

section \<open>Witnesses\<close>

definition demo_shadow_codec :: "shadow_value codec" where
  "demo_shadow_codec = \<lparr>cd_zero = zero_shadow, cd_marshal = (\<lambda>v. Inr (JStr (sh_ReportedState v))), cd_unmarshal = (\<lambda>j old. Inr old)\<rparr>"

definition demo_write :: "unit store_write" where
  "demo_write w i d t = (Inr (t + 1), w)"


theorem http_status_location_free_witness:
  "statusForError (RemoteCodedErr ErrWorkshopIDRequired ErrWorkshopIDRequired) = 400"
proof -
  have e: "CodeOf (CodeErr ErrWorkshopIDRequired) \<noteq> None \<or> reachable_codes (CodeErr ErrWorkshopIDRequired) = []"
    "CodeOf (CodeErr ErrWorkshopIDRequired) \<noteq> Some []"
    "errorFromEnvelope (errorEnvelopeFor (Some (CodeErr ErrWorkshopIDRequired))) = Some (RemoteCodedErr ErrWorkshopIDRequired ErrWorkshopIDRequired)"
    by code_simp+
  have "statusForError (CodeErr ErrWorkshopIDRequired) = 400" by code_simp
  then show ?thesis using http_status_location_free [OF e] by simp
qed

theorem workshop_sets_witness:
  "\<exists>b' s'. workshop_DeviceOnline demo_write \<lparr>cd_zero = None, cd_marshal = (\<lambda>_. Inr JNull), cd_unmarshal = (\<lambda>j v. Inr v)\<rparr> ''d''
      (newWorkshop \<lparr>cd_zero = None, cd_marshal = (\<lambda>_. Inr JNull), cd_unmarshal = (\<lambda>j v. Inr v)\<rparr> (GrainId ''w'' ''1'')) () = (None, b', s') \<and>
    workshop_OnlineCount b' = 1"
proof -
  let ?cd = "\<lparr>cd_zero = None, cd_marshal = (\<lambda>_. Inr JNull), cd_unmarshal = (\<lambda>j v. Inr v)\<rparr> :: online_set codec"
  let ?b = "newWorkshop ?cd (GrainId ''w'' ''1'')"
  have ok: "workshop_ok ?b" "workshop_members ?b = {}"
    by (simp_all add: workshop_ok_def workshop_members_def workshop_online_def newWorkshop_def NewState_def newBinder_def State_Get_def)
  obtain b' s' where "workshop_DeviceOnline demo_write ?cd ''d'' ?b () = (None, b', s')"
    by (simp add: workshop_DeviceOnline_def workshop_online_def newWorkshop_def NewState_def newBinder_def State_Get_def State_Set_def
        Binder_persist_def demo_write_def)
  then show ?thesis using workshop_sets [OF ok(1), of demo_write ?cd "''d''" "()" b' s'] ok(2) by (intro exI conjI) auto
qed

end
