(* ===== verification/Gor_Codegen.thy ===== *)
theory Gor_Codegen
  imports Gor_Errors Gor_Json_Text
begin

text \<open>
  The code generator, \<open>internal/codegen\<close> and \<open>cmd/gorgen\<close>: loading the marked interfaces of a package, choosing
  the names of the imports, and rendering the Go source. What \<open>go/packages\<close>, \<open>go/ast\<close> and \<open>go/types\<close> say of
  the package is data: a type is known by its name, by the package of its name and by the pieces of its
  printed form. The Unicode tables for runes outside ASCII are the parameter \<open>unicode\<close>, \<open>format.Source\<close> is a
  parameter of \<open>Render\<close>.
\<close>

section \<open>Text\<close>

text \<open>A rune is its UTF-8 bytes; the record holds the tables of package \<open>unicode\<close> outside ASCII.\<close>

record unicode =
  uc_letter :: "string \<Rightarrow> bool"
  uc_digit :: "string \<Rightarrow> bool"
  uc_lower :: "string \<Rightarrow> string"

definition ascii_upper :: "char \<Rightarrow> bool" where
  "ascii_upper c \<longleftrightarrow> 65 \<le> (of_char c :: nat) \<and> (of_char c :: nat) \<le> 90"

definition ascii_lower :: "char \<Rightarrow> bool" where
  "ascii_lower c \<longleftrightarrow> 97 \<le> (of_char c :: nat) \<and> (of_char c :: nat) \<le> 122"

definition is_letter :: "unicode \<Rightarrow> string \<Rightarrow> bool" where
  "is_letter u r = (case r of [c] \<Rightarrow> ascii_upper c \<or> ascii_lower c | _ \<Rightarrow> uc_letter u r)"

definition is_digit_rune :: "unicode \<Rightarrow> string \<Rightarrow> bool" where
  "is_digit_rune u r = (case r of [c] \<Rightarrow> is_digit c | _ \<Rightarrow> uc_digit u r)"

definition to_lower :: "unicode \<Rightarrow> string \<Rightarrow> string" where
  "to_lower u r = (case r of [c] \<Rightarrow> [if ascii_upper c then char_of ((of_char c :: nat) + 32) else c] | _ \<Rightarrow> uc_lower u r)"

text \<open>\<open>utf8.DecodeRuneInString\<close>: an invalid byte is read as U+FFFD, and so is the end of the text, with size 0.\<close>

definition decode_rune :: "string \<Rightarrow> string \<times> nat" where
  "decode_rune s =
     (if s = [] then (replacement, 0)
      else case head_size s of 0 \<Rightarrow> (replacement, 1) | Suc n \<Rightarrow> (take (Suc n) s, Suc n))"

lemma decode_rune_size: "(r, n) = decode_rune s \<Longrightarrow> s \<noteq> [] \<Longrightarrow> 0 < n"
  by (simp add: decode_rune_def split: nat.splits)

text \<open>The runes a \<open>for range\<close> over a string visits.\<close>

function string_runes :: "string \<Rightarrow> string list" where
  "string_runes s = (if s = [] then [] else case decode_rune s of (r, n) \<Rightarrow> r # string_runes (drop n s))"
  by pat_completeness auto
termination
  by (relation "measure length") (auto dest: decode_rune_size)

declare string_runes.simps [simp del]

text \<open>\<open>strings.TrimSpace\<close>: the encodings of the code points with the property White Space.\<close>

definition space_runes :: "string list" where
  "space_runes =
     map (\<lambda>c. [c]) [CHR 0x09, CHR 0x0A, CHR 0x0B, CHR 0x0C, CHR 0x0D, CHR 0x20] @
     [[CHR 0xC2, CHR 0x85], [CHR 0xC2, CHR 0xA0], [CHR 0xE1, CHR 0x9A, CHR 0x80]] @
     map (\<lambda>c. [CHR 0xE2, CHR 0x80, c])
       [CHR 0x80, CHR 0x81, CHR 0x82, CHR 0x83, CHR 0x84, CHR 0x85, CHR 0x86, CHR 0x87, CHR 0x88, CHR 0x89, CHR 0x8A,
        CHR 0xA8, CHR 0xA9, CHR 0xAF] @
     [[CHR 0xE2, CHR 0x81, CHR 0x9F], [CHR 0xE3, CHR 0x80, CHR 0x80]]"

definition has_prefix :: "string \<Rightarrow> string \<Rightarrow> bool" where
  "has_prefix p s \<longleftrightarrow> take (length p) s = p"

definition has_suffix :: "string \<Rightarrow> string \<Rightarrow> bool" where
  "has_suffix p s \<longleftrightarrow> has_prefix (rev p) (rev s)"

definition trim_prefix :: "string \<Rightarrow> string \<Rightarrow> string" where
  "trim_prefix p s = (if has_prefix p s then drop (length p) s else s)"

definition trim_suffix :: "string \<Rightarrow> string \<Rightarrow> string" where
  "trim_suffix p s = (if has_suffix p s then take (length s - length p) s else s)"

function trim_left :: "string list \<Rightarrow> string \<Rightarrow> string" where
  "trim_left ps s =
     (case find (\<lambda>p. p \<noteq> [] \<and> has_prefix p s) ps of None \<Rightarrow> s | Some p \<Rightarrow> trim_left ps (drop (length p) s))"
  by pat_completeness auto
termination
proof (relation "measure (\<lambda>(ps, s). length s)")
  fix ps s p
  assume "find (\<lambda>p. p \<noteq> [] \<and> has_prefix p s) ps = Some p"
  then have "p \<noteq> []" and "take (length p) s = p" by (auto simp: find_Some_iff has_prefix_def)
  then have "0 < length p" and "s \<noteq> []" by auto
  then show "((ps, drop (length p) s), ps, s) \<in> measure (\<lambda>(ps, s). length s)" by simp
qed simp

declare trim_left.simps [simp del]

definition trim_space :: "string \<Rightarrow> string" where
  "trim_space s = rev (trim_left (map rev space_runes) (rev (trim_left space_runes s)))"

text \<open>\<open>filepath.Clean\<close>, \<open>Dir\<close> and \<open>Join\<close> with the separator \<open>/\<close>.\<close>

fun clean_parts :: "bool \<Rightarrow> string list \<Rightarrow> string list \<Rightarrow> string list" where
  "clean_parts rooted acc [] = rev acc"
| "clean_parts rooted acc (p # ps) =
     (if p = [] \<or> p = ''.'' then clean_parts rooted acc ps
      else if p = ''..''
      then (case acc of
              [] \<Rightarrow> clean_parts rooted (if rooted then [] else [p]) ps
            | a # as \<Rightarrow> clean_parts rooted (if a = ''..'' then p # acc else as) ps)
      else clean_parts rooted (p # acc) ps)"

definition filepath_Clean :: "string \<Rightarrow> string" where
  "filepath_Clean path =
     (let rooted = has_prefix ''/'' path;
          body = go_join ''/'' (clean_parts rooted [] (go_split (CHR ''/'') path))
      in if rooted then ''/'' @ body else if body = [] then ''.'' else body)"

definition filepath_Dir :: "string \<Rightarrow> string" where
  "filepath_Dir path = filepath_Clean (rev (dropWhile (\<lambda>c. c \<noteq> CHR ''/'') (rev path)))"

definition filepath_Join :: "string list \<Rightarrow> string" where
  "filepath_Join elems =
     (let parts = filter (\<lambda>e. e \<noteq> []) elems in if parts = [] then [] else filepath_Clean (go_join ''/'' parts))"

section \<open>The model of a package\<close>

record go_import =
  im_Name :: string
  im_Path :: string

record param_model =
  pm_Name :: string
  pm_Type :: string

record method_model =
  mm_Name :: string
  mm_Reminder :: bool
  mm_Params :: "param_model list"
  mm_Results :: "string list"

record interface_model =
  ifm_Name :: string
  ifm_Methods :: "method_model list"

record model =
  md_PackageName :: string
  md_SourcePackageName :: string
  md_SourceImportName :: string
  md_SourceImportPath :: string
  md_Imports :: "go_import list"
  md_Interfaces :: "interface_model list"

section \<open>What the loader sees\<close>

record tpackage =
  tp_Name :: string
  tp_Path :: string

text \<open>
  The printed form of a type is a sequence of text and of names that belong to a package. A named type also has
  its object's package (none for the universe) and name and the pieces of its type arguments.
\<close>

datatype piece = PText string | PName tpackage string

datatype go_type =
    TNamed "tpackage option" string "piece list"
  | TAlias "piece list" go_type
  | TOther "piece list"

fun type_pieces :: "go_type \<Rightarrow> piece list" where
  "type_pieces (TNamed None name args) = PText name # args"
| "type_pieces (TNamed (Some p) name args) = PName p name # args"
| "type_pieces (TAlias ps t) = ps"
| "type_pieces (TOther ps) = ps"

fun piece_packages :: "piece list \<Rightarrow> tpackage list" where
  "piece_packages [] = []"
| "piece_packages (PText s # ps) = piece_packages ps"
| "piece_packages (PName p n # ps) = p # piece_packages ps"

text \<open>\<open>types.TypeString\<close>: a qualifier that is empty leaves the dot out.\<close>

fun piece_text :: "(tpackage \<Rightarrow> string) \<Rightarrow> piece \<Rightarrow> string" where
  "piece_text q (PText s) = s"
| "piece_text q (PName p n) = (if q p = [] then n else q p @ ''.'' @ n)"

definition TypeString :: "go_type \<Rightarrow> (tpackage \<Rightarrow> string) \<Rightarrow> string" where
  "TypeString t q = concat (map (piece_text q) (type_pieces t))"

fun unalias :: "go_type \<Rightarrow> go_type" where
  "unalias (TAlias ps t) = unalias t"
| "unalias t = t"

record position =
  ps_Filename :: string
  ps_Line :: nat

record variable =
  va_Name :: string
  va_Type :: go_type

record signature =
  sg_Params :: "variable list"
  sg_Results :: "variable list"

record method_object =
  mo_Name :: string
  mo_Pos :: position
  mo_Type :: "signature option"

text \<open>An object of the package scope: a type with the methods of its underlying interface, another type, no type.\<close>

datatype scope_object = InterfaceObject "method_object list" | TypeObject | OtherObject

record type_spec =
  tsp_Name :: string
  tsp_Doc :: "string list option"
  tsp_IsInterface :: bool
  tsp_Pos :: position

text \<open>A declaration: a \<open>GenDecl\<close> of the token \<open>type\<close>, or any other.\<close>

datatype go_decl = TypeDecl "string list option" "type_spec list" | OtherDecl

record loaded_package =
  pk_Name :: string
  pk_PkgPath :: string
  pk_Errors :: "string list"
  pk_HasTypes :: bool
  pk_GoFiles :: "string list"
  pk_CompiledGoFiles :: "string list"
  pk_Syntax :: "go_decl list list"
  pk_Scope :: "string \<Rightarrow> scope_object option"

section \<open>Loading\<close>

definition locatedError :: "position \<Rightarrow> string \<Rightarrow> go_error" where
  "locatedError pos message = NewErr (ps_Filename pos @ '':'' @ itoa (ps_Line pos) @ '': '' @ message)"

definition isContext :: "go_type \<Rightarrow> bool" where
  "isContext t = (case t of TNamed (Some p) name args \<Rightarrow> tp_Path p = ''context'' \<and> name = ''Context'' | _ \<Rightarrow> False)"

definition isError :: "go_type \<Rightarrow> bool" where
  "isError t = (case unalias t of TNamed None name args \<Rightarrow> name = ''error'' | _ \<Rightarrow> False)"

abbreviation gorPath :: string where "gorPath \<equiv> ''github.com/suraciii/gor''"

definition isTickStatus :: "go_type \<Rightarrow> bool" where
  "isTickStatus t = (case t of TNamed (Some p) name args \<Rightarrow> name = ''TickStatus'' \<and> tp_Path p = gorPath | _ \<Rightarrow> False)"

definition isReminderMethod :: "signature \<Rightarrow> bool" where
  "isReminderMethod sig \<longleftrightarrow>
     length (sg_Params sig) = 2 \<and> length (sg_Results sig) = 1 \<and>
     isTickStatus (va_Type (sg_Params sig ! 1)) \<and> isError (va_Type (sg_Results sig ! 0))"

definition comment_text :: "string \<Rightarrow> string" where
  "comment_text c =
     (let t = trim_space c
      in if has_prefix ''//'' t then trim_space (trim_prefix ''//'' t)
         else if has_prefix ''/*'' t \<and> has_suffix ''*/'' t then trim_space (trim_suffix ''*/'' (trim_prefix ''/*'' t))
         else t)"

definition commentsHaveMarker :: "string list option \<Rightarrow> bool" where
  "commentsHaveMarker comments = (case comments of None \<Rightarrow> False | Some cs \<Rightarrow> list_ex (\<lambda>c. comment_text c = ''gor:grain'') cs)"

definition hasGrainMarker :: "string list option \<Rightarrow> type_spec \<Rightarrow> bool" where
  "hasGrainMarker doc spec \<longleftrightarrow> commentsHaveMarker doc \<or> commentsHaveMarker (tsp_Doc spec)"

type_synonym import_map = "(string, go_import) gomap"

definition record_package :: "tpackage \<Rightarrow> import_map \<Rightarrow> import_map" where
  "record_package p = gm_put (tp_Path p) \<lparr>im_Name = tp_Name p, im_Path = tp_Path p\<rparr>"

definition recordImports :: "go_type \<Rightarrow> import_map \<Rightarrow> import_map" where
  "recordImports t = fold record_package (piece_packages (type_pieces t))"

record pendingParameter =
  pp_name :: string
  pp_typ :: go_type

record pendingMethod =
  pem_name :: string
  pem_reminder :: bool
  pem_params :: "pendingParameter list"
  pem_results :: "go_type list"

record pendingInterface =
  pi_name :: string
  pi_methods :: "pendingMethod list"

definition parameter_name :: "nat \<Rightarrow> variable \<Rightarrow> string" where
  "parameter_name i v = (if va_Name v = [] then ''arg'' @ itoa i else va_Name v)"

definition loadMethod :: "string \<Rightarrow> method_object \<Rightarrow> import_map \<Rightarrow> (pendingMethod \<times> import_map) result" where
  "loadMethod owner mo im =
     (case mo_Type mo of
        None \<Rightarrow> Inl (locatedError (mo_Pos mo) (owner @ ''.'' @ mo_Name mo @ '' has no method signature''))
      | Some sig \<Rightarrow>
          if sg_Params sig = [] \<or> \<not> isContext (va_Type (hd (sg_Params sig)))
          then Inl (locatedError (mo_Pos mo) (owner @ ''.'' @ mo_Name mo @ '' must have context.Context as its first parameter''))
          else if sg_Results sig = [] \<or> \<not> isError (va_Type (last (sg_Results sig)))
          then Inl (locatedError (mo_Pos mo) (owner @ ''.'' @ mo_Name mo @ '' must have error as its last result''))
          else Inr (\<lparr>pem_name = mo_Name mo, pem_reminder = isReminderMethod sig,
                     pem_params = map (\<lambda>(i, v). \<lparr>pp_name = parameter_name i v, pp_typ = va_Type v\<rparr>) (List.enumerate 0 (sg_Params sig)),
                     pem_results = map va_Type (sg_Results sig)\<rparr>,
                    fold (\<lambda>v. recordImports (va_Type v)) (sg_Params sig @ sg_Results sig) im))"

fun loadMethods :: "string \<Rightarrow> method_object list \<Rightarrow> import_map \<Rightarrow> (pendingMethod list \<times> import_map) result" where
  "loadMethods owner [] im = Inr ([], im)"
| "loadMethods owner (mo # mos) im =
     (case loadMethod owner mo im of
        Inl e \<Rightarrow> Inl e
      | Inr (pm, im1) \<Rightarrow>
          (case loadMethods owner mos im1 of
             Inl e \<Rightarrow> Inl e
           | Inr (pms, im2) \<Rightarrow> Inr (pm # pms, im2)))"

definition loadInterface :: "loaded_package \<Rightarrow> type_spec \<Rightarrow> import_map \<Rightarrow> (pendingInterface \<times> import_map) result" where
  "loadInterface pkg spec im =
     (case pk_Scope pkg (tsp_Name spec) of
        None \<Rightarrow> Inl (locatedError (tsp_Pos spec) (''type '' @ tsp_Name spec @ '' has no type information''))
      | Some OtherObject \<Rightarrow> Inl (locatedError (tsp_Pos spec) (''type '' @ tsp_Name spec @ '' has no type information''))
      | Some TypeObject \<Rightarrow> Inl (locatedError (tsp_Pos spec) (''type '' @ tsp_Name spec @ '' is not an interface''))
      | Some (InterfaceObject mos) \<Rightarrow>
          (case loadMethods (tsp_Name spec) mos im of
             Inl e \<Rightarrow> Inl e
           | Inr (pms, im') \<Rightarrow> Inr (\<lparr>pi_name = tsp_Name spec, pi_methods = pms\<rparr>, im')))"

text \<open>The marked specifications of a package, in the order of the files and declarations.\<close>

fun declared_grains :: "go_decl \<Rightarrow> type_spec list" where
  "declared_grains (TypeDecl doc specs) = filter (hasGrainMarker doc) specs"
| "declared_grains OtherDecl = []"

definition marked_specs :: "loaded_package \<Rightarrow> type_spec list" where
  "marked_specs pkg = concat (map (\<lambda>file. concat (map declared_grains file)) (pk_Syntax pkg))"

fun load_marked :: "loaded_package \<Rightarrow> type_spec list \<Rightarrow> import_map \<Rightarrow> (pendingInterface list \<times> import_map) result" where
  "load_marked pkg [] im = Inr ([], im)"
| "load_marked pkg (spec # specs) im =
     (if \<not> tsp_IsInterface spec
      then Inl (locatedError (tsp_Pos spec) (pk_Name pkg @ ''.'' @ tsp_Name spec @ '' is marked gor:grain but is not an interface''))
      else case loadInterface pkg spec im of
             Inl e \<Rightarrow> Inl e
           | Inr (entity, im1) \<Rightarrow>
               (case load_marked pkg specs im1 of
                  Inl e \<Rightarrow> Inl e
                | Inr (entities, im2) \<Rightarrow> Inr (entity # entities, im2)))"

section \<open>Names of imports\<close>

definition templateImportPaths :: "string list" where
  "templateImportPaths = [''context'', ''fmt'', gorPath]"

definition reserved_names :: "string list" where
  "reserved_names = [''context'', ''fmt'', ''gor'']"

definition countImportsNamed :: "import_map \<Rightarrow> string \<Rightarrow> nat" where
  "countImportsNamed im name = length (filter (\<lambda>(_, i). im_Name i = name) im)"

definition sanitizeIdentifier :: "unicode \<Rightarrow> string \<Rightarrow> string" where
  "sanitizeIdentifier u s =
     (let res = concat (map (\<lambda>r. if r = ''_'' \<or> is_letter u r \<or> is_digit_rune u r then r else ''_'') (string_runes s))
      in if res = [] then res
         else if is_digit_rune u (fst (decode_rune res)) then ''_'' @ res
         else res)"

definition aliasCandidate :: "unicode \<Rightarrow> go_import \<Rightarrow> nat \<Rightarrow> string" where
  "aliasCandidate u i depth =
     (let segments = go_split (CHR ''/'') (im_Path i)
      in if length segments < depth then []
         else sanitizeIdentifier u (concat (drop (length segments - depth) segments)))"

text \<open>One round of the allocation: the aliases given so far, the names in use, and the imports left over.\<close>

type_synonym alias_state = "(string, string) gomap \<times> string list \<times> go_import list"

definition propose_one :: "unicode \<Rightarrow> nat \<Rightarrow> go_import list \<Rightarrow> go_import \<Rightarrow> alias_state \<Rightarrow> alias_state" where
  "propose_one u depth remaining i st =
     (case st of (aliases, used, next) \<Rightarrow>
        let candidate = aliasCandidate u i depth;
            proposed = length (filter (\<lambda>j. aliasCandidate u j depth = candidate) remaining)
        in if candidate = [] \<or> 1 < proposed \<or> candidate \<in> set used then (aliases, used, next @ [i])
           else (gm_put (im_Path i) candidate aliases, candidate # used, next))"

definition alias_round :: "unicode \<Rightarrow> nat \<Rightarrow> alias_state \<Rightarrow> alias_state" where
  "alias_round u depth st =
     (case st of (aliases, used, remaining) \<Rightarrow> fold (propose_one u depth remaining) remaining (aliases, used, []))"

function alias_rounds :: "unicode \<Rightarrow> nat \<Rightarrow> nat \<Rightarrow> alias_state \<Rightarrow> alias_state" where
  "alias_rounds u depth deepest st =
     (if depth \<le> deepest \<and> snd (snd st) \<noteq> [] then alias_rounds u (Suc depth) deepest (alias_round u depth st) else st)"
  by pat_completeness auto
termination
  by (relation "measure (\<lambda>(u, depth, deepest, st). Suc deepest - depth)") auto

declare alias_rounds.simps [simp del]

text \<open>The loop over suffixes ends because the names in use are finitely many.\<close>

lemma finite_suffixes: "finite {j. k \<le> j \<and> name @ itoa j \<in> set used}"
  by (rule finite_imageD [of "\<lambda>j. name @ itoa j"])
    (auto intro: finite_subset [of _ "set used"] inj_onI dest: itoa_inj)

function suffix_from :: "string list \<Rightarrow> string \<Rightarrow> nat \<Rightarrow> string" where
  "suffix_from used name k =
     (let candidate = name @ itoa k in if candidate \<in> set used then suffix_from used name (Suc k) else candidate)"
  by pat_completeness auto
termination
proof (relation "measure (\<lambda>(used, name, k). card {j. k \<le> j \<and> name @ itoa j \<in> set used})")
  fix used name k x
  assume "x = name @ itoa k" and "x \<in> set used"
  then have "k \<in> {j. k \<le> j \<and> name @ itoa j \<in> set used}" by simp
  moreover have "{j. Suc k \<le> j \<and> name @ itoa j \<in> set used} = {j. k \<le> j \<and> name @ itoa j \<in> set used} - {k}"
    by auto
  ultimately show "((used, name, Suc k), used, name, k) \<in> measure (\<lambda>(used, name, k). card {j. k \<le> j \<and> name @ itoa j \<in> set used})"
    by (simp add: card_Diff1_less finite_suffixes del: card_Diff_insert)
qed simp

declare suffix_from.simps [simp del]

definition suffix_one :: "go_import \<Rightarrow> (string, string) gomap \<times> string list \<Rightarrow> (string, string) gomap \<times> string list" where
  "suffix_one i st =
     (case st of (aliases, used) \<Rightarrow>
        let candidate = suffix_from used (im_Name i) 2 in (gm_put (im_Path i) candidate aliases, candidate # used))"

definition collides :: "import_map \<Rightarrow> string \<Rightarrow> string \<Rightarrow> string \<times> go_import \<Rightarrow> bool" where
  "collides im sourceName sourcePath = (\<lambda>(path, i).
     path \<notin> set templateImportPaths \<and> path \<noteq> sourcePath \<and>
     (im_Name i \<in> set reserved_names \<or> im_Name i = sourceName \<or> 1 < countImportsNamed im (im_Name i)))"

definition conflicting_imports :: "import_map \<Rightarrow> string \<Rightarrow> string \<Rightarrow> go_import list" where
  "conflicting_imports im sourceName sourcePath =
     sort_key im_Path
       (map snd (filter (collides im sourceName sourcePath) im) @
        (if sourceName \<in> set reserved_names then [\<lparr>im_Name = sourceName, im_Path = sourcePath\<rparr>] else []))"

definition used_names :: "import_map \<Rightarrow> string \<Rightarrow> string list" where
  "used_names im sourceName = reserved_names @ sourceName # map (im_Name \<circ> snd) im"

definition deepest_path :: "go_import list \<Rightarrow> nat" where
  "deepest_path is = fold (\<lambda>i d. max d (length (go_split (CHR ''/'') (im_Path i)))) is 0"

definition effectiveImportNames :: "unicode \<Rightarrow> import_map \<Rightarrow> string \<Rightarrow> string \<Rightarrow> (string, string) gomap" where
  "effectiveImportNames u im sourceName sourcePath =
     (let conflicting = conflicting_imports im sourceName sourcePath
      in case alias_rounds u 1 (deepest_path conflicting) ([], used_names im sourceName, conflicting) of
           (aliases, used, remaining) \<Rightarrow> fst (fold suffix_one remaining (aliases, used)))"

section \<open>The loaded model\<close>

definition qualifier :: "(string, string) gomap \<Rightarrow> tpackage \<Rightarrow> string" where
  "qualifier aliases p = (case gm_get aliases (tp_Path p) of Some a \<Rightarrow> a | None \<Rightarrow> tp_Name p)"

definition materialize_method :: "(string, string) gomap \<Rightarrow> pendingMethod \<Rightarrow> method_model" where
  "materialize_method aliases m =
     \<lparr>mm_Name = pem_name m, mm_Reminder = pem_reminder m,
      mm_Params = map (\<lambda>p. \<lparr>pm_Name = pp_name p, pm_Type = TypeString (pp_typ p) (qualifier aliases)\<rparr>) (pem_params m),
      mm_Results = map (\<lambda>t. TypeString t (qualifier aliases)) (pem_results m)\<rparr>"

definition materialize :: "pendingInterface \<Rightarrow> (string, string) gomap \<Rightarrow> interface_model" where
  "materialize entity aliases =
     \<lparr>ifm_Name = pi_name entity, ifm_Methods = map (materialize_method aliases) (pi_methods entity)\<rparr>"

definition aliased_import :: "(string, string) gomap \<Rightarrow> string \<times> go_import \<Rightarrow> go_import" where
  "aliased_import aliases = (\<lambda>(path, i). case gm_get aliases path of Some a \<Rightarrow> i\<lparr>im_Name := a\<rparr> | None \<Rightarrow> i)"

definition model_imports :: "import_map \<Rightarrow> (string, string) gomap \<Rightarrow> go_import list" where
  "model_imports im aliases = sort_key im_Path (map (aliased_import aliases) im)"

definition build_model :: "unicode \<Rightarrow> loaded_package \<Rightarrow> pendingInterface list \<Rightarrow> import_map \<Rightarrow> model" where
  "build_model u pkg pending im =
     (let aliases = effectiveImportNames u im (pk_Name pkg) (pk_PkgPath pkg)
      in \<lparr>md_PackageName = ''gorgen'', md_SourcePackageName = pk_Name pkg,
          md_SourceImportName = (case gm_get aliases (pk_PkgPath pkg) of Some a \<Rightarrow> a | None \<Rightarrow> []),
          md_SourceImportPath = pk_PkgPath pkg, md_Imports = model_imports im aliases,
          md_Interfaces = map (\<lambda>entity. materialize entity aliases) pending\<rparr>)"

record loaded =
  ld_Model :: model
  ld_Dir :: string

text \<open>\<open>packages\<close> is what \<open>packages.Load\<close> returned for the pattern.\<close>

definition Load :: "unicode \<Rightarrow> string \<Rightarrow> loaded_package list result \<Rightarrow> loaded result" where
  "Load u pattern packages =
     (case packages of
        Inl e \<Rightarrow> Inl e
      | Inr [pkg] \<Rightarrow>
          if pk_Errors pkg \<noteq> [] then Inl (NewErr (''load '' @ pk_PkgPath pkg @ '': '' @ hd (pk_Errors pkg)))
          else if \<not> pk_HasTypes pkg \<or> pk_GoFiles pkg = []
          then Inl (NewErr (''load '' @ pk_PkgPath pkg @ '': package has no type information''))
          else (case load_marked pkg (marked_specs pkg) [] of
                  Inl e \<Rightarrow> Inl e
                | Inr (pending, im) \<Rightarrow>
                    if pending = [] then Inl (NewErr (''package '' @ pk_PkgPath pkg @ '' contains no gor:grain interfaces''))
                    else Inr \<lparr>ld_Model = build_model u pkg pending im,
                              ld_Dir = filepath_Dir (hd (if pk_CompiledGoFiles pkg = [] then pk_GoFiles pkg else pk_CompiledGoFiles pkg))\<rparr>)
      | Inr ps \<Rightarrow> Inl (NewErr (''pattern '' @ go_quote pattern @ '' loaded '' @ itoa (length ps) @ '' packages, want one'')))"

section \<open>The allocation of names\<close>

text \<open>An import map is keyed by the path of its entries.\<close>

definition imports_ok :: "import_map \<Rightarrow> bool" where
  "imports_ok im \<longleftrightarrow> gm_ok im \<and> (\<forall>(path, i) \<in> set im. im_Path i = path)"

text \<open>
  What every step of the allocation keeps: the aliases are pairwise different names, none of them empty or one of the
  names \<open>base\<close> in use from the start, and the names in use are those and the aliases.
\<close>

definition alloc_inv :: "string set \<Rightarrow> (string, string) gomap \<Rightarrow> string list \<Rightarrow> bool" where
  "alloc_inv base a used \<longleftrightarrow>
     gm_ok a \<and> distinct (map snd a) \<and> set used = base \<union> set (map snd a) \<and> base \<inter> set (map snd a) = {} \<and> [] \<notin> set (map snd a)"

text \<open>The imports \<open>todo\<close> have different paths, none with an alias yet; with the aliases they make up \<open>paths\<close>.\<close>

definition todo_inv :: "string set \<Rightarrow> (string, string) gomap \<Rightarrow> go_import list \<Rightarrow> bool" where
  "todo_inv paths a todo \<longleftrightarrow>
     distinct (map im_Path todo) \<and> set (map im_Path todo) \<inter> fst ` set a = {} \<and> set (map im_Path todo) \<union> fst ` set a = paths"

lemma alloc_inv_put:
  assumes "alloc_inv base a used" and "todo_inv paths a (xs @ i # ys)" and "c \<notin> set used" and "c \<noteq> []"
  shows "alloc_inv base (gm_put (im_Path i) c a) (c # used) \<and> todo_inv paths (gm_put (im_Path i) c a) (xs @ ys)"
proof -
  have "gm_put (im_Path i) c a = a @ [(im_Path i, c)]"
    using assms(2) by (intro gm_put_absent) (auto simp: todo_inv_def)
  then show ?thesis
    using assms by (auto simp: alloc_inv_def todo_inv_def gm_ok_def)
qed

lemma propose_fold_inv:
  assumes "alloc_inv base a used" and "todo_inv paths a (next @ xs)"
    and "fold (propose_one u d rem) xs (a, used, next) = (a', used', next')"
  shows "alloc_inv base a' used' \<and> todo_inv paths a' next'"
  using assms
proof (induction xs arbitrary: a used "next")
  case (Cons i xs)
  let ?c = "aliasCandidate u i d"
  show ?case
  proof (cases "?c = [] \<or> 1 < length (filter (\<lambda>j. aliasCandidate u j d = ?c) rem) \<or> ?c \<in> set used")
    case True
    then have "propose_one u d rem i (a, used, next) = (a, used, next @ [i])"
      by (auto simp: propose_one_def Let_def)
    with Cons.prems show ?thesis by (intro Cons.IH) auto
  next
    case False
    then have "propose_one u d rem i (a, used, next) = (gm_put (im_Path i) ?c a, ?c # used, next)"
      by (auto simp: propose_one_def Let_def)
    with Cons.prems alloc_inv_put [OF Cons.prems(1,2)] False show ?thesis
      by (intro Cons.IH) auto
  qed
qed simp

lemma alias_rounds_inv:
  assumes "alloc_inv base a used" and "todo_inv paths a todo" and "alias_rounds u d n (a, used, todo) = (a', used', todo')"
  shows "alloc_inv base a' used' \<and> todo_inv paths a' todo'"
  using assms
proof (induction "Suc n - d" arbitrary: d a used todo)
  case 0
  then show ?case by (simp add: alias_rounds.simps [of u d])
next
  case (Suc k)
  obtain b us td where r: "alias_round u d (a, used, todo) = (b, us, td)" by (metis prod_cases3)
  then have "alloc_inv base b us \<and> todo_inv paths b td"
    using propose_fold_inv [of base a used paths "[]" todo u d todo] Suc.prems by (simp add: alias_round_def)
  then show ?case
    using Suc.hyps(1) [of "Suc d" b us td] Suc.hyps(2) Suc.prems r
    by (subst (asm) alias_rounds.simps) (auto split: if_splits)
qed

lemma suffix_from_fresh: "suffix_from used name k \<notin> set used \<and> suffix_from used name k \<noteq> []"
proof (induction used name k rule: suffix_from.induct)
  case (1 used name k)
  have "itoa k \<noteq> []" by (subst itoa.simps) simp
  with 1 show ?case by (subst (1 2) suffix_from.simps) (simp add: Let_def)
qed

lemma suffix_fold_inv:
  assumes "alloc_inv base a used" and "todo_inv paths a xs" and "fold suffix_one xs (a, used) = (a', used')"
  shows "alloc_inv base a' used' \<and> fst ` set a' = paths"
  using assms
proof (induction xs arbitrary: a used)
  case Nil
  then show ?case by (simp add: todo_inv_def)
next
  case (Cons i xs)
  let ?c = "suffix_from used (im_Name i) 2"
  have "alloc_inv base (gm_put (im_Path i) ?c a) (?c # used) \<and> todo_inv paths (gm_put (im_Path i) ?c a) xs"
    using alloc_inv_put [of base a used paths "[]" i xs ?c] Cons.prems suffix_from_fresh by auto
  with Cons.prems(3) show ?case
    by (intro Cons.IH) (auto simp: suffix_one_def Let_def)
qed

lemma conflicting_imports_paths:
  assumes "imports_ok im"
  shows "distinct (map im_Path (conflicting_imports im name path))"
    and "set (conflicting_imports im name path) = snd ` {x \<in> set im. collides im name path x} \<union>
      (if name \<in> set reserved_names then {\<lparr>im_Name = name, im_Path = path\<rparr>} else {})"
proof -
  let ?f = "filter (collides im name path) im"
  have keys: "map (im_Path \<circ> snd) ?f = map fst ?f"
    using assms by (auto simp: imports_ok_def)
  then have "distinct (map im_Path (map snd ?f))"
    using assms unfolding map_map keys by (simp add: imports_ok_def gm_ok_def distinct_map_filter)
  moreover have "path \<notin> set (map im_Path (map snd ?f))"
    unfolding map_map keys by (auto simp: collides_def)
  ultimately have "distinct (map im_Path (map snd ?f @ (if name \<in> set reserved_names then [\<lparr>im_Name = name, im_Path = path\<rparr>] else [])))"
    by auto
  then show "distinct (map im_Path (conflicting_imports im name path))"
    unfolding conflicting_imports_def distinct_map by simp
  show "set (conflicting_imports im name path) = snd ` {x \<in> set im. collides im name path x} \<union>
      (if name \<in> set reserved_names then {\<lparr>im_Name = name, im_Path = path\<rparr>} else {})"
    by (auto simp: conflicting_imports_def)
qed

lemma effectiveImportNames_spec:
  fixes u name path
  assumes "imports_ok im"
  defines "a \<equiv> effectiveImportNames u im name path"
  shows "gm_ok a" and "distinct (map snd a)" and "set (map snd a) \<inter> set (used_names im name) = {}" and "[] \<notin> set (map snd a)"
    and "fst ` set a = im_Path ` set (conflicting_imports im name path)"
proof -
  let ?c = "conflicting_imports im name path"
  obtain b us td where r: "alias_rounds u 1 (deepest_path ?c) ([], used_names im name, ?c) = (b, us, td)"
    by (metis prod_cases3)
  obtain a' us' where f': "fold suffix_one td (b, us) = (a', us')" by fastforce
  then have f: "fold suffix_one td (b, us) = (a, us')"
    using r by (simp add: a_def effectiveImportNames_def)
  have "alloc_inv (set (used_names im name)) [] (used_names im name)" and "todo_inv (im_Path ` set ?c) [] ?c"
    using conflicting_imports_paths(1) [OF assms(1), of name path] by (auto simp: alloc_inv_def todo_inv_def gm_ok_def)
  from alias_rounds_inv [OF this r] suffix_fold_inv [OF _ _ f]
  have "alloc_inv (set (used_names im name)) a us' \<and> fst ` set a = im_Path ` set ?c" by blast
  then show "gm_ok a" "distinct (map snd a)" "set (map snd a) \<inter> set (used_names im name) = {}" "[] \<notin> set (map snd a)"
    "fst ` set a = im_Path ` set ?c"
    by (auto simp: alloc_inv_def)
qed

section \<open>Order and stability\<close>

text \<open>
  The same allocation with more names in use comes out the same, unless one of the extra names was given as an
  alias. With no extra names: only the set of names in use matters.
\<close>

lemma propose_one_used: "set (fst (snd st)) \<subseteq> set (fst (snd (propose_one u d rem i st)))"
  by (auto simp: propose_one_def Let_def split: prod.splits)

lemma propose_fold_used: "set (fst (snd st)) \<subseteq> set (fst (snd (fold (propose_one u d rem) xs st)))"
proof (induction xs arbitrary: st)
  case (Cons i xs)
  show ?case
    using subset_trans [OF propose_one_used [of st u d rem i] Cons.IH] by simp
qed simp

lemma propose_fold_extra:
  assumes "fold (propose_one u d rem) xs (a, used, next) = (a1, used1, next1)" and "set extra = set used \<union> N" and "N \<inter> set used1 \<subseteq> set used"
  shows "\<exists>extra1. fold (propose_one u d rem) xs (a, extra, next) = (a1, extra1, next1) \<and> set extra1 = set used1 \<union> N"
  using assms
proof (induction xs arbitrary: a used extra "next")
  case (Cons i xs)
  let ?c = "aliasCandidate u i d"
  let ?p = "propose_one u d rem i"
  obtain b us nx where p: "?p (a, used, next) = (b, us, nx)" by (metis prod_cases3)
  with Cons.prems(1) have f: "fold (propose_one u d rem) xs (b, us, nx) = (a1, used1, next1)" by simp
  then have mono: "set us \<subseteq> set used1" using propose_fold_used [of "(b, us, nx)" u d rem xs] by simp
  have "\<exists>ex. ?p (a, extra, next) = (b, ex, nx) \<and> set ex = set us \<union> N"
    using p mono Cons.prems(2,3) by (auto simp: propose_one_def Let_def split: if_splits)
  then obtain ex where "?p (a, extra, next) = (b, ex, nx)" and "set ex = set us \<union> N" by blast
  moreover have "set used \<subseteq> set us" using p by (auto simp: propose_one_def Let_def split: if_splits)
  ultimately show ?case using Cons.IH [OF f, of ex] Cons.prems(3) by auto
qed simp

lemma alias_round_used: "set (fst (snd st)) \<subseteq> set (fst (snd (alias_round u d st)))"
  using propose_fold_used by (auto simp: alias_round_def split: prod.splits) (metis (no_types, lifting) fst_conv snd_conv subsetD)

lemma alias_rounds_used: "set (fst (snd st)) \<subseteq> set (fst (snd (alias_rounds u d n st)))"
proof (induction u d n st rule: alias_rounds.induct)
  case (1 u d n st)
  then show ?case
    using alias_round_used [of st u d] by (subst alias_rounds.simps) (auto 0 3)
qed

lemma alias_rounds_extra:
  assumes "alias_rounds u d n (a, used, todo) = (a1, used1, todo1)" and "set extra = set used \<union> N" and "N \<inter> set used1 \<subseteq> set used"
  shows "\<exists>extra1. alias_rounds u d n (a, extra, todo) = (a1, extra1, todo1) \<and> set extra1 = set used1 \<union> N"
  using assms
proof (induction "Suc n - d" arbitrary: d a used extra todo)
  case 0
  then show ?case by (auto simp: alias_rounds.simps [of u d])
next
  case (Suc k)
  show ?case
  proof (cases "todo = []")
    case True
    with Suc.prems show ?thesis by (auto simp: alias_rounds.simps [of u d])
  next
    case False
    obtain b us td where r: "alias_round u d (a, used, todo) = (b, us, td)" by (metis prod_cases3)
    then have f: "fold (propose_one u d todo) todo (a, used, []) = (b, us, td)" by (simp add: alias_round_def)
    from Suc.hyps(2) False have step: "alias_rounds u d n (a, us', todo) = alias_rounds u (Suc d) n (alias_round u d (a, us', todo))" for us'
      by (subst alias_rounds.simps) auto
    with Suc.prems(1) r have rest: "alias_rounds u (Suc d) n (b, us, td) = (a1, used1, todo1)" by simp
    have "set us \<subseteq> set used1" using alias_rounds_used [of "(b, us, td)" u "Suc d" n] rest by simp
    moreover have "set used \<subseteq> set us" using alias_round_used [of "(a, used, todo)" u d] r by simp
    ultimately have "N \<inter> set us \<subseteq> set used" and n: "N \<inter> set used1 \<subseteq> set us" using Suc.prems(3) by auto
    from propose_fold_extra [OF f Suc.prems(2) this(1)] obtain ex
      where "alias_round u d (a, extra, todo) = (b, ex, td)" and ex: "set ex = set us \<union> N" by (auto simp: alias_round_def)
    then show ?thesis
      using Suc.hyps(1) [OF _ rest ex n] Suc.hyps(2) step by auto
  qed
qed

lemma suffix_from_extra:
  assumes "set extra = set used \<union> N" and "suffix_from used name k \<notin> N"
  shows "suffix_from extra name k = suffix_from used name k"
  using assms
proof (induction used name k rule: suffix_from.induct)
  case (1 used name k)
  then show ?case
    by (subst (1 2) suffix_from.simps) (auto simp: Let_def suffix_from.simps [of used name k])
qed

lemma suffix_fold_used: "set (snd st) \<subseteq> set (snd (fold suffix_one xs st))"
proof (induction xs arbitrary: st)
  case (Cons i xs)
  have "set (snd st) \<subseteq> set (snd (suffix_one i st))" by (auto simp: suffix_one_def Let_def split: prod.splits)
  from subset_trans [OF this Cons.IH] show ?case by simp
qed simp

lemma suffix_one_eq:
  "suffix_one i (a, used) = (gm_put (im_Path i) (suffix_from used (im_Name i) 2) a, suffix_from used (im_Name i) 2 # used)"
  by (simp add: suffix_one_def Let_def)

lemma suffix_fold_extra:
  assumes "fold suffix_one xs (a, used) = (a1, used1)" and "set extra = set used \<union> N" and "N \<inter> set used1 \<subseteq> set used"
  shows "fst (fold suffix_one xs (a, extra)) = a1"
  using assms
proof (induction xs arbitrary: a used extra)
  case (Cons i xs)
  let ?c = "suffix_from used (im_Name i) 2"
  have f: "fold suffix_one xs (gm_put (im_Path i) ?c a, ?c # used) = (a1, used1)"
    using Cons.prems(1) by (simp add: suffix_one_eq)
  then have "set (?c # used) \<subseteq> set used1" using suffix_fold_used [of "(gm_put (im_Path i) ?c a, ?c # used)" xs] by simp
  then have "?c \<notin> N" using suffix_from_fresh [of used "im_Name i" 2] Cons.prems(3) by auto
  from suffix_from_extra [OF Cons.prems(2) this] Cons.IH [OF f, of "?c # extra"] Cons.prems(2,3) show ?case
    by (auto simp: suffix_one_eq)
qed simp

lemma effectiveImportNames_extra:
  assumes ok: "imports_ok im" and conf: "conflicting_imports im' name path = conflicting_imports im name path"
    and used: "set (used_names im' name) = set (used_names im name) \<union> N"
    and fresh: "N \<inter> set (map snd (effectiveImportNames u im name path)) = {}"
  shows "effectiveImportNames u im' name path = effectiveImportNames u im name path"
proof -
  let ?c = "conflicting_imports im name path"
  let ?b = "set (used_names im name)"
  obtain b us td where r: "alias_rounds u 1 (deepest_path ?c) ([], used_names im name, ?c) = (b, us, td)"
    by (metis prod_cases3)
  obtain a us' where f: "fold suffix_one td (b, us) = (a, us')" by fastforce
  have eff: "effectiveImportNames u im name path = a" using r f by (simp add: effectiveImportNames_def)
  have "alloc_inv ?b [] (used_names im name)" and "todo_inv (im_Path ` set ?c) [] ?c"
    using conflicting_imports_paths(1) [OF ok, of name path] by (auto simp: alloc_inv_def todo_inv_def gm_ok_def)
  from alias_rounds_inv [OF this r] suffix_fold_inv [OF _ _ f] have "alloc_inv ?b a us'" by blast
  then have "set us' = ?b \<union> set (map snd a)" by (simp add: alloc_inv_def)
  then have n: "N \<inter> set us' \<subseteq> ?b" using fresh eff by auto
  have "set us \<subseteq> set us'" using suffix_fold_used [of "(b, us)" td] f by simp
  moreover have b: "?b \<subseteq> set us" using alias_rounds_used [of "([], used_names im name, ?c)" u 1 "deepest_path ?c"] r by simp
  ultimately have "N \<inter> set us \<subseteq> ?b" using n by auto
  from alias_rounds_extra [OF r used this] obtain ex
    where "alias_rounds u 1 (deepest_path ?c) ([], used_names im' name, ?c) = (b, ex, td)" and ex: "set ex = set us \<union> N" by blast
  then show ?thesis
    using suffix_fold_extra [OF f ex] n b conf eff by (auto simp: effectiveImportNames_def)
qed

lemma used_names_set: "set (used_names im name) = set reserved_names \<union> {name} \<union> (im_Name \<circ> snd) ` set im"
  by (auto simp: used_names_def)

lemma countImportsNamed_mset: "countImportsNamed im n = size (filter_mset (\<lambda>(_, i). im_Name i = n) (mset im))"
  by (simp add: countImportsNamed_def flip: mset_filter)

lemma conflicting_imports_mset:
  assumes ok: "imports_ok im" and conf: "filter_mset (collides im' name path) (mset im') = filter_mset (collides im name path) (mset im)"
  shows "conflicting_imports im' name path = conflicting_imports im name path"
proof -
  let ?l = "\<lambda>im. map snd (filter (collides im name path) im) @ (if name \<in> set reserved_names then [\<lparr>im_Name = name, im_Path = path\<rparr>] else [])"
  have "mset (?l im') = mset (?l im)" using conf by (simp flip: mset_filter)
  moreover have "inj_on im_Path (set (?l im))"
    using conflicting_imports_paths(1) [OF ok, of name path] by (simp add: conflicting_imports_def distinct_map)
  ultimately show ?thesis unfolding conflicting_imports_def by (metis sort_key_mset_cong)
qed

lemma aliased_paths: "imports_ok im \<Longrightarrow> map im_Path (map (aliased_import aliases) im) = map fst im"
  by (auto simp: imports_ok_def aliased_import_def split: option.splits)

text \<open>
  C39. The aliases are a function of the set of imports: they do not depend on the order in which the maps are
  iterated, as the comment of \<open>effectiveImportNames\<close> says, and neither does the list of imports of the model.
\<close>

theorem aliases_order_free:
  assumes "imports_ok im" and "mset im' = mset im"
  shows "effectiveImportNames u im' name path = effectiveImportNames u im name path \<and>
    model_imports im' (effectiveImportNames u im' name path) = model_imports im (effectiveImportNames u im name path)"
proof -
  have sets: "set im' = set im" using assms(2) by (metis set_mset_mset)
  have "countImportsNamed im' = countImportsNamed im" using assms(2) by (simp add: countImportsNamed_mset fun_eq_iff)
  then have "conflicting_imports im' name path = conflicting_imports im name path"
    using assms by (intro conflicting_imports_mset) (auto simp: collides_def)
  then have eff: "effectiveImportNames u im' name path = effectiveImportNames u im name path"
    using assms(1) sets by (intro effectiveImportNames_extra [where N = "{}"]) (auto simp: used_names_set)
  have "distinct (map im_Path (map (aliased_import (effectiveImportNames u im name path)) im))"
    using assms(1) unfolding aliased_paths [OF assms(1)] by (simp add: imports_ok_def gm_ok_def)
  then show ?thesis
    using eff assms(2) unfolding model_imports_def distinct_map by (metis mset_map sort_key_mset_cong)
qed

text \<open>
  An import that is new and collides with nothing leaves every other name of the generated file as it was: its name
  is no reserved name, not the name of the source package, not the name of another import and not an alias in use.
\<close>

theorem new_import_stable:
  assumes "imports_ok im" and "mset im' = add_mset (im_Path i, i) (mset im)"
    and "im_Name i \<notin> set (used_names im name)" and "im_Name i \<notin> set (map snd (effectiveImportNames u im name path))"
  shows "effectiveImportNames u im' name path = effectiveImportNames u im name path"
proof (rule effectiveImportNames_extra [where N = "{im_Name i}"])
  have sets: "set im' = insert (im_Path i, i) (set im)" using assms(2) by (metis set_mset_add_mset_insert set_mset_mset)
  then show "set (used_names im' name) = set (used_names im name) \<union> {im_Name i}" by (auto simp: used_names_set)
  have count: "countImportsNamed im' n = countImportsNamed im n + (if n = im_Name i then 1 else 0)" for n
    using assms(2) by (simp add: countImportsNamed_mset)
  have "countImportsNamed im (im_Name i) = 0"
    using assms(3) by (force simp: countImportsNamed_def used_names_set filter_empty_conv)
  then have new: "\<not> collides im' name path (im_Path i, i)"
    using assms(3) by (auto simp: collides_def count used_names_set)
  have old: "x \<in> set im \<Longrightarrow> collides im' name path x = collides im name path x" for x
    using assms(3) by (force simp: collides_def count used_names_set)
  from new old assms(1,2) show "conflicting_imports im' name path = conflicting_imports im name path"
    by (intro conflicting_imports_mset) (auto intro!: filter_mset_cong)
qed (use assms in auto)

section \<open>Concrete imports\<close>

definition demo_import :: "string \<Rightarrow> string \<Rightarrow> string \<times> go_import" where
  "demo_import name path = (path, \<lparr>im_Name = name, im_Path = path\<rparr>)"

text \<open>
  A new import can change the names of imports that were there before: with the second package of the same name the
  first one is aliased too, although \<open>design/codegen.md\<close> says that adding an import never changes existing lines of
  a generated file.
\<close>

theorem new_import_churns:
  "effectiveImportNames u [demo_import ''domain'' ''a/domain''] ''shop'' ''x/shop'' = [] \<and>
   effectiveImportNames u [demo_import ''domain'' ''a/domain'', demo_import ''domain'' ''b/domain''] ''shop'' ''x/shop'' =
     [(''a/domain'', ''adomain''), (''b/domain'', ''bdomain'')]"
  by code_simp

text \<open>
  The alias of an import can be a keyword of Go, so that the generated file does not parse: the last segment of the
  path is taken as it is, although the comment of \<open>aliasCandidate\<close> says that it is made into an identifier.
\<close>

theorem alias_can_be_keyword:
  "effectiveImportNames u [demo_import ''jsoniter'' ''github.com/json-iterator/go''] ''jsoniter'' ''x/jsoniter'' =
     [(''github.com/json-iterator/go'', ''go'')]"
  by code_simp

definition ascii_only :: unicode where
  "ascii_only = \<lparr>uc_letter = \<lambda>_. False, uc_digit = \<lambda>_. False, uc_lower = \<lambda>r. r\<rparr>"

definition two_domains :: import_map where
  "two_domains = [demo_import ''domain'' ''a/domain'', demo_import ''domain'' ''b/domain'']"

lemma two_domains_ok: "imports_ok two_domains"
  by (simp add: two_domains_def demo_import_def imports_ok_def gm_ok_def)

lemma two_domains_aliases: "effectiveImportNames u two_domains ''shop'' ''x/shop'' = [(''a/domain'', ''adomain''), (''b/domain'', ''bdomain'')]"
  by code_simp

theorem aliases_order_free_witness:
  "imports_ok two_domains \<and> mset (rev two_domains) = mset two_domains \<and>
   effectiveImportNames ascii_only (rev two_domains) ''shop'' ''x/shop'' = [(''a/domain'', ''adomain''), (''b/domain'', ''bdomain'')]"
  using aliases_order_free [OF two_domains_ok, of "rev two_domains" ascii_only "''shop''" "''x/shop''"] two_domains_ok
  by (simp add: two_domains_aliases)

theorem new_import_stable_witness:
  "effectiveImportNames ascii_only (demo_import ''billing'' ''c/billing'' # two_domains) ''shop'' ''x/shop'' =
     [(''a/domain'', ''adomain''), (''b/domain'', ''bdomain'')]"
proof -
  let ?i = "snd (demo_import ''billing'' ''c/billing'')"
  have "mset (demo_import ''billing'' ''c/billing'' # two_domains) = add_mset (im_Path ?i, ?i) (mset two_domains)"
    by (simp add: demo_import_def)
  moreover have "im_Name ?i \<notin> set (used_names two_domains ''shop'')"
    by (simp add: used_names_def reserved_names_def two_domains_def demo_import_def)
  moreover have "im_Name ?i \<notin> set (map snd (effectiveImportNames ascii_only two_domains ''shop'' ''x/shop''))"
    by (simp add: two_domains_aliases demo_import_def)
  ultimately have "effectiveImportNames ascii_only (demo_import ''billing'' ''c/billing'' # two_domains) ''shop'' ''x/shop'' = effectiveImportNames ascii_only two_domains ''shop'' ''x/shop''"
    by (rule new_import_stable [OF two_domains_ok])
  then show ?thesis by (simp add: two_domains_aliases)
qed

end
