(* ===== verification/Gor_Render.thy ===== *)
theory Gor_Render
  imports Gor_Codegen
begin

text \<open>
  The rendering of the loaded model, \<open>internal/codegen/render.go\<close>: the names and strings the template is filled
  with, the template itself, and the command \<open>gorgen\<close>. A panic is \<open>None\<close>. The theorems follow a package
  from the loader to the import block of the generated file.
\<close>

section \<open>What the template is filled with\<close>

record renderResult =
  rr_Name :: string
  rr_Type :: string

record renderAssignment =
  ra_Field :: string
  ra_Value :: string

record renderMethod =
  rme_Name :: string
  rme_Reminder :: bool
  rme_Params :: string
  rme_Results :: string
  rme_ContextName :: string
  rme_Args :: string
  rme_ArgsName :: string
  rme_ReplyName :: string
  rme_ReplyPointer :: string
  rme_DispatchCall :: string
  rme_ResultNames :: string
  rme_ReplyFields :: "renderResult list"
  rme_ArgsFields :: "renderResult list"
  rme_ReplyAssignments :: "renderAssignment list"
  rme_HasValues :: bool

record renderInterface =
  rif_Name :: string
  rif_ProxyName :: string
  rif_DispatchName :: string
  rif_ConstructorName :: string
  rif_Methods :: "renderMethod list"

record renderModel =
  rm_PackageName :: string
  rm_SourcePackage :: string
  rm_SourceImportPath :: string
  rm_SourceImportName :: string
  rm_Imports :: "go_import list"
  rm_Interfaces :: "renderInterface list"

definition lowerFirst :: "unicode \<Rightarrow> string \<Rightarrow> string" where
  "lowerFirst u s = (case decode_rune s of (r, n) \<Rightarrow> to_lower u r @ drop n s)"

definition joinParameters :: "param_model list \<Rightarrow> string" where
  "joinParameters params = go_join '', '' (map (\<lambda>p. pm_Name p @ '' '' @ pm_Type p) params)"

definition joinResults :: "string list \<Rightarrow> string" where
  "joinResults results = (if length results = 1 then hd results else ''('' @ go_join '', '' results @ '')'')"

definition joinArgs :: "string \<Rightarrow> param_model list \<Rightarrow> string" where
  "joinArgs name params =
     ''&'' @ name @ ''{'' @ go_join '', '' (map (\<lambda>(i, p). ''A'' @ itoa i @ '': '' @ pm_Name p) (List.enumerate 0 params)) @ ''}''"

definition dispatchArguments :: "param_model list \<Rightarrow> string" where
  "dispatchArguments params =
     (if params = [] then []
      else '', '' @ go_join '', '' (map (\<lambda>i. ''typedArgs.A'' @ itoa i) [0 ..< length params]))"

definition dispatchCall :: "method_model \<Rightarrow> string list \<Rightarrow> string" where
  "dispatchCall m result_values =
     go_join '', '' (map (\<lambda>i. ''r'' @ itoa i) [0 ..< length result_values] @ [''err'']) @ '' := '' @
     ''instance.'' @ mm_Name m @ ''(ctx'' @ dispatchArguments (tl (mm_Params m)) @ '')''"

text \<open>Slicing the empty list of results and indexing the empty list of parameters panics.\<close>

definition prepareMethod :: "unicode \<Rightarrow> interface_model \<Rightarrow> method_model \<Rightarrow> renderMethod option" where
  "prepareMethod u entity m =
     (if mm_Results m = [] \<or> mm_Params m = [] then None
      else
        let result_values = butlast (mm_Results m);
            args_name = lowerFirst u (ifm_Name entity) @ mm_Name m @ ''Request'';
            reply_fields = map (\<lambda>(i, t). \<lparr>rr_Name = ''R'' @ itoa i, rr_Type = t\<rparr>) (List.enumerate 0 result_values)
        in Some \<lparr>rme_Name = mm_Name m, rme_Reminder = mm_Reminder m, rme_Params = joinParameters (mm_Params m),
                 rme_Results = joinResults (mm_Results m), rme_ContextName = pm_Name (hd (mm_Params m)),
                 rme_Args = joinArgs args_name (tl (mm_Params m)), rme_ArgsName = args_name,
                 rme_ReplyName = lowerFirst u (ifm_Name entity) @ mm_Name m @ ''Reply'', rme_ReplyPointer = ''&reply'',
                 rme_DispatchCall = dispatchCall m result_values,
                 rme_ResultNames = go_join '', '' (map (\<lambda>f. ''reply.'' @ rr_Name f) reply_fields),
                 rme_ReplyFields = reply_fields,
                 rme_ArgsFields = map (\<lambda>(i, p). \<lparr>rr_Name = ''A'' @ itoa i, rr_Type = pm_Type p\<rparr>) (List.enumerate 0 (tl (mm_Params m))),
                 rme_ReplyAssignments =
                   map (\<lambda>i. \<lparr>ra_Field = ''R'' @ itoa i, ra_Value = ''r'' @ itoa i\<rparr>) [0 ..< length result_values],
                 rme_HasValues = (result_values \<noteq> [])\<rparr>)"

definition renderImports :: "model \<Rightarrow> go_import list" where
  "renderImports m =
     sort_key im_Path (filter (\<lambda>i. im_Path i \<notin> {''context'', ''fmt'', gorPath, md_SourceImportPath m}) (md_Imports m))"

definition prepareInterface :: "unicode \<Rightarrow> interface_model \<Rightarrow> renderInterface option" where
  "prepareInterface u entity =
     (case those (map (prepareMethod u entity) (ifm_Methods entity)) of
        None \<Rightarrow> None
      | Some ms \<Rightarrow>
          Some \<lparr>rif_Name = ifm_Name entity, rif_ProxyName = lowerFirst u (ifm_Name entity) @ ''Proxy'',
                rif_DispatchName = ''dispatch'' @ ifm_Name entity, rif_ConstructorName = ''new'' @ ifm_Name entity @ ''Proxy'',
                rif_Methods = ms\<rparr>)"

definition prepare :: "unicode \<Rightarrow> model \<Rightarrow> renderModel option" where
  "prepare u m =
     (case those (map (prepareInterface u) (md_Interfaces m)) of
        None \<Rightarrow> None
      | Some es \<Rightarrow>
          Some \<lparr>rm_PackageName = md_PackageName m,
                rm_SourcePackage = (if md_SourceImportName m \<noteq> [] then md_SourceImportName m else md_SourcePackageName m),
                rm_SourceImportPath = md_SourceImportPath m, rm_SourceImportName = md_SourceImportName m,
                rm_Imports = renderImports m, rm_Interfaces = es\<rparr>)"

section \<open>The template\<close>

abbreviation (input) nl :: string where "nl \<equiv> [CHR 0x0A]"
abbreviation (input) tab :: string where "tab \<equiv> [CHR 0x09]"
abbreviation (input) dquote :: string where "dquote \<equiv> [CHR 0x22]"

definition quoted :: "string \<Rightarrow> string" where "quoted s = dquote @ s @ dquote"

definition field_line :: "renderResult \<Rightarrow> string" where
  "field_line f = tab @ rr_Name f @ '' '' @ rr_Type f @ nl"

definition import_block :: "renderModel \<Rightarrow> string" where
  "import_block m =
     ''import ('' @ nl @ tab @ quoted ''context'' @ nl @ tab @ quoted ''fmt'' @ nl @ nl @ tab @ quoted gorPath @ nl @ tab @
     (if rm_SourceImportName m \<noteq> [] then rm_SourceImportName m @ '' '' else []) @ quoted (rm_SourceImportPath m) @ nl @ tab @
     concat (map (\<lambda>i. im_Name i @ '' '' @ quoted (im_Path i) @ nl @ tab) (rm_Imports m)) @ nl @ '')'' @ nl @ nl"

definition method_text :: "renderInterface \<Rightarrow> renderMethod \<Rightarrow> string" where
  "method_text e m =
     nl @
     (if rme_ArgsFields m \<noteq> []
      then ''type '' @ rme_ArgsName m @ '' struct {'' @ nl @ concat (map field_line (rme_ArgsFields m)) @ nl @ ''}''
      else ''type '' @ rme_ArgsName m @ '' struct{}'') @ nl @
     (if rme_ReplyFields m \<noteq> []
      then ''type '' @ rme_ReplyName m @ '' struct {'' @ nl @ concat (map field_line (rme_ReplyFields m)) @ ''}''
      else ''type '' @ rme_ReplyName m @ '' struct{}'') @ nl @
     ''func (p *'' @ rif_ProxyName e @ '') '' @ rme_Name m @ ''('' @ rme_Params m @ '') '' @ rme_Results m @ '' {'' @ nl @
     tab @ ''var reply '' @ rme_ReplyName m @ nl @
     tab @ ''err := p.rt.Invoke('' @ rme_ContextName m @ '', p.id, '' @ quoted (rme_Name m) @ '', '' @ rme_Args m @ '', '' @
       rme_ReplyPointer m @ '')'' @ nl @
     (if rme_HasValues m then tab @ ''return '' @ rme_ResultNames m @ '', err'' @ nl else tab @ ''return err'' @ nl) @ ''}'' @ nl"

definition dispatch_case :: "renderMethod \<Rightarrow> string" where
  "dispatch_case m =
     tab @ ''case '' @ quoted (rme_Name m) @ '':'' @ nl @
     (if rme_ArgsFields m \<noteq> [] then tab @ tab @ ''typedArgs := args.(*'' @ rme_ArgsName m @ '')'' @ nl else []) @
     (if rme_ReplyFields m \<noteq> [] then tab @ tab @ ''typedReply := reply.(*'' @ rme_ReplyName m @ '')'' @ nl else []) @
     tab @ tab @ rme_DispatchCall m @ nl @
     concat (map (\<lambda>a. tab @ tab @ tab @ ''typedReply.'' @ ra_Field a @ '' = '' @ ra_Value a @ nl) (rme_ReplyAssignments m)) @
     tab @ tab @ ''return err'' @ nl"

definition call_case :: "string \<Rightarrow> renderMethod \<Rightarrow> string" where
  "call_case inits m =
     tab @ ''case '' @ quoted (rme_Name m) @ '':'' @ nl @
     tab @ tab @ ''return &'' @ rme_ArgsName m @ ''{'' @ inits @ ''}, &'' @ rme_ReplyName m @ ''{}'' @ nl"

definition no_call :: string where
  "no_call = tab @ ''default:'' @ nl @ tab @ tab @ ''return nil, nil'' @ nl @ tab @ ''}'' @ nl @ ''}'' @ nl @ nl"

definition interface_text :: "renderModel \<Rightarrow> renderInterface \<Rightarrow> string" where
  "interface_text m e =
     nl @ ''type '' @ rif_ProxyName e @ '' struct {'' @ nl @ tab @ ''id gor.GrainId'' @ nl @ tab @ ''rt gor.Invoker'' @ nl @ ''}'' @ nl @ nl @
     concat (map (method_text e) (rif_Methods e)) @ nl @
     ''func '' @ rif_DispatchName e @ ''(ctx context.Context, instance '' @ rm_SourcePackage m @ ''.'' @ rif_Name e @
       '', method string, args any, reply any) error {'' @ nl @
     tab @ ''switch method {'' @ nl @ concat (map dispatch_case (rif_Methods e)) @
     tab @ ''default:'' @ nl @ tab @ tab @ ''return fmt.Errorf('' @ quoted ''unknown method %q'' @ '', method)'' @ nl @ tab @ ''}'' @ nl @ ''}'' @ nl @ nl @
     ''func new'' @ rif_Name e @ ''Call(method string) (args any, reply any) {'' @ nl @
     tab @ ''switch method {'' @ nl @ concat (map (call_case []) (rif_Methods e)) @ no_call @
     ''func new'' @ rif_Name e @ ''ReminderCall(method string, status gor.TickStatus) (args any, reply any) {'' @ nl @
     tab @ ''switch method {'' @ nl @ concat (map (call_case ''A0: status'') (filter rme_Reminder (rif_Methods e))) @ no_call @
     ''func '' @ rif_ConstructorName e @ ''(rt gor.Invoker, id gor.GrainId) '' @ rm_SourcePackage m @ ''.'' @ rif_Name e @ '' {'' @ nl @
     tab @ ''return &'' @ rif_ProxyName e @ ''{id: id, rt: rt}'' @ nl @ ''}'' @ nl @ nl"

definition install_case :: "renderModel \<Rightarrow> renderInterface \<Rightarrow> string" where
  "install_case m e =
     tab @ ''if err := gor.InstallType['' @ rm_SourcePackage m @ ''.'' @ rif_Name e @ ''](rt, '' @ rif_DispatchName e @ '', '' @
     rif_ConstructorName e @ '', new'' @ rif_Name e @ ''Call, new'' @ rif_Name e @ ''ReminderCall); err != nil {'' @ nl @
     tab @ tab @ ''return err'' @ nl @ tab @ ''}'' @ nl"

definition generatedTemplate :: "renderModel \<Rightarrow> string" where
  "generatedTemplate m =
     ''package '' @ rm_PackageName m @ nl @ nl @ import_block m @ concat (map (interface_text m) (rm_Interfaces m)) @ nl @
     ''// Install installs the generated Grain bindings in rt.'' @ nl @
     ''// Call it once after creating rt and before registering or referencing any of'' @ nl @
     ''// the generated Grain types. After it returns nil, gor.Register and gor.Ref'' @ nl @
     ''// can use those types with rt.'' @ nl @
     ''func Install(rt *gor.Runtime) error {'' @ nl @ concat (map (install_case m) (rm_Interfaces m)) @
     tab @ ''return nil'' @ nl @ ''}'' @ nl"

text \<open>\<open>format_Source\<close> is \<open>format.Source\<close>.\<close>

definition Render :: "unicode \<Rightarrow> (string \<Rightarrow> string result) \<Rightarrow> model \<Rightarrow> string result option" where
  "Render u format_Source m =
     (case prepare u m of
        None \<Rightarrow> None
      | Some prepared \<Rightarrow>
          Some (case format_Source (generatedTemplate prepared) of
                  Inl e \<Rightarrow> Inl (Wrap (''format generated source: '' @ error_text e) e)
                | Inr formatted \<Rightarrow> Inr formatted))"

section \<open>The command\<close>

record gorgen_flags =
  gf_pkg :: string
  gf_out :: string
  gf_args :: "string list"

text \<open>
  \<open>parsed\<close> is what \<open>flags.Parse\<close> made of the arguments; \<open>packages_Load\<close>, \<open>MkdirAll\<close> and \<open>WriteFile\<close> are the calls
  of the environment. The file written is returned with the error; \<open>None\<close> is a panic.
\<close>

definition gorgen_run ::
    "unicode \<Rightarrow> (string \<Rightarrow> string result) \<Rightarrow> (string \<Rightarrow> loaded_package list result) \<Rightarrow> (string \<Rightarrow> go_error option) \<Rightarrow>
     (string \<Rightarrow> string \<Rightarrow> go_error option) \<Rightarrow> gorgen_flags result \<Rightarrow> (string \<times> string) result option" where
  "gorgen_run u format_Source packages_Load MkdirAll WriteFile parsed =
     (case parsed of
        Inl e \<Rightarrow> Some (Inl e)
      | Inr f \<Rightarrow>
          if gf_pkg f = [] then Some (Inl (NewErr ''-pkg is required''))
          else if gf_args f \<noteq> [] then Some (Inl (NewErr (''unexpected arguments: ['' @ go_join '' '' (gf_args f) @ '']'')))
          else (case Load u (gf_pkg f) (packages_Load (gf_pkg f)) of
                  Inl e \<Rightarrow> Some (Inl e)
                | Inr l \<Rightarrow>
                    (case Render u format_Source (ld_Model l) of
                       None \<Rightarrow> None
                     | Some (Inl e) \<Rightarrow> Some (Inl e)
                     | Some (Inr source) \<Rightarrow>
                         let dir = (if gf_out f = [] then filepath_Join [ld_Dir l, ''gorgen''] else gf_out f);
                             path = filepath_Join [dir, ''generated.go'']
                         in (case MkdirAll dir of
                               Some e \<Rightarrow> Some (Inl (Wrap (''create output directory '' @ dir @ '': '' @ error_text e) e))
                             | None \<Rightarrow>
                                 (case WriteFile path source of
                                    Some e \<Rightarrow> Some (Inl (Wrap (''write '' @ path @ '': '' @ error_text e) e))
                                  | None \<Rightarrow> Some (Inr (path, source)))))))"

section \<open>Loaded models render\<close>

text \<open>A method with a context and an error, as \<open>loadInterface\<close> leaves it.\<close>

definition method_ok :: "pendingMethod \<Rightarrow> bool" where
  "method_ok m \<longleftrightarrow> pem_params m \<noteq> [] \<and> pem_results m \<noteq> []"

lemma loadMethod_ok: "loadMethod owner mo im = Inr (m, im') \<Longrightarrow> method_ok m"
  by (auto simp: loadMethod_def method_ok_def enumerate_eq_zip split: option.splits if_splits)

lemma loadMethods_ok: "loadMethods owner mos im = Inr (ms, im') \<Longrightarrow> list_all method_ok ms"
proof (induction mos arbitrary: im ms)
  case (Cons mo mos)
  then obtain m im1 ms1 where "loadMethod owner mo im = Inr (m, im1)" and "loadMethods owner mos im1 = Inr (ms1, im')" and "ms = m # ms1"
    by (auto split: sum.splits)
  with Cons.IH loadMethod_ok show ?case by simp
qed simp

lemma loadInterface_ok: "loadInterface pkg spec im = Inr (entity, im') \<Longrightarrow> list_all method_ok (pi_methods entity)"
  by (auto simp: loadInterface_def split: option.splits scope_object.splits sum.splits dest: loadMethods_ok)

lemma load_marked_ok: "load_marked pkg specs im = Inr (es, im') \<Longrightarrow> list_all (\<lambda>e. list_all method_ok (pi_methods e)) es"
proof (induction specs arbitrary: im es)
  case (Cons spec specs)
  then obtain e im1 es1 where "loadInterface pkg spec im = Inr (e, im1)" and "load_marked pkg specs im1 = Inr (es1, im')" and "es = e # es1"
    by (auto split: sum.splits if_splits)
  with Cons.IH loadInterface_ok show ?case by simp
qed simp

lemma Load_Inr:
  assumes "Load u pattern packages = Inr l"
  obtains pkg pending im where "packages = Inr [pkg]" and "load_marked pkg (marked_specs pkg) [] = Inr (pending, im)"
    and "pending \<noteq> []" and "ld_Model l = build_model u pkg pending im"
  using assms by (auto simp: Load_def split: sum.splits list.splits if_splits)

lemma those_total: "(\<And>x. x \<in> set xs \<Longrightarrow> f x \<noteq> None) \<Longrightarrow> \<exists>ys. those (map f xs) = Some ys"
proof (induction xs)
  case (Cons x xs)
  then obtain y ys where "f x = Some y" and "those (map f xs) = Some ys" by fastforce
  then show ?case by simp
qed simp

lemma prepare_loaded:
  assumes "Load u pattern packages = Inr l"
  shows "\<exists>m. prepare u (ld_Model l) = Some m"
proof -
  obtain pkg pending im where "load_marked pkg (marked_specs pkg) [] = Inr (pending, im)" and m: "ld_Model l = build_model u pkg pending im"
    using assms by (rule Load_Inr)
  from load_marked_ok [OF this(1)] have "e \<in> set pending \<Longrightarrow> pm \<in> set (pi_methods e) \<Longrightarrow> method_ok pm" for e pm
    by (auto simp: list_all_iff)
  then have "e \<in> set pending \<Longrightarrow> pm \<in> set (ifm_Methods (materialize e a)) \<Longrightarrow> prepareMethod u (materialize e a) pm \<noteq> None" for e a pm
    by (auto simp: materialize_def prepareMethod_def materialize_method_def method_ok_def Let_def)
  then have "e \<in> set pending \<Longrightarrow> prepareInterface u (materialize e a) \<noteq> None" for e a
    using those_total [of "ifm_Methods (materialize e a)" "prepareMethod u (materialize e a)"] by (auto simp: prepareInterface_def)
  then have "\<exists>es. those (map (prepareInterface u) (md_Interfaces (ld_Model l))) = Some es"
    unfolding m by (intro those_total) (auto simp: build_model_def Let_def)
  then show ?thesis by (auto simp: prepare_def)
qed

text \<open>
  The command \<open>gorgen\<close> never panics: whatever the loader reports of the package, either an error is returned or every
  method of the loaded model has the context and the error the renderer relies on.
\<close>

theorem gorgen_never_panics: "gorgen_run u format_Source packages_Load MkdirAll WriteFile parsed \<noteq> None"
  using prepare_loaded by (fastforce simp: gorgen_run_def Render_def Let_def split: sum.splits option.splits)

section \<open>The import block\<close>

text \<open>The names the import block declares, with the paths they stand for.\<close>

definition import_lines :: "renderModel \<Rightarrow> (string \<times> string) list" where
  "import_lines m =
     [(''context'', ''context''), (''fmt'', ''fmt''), (''gor'', gorPath), (rm_SourcePackage m, rm_SourceImportPath m)] @
     map (\<lambda>i. (im_Name i, im_Path i)) (rm_Imports m)"

text \<open>The packages the signatures of an interface mention.\<close>

definition method_packages :: "pendingMethod \<Rightarrow> tpackage set" where
  "method_packages m = (\<Union>t \<in> pp_typ ` set (pem_params m) \<union> set (pem_results m). set (piece_packages (type_pieces t)))"

definition interface_packages :: "pendingInterface \<Rightarrow> tpackage set" where
  "interface_packages e = (\<Union>m \<in> set (pi_methods e). method_packages m)"

text \<open>\<open>names\<close> gives the declared name of the package at a path.\<close>

definition well_named :: "(string \<Rightarrow> string) \<Rightarrow> loaded_package \<Rightarrow> pendingInterface list \<Rightarrow> bool" where
  "well_named names pkg pending \<longleftrightarrow>
     names ''context'' = ''context'' \<and> names ''fmt'' = ''fmt'' \<and> names gorPath = ''gor'' \<and> names (pk_PkgPath pkg) = pk_Name pkg \<and>
     (\<forall>e \<in> set pending. \<forall>p \<in> interface_packages e. tp_Name p = names (tp_Path p))"

text \<open>The import map the loader leaves: one entry for every package mentioned.\<close>

definition recorded :: "(string \<Rightarrow> string) \<Rightarrow> import_map \<Rightarrow> bool" where
  "recorded names im \<longleftrightarrow> gm_ok im \<and> (\<forall>(path, i) \<in> set im. i = \<lparr>im_Name = names path, im_Path = path\<rparr>)"

lemma record_fold:
  assumes "recorded names im" and "\<forall>p \<in> set ps. tp_Name p = names (tp_Path p)"
  shows "recorded names (fold record_package ps im) \<and> fst ` set (fold record_package ps im) = fst ` set im \<union> tp_Path ` set ps"
  using assms
proof (induction ps arbitrary: im)
  case (Cons p ps)
  have "recorded names (record_package p im)"
    using Cons.prems by (auto simp: recorded_def record_package_def gm_ok_get_iff [symmetric] gm_get_put split: if_splits)
  moreover have "fst ` set (record_package p im) = insert (tp_Path p) (fst ` set im)"
    unfolding record_package_def dom_map_of_conv_image_fst [symmetric] by (auto simp: gm_get_put dom_def)
  ultimately show ?case using Cons by auto
qed simp

lemma record_types:
  assumes "recorded names im" and "\<forall>v \<in> set vs. \<forall>p \<in> set (piece_packages (type_pieces (va_Type v))). tp_Name p = names (tp_Path p)"
  shows "recorded names (fold (\<lambda>v. recordImports (va_Type v)) vs im) \<and>
    fst ` set (fold (\<lambda>v. recordImports (va_Type v)) vs im) = fst ` set im \<union> (\<Union>v \<in> set vs. tp_Path ` set (piece_packages (type_pieces (va_Type v))))"
  using assms
proof (induction vs arbitrary: im)
  case (Cons v vs)
  then show ?case
    using record_fold [of names im "piece_packages (type_pieces (va_Type v))"] by (auto simp: recordImports_def)
qed simp

lemma pending_packages:
  assumes "loadMethod owner mo im = Inr (m, im')" and "recorded names im" and "\<forall>p \<in> method_packages m. tp_Name p = names (tp_Path p)"
  shows "recorded names im' \<and> fst ` set im' = fst ` set im \<union> tp_Path ` method_packages m"
proof -
  define sig where "sig = the (mo_Type mo)"
  have m: "pem_params m = map (\<lambda>(i, v). \<lparr>pp_name = parameter_name i v, pp_typ = va_Type v\<rparr>) (List.enumerate 0 (sg_Params sig))"
    "pem_results m = map va_Type (sg_Results sig)"
    and im': "im' = fold (\<lambda>v. recordImports (va_Type v)) (sg_Params sig @ sg_Results sig) im"
    using assms(1) by (auto simp: loadMethod_def sig_def split: option.splits if_splits)
  have "pp_typ ` set (pem_params m) = va_Type ` set (sg_Params sig)"
    unfolding m by (force simp: set_conv_nth nth_enumerate_eq image_iff)
  then have pkgs: "method_packages m = (\<Union>v \<in> set (sg_Params sig @ sg_Results sig). set (piece_packages (type_pieces (va_Type v))))"
    by (simp add: method_packages_def m(2))
  then have "\<forall>v \<in> set (sg_Params sig @ sg_Results sig). \<forall>p \<in> set (piece_packages (type_pieces (va_Type v))). tp_Name p = names (tp_Path p)"
    using assms(3) by blast
  from record_types [OF assms(2) this] show ?thesis
    unfolding im' pkgs image_UN by blast
qed

lemma loadMethods_packages:
  assumes "loadMethods owner mos im = Inr (ms, im')" and "recorded names im" and "\<forall>m \<in> set ms. \<forall>p \<in> method_packages m. tp_Name p = names (tp_Path p)"
  shows "recorded names im' \<and> fst ` set im' = fst ` set im \<union> (\<Union>m \<in> set ms. tp_Path ` method_packages m)"
  using assms
proof (induction mos arbitrary: im ms)
  case (Cons mo mos)
  obtain m im1 ms1 where "loadMethod owner mo im = Inr (m, im1)" and "loadMethods owner mos im1 = Inr (ms1, im')" and "ms = m # ms1"
    using Cons.prems(1) by (auto split: sum.splits)
  with Cons.IH [of im1 ms1] pending_packages [of owner mo im m im1 names] Cons.prems(2,3) show ?case by auto
qed simp

lemma load_marked_packages:
  assumes "load_marked pkg specs im = Inr (es, im')" and "recorded names im" and "\<forall>e \<in> set es. \<forall>p \<in> interface_packages e. tp_Name p = names (tp_Path p)"
  shows "recorded names im' \<and> fst ` set im' = fst ` set im \<union> (\<Union>e \<in> set es. tp_Path ` interface_packages e)"
  using assms
proof (induction specs arbitrary: im es)
  case (Cons spec specs)
  obtain e im1 es1 where e: "loadInterface pkg spec im = Inr (e, im1)" and r: "load_marked pkg specs im1 = Inr (es1, im')" "es = e # es1"
    using Cons.prems(1) by (auto split: sum.splits if_splits)
  then obtain mos where "loadMethods (tsp_Name spec) mos im = Inr (pi_methods e, im1)"
    by (auto simp: loadInterface_def split: option.splits scope_object.splits sum.splits)
  from loadMethods_packages [OF this Cons.prems(2)] Cons.prems(3) r(2)
  have "recorded names im1 \<and> fst ` set im1 = fst ` set im \<union> tp_Path ` interface_packages e"
    by (auto simp: interface_packages_def image_UN)
  with Cons.IH [OF r(1)] r(2) Cons.prems(3) show ?case by auto
qed simp

lemma recorded_entry: "recorded names im \<Longrightarrow> (path, i) \<in> set im \<Longrightarrow> i = \<lparr>im_Name = names path, im_Path = path\<rparr>"
  by (auto simp: recorded_def)

lemma recorded_ok: "recorded names im \<Longrightarrow> imports_ok im"
  by (auto simp: recorded_def imports_ok_def)

text \<open>The name of the import line of a package, as the generated file has it.\<close>

definition line_name :: "(string, string) gomap \<Rightarrow> (string \<Rightarrow> string) \<Rightarrow> string \<Rightarrow> string" where
  "line_name aliases names path = (case gm_get aliases path of Some a \<Rightarrow> a | None \<Rightarrow> names path)"

text \<open>The paths with an import line of their own, apart from the source package.\<close>

definition own_paths :: "import_map \<Rightarrow> string \<Rightarrow> string set" where
  "own_paths im path = {p \<in> fst ` set im. p \<notin> set templateImportPaths \<and> p \<noteq> path}"

lemma two_named:
  assumes "(p, i) \<in> set im" and "(q, j) \<in> set im" and "p \<noteq> q" and "im_Name i = im_Name j"
  shows "1 < countImportsNamed im (im_Name i)"
proof -
  have "{(p, i), (q, j)} \<subseteq> set (filter (\<lambda>(_, k). im_Name k = im_Name i) im)" using assms by auto
  from card_mono [OF finite_set this] have "2 \<le> card (set (filter (\<lambda>(_, k). im_Name k = im_Name i) im))" using assms(3) by simp
  also have "\<dots> \<le> countImportsNamed im (im_Name i)" unfolding countImportsNamed_def by (rule card_length)
  finally show ?thesis by simp
qed

text \<open>
  For the imports of a package named \<open>name\<close> at \<open>path\<close>: an alias is no name of another line, a package without an alias
  that has a line of its own collides with nothing.
\<close>

lemma line_names:
  fixes u name path
  assumes r: "recorded names im" and src: "names path = name"
  defines "a \<equiv> effectiveImportNames u im name path"
  shows alias_new: "gm_get a p = Some c \<Longrightarrow> c \<notin> set (used_names im name) \<and> c \<noteq> []"
    and alias_inj: "gm_get a p = Some c \<Longrightarrow> gm_get a q = Some c \<Longrightarrow> p = q"
    and alias_source: "gm_get a path = None \<longleftrightarrow> name \<notin> set reserved_names"
    and alias_import: "(p, i) \<in> set im \<Longrightarrow> p \<noteq> path \<Longrightarrow> gm_get a p = None \<longleftrightarrow> \<not> collides im name path (p, i)"
    and alias_template: "p \<in> set templateImportPaths \<Longrightarrow> p \<noteq> path \<Longrightarrow> gm_get a p = None"
proof -
  note spec = effectiveImportNames_spec [OF recorded_ok [OF r], of u name path, folded a_def]
  show "gm_get a p = Some c \<Longrightarrow> c \<notin> set (used_names im name) \<and> c \<noteq> []"
  proof -
    assume "gm_get a p = Some c"
    then have "c \<in> set (map snd a)" by (auto dest!: map_of_SomeD simp: image_iff intro!: bexI)
    with spec(3,4) show ?thesis by blast
  qed
  show "gm_get a p = Some c \<Longrightarrow> gm_get a q = Some c \<Longrightarrow> p = q"
    using spec(2) by (metis distinct_map inj_onD map_of_SomeD prod.inject snd_conv)
  have none: "gm_get a p = None \<longleftrightarrow> p \<notin> im_Path ` set (conflicting_imports im name path)" for p
    using spec(5) by (metis map_of_eq_None_iff)
  have paths: "im_Path ` set (conflicting_imports im name path) =
    fst ` {x \<in> set im. collides im name path x} \<union> (if name \<in> set reserved_names then {path} else {})"
  proof -
    have "(im_Path \<circ> snd) ` {x \<in> set im. collides im name path x} = fst ` {x \<in> set im. collides im name path x}"
      by (rule image_cong) (use r in \<open>auto simp: recorded_def\<close>)
    then show ?thesis
      unfolding conflicting_imports_paths(2) [OF recorded_ok [OF r]] by (simp add: image_Un image_comp)
  qed
  show "gm_get a path = None \<longleftrightarrow> name \<notin> set reserved_names"
    unfolding none paths by (auto simp: collides_def)
  show "(p, i) \<in> set im \<Longrightarrow> p \<noteq> path \<Longrightarrow> gm_get a p = None \<longleftrightarrow> \<not> collides im name path (p, i)"
  proof -
    assume mem: "(p, i) \<in> set im" "p \<noteq> path"
    have same: "j = i" if "(p, j) \<in> set im" for j using recorded_entry [OF r that] recorded_entry [OF r mem(1)] by simp
    have "p \<in> fst ` {x \<in> set im. collides im name path x} \<longleftrightarrow> collides im name path (p, i)"
    proof
      assume "p \<in> fst ` {x \<in> set im. collides im name path x}"
      then obtain j where "(p, j) \<in> set im" and "collides im name path (p, j)" by auto
      with same [of j] show "collides im name path (p, i)" by simp
    next
      assume "collides im name path (p, i)"
      with mem(1) show "p \<in> fst ` {x \<in> set im. collides im name path x}" by (intro image_eqI [of _ _ "(p, i)"]) simp_all
    qed
    with mem(2) show ?thesis unfolding none paths by simp
  qed
  show "p \<in> set templateImportPaths \<Longrightarrow> p \<noteq> path \<Longrightarrow> gm_get a p = None"
    unfolding none paths by (auto simp: collides_def)
qed

lemma distinct_map_sort: "distinct (map f (sort_key k xs)) \<longleftrightarrow> distinct (map f xs)"
  by (rule mset_eq_imp_distinct_iff) simp

lemma template_line:
  assumes "recorded names im" and "names path = name" and "p \<in> set templateImportPaths" and "p \<noteq> path"
  shows "line_name (effectiveImportNames u im name path) names p = names p"
  using alias_template [OF assms] by (simp add: line_name_def)

lemma rendered_imports:
  fixes u pkg
  assumes r: "recorded names im"
  defines "a \<equiv> effectiveImportNames u im (pk_Name pkg) (pk_PkgPath pkg)"
  shows "distinct (map im_Path (renderImports (build_model u pkg pending im)))"
    and "(\<lambda>i. (im_Name i, im_Path i)) ` set (renderImports (build_model u pkg pending im)) =
      (\<lambda>p. (line_name a names p, p)) ` own_paths im (pk_PkgPath pkg)"
proof -
  let ?m = "build_model u pkg pending im"
  have imps: "md_Imports ?m = sort_key im_Path (map (aliased_import a) im)" and path: "md_SourceImportPath ?m = pk_PkgPath pkg"
    by (simp_all add: build_model_def a_def model_imports_def Let_def)
  have "distinct (map im_Path (map (aliased_import a) im))"
    using r unfolding aliased_paths [OF recorded_ok [OF r]] by (simp add: recorded_def gm_ok_def)
  then show "distinct (map im_Path (renderImports ?m))"
    by (simp add: renderImports_def imps distinct_map_filter distinct_map_sort del: map_map)
  have name: "x \<in> set im \<Longrightarrow> (im_Name (aliased_import a x), im_Path (aliased_import a x)) = (line_name a names (fst x), fst x)" for x
    using r by (auto simp: recorded_def aliased_import_def line_name_def split: option.splits)
  then have "set (renderImports ?m) = aliased_import a ` {x \<in> set im. fst x \<notin> set templateImportPaths \<and> fst x \<noteq> pk_PkgPath pkg}"
    by (auto simp: renderImports_def imps path templateImportPaths_def)
  then show "(\<lambda>i. (im_Name i, im_Path i)) ` set (renderImports ?m) =
      (\<lambda>p. (line_name a names p, p)) ` own_paths im (pk_PkgPath pkg)"
    using name by (force simp: image_iff own_paths_def)
qed

lemma line_name_own:
  fixes u name path
  assumes r: "recorded names im" and src: "names path = name"
  defines "a \<equiv> effectiveImportNames u im name path" and "own \<equiv> own_paths im path \<union> {path}"
  shows line_name_reserved: "p \<in> own \<Longrightarrow> line_name a names p \<notin> set reserved_names"
    and line_name_inj: "p \<in> own \<Longrightarrow> q \<in> own \<Longrightarrow> line_name a names p = line_name a names q \<Longrightarrow> p = q"
proof -
  note new = alias_new [OF r src, of u, folded a_def] and inj = alias_inj [OF r src, of u, folded a_def]
    and source = alias_source [OF r src, of u, folded a_def] and import_alias = alias_import [OF r src, of _ _ u, folded a_def]
  have entry: "p \<in> own_paths im path \<Longrightarrow> (p, \<lparr>im_Name = names p, im_Path = p\<rparr>) \<in> set im" for p
    using r by (auto simp: recorded_def own_paths_def)
  show "p \<in> own \<Longrightarrow> line_name a names p \<notin> set reserved_names"
    using new [of p] source src import_alias [OF entry [of p]]
    by (cases "gm_get a p") (auto simp: own_def own_paths_def line_name_def collides_def used_names_set)
  have used: "gm_get a p = None \<Longrightarrow> p \<in> own \<Longrightarrow> line_name a names p \<in> set (used_names im name)" for p
    using entry [of p] src by (force simp: own_def line_name_def used_names_set)
  show "p = q" if "p \<in> own" "q \<in> own" and eq: "line_name a names p = line_name a names q"
  proof (cases "gm_get a p"; cases "gm_get a q")
    assume none: "gm_get a p = None" "gm_get a q = None"
    then have "names p = names q" using eq by (simp add: line_name_def)
    with none that(1,2) import_alias [OF entry [of p]] import_alias [OF entry [of q]] src two_named [OF entry [of p] entry [of q]] show ?thesis
      by (fastforce simp: collides_def own_def own_paths_def)
  qed (use that new used [of p] used [of q] inj in \<open>auto simp: line_name_def\<close>)
qed

lemma import_lines_eq:
  fixes u pkg
  assumes r: "recorded names im" and src: "names (pk_PkgPath pkg) = pk_Name pkg" and p: "prepare u (build_model u pkg pending im) = Some m"
  defines "a \<equiv> effectiveImportNames u im (pk_Name pkg) (pk_PkgPath pkg)"
  shows "import_lines m = [(''context'', ''context''), (''fmt'', ''fmt''), (''gor'', gorPath), (line_name a names (pk_PkgPath pkg), pk_PkgPath pkg)] @
      map (\<lambda>p. (line_name a names p, p)) (map im_Path (renderImports (build_model u pkg pending im)))"
proof -
  let ?R = "renderImports (build_model u pkg pending im)"
  have "rm_SourcePackage m = line_name a names (pk_PkgPath pkg)" and "rm_SourceImportPath m = pk_PkgPath pkg" and "rm_Imports m = ?R"
    using p src alias_new [OF r src, of u, folded a_def]
    by (auto simp: prepare_def build_model_def Let_def line_name_def a_def split: option.splits)
  moreover have "(im_Name i, im_Path i) = (line_name a names (im_Path i), im_Path i)" if "i \<in> set ?R" for i
  proof -
    have "(im_Name i, im_Path i) \<in> (\<lambda>p. (line_name a names p, p)) ` own_paths im (pk_PkgPath pkg)"
      unfolding rendered_imports(2) [OF r, of u pkg pending, folded a_def, symmetric] using that by (rule imageI)
    then show ?thesis by auto
  qed
  then have "map (\<lambda>i. (im_Name i, im_Path i)) ?R = map (\<lambda>p. (line_name a names p, p)) (map im_Path ?R)"
    unfolding map_map comp_def by (rule map_cong [OF refl])
  ultimately show ?thesis by (simp add: import_lines_def)
qed

lemma import_lines_distinct:
  fixes u pkg
  assumes r: "recorded names im" and src: "names (pk_PkgPath pkg) = pk_Name pkg" and p: "prepare u (build_model u pkg pending im) = Some m"
  defines "a \<equiv> effectiveImportNames u im (pk_Name pkg) (pk_PkgPath pkg)"
  shows "set (import_lines m) = {(''context'', ''context''), (''fmt'', ''fmt''), (''gor'', gorPath), (line_name a names (pk_PkgPath pkg), pk_PkgPath pkg)} \<union>
      (\<lambda>p. (line_name a names p, p)) ` own_paths im (pk_PkgPath pkg)"
    and "distinct (map fst (import_lines m))"
proof -
  let ?path = "pk_PkgPath pkg" and ?own = "own_paths im (pk_PkgPath pkg)"
  let ?P = "map im_Path (renderImports (build_model u pkg pending im))"
  note lines = import_lines_eq [OF r src p, folded a_def] and rendered = rendered_imports [OF r, of u pkg pending, folded a_def]
    and reserved = line_name_reserved [OF r src, of _ u, folded a_def] and inj = line_name_inj [OF r src, of _ _ u, folded a_def]
  have "snd ` (\<lambda>i. (im_Name i, im_Path i)) ` set (renderImports (build_model u pkg pending im)) = snd ` (\<lambda>p. (line_name a names p, p)) ` ?own"
    by (simp only: rendered(2))
  then have P: "set ?P = ?own" by (simp add: image_comp comp_def)
  then show "set (import_lines m) = {(''context'', ''context''), (''fmt'', ''fmt''), (''gor'', gorPath), (line_name a names ?path, ?path)} \<union>
      (\<lambda>p. (line_name a names p, p)) ` ?own"
    unfolding lines set_append set_map [of "\<lambda>p. (line_name a names p, p)"] by simp
  have "inj_on (line_name a names) (set ?P)" unfolding P by (rule inj_onI, rule inj) simp_all
  with rendered(1) have "distinct (map (line_name a names) ?P)" unfolding distinct_map [of "line_name a names"] ..
  moreover have "set (map (line_name a names) ?P) \<inter> insert (line_name a names ?path) (set reserved_names) = {}"
  proof -
    have "?path \<notin> ?own" by (simp add: own_paths_def)
    then have "line_name a names p \<noteq> line_name a names ?path" if "p \<in> ?own" for p
      using inj [of ?path p] that by auto
    then show ?thesis unfolding set_map [of "line_name a names"] P using reserved by fastforce
  qed
  moreover have "map fst (import_lines m) = [''context'', ''fmt'', ''gor'', line_name a names ?path] @ map (line_name a names) ?P"
    unfolding lines by simp
  ultimately show "distinct (map fst (import_lines m))"
    using reserved [of ?path] by (auto simp: reserved_names_def)
qed

text \<open>
  C30. The import block of the generated file is right: the names it declares are pairwise different, and every package that
  a signature mentions is written with the name its import line declares, so every qualified name of the
  generated types resolves to the package it came from.
\<close>

theorem generated_imports_resolve:
  assumes "Load u pattern (Inr [pkg]) = Inr l" and "prepare u (ld_Model l) = Some m"
    and "load_marked pkg (marked_specs pkg) [] = Inr (pending, im)" and "well_named names pkg pending"
  shows "distinct (map fst (import_lines m)) \<and>
    (let aliases = effectiveImportNames u im (pk_Name pkg) (pk_PkgPath pkg)
     in md_Interfaces (ld_Model l) = map (\<lambda>e. materialize e aliases) pending \<and>
        (\<forall>e \<in> set pending. \<forall>p \<in> interface_packages e. gm_get (import_lines m) (qualifier aliases p) = Some (tp_Path p)))"
proof -
  let ?a = "effectiveImportNames u im (pk_Name pkg) (pk_PkgPath pkg)"
  have model: "ld_Model l = build_model u pkg pending im"
    using Load_Inr [OF assms(1)] assms(3) by (metis Inr_inject list.inject prod.inject)
  have src: "names (pk_PkgPath pkg) = pk_Name pkg" using assms(4) by (simp add: well_named_def)
  have r: "recorded names im" and keys: "fst ` set im = (\<Union>e \<in> set pending. tp_Path ` interface_packages e)"
    using load_marked_packages [OF assms(3), of names] assms(4) by (auto simp: recorded_def well_named_def)
  note lines = import_lines_distinct [OF r src assms(2) [unfolded model]]
  have "(qualifier ?a p, tp_Path p) \<in> set (import_lines m)" if "e \<in> set pending" "p \<in> interface_packages e" for e p
  proof -
    have q: "qualifier ?a p = line_name ?a names (tp_Path p)" and "tp_Path p \<in> fst ` set im"
      using that assms(4) keys by (auto simp: qualifier_def line_name_def well_named_def split: option.splits)
    then show ?thesis
      using template_line [OF r src, of "tp_Path p" u] assms(4) unfolding lines(1) q
      by (cases "tp_Path p = pk_PkgPath pkg"; cases "tp_Path p \<in> set templateImportPaths")
        (auto simp: templateImportPaths_def well_named_def own_paths_def)
  qed
  with lines(2) have "\<forall>e \<in> set pending. \<forall>p \<in> interface_packages e. gm_get (import_lines m) (qualifier ?a p) = Some (tp_Path p)"
    by simp
  then show ?thesis using lines(2) model by (simp add: build_model_def Let_def)
qed

section \<open>Declared functions\<close>

lemma interface_text_call: "\<exists>xs ys. interface_text m e = xs @ (''func new'' @ rif_Name e @ ''Call('') @ ys"
proof -
  obtain xs ys where "interface_text m e = xs @ ''func new'' @ rif_Name e @ ''Call(method string) (args any, reply any) {'' @ ys"
    unfolding interface_text_def by (metis append.assoc)
  then show ?thesis by (intro exI [of _ xs] exI [of _ "''method string) (args any, reply any) {'' @ ys"]) simp
qed

lemma interface_text_reminder_call: "\<exists>xs ys. interface_text m e = xs @ (''func new'' @ rif_Name e @ ''ReminderCall('') @ ys"
proof -
  obtain xs ys where "interface_text m e = xs @ ''func new'' @ rif_Name e @ ''ReminderCall(method string, status gor.TickStatus) (args any, reply any) {'' @ ys"
    unfolding interface_text_def by (metis append.assoc)
  then show ?thesis by (intro exI [of _ xs] exI [of _ "''method string, status gor.TickStatus) (args any, reply any) {'' @ ys"]) simp
qed

lemma generatedTemplate_interfaces: "\<exists>h t. generatedTemplate m = h @ concat (map (interface_text m) (rm_Interfaces m)) @ t"
  unfolding generatedTemplate_def by (metis append.assoc)

lemma concat_two:
  assumes "i < j" and "j < length xs"
  shows "\<exists>a b c. concat xs = a @ xs ! i @ b @ xs ! j @ c"
proof -
  have "xs = take i xs @ xs ! i # drop (Suc i) xs" using assms by (simp add: id_take_nth_drop)
  moreover have "drop (Suc i) xs = take (j - Suc i) (drop (Suc i) xs) @ xs ! j # drop (Suc j) xs"
    using assms id_take_nth_drop [of "j - Suc i" "drop (Suc i) xs"] by simp
  ultimately have "concat xs = concat (take i xs @ xs ! i # take (j - Suc i) (drop (Suc i) xs) @ xs ! j # drop (Suc j) xs)" by simp
  then show ?thesis by simp blast
qed

lemma those_nth: "those xs = Some ys \<Longrightarrow> length ys = length xs \<and> (\<forall>i < length xs. xs ! i = Some (ys ! i))"
proof (induction xs arbitrary: ys)
  case (Cons x xs)
  then obtain y zs where "x = Some y" and "those xs = Some zs" and "ys = y # zs" by (auto split: option.splits)
  with Cons.IH [of zs] show ?case by (auto simp: nth_Cons split: nat.splits)
qed simp

text \<open>
  The names the renderer derives are not unique: a package with a Grain \<open>Device\<close> and a Grain \<open>DeviceReminder\<close> is rendered
  without an error, and the generated file declares the function \<open>newDeviceReminderCall\<close> twice, once as the
  reminder factory of the first and once as the call factory of the second, so that it does not compile.
\<close>

theorem reminder_factory_declared_twice:
  assumes "prepare u md = Some m" and "i < length (md_Interfaces md)" and "j < length (md_Interfaces md)"
    and "ifm_Name (md_Interfaces md ! j) = ifm_Name (md_Interfaces md ! i) @ ''Reminder''"
  shows "\<exists>xs ys zs. generatedTemplate m =
    xs @ (''func new'' @ ifm_Name (md_Interfaces md ! i) @ ''ReminderCall('') @ ys @
    (''func new'' @ ifm_Name (md_Interfaces md ! i) @ ''ReminderCall('') @ zs"
proof -
  let ?d = "''func new'' @ ifm_Name (md_Interfaces md ! i) @ ''ReminderCall(''"
  let ?f = "\<lambda>k. interface_text m (rm_Interfaces m ! k)"
  have es: "those (map (prepareInterface u) (md_Interfaces md)) = Some (rm_Interfaces m)"
    using assms(1) by (auto simp: prepare_def split: option.splits)
  have len: "length (rm_Interfaces m) = length (md_Interfaces md)" using those_nth [OF es] by simp
  have name: "k < length (md_Interfaces md) \<Longrightarrow> rif_Name (rm_Interfaces m ! k) = ifm_Name (md_Interfaces md ! k)" for k
  proof -
    assume "k < length (md_Interfaces md)"
    then have "prepareInterface u (md_Interfaces md ! k) = Some (rm_Interfaces m ! k)" using those_nth [OF es] by simp
    then show ?thesis by (auto simp: prepareInterface_def split: option.splits dest: sym)
  qed
  have contains: "\<exists>xs ys. ?f k = xs @ ?d @ ys" if "k = i \<or> k = j" for k
    using that interface_text_reminder_call [of m "rm_Interfaces m ! i"] interface_text_call [of m "rm_Interfaces m ! j"]
      name [OF assms(2)] name [OF assms(3)] assms(4) by auto
  have "i \<noteq> j" using assms(4) by auto
  then have "min i j < max i j" and "max i j < length (map (interface_text m) (rm_Interfaces m))" using assms(2,3) len by auto
  from concat_two [OF this] obtain a b c where all: "concat (map (interface_text m) (rm_Interfaces m)) = a @ ?f (min i j) @ b @ ?f (max i j) @ c"
    using assms(2,3) len by auto
  have "min i j = i \<or> min i j = j" and "max i j = i \<or> max i j = j" by auto
  from contains [OF this(1)] contains [OF this(2)] obtain p q v w
    where "?f (min i j) = p @ ?d @ q" and "?f (max i j) = v @ ?d @ w" by blast
  with all have "concat (map (interface_text m) (rm_Interfaces m)) = (a @ p) @ ?d @ (q @ b @ v) @ ?d @ (w @ c)" by simp
  with generatedTemplate_interfaces [of m] obtain h t where "generatedTemplate m = h @ ((a @ p) @ ?d @ (q @ b @ v) @ ?d @ (w @ c)) @ t" by auto
  then have "generatedTemplate m = (h @ a @ p) @ ?d @ (q @ b @ v) @ ?d @ (w @ c @ t)" by simp
  then show ?thesis by blast
qed

section \<open>A package\<close>

definition demo_context :: go_type where
  "demo_context = TNamed (Some \<lparr>tp_Name = ''context'', tp_Path = ''context''\<rparr>) ''Context'' []"

definition demo_item :: "string \<Rightarrow> go_type" where
  "demo_item path = TNamed (Some \<lparr>tp_Name = ''domain'', tp_Path = path\<rparr>) ''Item'' []"

definition demo_pos :: position where "demo_pos = \<lparr>ps_Filename = ''shop.go'', ps_Line = 3\<rparr>"

definition demo_var :: "string \<Rightarrow> go_type \<Rightarrow> variable" where
  "demo_var name t = \<lparr>va_Name = name, va_Type = t\<rparr>"

definition demo_error :: variable where "demo_error = demo_var [] (TNamed None ''error'' [])"

definition demo_ship :: method_object where
  "demo_ship = \<lparr>mo_Name = ''Ship'', mo_Pos = demo_pos,
     mo_Type = Some \<lparr>sg_Params = [demo_var ''ctx'' demo_context, demo_var ''a'' (demo_item ''a/domain''), demo_var [] (demo_item ''b/domain'')],
                     sg_Results = [demo_error]\<rparr>\<rparr>"

definition demo_spec :: "string \<Rightarrow> type_spec" where
  "demo_spec name = \<lparr>tsp_Name = name, tsp_Doc = Some [''// gor:grain''], tsp_IsInterface = True, tsp_Pos = demo_pos\<rparr>"

definition demo_package :: loaded_package where
  "demo_package = \<lparr>pk_Name = ''shop'', pk_PkgPath = ''x/shop'', pk_Errors = [], pk_HasTypes = True, pk_GoFiles = [''/x/shop/shop.go''],
     pk_CompiledGoFiles = [], pk_Syntax = [[TypeDecl None [demo_spec ''Order'', demo_spec ''OrderReminder'']]],
     pk_Scope = (\<lambda>name. if name \<in> {''Order'', ''OrderReminder''} then Some (InterfaceObject [demo_ship]) else None)\<rparr>"

definition demo_pending :: "string \<Rightarrow> pendingInterface" where
  "demo_pending name = \<lparr>pi_name = name, pi_methods = [\<lparr>pem_name = ''Ship'', pem_reminder = False,
     pem_params = [\<lparr>pp_name = ''ctx'', pp_typ = demo_context\<rparr>, \<lparr>pp_name = ''a'', pp_typ = demo_item ''a/domain''\<rparr>,
                   \<lparr>pp_name = ''arg2'', pp_typ = demo_item ''b/domain''\<rparr>],
     pem_results = [TNamed None ''error'' []]\<rparr>]\<rparr>"

definition demo_imports :: import_map where
  "demo_imports = [demo_import ''context'' ''context'', demo_import ''domain'' ''a/domain'', demo_import ''domain'' ''b/domain'']"

definition demo_names :: "string \<Rightarrow> string" where
  "demo_names path = (if path = ''x/shop'' then ''shop'' else if path = gorPath then ''gor'' else if path \<in> {''a/domain'', ''b/domain''} then ''domain'' else path)"

lemma demo_marker: "comment_text ''// gor:grain'' = ''gor:grain''"
  by code_simp

lemma demo_marked: "marked_specs demo_package = [demo_spec ''Order'', demo_spec ''OrderReminder'']"
  by (simp add: marked_specs_def demo_package_def hasGrainMarker_def commentsHaveMarker_def demo_spec_def demo_marker)

lemma demo_load: "load_marked demo_package (marked_specs demo_package) [] = Inr ([demo_pending ''Order'', demo_pending ''OrderReminder''], demo_imports)"
  unfolding demo_marked by code_simp

definition demo_loaded :: loaded where
  "demo_loaded = \<lparr>ld_Model = build_model ascii_only demo_package [demo_pending ''Order'', demo_pending ''OrderReminder''] demo_imports, ld_Dir = ''/x/shop''\<rparr>"

lemma demo_Load: "Load ascii_only ''./shop'' (Inr [demo_package]) = Inr demo_loaded"
proof -
  have "filepath_Dir ''/x/shop/shop.go'' = ''/x/shop''" by code_simp
  then show ?thesis using demo_load by (simp add: Load_def demo_loaded_def) (simp add: demo_package_def)
qed

lemma demo_aliases: "effectiveImportNames ascii_only demo_imports ''shop'' ''x/shop'' = [(''a/domain'', ''adomain''), (''b/domain'', ''bdomain'')]"
  by code_simp

lemma demo_well_named: "well_named demo_names demo_package [demo_pending ''Order'', demo_pending ''OrderReminder'']"
  by (simp add: well_named_def demo_names_def demo_package_def demo_pending_def interface_packages_def method_packages_def demo_context_def demo_item_def)

theorem generated_imports_resolve_witness:
  "\<exists>m. prepare ascii_only (ld_Model demo_loaded) = Some m \<and> distinct (map fst (import_lines m)) \<and>
     gm_get (import_lines m) ''adomain'' = Some ''a/domain'' \<and> gm_get (import_lines m) ''bdomain'' = Some ''b/domain''"
proof -
  obtain m where m: "prepare ascii_only (ld_Model demo_loaded) = Some m" using prepare_loaded [OF demo_Load] by blast
  let ?p = "\<lambda>path. \<lparr>tp_Name = ''domain'', tp_Path = path\<rparr>"
  let ?a = "[(''a/domain'', ''adomain''), (''b/domain'', ''bdomain'')]"
  have "pk_Name demo_package = ''shop''" and "pk_PkgPath demo_package = ''x/shop''" by (simp_all add: demo_package_def)
  then have "distinct (map fst (import_lines m))"
    and "\<forall>p \<in> interface_packages (demo_pending ''Order''). gm_get (import_lines m) (qualifier ?a p) = Some (tp_Path p)"
    using generated_imports_resolve [OF demo_Load m demo_load demo_well_named] by (simp_all add: demo_aliases Let_def)
  moreover have "?p ''a/domain'' \<in> interface_packages (demo_pending ''Order'')" and "?p ''b/domain'' \<in> interface_packages (demo_pending ''Order'')"
    by (simp_all add: demo_pending_def interface_packages_def method_packages_def demo_item_def)
  ultimately have "gm_get (import_lines m) (qualifier ?a (?p ''a/domain'')) = Some ''a/domain''"
    and "gm_get (import_lines m) (qualifier ?a (?p ''b/domain'')) = Some ''b/domain''" and "distinct (map fst (import_lines m))"
    by fastforce+
  with m show ?thesis by (simp add: qualifier_def)
qed

theorem reminder_factory_declared_twice_witness:
  "\<exists>m xs ys zs. prepare ascii_only (ld_Model demo_loaded) = Some m \<and>
     generatedTemplate m = xs @ ''func newOrderReminderCall('' @ ys @ ''func newOrderReminderCall('' @ zs"
proof -
  obtain m where m: "prepare ascii_only (ld_Model demo_loaded) = Some m" using prepare_loaded [OF demo_Load] by blast
  have "md_Interfaces (ld_Model demo_loaded) = map (\<lambda>e. materialize e (effectiveImportNames ascii_only demo_imports ''shop'' ''x/shop'')) [demo_pending ''Order'', demo_pending ''OrderReminder'']"
    by (simp add: demo_loaded_def build_model_def Let_def demo_package_def)
  then show ?thesis
    using reminder_factory_declared_twice [OF m, of 0 1] m by (auto simp: materialize_def demo_pending_def)
qed

end
