(* ===== verification/Gor_Check.thy ===== *)
theory Gor_Check
  imports Gor_Codegen
begin

text \<open>
  The checker of the determinism rules, \<open>internal/constraintcheck/main.go\<close>, on syntax trees as \<open>go/parser\<close> gives
  them: a node has its position and its children in the order \<open>ast.Inspect\<close> visits them, and the nodes the
  checker looks into have constructors of their own. The directory tree is data; \<open>parser.ParseFile\<close> and the parsing of build
  constraints are parameters.
\<close>

section \<open>Syntax trees\<close>

record token_pos =
  at_Offset :: nat
  at_Line :: nat
  at_Column :: nat

record ident =
  idn_Name :: string
  idn_Pos :: token_pos

datatype ast_node =
    IdentNode ident
  | SelectorNode token_pos ast_node ident
  | CallNode token_pos ast_node "ast_node list"
  | FuncDeclNode token_pos nat "ast_node list option" ident "ast_node list"
  | FieldNode token_pos "ident list" "ast_node option" "ast_node list"
  | TypeSpecNode token_pos ident "ast_node list"
  | ValueSpecNode token_pos "ident list" "ast_node list"
  | ImportSpecNode token_pos "ident option"
  | AssignNode token_pos bool "ast_node list" "ast_node list"
  | StarNode token_pos ast_node
  | OtherNode token_pos "ast_node list"

text \<open>An import with its unquoted path, \<open>None\<close> when the literal cannot be unquoted.\<close>

record import_spec =
  isp_Path :: "string option"
  isp_Name :: "string option"
  isp_Pos :: token_pos

record go_file =
  gf_Package :: nat
  gf_Name :: ident
  gf_Imports :: "import_spec list"
  gf_Comments :: "(nat \<times> string list) list"
  gf_Decls :: "ast_node list"

fun node_pos :: "ast_node \<Rightarrow> token_pos" where
  "node_pos (IdentNode i) = idn_Pos i"
| "node_pos (SelectorNode p x s) = p"
| "node_pos (CallNode p f as) = p"
| "node_pos (FuncDeclNode p e r n cs) = p"
| "node_pos (FieldNode p ns t cs) = p"
| "node_pos (TypeSpecNode p n cs) = p"
| "node_pos (ValueSpecNode p ns cs) = p"
| "node_pos (ImportSpecNode p n) = p"
| "node_pos (AssignNode p d ls rs) = p"
| "node_pos (StarNode p x) = p"
| "node_pos (OtherNode p cs) = p"

text \<open>All nodes of a tree in the order of \<open>ast.Inspect\<close> with a visitor that always goes on.\<close>

fun nodes :: "ast_node \<Rightarrow> ast_node list" where
  "nodes (IdentNode i) = [IdentNode i]"
| "nodes (SelectorNode p x s) = SelectorNode p x s # nodes x @ [IdentNode s]"
| "nodes (CallNode p f as) = CallNode p f as # nodes f @ concat (map nodes as)"
| "nodes (FuncDeclNode p e r n cs) =
     FuncDeclNode p e r n cs # concat (map nodes (case r of None \<Rightarrow> [] | Some fs \<Rightarrow> fs)) @ IdentNode n # concat (map nodes cs)"
| "nodes (FieldNode p ns t cs) =
     FieldNode p ns t cs # map IdentNode ns @ concat (map nodes (case t of None \<Rightarrow> [] | Some x \<Rightarrow> [x])) @ concat (map nodes cs)"
| "nodes (TypeSpecNode p n cs) = TypeSpecNode p n cs # IdentNode n # concat (map nodes cs)"
| "nodes (ValueSpecNode p ns cs) = ValueSpecNode p ns cs # map IdentNode ns @ concat (map nodes cs)"
| "nodes (ImportSpecNode p n) = ImportSpecNode p n # (case n of None \<Rightarrow> [] | Some i \<Rightarrow> [IdentNode i])"
| "nodes (AssignNode p d ls rs) = AssignNode p d ls rs # concat (map nodes ls) @ concat (map nodes rs)"
| "nodes (StarNode p x) = StarNode p x # nodes x"
| "nodes (OtherNode p cs) = OtherNode p cs # concat (map nodes cs)"

definition file_nodes :: "go_file \<Rightarrow> ast_node list" where
  "file_nodes f = IdentNode (gf_Name f) # concat (map nodes (gf_Decls f))"

section \<open>Imports and build constraints\<close>

datatype build_expr = TagExpr string | NotExpr build_expr | AndExpr build_expr build_expr | OrExpr build_expr build_expr

text \<open>What \<open>constraint.IsGoBuild\<close>, \<open>IsPlusBuild\<close> and \<open>Parse\<close> make of a comment.\<close>

datatype build_line = GoBuild "build_expr result" | PlusBuild "build_expr result" | NoBuild

fun requiresBuildTag :: "build_expr \<Rightarrow> string \<Rightarrow> bool" where
  "requiresBuildTag (TagExpr t) tag \<longleftrightarrow> t = tag"
| "requiresBuildTag (NotExpr (NotExpr e)) tag \<longleftrightarrow> requiresBuildTag e tag"
| "requiresBuildTag (NotExpr e) tag \<longleftrightarrow> False"
| "requiresBuildTag (AndExpr a b) tag \<longleftrightarrow> requiresBuildTag a tag \<or> requiresBuildTag b tag"
| "requiresBuildTag (OrExpr a b) tag \<longleftrightarrow> requiresBuildTag a tag \<and> requiresBuildTag b tag"

text \<open>The comments before the package clause, in order.\<close>

definition header_comments :: "go_file \<Rightarrow> string list" where
  "header_comments f = concat (map snd (filter (\<lambda>(pos, cs). pos < gf_Package f) (gf_Comments f)))"

fun build_lines :: "(string \<Rightarrow> build_line) \<Rightarrow> string list \<Rightarrow> build_expr option \<Rightarrow> build_expr option \<Rightarrow> (build_expr option \<times> build_expr option) result" where
  "build_lines parse [] g p = Inr (g, p)"
| "build_lines parse (c # cs) g p =
     (case parse c of
        GoBuild (Inl e) \<Rightarrow> Inl e
      | GoBuild (Inr x) \<Rightarrow> build_lines parse cs (Some x) p
      | PlusBuild (Inl e) \<Rightarrow> Inl e
      | PlusBuild (Inr x) \<Rightarrow> build_lines parse cs g (Some (case p of None \<Rightarrow> x | Some y \<Rightarrow> AndExpr y x))
      | NoBuild \<Rightarrow> build_lines parse cs g p)"

definition buildConstraint :: "(string \<Rightarrow> build_line) \<Rightarrow> go_file \<Rightarrow> build_expr option result" where
  "buildConstraint parse f =
     (case build_lines parse (header_comments f) None None of
        Inl e \<Rightarrow> Inl e
      | Inr (g, p) \<Rightarrow> Inr (case g of None \<Rightarrow> p | Some x \<Rightarrow> Some x))"

definition isSimFixture :: "(string \<Rightarrow> build_line) \<Rightarrow> string \<Rightarrow> go_file \<Rightarrow> bool result" where
  "isSimFixture parse path f =
     (if \<not> has_prefix ''sim/'' path then Inr False
      else case buildConstraint parse f of
             Inl e \<Rightarrow> Inl e
           | Inr None \<Rightarrow> Inr False
           | Inr (Some x) \<Rightarrow> Inr (requiresBuildTag x ''sim''))"

abbreviation singleflightPath :: string where "singleflightPath \<equiv> ''golang.org/x/sync/singleflight''"

definition time_aliases :: "go_file \<Rightarrow> string list" where
  "time_aliases f =
     concat (map (\<lambda>i. if isp_Path i = Some ''time''
                      then (case isp_Name i of None \<Rightarrow> [''time''] | Some n \<Rightarrow> if n = ''.'' \<or> n = ''_'' then [] else [n])
                      else []) (gf_Imports f))"

definition dot_time_import :: "go_file \<Rightarrow> bool" where
  "dot_time_import f = list_ex (\<lambda>i. isp_Path i = Some ''time'' \<and> isp_Name i = Some ''.'') (gf_Imports f)"

section \<open>The rules\<close>

record violation =
  vi_Path :: string
  vi_Line :: nat
  vi_Column :: nat
  vi_Message :: string

definition forbiddenTimeFunctions :: "(string \<times> string) list" where
  "forbiddenTimeFunctions =
     [(''After'', ''time.After''), (''NewTicker'', ''time.NewTicker''), (''NewTimer'', ''time.NewTimer''), (''Now'', ''time.Now''),
      (''Since'', ''time.Since''), (''Tick'', ''time.Tick''), (''Until'', ''time.Until'')]"

definition skippedTestFunctions :: "string list" where
  "skippedTestFunctions = [''Skip'', ''SkipNow'', ''Skipf'']"

definition timeViolationMessage :: "string \<Rightarrow> bool \<Rightarrow> string" where
  "timeViolationMessage displayName isTestFile =
     (if displayName = ''time.Sleep'' \<and> isTestFile
      then ''test time.Sleep violates the deterministic-test rule; use a channel or testing/synctest instead''
      else ''direct '' @ displayName @ '' violates the injected Clock rule; use Clock.Now or Clock.NewTicker instead'')"

record functionRange =
  fr_start :: nat
  fr_end :: nat
  fr_name :: string
  fr_recv :: string

fun receiver_type :: "ast_node \<Rightarrow> string" where
  "receiver_type (FieldNode p ns (Some (IdentNode i)) cs) = idn_Name i"
| "receiver_type (FieldNode p ns (Some (StarNode q (IdentNode i))) cs) = idn_Name i"
| "receiver_type _ = []"

definition receiverName :: "ast_node list option \<Rightarrow> string" where
  "receiverName recv = (case recv of Some [r] \<Rightarrow> receiver_type r | _ \<Rightarrow> [])"

fun functionRanges :: "ast_node list \<Rightarrow> functionRange list" where
  "functionRanges [] = []"
| "functionRanges (FuncDeclNode p e r n cs # ds) =
     \<lparr>fr_start = at_Offset p, fr_end = e, fr_name = idn_Name n, fr_recv = receiverName r\<rparr> # functionRanges ds"
| "functionRanges (d # ds) = functionRanges ds"

definition allowedRealClockCall :: "string \<Rightarrow> go_file \<Rightarrow> token_pos \<Rightarrow> string \<Rightarrow> bool" where
  "allowedRealClockCall path f pos functionName \<longleftrightarrow>
     path = ''clock/clock.go'' \<and> idn_Name (gf_Name f) = ''clock'' \<and>
     list_ex (\<lambda>r. fr_start r \<le> at_Offset pos \<and> at_Offset pos \<le> fr_end r \<and> fr_name r = functionName \<and> fr_recv r = ''Real'')
       (functionRanges (gf_Decls f)) \<and>
     functionName \<in> {''Now'', ''NewTicker''}"

text \<open>\<open>filepath.Base\<close>.\<close>

definition filepath_Base :: "string \<Rightarrow> string" where
  "filepath_Base path =
     (if path = [] then ''.''
      else let trimmed = rev (dropWhile (\<lambda>c. c = CHR ''/'') (rev path));
               base = rev (takeWhile (\<lambda>c. c \<noteq> CHR ''/'') (rev trimmed))
           in if base = [] then ''/'' else base)"

definition is_test_file :: "string \<Rightarrow> bool" where
  "is_test_file path = has_suffix ''_test.go'' (filepath_Base path)"

definition violation_at :: "string \<Rightarrow> token_pos \<Rightarrow> string \<Rightarrow> violation" where
  "violation_at path pos message = \<lparr>vi_Path = path, vi_Line = at_Line pos, vi_Column = at_Column pos, vi_Message = message\<rparr>"

text \<open>The check of one use of a name of package \<open>time\<close>, the same for selectors and for dot imports.\<close>

definition check_use :: "string \<Rightarrow> go_file \<Rightarrow> bool \<Rightarrow> token_pos \<Rightarrow> string \<Rightarrow> violation list" where
  "check_use path f simFixture pos functionName =
     (if functionName = ''Sleep''
      then (if \<not> simFixture \<or> is_test_file path then [violation_at path pos (timeViolationMessage ''time.Sleep'' (is_test_file path))] else [])
      else if is_test_file path then []
      else case gm_get forbiddenTimeFunctions functionName of
             None \<Rightarrow> []
           | Some displayName \<Rightarrow>
               if allowedRealClockCall path f pos functionName then []
               else [violation_at path pos (timeViolationMessage displayName False)])"

fun check_selector :: "string \<Rightarrow> go_file \<Rightarrow> bool \<Rightarrow> ast_node \<Rightarrow> violation list" where
  "check_selector path f simFixture (SelectorNode p (IdentNode i) s) =
     (if idn_Name i \<in> set (time_aliases f) then check_use path f simFixture p (idn_Name s) else [])"
| "check_selector path f simFixture _ = []"

text \<open>
  The identifiers \<open>walkDotTimeUses\<close> visits: an identifier is a use unless \<open>isDotTimeUse\<close> finds it to be a part of a
  selector, the name of a function, type, value, field or import, or the left side of a definition.
\<close>

definition not_ident :: "ast_node \<Rightarrow> bool" where
  "not_ident n = (case n of IdentNode _ \<Rightarrow> False | _ \<Rightarrow> True)"

fun dot_uses :: "ast_node \<Rightarrow> ident list" where
  "dot_uses (IdentNode i) = [i]"
| "dot_uses (SelectorNode p x s) = (if not_ident x then dot_uses x else [])"
| "dot_uses (CallNode p f as) = dot_uses f @ concat (map dot_uses as)"
| "dot_uses (FuncDeclNode p e r n cs) = concat (map dot_uses (case r of None \<Rightarrow> [] | Some fs \<Rightarrow> fs)) @ concat (map dot_uses cs)"
| "dot_uses (FieldNode p ns t cs) = concat (map dot_uses (case t of None \<Rightarrow> [] | Some x \<Rightarrow> [x])) @ concat (map dot_uses cs)"
| "dot_uses (TypeSpecNode p n cs) = concat (map dot_uses cs)"
| "dot_uses (ValueSpecNode p ns cs) = concat (map dot_uses cs)"
| "dot_uses (ImportSpecNode p n) = []"
| "dot_uses (AssignNode p define ls rs) =
     concat (map (\<lambda>l. if define \<and> \<not> not_ident l then [] else dot_uses l) ls) @ concat (map dot_uses rs)"
| "dot_uses (StarNode p x) = dot_uses x"
| "dot_uses (OtherNode p cs) = concat (map dot_uses cs)"

definition walkDotTimeUses :: "go_file \<Rightarrow> ident list" where
  "walkDotTimeUses f = gf_Name f # concat (map dot_uses (gf_Decls f))"

definition skipMessage :: string where
  "skipMessage = ''t.Skip* violates the deterministic-test rule; make the test deterministic or fail explicitly''"

fun check_skip :: "string \<Rightarrow> ast_node \<Rightarrow> violation list" where
  "check_skip path (CallNode p (SelectorNode q x s) as) =
     (if idn_Name s \<in> set skippedTestFunctions then [violation_at path q skipMessage] else [])"
| "check_skip path _ = []"

definition singleflightMessage :: string where
  "singleflightMessage = ''importing golang.org/x/sync/singleflight violates the channel-wait rule; use channel-owned state instead''"

definition inspectFile :: "(string \<Rightarrow> build_line) \<Rightarrow> string \<Rightarrow> go_file \<Rightarrow> violation list result" where
  "inspectFile parse path f =
     (case isSimFixture parse path f of
        Inl e \<Rightarrow> Inl (Wrap (''parse build constraint in '' @ path @ '': '' @ error_text e) e)
      | Inr simFixture \<Rightarrow>
          Inr (map (\<lambda>i. violation_at path (isp_Pos i) singleflightMessage)
                 (filter (\<lambda>i. isp_Path i = Some singleflightPath) (gf_Imports f)) @
               concat (map (check_selector path f simFixture) (file_nodes f)) @
               (if dot_time_import f
                then concat (map (\<lambda>i. check_use path f simFixture (idn_Pos i) (idn_Name i)) (walkDotTimeUses f)) else []) @
               (if is_test_file path then concat (map (check_skip path) (file_nodes f)) else [])))"

section \<open>The whole tree\<close>

text \<open>A directory with its entries, a file, or an entry that \<open>WalkDir\<close> reports an error for.\<close>

datatype dir_tree = DirTree string "dir_tree list" | FileTree string | BadTree go_error

definition join_path :: "string \<Rightarrow> string \<Rightarrow> string" where
  "join_path dir name = (if dir = ''/'' then ''/'' @ name else dir @ ''/'' @ name)"

definition skipped_dir :: "string \<Rightarrow> bool" where
  "skipped_dir name \<longleftrightarrow> name = ''.git'' \<or> name = ''vendor''"

fun walk_entry :: "string \<Rightarrow> dir_tree \<Rightarrow> string list result" and walk_entries :: "string \<Rightarrow> dir_tree list \<Rightarrow> string list result" where
  "walk_entry dir (BadTree e) = Inl e"
| "walk_entry dir (FileTree name) = Inr (if has_suffix ''.go'' name then [join_path dir name] else [])"
| "walk_entry dir (DirTree name ts) = (if skipped_dir name then Inr [] else walk_entries (join_path dir name) ts)"
| "walk_entries dir [] = Inr []"
| "walk_entries dir (t # ts) =
     (case walk_entry dir t of
        Inl e \<Rightarrow> Inl e
      | Inr ps \<Rightarrow> (case walk_entries dir ts of Inl e \<Rightarrow> Inl e | Inr qs \<Rightarrow> Inr (ps @ qs)))"

text \<open>\<open>filepath.Rel\<close> of a path below the root.\<close>

definition rel_path :: "string \<Rightarrow> string \<Rightarrow> string" where
  "rel_path root path = (if root = ''/'' then drop 1 path else drop (Suc (length root)) path)"

fun check_files ::
    "(string \<Rightarrow> build_line) \<Rightarrow> (string \<Rightarrow> go_file result) \<Rightarrow> string \<Rightarrow> string list \<Rightarrow> violation list result" where
  "check_files parse ParseFile root [] = Inr []"
| "check_files parse ParseFile root (p # ps) =
     (case ParseFile p of
        Inl e \<Rightarrow> Inl (Wrap (''parse '' @ p @ '': '' @ error_text e) e)
      | Inr f \<Rightarrow>
          (case inspectFile parse (rel_path root p) f of
             Inl e \<Rightarrow> Inl e
           | Inr vs \<Rightarrow> (case check_files parse ParseFile root ps of Inl e \<Rightarrow> Inl e | Inr ws \<Rightarrow> Inr (vs @ ws))))"

definition violation_key :: "violation \<Rightarrow> string \<times> nat \<times> nat \<times> string" where
  "violation_key v = (vi_Path v, vi_Line v, vi_Column v, vi_Message v)"

text \<open>\<open>resolved\<close> is \<open>filepath.Abs root\<close> and \<open>entries\<close> the content of that directory.\<close>

definition Check ::
    "(string \<Rightarrow> build_line) \<Rightarrow> (string \<Rightarrow> go_file result) \<Rightarrow> string \<Rightarrow> string result \<Rightarrow> dir_tree list \<Rightarrow> violation list result" where
  "Check parse ParseFile root resolved entries =
     (case resolved of
        Inl e \<Rightarrow> Inl (Wrap (''resolve root: '' @ error_text e) e)
      | Inr absRoot \<Rightarrow>
          (case walk_entries absRoot entries of
             Inl e \<Rightarrow> Inl (Wrap (''walk '' @ root @ '': '' @ error_text e) e)
           | Inr paths \<Rightarrow>
               (case check_files parse ParseFile absRoot (sort paths) of
                  Inl e \<Rightarrow> Inl e
                | Inr vs \<Rightarrow> Inr (sort_key violation_key vs))))"

definition violation_String :: "violation \<Rightarrow> string" where
  "violation_String v = vi_Path v @ '':'' @ itoa (vi_Line v) @ '':'' @ itoa (vi_Column v) @ '': '' @ vi_Message v"

text \<open>What \<open>main\<close> prints on the two outputs, and its exit code.\<close>

definition check_main :: "string list \<Rightarrow> (string \<Rightarrow> violation list result) \<Rightarrow> string list \<times> string list \<times> nat" where
  "check_main args check =
     (if 2 < length args then ([], [''usage: constraintcheck [root]''], 2)
      else case check (if length args = 2 then args ! 1 else ''.'') of
             Inl e \<Rightarrow> ([], [''constraintcheck: '' @ error_text e], 2)
           | Inr vs \<Rightarrow> (map violation_String vs, [], if vs = [] then 0 else 1))"

section \<open>Simulation fixtures\<close>

text \<open>The meaning of a build constraint under an assignment of tags.\<close>

fun build_eval :: "(string \<Rightarrow> bool) \<Rightarrow> build_expr \<Rightarrow> bool" where
  "build_eval ok (TagExpr t) = ok t"
| "build_eval ok (NotExpr e) = (\<not> build_eval ok e)"
| "build_eval ok (AndExpr a b) = (build_eval ok a \<and> build_eval ok b)"
| "build_eval ok (OrExpr a b) = (build_eval ok a \<or> build_eval ok b)"

lemma requiresBuildTag_sound: "requiresBuildTag e tag \<Longrightarrow> build_eval ok e \<Longrightarrow> ok tag"
  by (induction e tag rule: requiresBuildTag.induct) auto

text \<open>
  A file counts as a simulation fixture, in which \<open>time.Sleep\<close> is permitted, only when it lies under \<open>sim/\<close> and its build
  constraint cannot hold without the tag \<open>sim\<close>, so it is part of no default build.
\<close>

theorem sim_fixture_needs_tag:
  assumes "isSimFixture parse path f = Inr True"
  shows "has_prefix ''sim/'' path \<and> (\<exists>e. buildConstraint parse f = Inr (Some e) \<and> (\<forall>ok. build_eval ok e \<longrightarrow> ok ''sim''))"
  using assms requiresBuildTag_sound by (fastforce simp: isSimFixture_def split: if_splits sum.splits option.splits)

section \<open>Every use is found\<close>

lemma file_checked:
  assumes "check_files parse ParseFile root ps = Inr vs" and "p \<in> set ps"
  shows "\<exists>f ws. ParseFile p = Inr f \<and> inspectFile parse (rel_path root p) f = Inr ws \<and> set ws \<subseteq> set vs"
  using assms by (induction ps arbitrary: vs) (fastforce split: sum.splits)+

lemma inspected_selector:
  assumes "inspectFile parse path f = Inr ws" and "isSimFixture parse path f = Inr sim" and "n \<in> set (file_nodes f)"
  shows "set (check_selector path f sim n) \<subseteq> set ws"
  using assms by (auto simp: inspectFile_def simp del: check_selector.simps)

text \<open>The source files of a tree, apart from Git metadata and vendored source.\<close>

inductive source_file :: "string \<Rightarrow> dir_tree list \<Rightarrow> string \<Rightarrow> bool" where
  "FileTree name \<in> set ts \<Longrightarrow> has_suffix ''.go'' name \<Longrightarrow> source_file dir ts (join_path dir name)"
| "DirTree name us \<in> set ts \<Longrightarrow> \<not> skipped_dir name \<Longrightarrow> source_file (join_path dir name) us p \<Longrightarrow> source_file dir ts p"

lemma walk_entries_mem:
  assumes "walk_entries dir ts = Inr ps" and "t \<in> set ts"
  shows "\<exists>qs. walk_entry dir t = Inr qs \<and> set qs \<subseteq> set ps"
  using assms by (induction ts arbitrary: ps) (fastforce split: sum.splits)+

lemma source_file_walked: "source_file dir ts p \<Longrightarrow> walk_entries dir ts = Inr ps \<Longrightarrow> p \<in> set ps"
proof (induction arbitrary: ps rule: source_file.induct)
  case (1 name ts dir)
  then show ?case using walk_entries_mem [OF 1(3) 1(1)] by auto
next
  case (2 name us ts dir p)
  obtain qs where "walk_entry dir (DirTree name us) = Inr qs" and "set qs \<subseteq> set ps"
    using walk_entries_mem [OF 2(5) 2(1)] by blast
  with 2(2,4) show ?case by auto
qed


section \<open>Concrete files\<close>

definition at_line :: "nat \<Rightarrow> token_pos" where
  "at_line n = \<lparr>at_Offset = 10 * n, at_Line = n, at_Column = 2\<rparr>"

definition name_at :: "string \<Rightarrow> nat \<Rightarrow> ident" where
  "name_at s n = \<lparr>idn_Name = s, idn_Pos = at_line n\<rparr>"

definition demo_file :: "string \<Rightarrow> string list \<Rightarrow> ast_node list \<Rightarrow> go_file" where
  "demo_file import_path comments stmts = \<lparr>gf_Package = 2, gf_Name = name_at ''demo'' 1,
     gf_Imports = [\<lparr>isp_Path = Some import_path, isp_Name = None, isp_Pos = at_line 2\<rparr>], gf_Comments = [(1, comments)],
     gf_Decls = [FuncDeclNode (at_line 3) 90 None (name_at ''f'' 3) stmts]\<rparr>"

definition demo_parse :: "string \<Rightarrow> build_line" where
  "demo_parse c = (if c = ''//go:build sim'' then GoBuild (Inr (TagExpr ''sim'')) else NoBuild)"

text \<open>
  A test can skip without being reported: \<open>skip := t.Skip\<close> followed by \<open>skip()\<close> passes, because only calls of a selector are looked
  at, although \<open>design/constraint-checks.md\<close> says that stashing a function value cannot bypass the rules. The call \<open>t.Skip()\<close>
  is reported.
\<close>

theorem stashed_skip_not_reported:
  "inspectFile demo_parse ''a_test.go''
     (demo_file ''testing'' [] [AssignNode (at_line 4) True [IdentNode (name_at ''skip'' 4)] [SelectorNode (at_line 4) (IdentNode (name_at ''t'' 4)) (name_at ''Skip'' 4)],
                                OtherNode (at_line 5) [CallNode (at_line 5) (IdentNode (name_at ''skip'' 5)) []]]) = Inr [] \<and>
   inspectFile demo_parse ''a_test.go''
     (demo_file ''testing'' [] [OtherNode (at_line 4) [CallNode (at_line 4) (SelectorNode (at_line 4) (IdentNode (name_at ''t'' 4)) (name_at ''Skip'' 4)) []]]) =
     Inr [violation_at ''a_test.go'' (at_line 4) skipMessage]"
  by code_simp

definition sleeping :: "string list \<Rightarrow> go_file" where
  "sleeping comments = demo_file ''time'' comments [OtherNode (at_line 4) [CallNode (at_line 4) (SelectorNode (at_line 4) (IdentNode (name_at ''time'' 4)) (name_at ''Sleep'' 4)) []]]"

theorem sim_fixture_needs_tag_witness:
  "isSimFixture demo_parse ''sim/store.go'' (sleeping [''//go:build sim'']) = Inr True \<and> has_prefix ''sim/'' ''sim/store.go'' \<and>
   (\<exists>e. buildConstraint demo_parse (sleeping [''//go:build sim'']) = Inr (Some e) \<and> (\<forall>ok. build_eval ok e \<longrightarrow> ok ''sim''))"
proof -
  have "isSimFixture demo_parse ''sim/store.go'' (sleeping [''//go:build sim'']) = Inr True" by code_simp
  with sim_fixture_needs_tag [OF this] show ?thesis by blast
qed

definition demo_tree :: "dir_tree list" where
  "demo_tree = [DirTree ''vendor'' [FileTree ''x.go''], DirTree ''mail'' [FileTree ''mail.go'', FileTree ''README'']]"

lemma demo_check: "Check demo_parse (\<lambda>p. Inr (sleeping [])) ''.'' (Inr ''/src'') demo_tree =
    Inr [violation_at ''mail/mail.go'' (at_line 4) (timeViolationMessage ''time.Sleep'' False)]"
  by code_simp


end
